(* ===== verification/Prelude.thy ===== *)
theory Prelude
  imports Main "HOL-Library.Word"
begin

text \<open>
  Shared base of the development: the names of the C integer types, C strings and
  little-endian fields as byte lists, and the generic facts on lists and words that the
  component theories use.  A \<^verbatim>\<open>char *\<close> is the list of bytes it points to; a read at or
  past the end of the list is the terminating NUL, so a literal needs no explicit
  terminator and a fixed array is the list of all its bytes.
\<close>

unbundle bit_operations_syntax

type_synonym byte = "8 word"
type_synonym u16 = "16 word"
type_synonym u32 = "32 word"
type_synonym u64 = "64 word"

named_theorems geometry "layout constants of the on-disk and in-memory structures"
named_theorems cstring "facts about NUL-terminated byte strings"

section \<open>C strings\<close>

definition cat :: "byte list \<Rightarrow> nat \<Rightarrow> byte" where
  "cat s i = (if i < length s then s ! i else 0)"

definition cstr :: "byte list \<Rightarrow> byte list" where
  "cstr s = takeWhile (\<lambda>c. c \<noteq> 0) s"

definition str :: "string \<Rightarrow> byte list" where
  "str s = map of_char s"

lemma cat_Nil [simp]: "cat [] i = 0"
  by (simp add: cat_def)

lemma cat_Cons_0 [simp]: "cat (c # s) 0 = c"
  by (simp add: cat_def)

lemma cat_Cons_Suc [simp]: "cat (c # s) (Suc i) = cat s i"
  by (simp add: cat_def)

lemma cat_nth: "i < length s \<Longrightarrow> cat s i = s ! i"
  by (simp add: cat_def)

lemma cat_beyond: "length s \<le> i \<Longrightarrow> cat s i = 0"
  by (simp add: cat_def)

lemma cstr_Nil [simp]: "cstr [] = []"
  by (simp add: cstr_def)

lemma cstr_Cons [simp]: "cstr (c # s) = (if c = 0 then [] else c # cstr s)"
  by (simp add: cstr_def)

lemma zero_notin_cstr [simp, cstring]: "0 \<notin> set (cstr s)"
  by (induction s) auto

lemma cstr_cstr [simp]: "cstr (cstr s) = cstr s"
  by (induction s) auto

lemma cstr_id [cstring]: "0 \<notin> set s \<Longrightarrow> cstr s = s"
  by (induction s) auto

lemma length_cstr [cstring]: "length (cstr s) \<le> length s"
  by (simp add: cstr_def length_takeWhile_le)

lemma cat_cstr_less [cstring]: "i < length (cstr s) \<Longrightarrow> cat (cstr s) i = cat s i"
  by (induction s arbitrary: i) (auto simp: less_Suc_eq_0_disj split: if_splits)

lemma cat_cstr_length [cstring]: "cat s (length (cstr s)) = 0"
  by (induction s) auto

lemma cat_less_cstr_nonzero [cstring]: "i < length (cstr s) \<Longrightarrow> cat s i \<noteq> 0"
  by (induction s arbitrary: i) (auto simp: less_Suc_eq_0_disj split: if_splits)

lemma cat_drop [simp]: "cat (drop n s) i = cat s (n + i)"
  by (auto simp: cat_def)

lemma cstr_eq_Nil_iff: "cstr s = [] \<longleftrightarrow> cat s 0 = 0"
  by (cases s) auto

lemma cstr_append_zero: "0 \<notin> set s \<Longrightarrow> cstr (s @ 0 # t) = s"
  by (induction s) auto

lemma cstr_append: "0 \<notin> set s \<Longrightarrow> cstr (s @ t) = s @ cstr t"
  by (induction s) auto

text \<open>
  The comparison loop \<^verbatim>\<open>while (*a && *b && *a == *b) { ++a; ++b; } return *a == *b;\<close>
  that the kernel and the session each spell out (\<open>text_equal\<close>, \<open>same\<close>, \<open>equal\<close>),
  and the prefix test \<^verbatim>\<open>while (*b && *a == *b) { ++a; ++b; } return *b == 0;\<close>.
\<close>

fun text_equal :: "byte list \<Rightarrow> byte list \<Rightarrow> bool" where
  "text_equal (a # as) (b # bs) =
     (if a \<noteq> 0 \<and> b \<noteq> 0 \<and> a = b then text_equal as bs else a = b)"
| "text_equal [] (b # bs) = (0 = b)"
| "text_equal (a # as) [] = (a = 0)"
| "text_equal [] [] = True"

fun starts_with :: "byte list \<Rightarrow> byte list \<Rightarrow> bool" where
  "starts_with (a # as) (b # bs) =
     (if b \<noteq> 0 \<and> a = b then starts_with as bs else b = 0)"
| "starts_with [] (b # bs) = (b = 0)"
| "starts_with as [] = True"

lemma text_equal_iff [simp]: "text_equal a b \<longleftrightarrow> cstr a = cstr b"
  by (induction a b rule: text_equal.induct) auto

lemma starts_with_iff: "starts_with a b \<longleftrightarrow> (\<exists>r. cstr a = cstr b @ r)"
  by (induction a b rule: starts_with.induct) auto

section \<open>Little-endian fields\<close>

lemma unat_less_pow: "unat (a :: 'a::len word) < 2 ^ LENGTH('a)"
  by (rule unsigned_less)

primrec le_decode :: "byte list \<Rightarrow> nat" where
  "le_decode [] = 0"
| "le_decode (b # bs) = unat b + 256 * le_decode bs"

primrec le_encode :: "nat \<Rightarrow> nat \<Rightarrow> byte list" where
  "le_encode 0 n = []"
| "le_encode (Suc k) n = of_nat n # le_encode k (n div 256)"

definition field :: "byte list \<Rightarrow> nat \<Rightarrow> nat \<Rightarrow> byte list" where
  "field bs off len = take len (drop off bs)"

definition u16_at :: "byte list \<Rightarrow> nat \<Rightarrow> u16" where
  "u16_at bs off = of_nat (le_decode (field bs off 2))"

definition u32_at :: "byte list \<Rightarrow> nat \<Rightarrow> u32" where
  "u32_at bs off = of_nat (le_decode (field bs off 4))"

definition u64_at :: "byte list \<Rightarrow> nat \<Rightarrow> u64" where
  "u64_at bs off = of_nat (le_decode (field bs off 8))"

definition le16 :: "u16 \<Rightarrow> byte list" where "le16 w = le_encode 2 (unat w)"
definition le32 :: "u32 \<Rightarrow> byte list" where "le32 w = le_encode 4 (unat w)"
definition le64 :: "u64 \<Rightarrow> byte list" where "le64 w = le_encode 8 (unat w)"

lemma length_le_encode [simp]: "length (le_encode k n) = k"
  by (induction k arbitrary: n) auto

lemma length_le16 [simp]: "length (le16 w) = 2" by (simp add: le16_def)
lemma length_le32 [simp]: "length (le32 w) = 4" by (simp add: le32_def)
lemma length_le64 [simp]: "length (le64 w) = 8" by (simp add: le64_def)

lemma le_decode_encode: "le_decode (le_encode k n) = n mod 256 ^ k"
proof (induction k arbitrary: n)
  case 0
  then show ?case by simp
next
  case (Suc k)
  have "n mod 256 ^ Suc k = n mod 256 + 256 * (n div 256 mod 256 ^ k)"
    using mod_mult2_eq [of n 256 "256 ^ k"] by (simp add: ac_simps)
  with Suc show ?case by (simp add: unat_of_nat)
qed

lemma le_decode_bound: "le_decode bs < 256 ^ length bs"
proof (induction bs)
  case Nil
  then show ?case by simp
next
  case (Cons b bs)
  have "unat b < 256" using unat_less_pow [of b] by simp
  with Cons show ?case by simp
qed

lemma le16_roundtrip [simp]: "of_nat (le_decode (le16 w)) = w"
  using unat_less_pow [of w] by (simp add: le16_def le_decode_encode)

lemma le32_roundtrip [simp]: "of_nat (le_decode (le32 w)) = w"
  using unat_less_pow [of w] by (simp add: le32_def le_decode_encode)

lemma le64_roundtrip [simp]: "of_nat (le_decode (le64 w)) = w"
  using unat_less_pow [of w] by (simp add: le64_def le_decode_encode)

lemma length_field: "off + len \<le> length bs \<Longrightarrow> length (field bs off len) = len"
  by (simp add: field_def)

lemma field_append1: "off + len \<le> length xs \<Longrightarrow> field (xs @ ys) off len = field xs off len"
  by (simp add: field_def)

lemma field_append2: "length xs \<le> off \<Longrightarrow> field (xs @ ys) off len = field ys (off - length xs) len"
  by (simp add: field_def)

lemma field_exact: "length xs = len \<Longrightarrow> field (xs @ ys) 0 len = xs"
  by (simp add: field_def)

lemma field_whole: "length xs = len \<Longrightarrow> field xs 0 len = xs"
  by (simp add: field_def)

lemma field_Cons: "0 < off \<Longrightarrow> field (x # xs) off len = field xs (off - 1) len"
  by (cases off) (simp_all add: field_def)

lemma le_decode_zeros [simp]: "le_decode (replicate n 0) = 0"
  by (induction n) simp_all

lemma field_zeros: "field (replicate n 0) off len = replicate (min len (n - off)) 0"
  by (simp add: field_def)

lemma length_str [simp]: "length (str t) = length t"
  by (simp add: str_def)

lemmas field_layout = field_append1 field_append2 field_exact field_whole

section \<open>Words\<close>

lemma unat_ucast_up:
  "LENGTH('a) \<le> LENGTH('b) \<Longrightarrow> unat (ucast (a :: 'a::len word) :: 'b::len word) = unat a"
proof -
  assume "LENGTH('a) \<le> LENGTH('b)"
  then have "unat a < 2 ^ LENGTH('b)"
    using less_le_trans [OF unat_less_pow [of a] power_increasing] by simp
  then show ?thesis by (simp add: unsigned_ucast_eq take_bit_nat_eq_self_iff)
qed

lemma word_succ:
  assumes "(w :: 'a::len word) \<noteq> - 1"
  shows "w + 1 \<noteq> 0" "unat (w + 1) = Suc (unat w)" "w < w + 1"
proof -
  show nz: "w + 1 \<noteq> 0" using assms eq_neg_iff_add_eq_0 by blast
  then show *: "unat (w + 1) = Suc (unat w)" using unatSuc [of w] by (simp add: add.commute)
  then show "w < w + 1" by (simp add: word_less_nat_alt)
qed

lemma u32_u64_u32: "ucast (ucast (n :: u32) :: u64) = n"
  by (rule bit_word_eqI) (auto simp: bit_simps)

lemma of_nat_unat_le: "unat (a :: 'a::len word) \<le> n \<Longrightarrow> n < 2 ^ LENGTH('a) \<Longrightarrow> a \<le> of_nat n"
  by (simp add: word_le_nat_alt unat_of_nat)

end
