(* ===== verification/Crc32.thy ===== *)
theory Crc32
  imports Prelude
begin

text \<open>
  The bitwise CRC-32 (reflected polynomial \<^verbatim>\<open>0xedb88320\<close>) that guards the account
  records and the QFS superblocks.  The same two loops occur in \<^verbatim>\<open>kernel/core/qfs2.c\<close>,
  \<^verbatim>\<open>kernel/core/qfs.c\<close> and \<^verbatim>\<open>kernel/core/account.c\<close>.  The lemmas show that one
  round is a bijection of the register, hence that damage confined to a single byte
  always changes the checksum.
\<close>

definition crc_bit :: "u32 \<Rightarrow> u32" where
  "crc_bit crc = drop_bit 1 crc XOR (0xedb88320 AND (0 - (crc AND 1)))"

definition crc_byte :: "u32 \<Rightarrow> byte \<Rightarrow> u32" where
  "crc_byte crc b = (crc_bit ^^ 8) (crc XOR ucast b)"

definition crc32 :: "byte list \<Rightarrow> u32" where
  "crc32 data = NOT (foldl crc_byte 0xffffffff data)"

lemma minus_and_1: "0 - (c AND 1) = (if bit c 0 then - 1 else (0 :: u32))"
  by (simp add: and_one_eq bit_0 odd_iff_mod_2_eq_one)

lemma crc_bit_if: "crc_bit c = (if bit c 0 then drop_bit 1 c XOR 0xedb88320 else drop_bit 1 c)"
  using minus_and_1 [of c] by (simp add: crc_bit_def)

lemma top_bit_crc_bit: "bit (crc_bit c) 31 = bit c 0"
proof -
  have "bit (0xedb88320 :: u32) 31" by simp
  moreover have "\<not> bit (drop_bit 1 c) 31"
    by (simp add: bit_drop_bit_eq) (use bit_imp_le_length [of c 32] in auto)
  ultimately show ?thesis by (simp add: crc_bit_if bit_xor_iff)
qed

lemma drop_bit_1_inject:
  assumes "drop_bit 1 a = drop_bit 1 (b :: u32)" and "bit a 0 = bit b 0"
  shows "a = b"
proof (rule bit_word_eqI)
  fix n assume "n < LENGTH(32)"
  show "bit a n = bit b n"
  proof (cases n)
    case 0
    with assms(2) show ?thesis by simp
  next
    case (Suc k)
    have "bit (drop_bit 1 a) k = bit (drop_bit 1 b) k" using assms(1) by simp
    with Suc show ?thesis by (simp add: bit_drop_bit_eq)
  qed
qed

lemma crc_bit_inject: "crc_bit a = crc_bit b \<Longrightarrow> a = b"
proof -
  assume eq: "crc_bit a = crc_bit b"
  then have low: "bit a 0 = bit b 0" by (metis top_bit_crc_bit)
  have "drop_bit 1 a = drop_bit 1 b"
  proof (cases "bit a 0")
    case True
    with eq low have "drop_bit 1 a XOR 0xedb88320 = drop_bit 1 b XOR 0xedb88320"
      by (simp add: crc_bit_if)
    then have "(drop_bit 1 a XOR 0xedb88320) XOR 0xedb88320
             = (drop_bit 1 b XOR 0xedb88320) XOR (0xedb88320 :: u32)" by (rule arg_cong)
    then show ?thesis by (simp add: xor.assoc)
  next
    case False
    with eq low show ?thesis by (simp add: crc_bit_if)
  qed
  then show "a = b" using low by (rule drop_bit_1_inject)
qed

lemma crc_bit_pow_inject: "(crc_bit ^^ n) a = (crc_bit ^^ n) b \<Longrightarrow> a = b"
  by (induction n) (auto dest: crc_bit_inject)

lemma xor_cancel_right: "a XOR c = b XOR (c :: 'a::len word) \<longleftrightarrow> a = b"
proof
  assume "a XOR c = b XOR c"
  then have "(a XOR c) XOR c = (b XOR c) XOR c" by (rule arg_cong)
  then show "a = b" by (simp add: xor.assoc)
qed simp

lemma xor_cancel_left: "c XOR a = c XOR (b :: 'a::len word) \<longleftrightarrow> a = b"
  by (simp add: xor.commute [of c] xor_cancel_right)

lemma crc_byte_inject_crc: "crc_byte x b = crc_byte y b \<longleftrightarrow> x = y"
  by (auto simp: crc_byte_def xor_cancel_right dest!: crc_bit_pow_inject)

lemma ucast_byte_inject: "(ucast (a :: byte) :: u32) = ucast b \<longleftrightarrow> a = b"
proof
  assume "(ucast a :: u32) = ucast b"
  then have "unat (ucast a :: u32) = unat (ucast b :: u32)" by simp
  then show "a = b" by (simp add: unat_ucast_up unsigned_word_eqI)
qed simp

lemma crc_byte_inject_byte: "crc_byte x a = crc_byte x b \<longleftrightarrow> a = b"
proof
  assume "crc_byte x a = crc_byte x b"
  then have "x XOR ucast a = x XOR (ucast b :: u32)"
    unfolding crc_byte_def by (rule crc_bit_pow_inject)
  then show "a = b" by (simp add: xor_cancel_left ucast_byte_inject)
qed simp

lemma foldl_crc_inject: "foldl crc_byte x d = foldl crc_byte y d \<longleftrightarrow> x = y"
  by (induction d arbitrary: x y) (auto simp: crc_byte_inject_crc)

lemma crc32_single_byte:
  "crc32 (pre @ a # post) = crc32 (pre @ b # post) \<longleftrightarrow> a = b"
  by (simp add: crc32_def bit.compl_eq_compl_iff foldl_crc_inject crc_byte_inject_byte)

text \<open>The published check value of this CRC, over the ASCII digits 1 to 9.\<close>

lemma crc_bit_8:
  "(crc_bit ^^ 8) c =
     crc_bit (crc_bit (crc_bit (crc_bit (crc_bit (crc_bit (crc_bit (crc_bit c)))))))"
  by (simp add: numeral_eq_Suc)

lemma crc32_check_value: "crc32 (str ''123456789'') = 0xcbf43926"
  by (simp add: str_def crc32_def crc_byte_def crc_bit_8 crc_bit_def)

section \<open>Property\<close>

text \<open>Changing one byte of a message changes its CRC-32, whatever surrounds the byte.\<close>

theorem crc32_detects_changed_byte:
  "crc32 (pre @ a # post) = crc32 (pre @ b # post) \<longleftrightarrow> a = b"
  by (rule crc32_single_byte)

end
