(* ===== verification/Elf.thy ===== *)
theory Elf
  imports Prelude
begin

text \<open>
  The ELF64 image check of \<^verbatim>\<open>kernel/core/elf.c\<close>.  The functional lemmas show that it
  accepts exactly the images whose load segments lie inside the file and whose entry point
  lies inside the span of the load segments, and that it reads no byte beyond the image.
\<close>

record quanta_elf_image =
  el_entry :: u64
  image_start :: u64
  image_end :: u64

record elf_program =
  pr_type :: u32
  pr_file_offset :: u64
  pr_virtual_address :: u64
  pr_file_size :: u64
  pr_memory_size :: u64

definition program_of :: "byte list \<Rightarrow> elf_program" where
  "program_of b = \<lparr>pr_type = u32_at b 0, pr_file_offset = u64_at b 8, pr_virtual_address = u64_at b 16,
     pr_file_size = u64_at b 32, pr_memory_size = u64_at b 40\<rparr>"

definition program_offset :: "byte list \<Rightarrow> u64" where "program_offset img = u64_at img 32"
definition program_count :: "byte list \<Rightarrow> u16" where "program_count img = u16_at img 56"
definition elf_entry :: "byte list \<Rightarrow> u64" where "elf_entry img = u64_at img 24"

definition header_ok :: "byte list \<Rightarrow> u64 \<Rightarrow> bool" where
  "header_ok img file_length \<longleftrightarrow>
     \<not> (img ! 0 \<noteq> 0x7f \<or> img ! 1 \<noteq> of_char CHR ''E'' \<or> img ! 2 \<noteq> of_char CHR ''L'' \<or>
        img ! 3 \<noteq> of_char CHR ''F'' \<or> img ! 4 \<noteq> 2 \<or> img ! 5 \<noteq> 1 \<or>
        u16_at img 18 \<noteq> 0x3e \<or> u16_at img 54 \<noteq> 56) \<and>
     \<not> (program_offset img > file_length \<or>
        ucast (program_count img) * ucast (u16_at img 54) > file_length - program_offset img)"

definition program_at :: "byte list \<Rightarrow> u64 \<Rightarrow> elf_program" where
  "program_at img index =
     program_of (field img (unat (program_offset img + index * ucast (u16_at img 54))) 56)"

text \<open>One iteration of the loop on \<open>(start, end)\<close>; \<open>None\<close> is the return of -1.\<close>

definition scan_program :: "u64 \<Rightarrow> elf_program \<Rightarrow> u64 \<times> u64 \<Rightarrow> (u64 \<times> u64) option" where
  "scan_program file_length p = (\<lambda>(start, finish).
     if pr_type p \<noteq> 1 then Some (start, finish)
     else if pr_file_size p > pr_memory_size p \<or> pr_file_offset p > file_length \<or>
       pr_file_size p > file_length - pr_file_offset p \<or> pr_virtual_address p < 0x400000 then None
     else
      (let start1 = (if pr_virtual_address p < start then pr_virtual_address p else start) in
       if pr_virtual_address p + pr_memory_size p < pr_virtual_address p then None
       else Some (start1, if pr_virtual_address p + pr_memory_size p > finish
                          then pr_virtual_address p + pr_memory_size p else finish)))"

fun scan_programs :: "u64 \<Rightarrow> elf_program list \<Rightarrow> u64 \<times> u64 \<Rightarrow> (u64 \<times> u64) option" where
  "scan_programs file_length [] r = Some r"
| "scan_programs file_length (p # ps) r =
     (case scan_program file_length p r of None \<Rightarrow> None | Some r1 \<Rightarrow> scan_programs file_length ps r1)"

definition programs :: "byte list \<Rightarrow> elf_program list" where
  "programs img = map (\<lambda>index. program_at img (of_nat index)) [0..<unat (program_count img)]"

definition quanta_elf_validate :: "byte list \<Rightarrow> u64 \<Rightarrow> quanta_elf_image option" where
  "quanta_elf_validate img file_length =
     (if file_length < 58 then None
      else if \<not> header_ok img file_length then None
      else case scan_programs file_length (programs img) (- 1, 0) of None \<Rightarrow> None
      | Some (start, finish) \<Rightarrow>
          if start = - 1 \<or> elf_entry img < start \<or> elf_entry img \<ge> finish then None
          else Some \<lparr>el_entry = elf_entry img, image_start = start, image_end = finish\<rparr>)"

section \<open>What is accepted\<close>

definition is_load :: "elf_program \<Rightarrow> bool" where
  "is_load p \<longleftrightarrow> pr_type p = 1"

text \<open>A load segment inside the file and inside the user address range.\<close>

definition segment_ok :: "u64 \<Rightarrow> elf_program \<Rightarrow> bool" where
  "segment_ok file_length p \<longleftrightarrow> pr_file_size p \<le> pr_memory_size p
     \<and> unat (pr_file_offset p) + unat (pr_file_size p) \<le> unat file_length
     \<and> 0x400000 \<le> pr_virtual_address p
     \<and> unat (pr_virtual_address p) + unat (pr_memory_size p) < 2 ^ 64"

definition segment_end :: "elf_program \<Rightarrow> u64" where
  "segment_end p = pr_virtual_address p + pr_memory_size p"

lemma no_wrap_iff: "a \<le> a + (b :: u64) \<longleftrightarrow> unat a + unat b < 2 ^ 64"
  using unat_less_pow [of a] unat_less_pow [of b]
  by (auto simp: word_le_nat_alt unat_word_ariths mod_if)

lemma scan_program_cases:
  "scan_program file_length p (start, finish) =
     (if \<not> is_load p then Some (start, finish)
      else if \<not> segment_ok file_length p then None
      else Some (min start (pr_virtual_address p), max finish (segment_end p)))"
proof -
  have "\<not> (pr_file_offset p > file_length \<or> pr_file_size p > file_length - pr_file_offset p) \<longleftrightarrow>
      unat (pr_file_offset p) + unat (pr_file_size p) \<le> unat file_length"
    by (auto simp: not_less word_le_nat_alt unat_sub le_diff_conv2 add.commute) 
  then show ?thesis
    using no_wrap_iff [of "pr_virtual_address p" "pr_memory_size p"]
    by (auto simp: scan_program_def segment_ok_def is_load_def segment_end_def Let_def not_less
        min_def max_def not_le)
qed

lemma scan_programs_iff:
  "scan_programs file_length ps (start, finish) = Some (start', end') \<longleftrightarrow>
     (\<forall>p\<in>set ps. is_load p \<longrightarrow> segment_ok file_length p) \<and>
     start' = foldl min start (map pr_virtual_address (filter is_load ps)) \<and>
     end' = foldl max finish (map segment_end (filter is_load ps))"
  by (induction ps arbitrary: start finish) (auto simp: scan_program_cases)

lemma foldl_min_le: "foldl min (a :: 'a::linorder) xs \<le> x \<longleftrightarrow> a \<le> x \<or> (\<exists>y\<in>set xs. y \<le> x)"
  by (induction xs arbitrary: a) (auto simp: min_le_iff_disj)

lemma foldl_max_greater: "x < foldl max (a :: 'a::linorder) xs \<longleftrightarrow> x < a \<or> (\<exists>y\<in>set xs. x < y)"
  by (induction xs arbitrary: a) (auto simp: less_max_iff_disj)

lemma foldl_min_in: "foldl min (a :: 'a::linorder) xs \<in> insert a (set xs)"
  by (induction xs arbitrary: a) (auto simp: min_def)

lemma foldl_max_in: "foldl max (a :: 'a::linorder) xs \<in> insert a (set xs)"
  by (induction xs arbitrary: a) (auto simp: max_def)

text \<open>Every program header that is read lies inside the image.\<close>

lemma program_header_inside:
  assumes "header_ok img file_length" and "index < unat (program_count img)"
  shows "unat (program_offset img + of_nat index * ucast (u16_at img 54)) + 56 \<le> unat file_length"
proof -
  have h: "u16_at img 54 = 56" "program_offset img \<le> file_length"
    "ucast (program_count img) * 56 \<le> file_length - program_offset img"
    using assms(1) by (auto simp: header_ok_def not_less)
  have c: "unat (ucast (program_count img) * 56 :: u64) = unat (program_count img) * 56"
    using unat_less_pow [of "program_count img"] by (simp add: unat_word_ariths unat_ucast_up)
  have i: "unat (of_nat index * 56 :: u64) = index * 56"
    using unat_less_pow [of "program_count img"] assms(2) by (simp add: unat_word_ariths unat_of_nat)
  have "unat (program_count img) * 56 \<le> unat file_length - unat (program_offset img)"
    using h(2,3) c by (simp add: word_le_nat_alt unat_sub)
  moreover have "unat (program_offset img) \<le> unat file_length" using h(2) by (simp add: word_le_nat_alt)
  moreover have "(index + 1) * 56 \<le> unat (program_count img) * 56" using assms(2) by (intro mult_le_mono1) simp
  ultimately have "unat (program_offset img) + index * 56 + 56 \<le> unat file_length" by simp
  moreover from this have "unat (program_offset img + of_nat index * 56) = unat (program_offset img) + index * 56"
    using i unat_less_pow [of file_length] by (simp add: unat_word_ariths)
  ultimately show ?thesis using h(1) by simp
qed

lemma scan_programs_eq:
  "scan_programs file_length ps (start, finish) =
     (if \<forall>p\<in>set ps. is_load p \<longrightarrow> segment_ok file_length p
      then Some (foldl min start (map pr_virtual_address (filter is_load ps)),
                 foldl max finish (map segment_end (filter is_load ps)))
      else None)"
proof (cases "scan_programs file_length ps (start, finish)")
  case None
  then have "\<not> (\<forall>p\<in>set ps. is_load p \<longrightarrow> segment_ok file_length p)"
    using scan_programs_iff [of file_length ps start finish] by auto
  with None show ?thesis by (simp only: if_False)
next
  case (Some r)
  then have "scan_programs file_length ps (start, finish) = Some (fst r, snd r)" by simp
  with scan_programs_iff show ?thesis by (metis (no_types, lifting))
qed

lemma validate_Some:
  "quanta_elf_validate img file_length = Some r \<longleftrightarrow>
     58 \<le> file_length \<and> header_ok img file_length \<and>
     (\<forall>p\<in>set (programs img). is_load p \<longrightarrow> segment_ok file_length p) \<and>
     image_start r = foldl min (- 1) (map pr_virtual_address (filter is_load (programs img))) \<and>
     image_end r = foldl max 0 (map segment_end (filter is_load (programs img))) \<and>
     image_start r \<noteq> - 1 \<and> el_entry r = elf_entry img \<and>
     image_start r \<le> el_entry r \<and> el_entry r < image_end r"
  by (cases r) (auto simp: quanta_elf_validate_def scan_programs_eq not_less not_le)

lemma foldl_max_start: "(a :: 'a::linorder) \<le> foldl max a xs"
  by (induction xs arbitrary: a) (auto intro: order_trans [OF max.cobounded1])

lemma foldl_max_ge: "y \<in> set xs \<Longrightarrow> y \<le> foldl max (a :: 'a::linorder) xs"
  by (induction xs arbitrary: a) (auto intro: order_trans [OF max.cobounded2 foldl_max_start])

section \<open>Properties\<close>


text \<open>Of an accepted image, the loader reads no program header beyond the file, every load
  segment lies in the file and between the reported start and end, and the entry point lies
  between them too.\<close>

theorem elf_accepted_inside:
  assumes "quanta_elf_validate img n = Some r"
  shows "image_start r \<le> el_entry r \<and> el_entry r < image_end r \<and>
    (\<forall>i<unat (program_count img). unat (program_offset img + of_nat i * ucast (u16_at img 54)) + 56 \<le> unat n) \<and>
    (\<forall>p\<in>set (filter is_load (programs img)). unat (pr_file_offset p) + unat (pr_file_size p) \<le> unat n \<and>
       0x400000 \<le> pr_virtual_address p \<and> image_start r \<le> pr_virtual_address p \<and>
       pr_virtual_address p + pr_memory_size p \<le> image_end r)"
proof -
  let ?l = "filter is_load (programs img)"
  have v: "header_ok img n" "\<forall>p\<in>set (programs img). is_load p \<longrightarrow> segment_ok n p"
    "image_start r = foldl min (- 1) (map pr_virtual_address ?l)" "image_end r = foldl max 0 (map segment_end ?l)"
    "image_start r \<le> el_entry r" "el_entry r < image_end r"
    using assms unfolding validate_Some by blast+
  have "image_start r \<le> pr_virtual_address p" "segment_end p \<le> image_end r" if "p \<in> set ?l" for p
  proof -
    show "image_start r \<le> pr_virtual_address p" unfolding v(3) using that by (auto simp: foldl_min_le)
    show "segment_end p \<le> image_end r" using that by (auto simp: v(4) intro: foldl_max_ge)
  qed
  with v program_header_inside [OF v(1)] show ?thesis by (auto simp: segment_ok_def segment_end_def)
qed

text \<open>An image with one load segment, for the concrete instance.\<close>

definition demo_elf_header :: "byte list" where
  "demo_elf_header = [0x7f, of_char CHR ''E'', of_char CHR ''L'', of_char CHR ''F'', 2, 1, 1, 0, 0, 0, 0, 0, 0, 0, 0, 0]
     @ le16 2 @ le16 0x3e @ le32 1 @ le64 0x400000
     @ le64 58 @ le64 0 @ le32 0 @ le16 64 @ le16 56 @ le16 1"

definition demo_elf_program :: "byte list" where
  "demo_elf_program = le32 1 @ le32 5 @ le64 0 @ le64 0x400000 @ le64 0 @ le64 114 @ le64 0x2000 @ le64 0x1000"

definition demo_elf :: "byte list" where
  "demo_elf = demo_elf_header @ demo_elf_program"

lemma demo_elf_lengths: "length demo_elf_header = 58" "length demo_elf_program = 56"
  by (simp_all add: demo_elf_header_def demo_elf_program_def)

lemma demo_elf_magic: "demo_elf ! 0 = 0x7f" "demo_elf ! 1 = of_char CHR ''E''" "demo_elf ! 2 = of_char CHR ''L''"
  "demo_elf ! 3 = of_char CHR ''F''" "demo_elf ! 4 = 2" "demo_elf ! 5 = 1"
  by (simp_all add: demo_elf_def demo_elf_header_def)

lemma demo_elf_fields:
  "u16_at demo_elf 18 = 0x3e" "elf_entry demo_elf = 0x400000" "program_offset demo_elf = 58"
  "u16_at demo_elf 54 = 56" "program_count demo_elf = 1"
  by (simp_all add: demo_elf_def demo_elf_header_def demo_elf_program_def u16_at_def u64_at_def field_layout
      field_Cons elf_entry_def program_offset_def program_count_def)

lemma demo_elf_program_field: "field demo_elf 58 56 = demo_elf_program"
  by (simp add: demo_elf_def field_layout demo_elf_lengths)

lemma demo_elf_segment:
  "programs demo_elf = [\<lparr>pr_type = 1, pr_file_offset = 0, pr_virtual_address = 0x400000, pr_file_size = 114, pr_memory_size = 0x2000\<rparr>]"
proof -
  have "program_of demo_elf_program = \<lparr>pr_type = 1, pr_file_offset = 0, pr_virtual_address = 0x400000,
      pr_file_size = 114, pr_memory_size = 0x2000\<rparr>"
    by (simp add: program_of_def demo_elf_program_def u32_at_def u64_at_def field_layout)
  then show ?thesis by (simp add: programs_def program_at_def demo_elf_fields demo_elf_program_field)
qed

lemma demo_elf_ok: "quanta_elf_validate demo_elf 114 =
    Some \<lparr>el_entry = 0x400000, image_start = 0x400000, image_end = 0x402000\<rparr>"
  by (simp add: quanta_elf_validate_def header_ok_def demo_elf_magic [simplified] demo_elf_fields demo_elf_segment scan_program_def)

theorem elf_accepted_inside_witness:
  "let r = \<lparr>el_entry = 0x400000, image_start = 0x400000, image_end = 0x402000\<rparr> in
    image_start r \<le> el_entry r \<and> el_entry r < image_end r \<and>
    (\<forall>i<unat (program_count demo_elf).
       unat (program_offset demo_elf + of_nat i * ucast (u16_at demo_elf 54)) + 56 \<le> unat (114 :: u64)) \<and>
    (\<forall>p\<in>set (filter is_load (programs demo_elf)). unat (pr_file_offset p) + unat (pr_file_size p) \<le> unat (114 :: u64) \<and>
       0x400000 \<le> pr_virtual_address p \<and> image_start r \<le> pr_virtual_address p \<and>
       pr_virtual_address p + pr_memory_size p \<le> image_end r)"
  unfolding Let_def by (rule elf_accepted_inside [OF demo_elf_ok])

end
