(* ===== verification/Frames.thy ===== *)
theory Frames
  imports Prelude
begin

text \<open>
  The physical frame allocator of \<^verbatim>\<open>kernel/mm/memory.c\<close>: the static variables as a
  record, physical memory as a map from byte addresses to 64-bit words (every access of
  this file is a \<^verbatim>\<open>uint64_t\<close> access at a multiple of eight), the free list threaded
  through the first word of each free frame, and the allocation bitmap.
  \<open>frames_inv\<close> is the representation invariant, \<open>live\<close> the abstract state (the set of
  allocated frames); allocate and release are shown to refine inserting into and removing
  from that set.  A function that halts the machine returns \<open>None\<close>.
\<close>

section \<open>State\<close>

definition PAGE_SIZE :: u64 where [geometry]: "PAGE_SIZE = 0x1000"
definition IDENTITY_LIMIT :: u64 where [geometry]: "IDENTITY_LIMIT = 0x40000000"
definition FRAME_COUNT :: nat where [geometry]: "FRAME_COUNT = 0x40000000 div 0x1000"
definition FRAME_BITMAP_WORDS :: nat where [geometry]: "FRAME_BITMAP_WORDS = FRAME_COUNT div 64"

type_synonym memory = "u64 \<Rightarrow> u64"

record frames =
  mem :: memory
  pool_start :: u64
  pool_end :: u64
  next_frame :: u64
  free_frame_head :: u64
  allocated_frames :: "nat \<Rightarrow> u64"

datatype boot_memory_region =
  Region (physical_start: u64) (region_length: u64) (region_type: u32)

section \<open>Operations\<close>

text \<open>The 512 stores of \<open>clear_page\<close>.\<close>

primrec clear_words :: "nat \<Rightarrow> u64 \<Rightarrow> memory \<Rightarrow> memory" where
  "clear_words 0 p m = m"
| "clear_words (Suc index) p m = (clear_words index p m)(p + 8 * of_nat index := 0)"

definition clear_page :: "u64 \<Rightarrow> memory \<Rightarrow> memory" where
  "clear_page physical m = clear_words 512 physical m"

text \<open>One iteration of the region scan: the new \<open>(best_start, best_end)\<close>.\<close>

definition scan_region :: "boot_memory_region \<Rightarrow> u64 \<times> u64 \<Rightarrow> u64 \<times> u64" where
  "scan_region r best = (case best of (best_start, best_end) \<Rightarrow>
     let start0 = physical_start r; end0 = start0 + region_length r in
     if region_type r \<noteq> 1 \<or> end0 < start0 \<or> end0 \<le> 0x00400000 then best
     else let
       start1 = (if start0 < 0x00400000 then 0x00400000 else start0);
       start2 = (start1 + PAGE_SIZE - 1) AND NOT (PAGE_SIZE - 1);
       end1 = (if end0 > IDENTITY_LIMIT then IDENTITY_LIMIT else end0);
       end2 = end1 AND NOT (PAGE_SIZE - 1)
     in if start2 < end2 \<and> end2 - start2 > best_end - best_start then (start2, end2) else best)"

definition quanta_memory_initialize :: "boot_memory_region list \<Rightarrow> memory \<Rightarrow> frames option" where
  "quanta_memory_initialize regions m =
     (case foldl (\<lambda>best r. scan_region r best) (0, 0) regions of (best_start, best_end) \<Rightarrow>
        if best_start \<noteq> 0
        then Some \<lparr>mem = m, pool_start = best_start, pool_end = best_end,
                   next_frame = best_start, free_frame_head = 0, allocated_frames = (\<lambda>_. 0)\<rparr>
        else None)"

definition frame_bit :: "frames \<Rightarrow> u64 \<Rightarrow> nat" where
  "frame_bit s frame = unat ((frame - pool_start s) div PAGE_SIZE)"

definition set_frame_bit :: "nat \<Rightarrow> (nat \<Rightarrow> u64) \<Rightarrow> nat \<Rightarrow> u64" where
  "set_frame_bit b af = af(b div 64 := af (b div 64) OR push_bit (b mod 64) 1)"

definition clear_frame_bit :: "nat \<Rightarrow> (nat \<Rightarrow> u64) \<Rightarrow> nat \<Rightarrow> u64" where
  "clear_frame_bit b af = af(b div 64 := af (b div 64) AND NOT (push_bit (b mod 64) 1))"

definition quanta_frame_allocate :: "frames \<Rightarrow> (u64 \<times> frames) option" where
  "quanta_frame_allocate s =
     (if pool_start s = 0 then None
      else if free_frame_head s \<noteq> 0 then
        (let allocated = free_frame_head s;
             s1 = s\<lparr>free_frame_head := mem s allocated\<rparr>
         in Some (allocated, s1\<lparr>
              allocated_frames := set_frame_bit (frame_bit s1 allocated) (allocated_frames s1),
              mem := clear_page allocated (mem s1)\<rparr>))
      else if next_frame s \<ge> pool_end s then None
      else
        (let allocated = next_frame s;
             s1 = s\<lparr>next_frame := next_frame s + PAGE_SIZE\<rparr>
         in Some (allocated, s1\<lparr>
              allocated_frames := set_frame_bit (frame_bit s1 allocated) (allocated_frames s1),
              mem := clear_page allocated (mem s1)\<rparr>)))"

definition frame_is_allocated :: "frames \<Rightarrow> u64 \<Rightarrow> bool" where
  "frame_is_allocated s frame =
     (if frame < pool_start s \<or> frame \<ge> next_frame s \<or> frame AND (PAGE_SIZE - 1) \<noteq> 0 then False
      else let b = frame_bit s frame
           in allocated_frames s (b div 64) AND push_bit (b mod 64) 1 \<noteq> 0)"

definition quanta_frame_release :: "u64 \<Rightarrow> frames \<Rightarrow> frames" where
  "quanta_frame_release frame s =
     (let b = frame_bit s frame in
      if \<not> frame_is_allocated s frame then s
      else s\<lparr>allocated_frames := clear_frame_bit b (allocated_frames s),
             mem := (mem s)(frame := free_frame_head s),
             free_frame_head := frame\<rparr>)"

text \<open>\<open>None\<close> is the endless \<^verbatim>\<open>hlt\<close> loop.\<close>

definition quanta_frame_allocate_or_panic :: "frames \<Rightarrow> (u64 \<times> frames) option" where
  "quanta_frame_allocate_or_panic s = quanta_frame_allocate s"

section \<open>Page arithmetic\<close>

definition page_aligned :: "u64 \<Rightarrow> bool" where
  "page_aligned a \<longleftrightarrow> 4096 dvd unat a"

definition in_page :: "u64 \<Rightarrow> u64 \<Rightarrow> bool" where
  "in_page p a \<longleftrightarrow> (\<exists>i<512. a = p + 8 * of_nat i)"

lemma page_mask_eq_0: "f AND (PAGE_SIZE - 1) = 0 \<longleftrightarrow> page_aligned f"
proof -
  have "f AND (PAGE_SIZE - 1) = take_bit 12 f"
    by (simp add: PAGE_SIZE_def take_bit_eq_mask mask_numeral)
  moreover have "take_bit 12 f = 0 \<longleftrightarrow> unat (take_bit 12 f) = 0" by (simp add: unat_eq_0)
  moreover have "unat (take_bit 12 f) = unat f mod 4096"
    by (simp only: unsigned_take_bit_eq) (simp add: take_bit_eq_mod)
  ultimately show ?thesis by (simp add: page_aligned_def dvd_eq_mod_eq_0)
qed

lemma unat_page_entry:
  assumes "page_aligned p" and "i < 512"
  shows "unat (p + 8 * of_nat i) = unat p + 8 * i"
proof -
  obtain k where k: "unat p = 4096 * k" using assms(1) by (auto simp: page_aligned_def)
  with unat_less_pow [of p] have "k < 2 ^ 52" by simp
  with k assms(2) have "unat p + 8 * i < 2 ^ 64" by simp
  moreover have "unat (8 * of_nat i :: u64) = 8 * i"
    using assms(2) by (simp add: unat_word_ariths unat_of_nat)
  ultimately show ?thesis by (simp add: unat_word_ariths)
qed

lemma in_page_unique:
  assumes "page_aligned p" "page_aligned q" "in_page p a" "in_page q a"
  shows "p = q"
proof -
  obtain i j where ij: "i < 512" "j < 512" "a = p + 8 * of_nat i" "a = q + 8 * of_nat j"
    using assms(3,4) by (auto simp: in_page_def)
  then have "unat p + 8 * i = unat q + 8 * j"
    using unat_page_entry [OF assms(1) ij(1)] unat_page_entry [OF assms(2) ij(2)] by simp
  moreover obtain k l where kl: "unat p = 4096 * k" "unat q = 4096 * l"
    using assms(1,2) by (auto simp: page_aligned_def elim!: dvdE)
  moreover have "(4096 * k + 8 * i) div 4096 = k" "(4096 * l + 8 * j) div 4096 = l"
    using ij(1,2) by (auto intro!: div_nat_eqI)
  ultimately have "unat p = unat q" by simp
  then show ?thesis by (rule unsigned_word_eqI)
qed

lemma in_page_entry [simp]: "i < 512 \<Longrightarrow> in_page p (p + 8 * of_nat i)"
  by (auto simp: in_page_def)

lemma in_page_base [simp]: "in_page p p"
  by (auto simp: in_page_def intro!: exI [of _ 0])

lemma clear_words_apply:
  "clear_words n p m a = (if \<exists>i<n. a = p + 8 * of_nat i then 0 else m a)"
  by (induction n) (auto simp: less_Suc_eq)

lemma clear_page_apply: "clear_page p m a = (if in_page p a then 0 else m a)"
  by (simp add: clear_page_def clear_words_apply in_page_def)

section \<open>The allocation bitmap\<close>

definition bitmap_bit :: "(nat \<Rightarrow> u64) \<Rightarrow> nat \<Rightarrow> bool" where
  "bitmap_bit af b = bit (af (b div 64)) (b mod 64)"

lemma bitmap_test: "af (b div 64) AND push_bit (b mod 64) 1 \<noteq> 0 \<longleftrightarrow> bitmap_bit af b"
  by (simp add: bitmap_bit_def bit_iff_and_push_bit_not_eq_0)

lemma div_mod_64_eq: "(b::nat) div 64 = c div 64 \<Longrightarrow> b mod 64 = c mod 64 \<Longrightarrow> b = c"
  by (metis div_mult_mod_eq)

lemma bit_set_at: "n < 64 \<Longrightarrow> bit ((w :: u64) OR push_bit n 1) m \<longleftrightarrow> m = n \<or> bit w m"
  by (auto simp: bit_or_iff bit_exp_iff)

lemma bit_clear_at:
  assumes "n < 64"
  shows "bit ((w :: u64) AND NOT (push_bit n 1)) m \<longleftrightarrow> m \<noteq> n \<and> bit w m"
  using bit_imp_le_length [of w m] by (auto simp: bit_and_iff bit_not_iff bit_exp_iff)

lemma bitmap_set [simp]: "bitmap_bit (set_frame_bit b af) c \<longleftrightarrow> c = b \<or> bitmap_bit af c"
proof (cases "c div 64 = b div 64")
  case True
  then have "c mod 64 = b mod 64 \<longleftrightarrow> c = b" by (metis div_mod_64_eq)
  then show ?thesis
    unfolding bitmap_bit_def set_frame_bit_def True
    by (simp only: fun_upd_same bit_set_at mod_less_divisor zero_less_numeral)
qed (simp add: bitmap_bit_def set_frame_bit_def, metis)

lemma bitmap_clear [simp]: "bitmap_bit (clear_frame_bit b af) c \<longleftrightarrow> c \<noteq> b \<and> bitmap_bit af c"
proof (cases "c div 64 = b div 64")
  case True
  then have "c mod 64 = b mod 64 \<longleftrightarrow> c = b" by (metis div_mod_64_eq)
  then show ?thesis
    unfolding bitmap_bit_def clear_frame_bit_def True
    by (simp only: fun_upd_same bit_clear_at mod_less_divisor zero_less_numeral)
qed (simp add: bitmap_bit_def clear_frame_bit_def, metis)

section \<open>Invariant and abstract state\<close>

primrec free_path :: "memory \<Rightarrow> u64 \<Rightarrow> u64 list \<Rightarrow> bool" where
  "free_path m h [] \<longleftrightarrow> h = 0"
| "free_path m h (f # fs) \<longleftrightarrow> h = f \<and> f \<noteq> 0 \<and> free_path m (m f) fs"

definition live :: "frames \<Rightarrow> u64 set" where
  "live s = {f. frame_is_allocated s f}"

definition in_pool :: "frames \<Rightarrow> u64 \<Rightarrow> bool" where
  "in_pool s f \<longleftrightarrow> page_aligned f \<and> pool_start s \<le> f \<and> f < pool_end s"

definition carved :: "frames \<Rightarrow> u64 \<Rightarrow> bool" where
  "carved s f \<longleftrightarrow> page_aligned f \<and> pool_start s \<le> f \<and> f < next_frame s"

definition pool_ok :: "frames \<Rightarrow> bool" where
  "pool_ok s \<longleftrightarrow> 0x400000 \<le> pool_start s \<and> pool_start s \<le> next_frame s \<and> next_frame s \<le> pool_end s
     \<and> pool_end s \<le> IDENTITY_LIMIT
     \<and> page_aligned (pool_start s) \<and> page_aligned (next_frame s) \<and> page_aligned (pool_end s)"

definition frames_inv :: "frames \<Rightarrow> bool" where
  "frames_inv s \<longleftrightarrow> pool_ok s \<and>
     (\<exists>fs. free_path (mem s) (free_frame_head s) fs \<and> distinct fs \<and>
           set fs = {f. carved s f \<and> f \<notin> live s})"

lemma live_iff: "f \<in> live s \<longleftrightarrow> carved s f \<and> bitmap_bit (allocated_frames s) (frame_bit s f)"
  unfolding live_def frame_is_allocated_def Let_def page_mask_eq_0 bitmap_test
  by (auto simp: carved_def)

lemma frame_bit_nat:
  "pool_start s \<le> f \<Longrightarrow> frame_bit s f = (unat f - unat (pool_start s)) div 4096"
  by (simp add: frame_bit_def PAGE_SIZE_def unat_div unat_sub)

lemma frame_bit_inject:
  assumes "page_aligned f" "page_aligned g" "page_aligned (pool_start s)"
    and "pool_start s \<le> f" "pool_start s \<le> g"
  shows "frame_bit s f = frame_bit s g \<longleftrightarrow> f = g"
proof
  assume eq: "frame_bit s f = frame_bit s g"
  obtain a b c where *: "unat f = 4096 * a" "unat g = 4096 * b" "unat (pool_start s) = 4096 * c"
    using assms(1-3) by (auto simp: page_aligned_def elim!: dvdE)
  have "c \<le> a" "c \<le> b" using assms(4,5) * by (simp_all add: word_le_nat_alt)
  moreover have "a - c = b - c"
    using eq assms(4,5) * by (simp add: frame_bit_nat flip: diff_mult_distrib2)
  ultimately have "unat f = unat g" using * by simp
  then show "f = g" by (rule unsigned_word_eqI)
qed simp

lemma frame_bit_bound:
  assumes "pool_ok s" and "carved s f"
  shows "frame_bit s f < FRAME_COUNT"
proof -
  have "unat f < 0x40000000"
    using assms by (auto simp: pool_ok_def carved_def IDENTITY_LIMIT_def word_le_nat_alt word_less_nat_alt)
  then show ?thesis
    using assms by (simp add: frame_bit_nat carved_def FRAME_COUNT_def pool_ok_def less_mult_imp_div_less)
qed

lemma free_path_cong:
  "free_path m h fs \<Longrightarrow> (\<And>f. f \<in> set fs \<Longrightarrow> m' f = m f) \<Longrightarrow> free_path m' h fs"
  by (induction fs arbitrary: h) auto

lemma in_page_self_iff:
  "page_aligned p \<Longrightarrow> page_aligned q \<Longrightarrow> in_page p q \<longleftrightarrow> p = q"
  by (metis in_page_base in_page_unique)

lemma next_frame_step:
  assumes "pool_ok s" and "next_frame s < pool_end s"
  shows "next_frame s < next_frame s + PAGE_SIZE" and "next_frame s + PAGE_SIZE \<le> pool_end s"
    and "page_aligned (next_frame s + PAGE_SIZE)"
proof -
  obtain a b where ab: "unat (next_frame s) = 4096 * a" "unat (pool_end s) = 4096 * b"
    using assms(1) by (auto simp: pool_ok_def page_aligned_def elim!: dvdE)
  have lim: "unat (pool_end s) \<le> 0x40000000"
    using assms(1) by (simp add: pool_ok_def IDENTITY_LIMIT_def word_le_nat_alt)
  have less: "a < b" using assms(2) ab by (simp add: word_less_nat_alt)
  have sum: "unat (next_frame s + PAGE_SIZE) = 4096 * (a + 1)"
    using ab less lim by (simp add: PAGE_SIZE_def unat_word_ariths)
  show "next_frame s < next_frame s + PAGE_SIZE" by (simp add: word_less_nat_alt sum ab)
  show "next_frame s + PAGE_SIZE \<le> pool_end s" using less by (simp add: word_le_nat_alt sum ab)
  show "page_aligned (next_frame s + PAGE_SIZE)" by (simp add: page_aligned_def sum)
qed

lemma carved_step:
  assumes "pool_ok s" and "next_frame s < pool_end s"
  shows "carved (s\<lparr>next_frame := next_frame s + PAGE_SIZE\<rparr>) f \<longleftrightarrow> f = next_frame s \<or> carved s f"
proof -
  obtain a where a: "unat (next_frame s) = 4096 * a"
    using assms(1) by (auto simp: pool_ok_def page_aligned_def elim!: dvdE)
  have lim: "unat (next_frame s) < 0x40000000"
    using assms by (auto simp: pool_ok_def IDENTITY_LIMIT_def word_le_nat_alt word_less_nat_alt)
  have sum: "unat (next_frame s + PAGE_SIZE) = 4096 * a + 4096"
    using a lim by (simp add: PAGE_SIZE_def unat_word_ariths)
  have "f < next_frame s + PAGE_SIZE \<longleftrightarrow> f = next_frame s \<or> f < next_frame s" if "page_aligned f"
  proof -
    from that obtain b where b: "unat f = 4096 * b" by (auto simp: page_aligned_def elim!: dvdE)
    have "f = next_frame s \<longleftrightarrow> unat f = unat (next_frame s)" by (auto intro: unsigned_word_eqI)
    then show ?thesis by (auto simp: word_less_nat_alt sum a b)
  qed
  with assms(1) show ?thesis by (auto simp: carved_def pool_ok_def)
qed

section \<open>Allocate and release refine the set of live frames\<close>

lemma frames_invE:
  assumes "frames_inv s"
  obtains fs where "pool_ok s" "free_path (mem s) (free_frame_head s) fs" "distinct fs"
    "set fs = {f. carved s f \<and> f \<notin> live s}"
  using assms by (auto simp: frames_inv_def)

lemma carved_nonzero: "pool_ok s \<Longrightarrow> carved s f \<Longrightarrow> f \<noteq> 0"
  by (auto simp: carved_def pool_ok_def word_le_nat_alt)

lemma carved_in_pool: "pool_ok s \<Longrightarrow> carved s f \<Longrightarrow> in_pool s f"
  by (auto simp: carved_def in_pool_def pool_ok_def)

lemma live_in_pool: "frames_inv s \<Longrightarrow> f \<in> live s \<Longrightarrow> in_pool s f"
  by (auto simp: live_iff frames_inv_def intro: carved_in_pool)

lemma live_aligned: "f \<in> live s \<Longrightarrow> page_aligned f"
  by (simp add: live_iff carved_def)

lemma carved_update [simp]:
  "carved (s\<lparr>mem := m\<rparr>) f = carved s f"
  "carved (s\<lparr>allocated_frames := af\<rparr>) f = carved s f"
  "carved (s\<lparr>free_frame_head := h\<rparr>) f = carved s f"
  by (simp_all add: carved_def)

lemma pool_ok_update [simp]:
  "pool_ok (s\<lparr>mem := m\<rparr>) = pool_ok s"
  "pool_ok (s\<lparr>allocated_frames := af\<rparr>) = pool_ok s"
  "pool_ok (s\<lparr>free_frame_head := h\<rparr>) = pool_ok s"
  by (simp_all add: pool_ok_def)

lemma frame_bit_update [simp]:
  "frame_bit (s\<lparr>mem := m\<rparr>) = frame_bit s"
  "frame_bit (s\<lparr>allocated_frames := af\<rparr>) = frame_bit s"
  "frame_bit (s\<lparr>free_frame_head := h\<rparr>) = frame_bit s"
  "frame_bit (s\<lparr>next_frame := n\<rparr>) = frame_bit s"
  by (simp_all add: frame_bit_def fun_eq_iff)

lemma live_mem_head [simp]:
  "live (s\<lparr>mem := m\<rparr>) = live s"
  "live (s\<lparr>free_frame_head := h\<rparr>) = live s"
  by (auto simp: set_eq_iff live_iff)

lemma live_set_bit:
  assumes "pool_ok s" "carved s f"
  shows "live (s\<lparr>allocated_frames := set_frame_bit (frame_bit s f) (allocated_frames s)\<rparr>)
    = insert f (live s)"
  using assms by (auto simp: set_eq_iff live_iff carved_def pool_ok_def frame_bit_inject)

lemma live_clear_bit:
  assumes "pool_ok s" "carved s f"
  shows "live (s\<lparr>allocated_frames := clear_frame_bit (frame_bit s f) (allocated_frames s)\<rparr>)
    = live s - {f}"
  using assms by (auto simp: set_eq_iff live_iff carved_def pool_ok_def frame_bit_inject)

text \<open>The recycled frame: the head of the free list.\<close>

lemma allocate_recycled:
  assumes inv: "frames_inv s" and head: "free_frame_head s \<noteq> 0"
    and s': "s' = s\<lparr>free_frame_head := mem s f,
      allocated_frames := set_frame_bit (frame_bit s f) (allocated_frames s),
      mem := clear_page f (mem s)\<rparr>" and f: "f = free_frame_head s"
  shows "frames_inv s' \<and> carved s f \<and> f \<notin> live s \<and> live s' = insert f (live s)"
proof -
  obtain fs where ok: "pool_ok s" and path: "free_path (mem s) (free_frame_head s) fs"
    and dist: "distinct fs" and fs: "set fs = {f. carved s f \<and> f \<notin> live s}"
    using inv by (rule frames_invE)
  obtain rest where rest: "fs = f # rest" "free_path (mem s) (mem s f) rest"
    using path head f by (cases fs) auto
  have f_free: "carved s f" "f \<notin> live s" using fs rest(1) by auto
  have live': "live s' = insert f (live s)"
    using live_set_bit [OF ok f_free(1)] by (simp add: s' set_eq_iff live_iff)
  have "free_path (clear_page f (mem s)) (mem s f) rest"
  proof (rule free_path_cong [OF rest(2)])
    fix g assume "g \<in> set rest"
    with fs rest dist f_free(1) have "g \<noteq> f" "page_aligned g" "page_aligned f"
      by (auto simp: carved_def)
    then show "clear_page f (mem s) g = mem s g"
      by (simp add: clear_page_apply in_page_self_iff)
  qed
  moreover have "set rest = {g. carved s' g \<and> g \<notin> live s'}"
  proof -
    have "carved s' g = carved s g" for g by (simp add: s' carved_def)
    moreover have "set rest = set fs - {f}" using dist rest(1) by auto
    ultimately show ?thesis unfolding live' fs by auto
  qed
  ultimately have "frames_inv s'"
    using ok dist rest(1) by (auto simp: frames_inv_def s' pool_ok_def)
  with f_free live' show ?thesis by simp
qed

text \<open>The fresh frame: the next one of the pool.\<close>

lemma allocate_carved:
  assumes inv: "frames_inv s" and head: "free_frame_head s = 0" and room: "next_frame s < pool_end s"
    and s': "s' = s\<lparr>next_frame := next_frame s + PAGE_SIZE,
      allocated_frames := set_frame_bit (frame_bit s f) (allocated_frames s),
      mem := clear_page f (mem s)\<rparr>" and f: "f = next_frame s"
  shows "frames_inv s' \<and> \<not> carved s f \<and> f \<notin> live s \<and> live s' = insert f (live s)"
proof -
  obtain fs where ok: "pool_ok s" and path: "free_path (mem s) (free_frame_head s) fs"
    and fs: "set fs = {f. carved s f \<and> f \<notin> live s}"
    using inv by (rule frames_invE)
  let ?s1 = "s\<lparr>next_frame := next_frame s + PAGE_SIZE\<rparr>"
  have nil: "fs = []" using path head by (cases fs) auto
  have ok1: "pool_ok ?s1"
    using ok next_frame_step [OF ok room]
    by (auto simp: pool_ok_def intro: order.trans [OF _ less_imp_le])
  note step = carved_step [OF ok room]
  have not_carved: "\<not> carved s f" by (simp add: carved_def f)
  have "live s' = insert f (live ?s1)"
    using live_set_bit [OF ok1, of f] step [of f] by (simp add: s' f set_eq_iff live_iff)
  moreover have "insert f (live ?s1) = insert f (live s)"
    using step by (auto simp: set_eq_iff live_iff f)
  ultimately have live': "live s' = insert f (live s)" by simp
  have "{g. carved s' g \<and> g \<notin> live s'} = {}"
  proof -
    have "carved s' g \<longleftrightarrow> g = f \<or> carved s g" for g
      using step [of g] by (simp add: s' f carved_def)
    then show ?thesis using fs nil unfolding live' by auto
  qed
  then have "frames_inv s'"
    using ok1 head by (auto simp: frames_inv_def s' pool_ok_def intro!: exI [of _ "[]"])
  with live' not_carved show ?thesis by (simp add: live_iff)
qed

text \<open>
  A successful allocation returns a frame that was not live, zeroed; it becomes live and
  nothing else changes: the other pages of memory keep their contents.
\<close>

lemma allocate_cases:
  assumes "quanta_frame_allocate s = Some (f, s')"
  obtains
    (recycled) "free_frame_head s \<noteq> 0" "f = free_frame_head s"
      "s' = s\<lparr>free_frame_head := mem s f,
        allocated_frames := set_frame_bit (frame_bit s f) (allocated_frames s),
        mem := clear_page f (mem s)\<rparr>"
  | (carved) "free_frame_head s = 0" "next_frame s < pool_end s" "f = next_frame s"
      "s' = s\<lparr>next_frame := next_frame s + PAGE_SIZE,
        allocated_frames := set_frame_bit (frame_bit s f) (allocated_frames s),
        mem := clear_page f (mem s)\<rparr>"
proof (cases "free_frame_head s = 0")
  case True
  with assms show ?thesis
    by (intro carved) (auto simp: quanta_frame_allocate_def Let_def split: if_splits)
next
  case False
  with assms show ?thesis
    by (intro recycled) (auto simp: quanta_frame_allocate_def Let_def split: if_splits)
qed

lemma allocate_refines:
  assumes inv: "frames_inv s" and alloc: "quanta_frame_allocate s = Some (f, s')"
  shows "frames_inv s' \<and> f \<notin> live s \<and> live s' = insert f (live s) \<and> in_pool s f
    \<and> pool_start s' = pool_start s \<and> pool_end s' = pool_end s
    \<and> mem s' = clear_page f (mem s)"
  using alloc
proof (cases rule: allocate_cases)
  case recycled
  from allocate_recycled [OF inv recycled(1,3,2)] inv recycled show ?thesis
    by (auto simp: frames_inv_def intro: carved_in_pool)
next
  case carved
  have "pool_ok s" using inv by (simp add: frames_inv_def)
  then have "in_pool s f"
    using carved by (auto simp: in_pool_def pool_ok_def)
  with allocate_carved [OF inv carved(1,2,4,3)] carved show ?thesis by auto
qed

text \<open>Allocation fails exactly when every frame of the pool is live.\<close>

lemma allocate_None_full:
  assumes inv: "frames_inv s" and none: "quanta_frame_allocate s = None"
  shows "live s = {f. in_pool s f}"
proof -
  obtain fs where ok: "pool_ok s" and path: "free_path (mem s) (free_frame_head s) fs"
    and fs: "set fs = {f. carved s f \<and> f \<notin> live s}"
    using inv by (rule frames_invE)
  have "pool_start s \<noteq> 0" using ok by (auto simp: pool_ok_def word_le_nat_alt)
  with none have head: "free_frame_head s = 0" and full: "pool_end s \<le> next_frame s"
    by (auto simp: quanta_frame_allocate_def Let_def split: if_splits)
  from path head have "fs = []" by (cases fs) auto
  with fs have "carved s f \<longleftrightarrow> f \<in> live s" for f by (auto simp: live_iff)
  moreover have "carved s f \<longleftrightarrow> in_pool s f" for f
    using full ok by (auto simp: carved_def in_pool_def pool_ok_def)
  ultimately show ?thesis by blast
qed

lemma allocate_full_None:
  assumes inv: "frames_inv s" and full: "live s = {f. in_pool s f}"
  shows "quanta_frame_allocate s = None"
proof (cases "quanta_frame_allocate s")
  case (Some r)
  then obtain f s' where "quanta_frame_allocate s = Some (f, s')" by (cases r) auto
  with allocate_refines [OF inv this] full show ?thesis by auto
qed

lemma release_refines:
  assumes inv: "frames_inv s"
  shows "frames_inv (quanta_frame_release f s) \<and> live (quanta_frame_release f s) = live s - {f}
    \<and> pool_start (quanta_frame_release f s) = pool_start s
    \<and> pool_end (quanta_frame_release f s) = pool_end s
    \<and> (\<forall>a. a \<noteq> f \<or> f \<notin> live s \<longrightarrow> mem (quanta_frame_release f s) a = mem s a)"
proof (cases "f \<in> live s")
  case False
  then have "quanta_frame_release f s = s"
    by (simp add: quanta_frame_release_def live_def Let_def)
  with False inv show ?thesis by simp
next
  case True
  let ?s' = "s\<lparr>allocated_frames := clear_frame_bit (frame_bit s f) (allocated_frames s),
      mem := (mem s)(f := free_frame_head s), free_frame_head := f\<rparr>"
  have eq: "quanta_frame_release f s = ?s'"
    using True by (simp add: quanta_frame_release_def live_def Let_def)
  obtain fs where ok: "pool_ok s" and path: "free_path (mem s) (free_frame_head s) fs"
    and dist: "distinct fs" and fs: "set fs = {f. carved s f \<and> f \<notin> live s}"
    using inv by (rule frames_invE)
  have carved: "carved s f" using True by (simp add: live_iff)
  have live': "live ?s' = live s - {f}"
    using live_clear_bit [OF ok carved] by (simp add: set_eq_iff live_iff)
  have notin: "f \<notin> set fs" using True fs by simp
  have "free_path (mem ?s') (free_frame_head ?s') (f # fs)"
    using carved_nonzero [OF ok carved] notin by (auto intro!: free_path_cong [OF path])
  moreover have "set (f # fs) = {g. carved ?s' g \<and> g \<notin> live ?s'}"
    unfolding live' using fs carved True by (auto simp: live_iff)
  moreover have "pool_ok ?s'" using ok by simp
  moreover have "distinct (f # fs)" using dist notin by simp
  ultimately have "frames_inv ?s'" unfolding frames_inv_def by blast
  with live' True show ?thesis unfolding eq by simp
qed

text \<open>Stores into live frames, by whoever owns them, keep the allocator's state intact.\<close>

lemma store_keeps_inv:
  assumes inv: "frames_inv s" and "p \<in> live s" and "in_page p a"
  shows "frames_inv (s\<lparr>mem := (mem s)(a := v)\<rparr>)"
proof -
  obtain fs where ok: "pool_ok s" and path: "free_path (mem s) (free_frame_head s) fs"
    and dist: "distinct fs" and fs: "set fs = {f. carved s f \<and> f \<notin> live s}"
    using inv by (rule frames_invE)
  have "free_path ((mem s)(a := v)) (free_frame_head s) fs"
  proof (rule free_path_cong [OF path])
    fix g assume "g \<in> set fs"
    then have "g \<noteq> p" "page_aligned g" using fs assms(2) by (auto simp: carved_def)
    then have "a \<noteq> g"
      using assms(3) live_aligned [OF assms(2)] in_page_self_iff [of p g] by auto
    then show "((mem s)(a := v)) g = mem s g" by simp
  qed
  with ok dist fs show ?thesis by (auto simp: frames_inv_def)
qed

section \<open>The pool chosen at boot\<close>

definition usable :: "boot_memory_region \<Rightarrow> bool" where
  "usable r \<longleftrightarrow> region_type r = 1 \<and> physical_start r \<le> physical_start r + region_length r"

definition pool_within :: "boot_memory_region \<Rightarrow> u64 \<times> u64 \<Rightarrow> bool" where
  "pool_within r p \<longleftrightarrow> usable r \<and> physical_start r \<le> fst p \<and> snd p \<le> physical_start r + region_length r
     \<and> 0x400000 \<le> fst p \<and> fst p < snd p \<and> snd p \<le> IDENTITY_LIMIT
     \<and> page_aligned (fst p) \<and> page_aligned (snd p)"

lemma page_aligned_and: "page_aligned (w AND NOT (PAGE_SIZE - 1))"
proof -
  have "(w AND NOT (PAGE_SIZE - 1)) AND (PAGE_SIZE - 1) = 0" by (simp add: and.assoc)
  then show ?thesis by (simp add: page_mask_eq_0)
qed

lemma and_not_mask_nat: "unat (w AND NOT (PAGE_SIZE - 1)) = unat w div 4096 * 4096"
proof -
  have "w AND NOT (PAGE_SIZE - 1) = push_bit 12 (drop_bit 12 w)"
  proof -
    have mask: "PAGE_SIZE - 1 = mask 12" by (simp add: PAGE_SIZE_def mask_eq_exp_minus_1)
    show ?thesis unfolding mask by (rule bit_word_eqI) (auto simp: bit_simps)
  qed
  moreover have "unat (push_bit 12 (drop_bit 12 w)) = take_bit 64 (unat w div 4096 * 4096)"
    using unat_less_pow [of w]
    unfolding unsigned_push_bit_eq unsigned_drop_bit_eq
    by (simp add: push_bit_eq_mult drop_bit_eq_div take_bit_nat_eq_self)
  moreover have "unat w div 4096 * 4096 < 2 ^ 64"
    using unat_less_pow [of w] div_times_less_eq_dividend [of "unat w" 4096] by simp
  ultimately show ?thesis by (simp add: take_bit_nat_eq_self_iff)
qed

lemma and_not_mask_le: "w AND NOT (PAGE_SIZE - 1) \<le> w"
  by (simp add: word_le_nat_alt and_not_mask_nat)

lemma round_up_nat: "unat (w + PAGE_SIZE - 1) = (unat w + 4095) mod 2 ^ 64"
proof -
  have "w + PAGE_SIZE - 1 = w + 4095" by (simp add: PAGE_SIZE_def)
  then show ?thesis by (simp only: unat_word_ariths) simp
qed

lemma round_up_ge:
  assumes "w \<le> - 0x1000"
  shows "w \<le> (w + PAGE_SIZE - 1) AND NOT (PAGE_SIZE - 1)"
proof -
  have "unat w \<le> 2 ^ 64 - 4096" using assms by (simp add: word_le_nat_alt)
  then have "unat (w + PAGE_SIZE - 1) = unat w + 4095" by (simp add: round_up_nat)
  then show ?thesis by (simp add: word_le_nat_alt and_not_mask_nat) 
qed

lemma round_up_wraps:
  assumes "\<not> w \<le> - 0x1000"
  shows "(w + PAGE_SIZE - 1) AND NOT (PAGE_SIZE - 1) = 0"
proof -
  have "2 ^ 64 - 4096 < unat w" using assms by (simp add: word_le_nat_alt)
  then have "unat (w + PAGE_SIZE - 1) < 4096"
    using unat_less_pow [of w] by (simp add: round_up_nat mod_if) linarith
  then have "unat ((w + PAGE_SIZE - 1) AND NOT (PAGE_SIZE - 1)) = 0"
    unfolding and_not_mask_nat by simp
  then show ?thesis by (simp only: unat_eq_0)
qed

text \<open>
  A region whose rounded-up start does not wrap contributes either nothing or a sub-range
  of itself; one that does wrap (it begins in the last 4095 bytes of the address space)
  is recorded with start 0 and size one gigabyte, and then beats every other region.
\<close>

lemma scan_region_cases:
  obtains (keep) "scan_region r best = best"
    | (take) p where "scan_region r best = p" "pool_within r p" "snd best - fst best < snd p - fst p"
    | (wrap) p where "scan_region r best = p" "fst p = 0" "snd best - fst best < snd p - fst p"
        "usable r" "\<not> physical_start r \<le> - 0x1000"
proof -
  let ?start = "physical_start r" and ?fin = "physical_start r + region_length r"
  let ?start1 = "if ?start < 0x400000 then 0x400000 else ?start"
  let ?start2 = "(?start1 + PAGE_SIZE - 1) AND NOT (PAGE_SIZE - 1)"
  let ?end1 = "if ?fin > IDENTITY_LIMIT then IDENTITY_LIMIT else ?fin"
  let ?end2 = "?end1 AND NOT (PAGE_SIZE - 1)"
  have unfold: "scan_region r best =
    (if region_type r \<noteq> 1 \<or> ?fin < ?start \<or> ?fin \<le> 0x400000 then best
     else if ?start2 < ?end2 \<and> ?end2 - ?start2 > snd best - fst best then (?start2, ?end2) else best)"
    by (simp add: scan_region_def Let_def case_prod_beta)
  show ?thesis
  proof (cases "scan_region r best = best")
    case True
    then show ?thesis by (rule keep)
  next
    case False
    then have us: "usable r" "?start2 < ?end2" "snd best - fst best < ?end2 - ?start2"
      and eq: "scan_region r best = (?start2, ?end2)"
      unfolding unfold usable_def by (auto split: if_splits)
    have end2: "?end2 \<le> ?fin" "?end2 \<le> IDENTITY_LIMIT"
      using and_not_mask_le [of ?end1] by (auto split: if_splits)
    show ?thesis
    proof (cases "?start1 \<le> - 0x1000")
      case True
      from round_up_ge [OF this] have "?start1 \<le> ?start2" .
      then have "?start \<le> ?start2" "0x400000 \<le> ?start2" by (auto split: if_splits)
      with us end2 eq show ?thesis
        by (intro take [of "(?start2, ?end2)"]) (simp_all add: pool_within_def page_aligned_and)
    next
      case False
      then have "?start2 = 0" by (rule round_up_wraps)
      moreover have "\<not> ?start \<le> - 0x1000" using False by (auto split: if_splits)
      ultimately show ?thesis using eq us by (intro wrap [of "(?start2, ?end2)"]) simp_all
    qed
  qed
qed

lemma scan_result:
  "fst best = 0 \<or> (\<exists>r \<in> R. pool_within r best) \<Longrightarrow> set rs \<subseteq> R \<Longrightarrow>
   (case foldl (\<lambda>best r. scan_region r best) best rs of p \<Rightarrow>
      fst p = 0 \<or> (\<exists>r \<in> R. pool_within r p))"
proof (induction rs arbitrary: best)
  case Nil
  then show ?case by simp
next
  case (Cons r rs)
  have "fst (scan_region r best) = 0 \<or> (\<exists>q \<in> R. pool_within q (scan_region r best))"
    using Cons.prems by (cases r best rule: scan_region_cases) auto
  with Cons show ?case by simp
qed

lemma initialize_pool:
  assumes "quanta_memory_initialize regions m = Some s"
  shows "\<exists>r \<in> set regions. pool_within r (pool_start s, pool_end s)"
    and "next_frame s = pool_start s" "free_frame_head s = 0" "mem s = m"
      "allocated_frames s = (\<lambda>_. 0)"
  using assms scan_result [of "(0, 0)" "set regions" regions]
  by (auto simp: quanta_memory_initialize_def split: prod.splits if_splits)

lemma initialize_inv:
  assumes "quanta_memory_initialize regions m = Some s"
  shows "frames_inv s" and "live s = {}"
proof -
  note init = initialize_pool [OF assms]
  have ok: "pool_ok s" using init by (auto simp: pool_ok_def pool_within_def)
  have none: "\<not> carved s f" for f by (auto simp: carved_def init(2))
  then show "live s = {}" by (simp add: set_eq_iff live_iff)
  show "frames_inv s"
    using ok none by (auto simp: frames_inv_def init(3) intro!: exI [of _ "[]"])
qed

text \<open>Without a wrapping region the scan ends with a range at least as large as any other.\<close>

definition range_size :: "u64 \<times> u64 \<Rightarrow> nat" where
  "range_size p = unat (snd p - fst p)"

lemma scan_region_grows: "range_size best \<le> range_size (scan_region r best)"
  by (cases r best rule: scan_region_cases) (auto simp: range_size_def word_less_nat_alt)

lemma round_up_le:
  assumes "w \<le> q" "page_aligned q"
  shows "(w + PAGE_SIZE - 1) AND NOT (PAGE_SIZE - 1) \<le> q"
proof -
  obtain k where k: "unat q = 4096 * k" using assms(2) by (auto simp: page_aligned_def)
  with unat_less_pow [of q] have "unat w + 4095 < 2 ^ 64"
    using assms(1) by (simp add: word_le_nat_alt)
  then have "unat ((w + PAGE_SIZE - 1) AND NOT (PAGE_SIZE - 1)) = (unat w + 4095) div 4096 * 4096"
    by (simp add: and_not_mask_nat round_up_nat)
  also have "\<dots> \<le> unat q"
    using assms(1) k by (simp add: word_le_nat_alt)
  finally show ?thesis by (simp add: word_le_nat_alt)
qed

lemma round_down_ge:
  assumes "q \<le> w" "page_aligned q"
  shows "q \<le> w AND NOT (PAGE_SIZE - 1)"
proof -
  obtain k where k: "unat q = 4096 * k" using assms(2) by (auto simp: page_aligned_def)
  then have "k \<le> unat w div 4096" using assms(1) by (simp add: word_le_nat_alt less_eq_div_iff_mult_less_eq)
  then show ?thesis by (simp add: word_le_nat_alt and_not_mask_nat k)
qed

definition clip :: "boot_memory_region \<Rightarrow> u64 \<times> u64" where
  "clip r = (((if physical_start r < 0x400000 then 0x400000 else physical_start r) + PAGE_SIZE - 1)
               AND NOT (PAGE_SIZE - 1),
             (if physical_start r + region_length r > IDENTITY_LIMIT then IDENTITY_LIMIT
              else physical_start r + region_length r) AND NOT (PAGE_SIZE - 1))"

lemma scan_region_clip:
  assumes "usable r" and "0x400000 < physical_start r + region_length r" and "fst (clip r) < snd (clip r)"
  shows "scan_region r best = (if range_size best < range_size (clip r) then clip r else best)"
  using assms unfolding scan_region_def clip_def range_size_def usable_def
  by (simp only: Let_def case_prod_beta fst_conv snd_conv word_less_nat_alt [symmetric] not_less
      [symmetric] simp_thms if_False HOL.if_True)

lemma scan_region_covers:
  assumes "pool_within r p"
  shows "range_size p \<le> range_size (scan_region r best)"
proof -
  have p: "physical_start r \<le> fst p" "snd p \<le> physical_start r + region_length r"
    "0x400000 \<le> fst p" "snd p \<le> IDENTITY_LIMIT"
    "fst p < snd p" "page_aligned (fst p)" "page_aligned (snd p)" and us: "usable r"
    using assms by (auto simp: pool_within_def)
  have start: "fst (clip r) \<le> fst p"
    unfolding clip_def fst_conv using p by (intro round_up_le) auto
  have "end": "snd p \<le> snd (clip r)"
    unfolding clip_def snd_conv using p by (intro round_down_ge) auto
  have less: "fst (clip r) < snd (clip r)"
    using start "end" p(5) by (meson le_less_trans less_le_trans)
  have nz: "0x400000 < physical_start r + region_length r"
    using p by (meson le_less_trans less_le_trans)
  have "range_size p \<le> range_size (clip r)"
    using start "end" p(5) less by (simp add: range_size_def unat_sub word_le_nat_alt word_less_nat_alt)
  then show ?thesis by (simp add: scan_region_clip [OF us nz less])
qed

lemma fold_scan_grows:
  "range_size best \<le> range_size (foldl (\<lambda>best r. scan_region r best) best rs)"
proof (induction rs arbitrary: best)
  case (Cons r rs)
  show ?case using order.trans [OF scan_region_grows Cons.IH] by simp
qed simp

lemma fold_scan_covers:
  "r \<in> set rs \<Longrightarrow> pool_within r p \<Longrightarrow>
   range_size p \<le> range_size (foldl (\<lambda>best r. scan_region r best) best rs)"
proof (induction rs arbitrary: best)
  case Nil
  then show ?case by simp
next
  case (Cons q rs)
  show ?case
  proof (cases "r = q")
    case True
    with Cons.prems(2) show ?thesis
      by (auto intro: order.trans [OF scan_region_covers fold_scan_grows])
  qed (use Cons in auto)
qed

lemma fold_scan_zero:
  "\<forall>r \<in> set rs. usable r \<longrightarrow> physical_start r \<le> - 0x1000 \<Longrightarrow> fst best = 0 \<longrightarrow> best = (0, 0) \<Longrightarrow>
   fst (foldl (\<lambda>best r. scan_region r best) best rs) = 0 \<longrightarrow>
   foldl (\<lambda>best r. scan_region r best) best rs = (0, 0)"
proof (induction rs arbitrary: best)
  case Nil
  then show ?case by simp
next
  case (Cons r rs)
  have "fst (scan_region r best) = 0 \<longrightarrow> scan_region r best = (0, 0)"
    using Cons.prems by (cases r best rule: scan_region_cases) (auto simp: pool_within_def)
  with Cons show ?case by simp
qed

lemma initialize_finds_largest:
  assumes "\<forall>r \<in> set regions. usable r \<longrightarrow> physical_start r \<le> - 0x1000"
    and "r \<in> set regions" "pool_within r p"
  shows "\<exists>s. quanta_memory_initialize regions m = Some s \<and>
    range_size p \<le> range_size (pool_start s, pool_end s)"
proof -
  let ?p = "foldl (\<lambda>best r. scan_region r best) (0, 0) regions"
  have size: "range_size p \<le> range_size ?p" by (rule fold_scan_covers [OF assms(2,3)])
  have "0 < range_size p"
    using assms(3) by (auto simp: pool_within_def range_size_def word_less_nat_alt unat_sub_if_size)
  with size have "?p \<noteq> (0, 0)" by (auto simp: range_size_def)
  with fold_scan_zero [OF assms(1), of "(0, 0)"] have "fst ?p \<noteq> 0" by auto
  with size show ?thesis by (simp add: quanta_memory_initialize_def case_prod_beta)
qed

section \<open>Histories\<close>

text \<open>
  Everything that can happen to the allocator after boot: frames are allocated and
  released (in any order, releases of arbitrary addresses included) and the owners of live
  frames write into them.
\<close>

inductive frame_history :: "boot_memory_region list \<Rightarrow> frames \<Rightarrow> bool" for regions where
  boot: "quanta_memory_initialize regions m = Some s \<Longrightarrow> frame_history regions s"
| alloc: "frame_history regions s \<Longrightarrow> quanta_frame_allocate s = Some (f, s') \<Longrightarrow> frame_history regions s'"
| release: "frame_history regions s \<Longrightarrow> frame_history regions (quanta_frame_release f s)"
| store: "frame_history regions s \<Longrightarrow> p \<in> live s \<Longrightarrow> in_page p a \<Longrightarrow>
    frame_history regions (s\<lparr>mem := (mem s)(a := v)\<rparr>)"

lemma history_inv: "frame_history regions s \<Longrightarrow> frames_inv s"
proof (induction rule: frame_history.induct)
  case (boot m s)
  then show ?case by (rule initialize_inv)
next
  case (alloc s f s')
  then show ?case using allocate_refines by blast
next
  case (release s f)
  then show ?case using release_refines by blast
next
  case (store s p a v)
  then show ?case by (blast intro: store_keeps_inv)
qed

lemma history_pool: "frame_history regions s \<Longrightarrow>
    \<exists>r \<in> set regions. pool_within r (pool_start s, pool_end s)"
proof (induction rule: frame_history.induct)
  case (boot m s)
  then show ?case by (rule initialize_pool(1))
next
  case (alloc s f s')
  then show ?case using allocate_refines [OF history_inv] by metis
next
  case (release s f)
  then show ?case using release_refines [OF history_inv] by metis
next
  case (store s p a v)
  then show ?case by simp
qed

section \<open>The allocator as an interface\<close>

text \<open>
  What the clients of the allocator (page tables, task images) rely on: a set of owned
  frames that an allocation extends by a frame that was not in it.
\<close>

locale frame_source =
  fixes alloc :: "'s \<Rightarrow> ('f \<times> 's) option"
    and owned :: "'s \<Rightarrow> 'f set"
    and invar :: "'s \<Rightarrow> bool"
  assumes alloc_fresh: "invar s \<Longrightarrow> alloc s = Some (f, s') \<Longrightarrow> f \<notin> owned s"
    and alloc_owned: "invar s \<Longrightarrow> alloc s = Some (f, s') \<Longrightarrow> owned s' = insert f (owned s)"
    and alloc_invar: "invar s \<Longrightarrow> alloc s = Some (f, s') \<Longrightarrow> invar s'"

primrec alloc_many :: "('s \<Rightarrow> ('f \<times> 's) option) \<Rightarrow> nat \<Rightarrow> 's \<Rightarrow> ('f list \<times> 's) option" where
  "alloc_many alloc 0 s = Some ([], s)"
| "alloc_many alloc (Suc n) s =
     (case alloc s of None \<Rightarrow> None
      | Some (f, s1) \<Rightarrow> (case alloc_many alloc n s1 of None \<Rightarrow> None
          | Some (fs, s2) \<Rightarrow> Some (f # fs, s2)))"

context frame_source
begin

lemma alloc_many_distinct:
  "invar s \<Longrightarrow> alloc_many alloc n s = Some (fs, s') \<Longrightarrow>
   distinct fs \<and> length fs = n \<and> set fs \<inter> owned s = {} \<and> owned s' = set fs \<union> owned s \<and> invar s'"
proof (induction n arbitrary: s fs s')
  case 0
  then show ?case by simp
next
  case (Suc n)
  then obtain f s1 gs where step: "alloc s = Some (f, s1)" "alloc_many alloc n s1 = Some (gs, s')"
      and fs: "fs = f # gs"
    by (auto split: option.splits prod.splits)
  note first = alloc_fresh [OF Suc.prems(1) step(1)] alloc_owned [OF Suc.prems(1) step(1)]
  have "invar s1" by (rule alloc_invar [OF Suc.prems(1) step(1)])
  from Suc.IH [OF this step(2)] first fs show ?case by auto
qed

end

interpretation pool: frame_source quanta_frame_allocate live frames_inv
  using allocate_refines by unfold_locales blast+

section \<open>Properties\<close>

text \<open>A machine with one usable region of 1 MiB from 4 MiB up, for the concrete instances.\<close>

definition demo_frames :: frames where
  "demo_frames = \<lparr>mem = (\<lambda>_. 0), pool_start = 0x400000, pool_end = 0x500000,
     next_frame = 0x400000, free_frame_head = 0, allocated_frames = (\<lambda>_. 0)\<rparr>"

lemma demo_boot: "quanta_memory_initialize [Region 0x400000 0x100000 1] (\<lambda>_. 0) = Some demo_frames"
  by (simp add: quanta_memory_initialize_def scan_region_def Let_def PAGE_SIZE_def IDENTITY_LIMIT_def
      demo_frames_def)

lemma demo_history: "frame_history [Region 0x400000 0x100000 1] demo_frames"
  by (rule frame_history.boot [OF demo_boot])

lemma demo_inv: "frames_inv demo_frames" "live demo_frames = {}"
  using initialize_inv [OF demo_boot] by simp_all

lemma demo_alloc: "quanta_frame_allocate demo_frames = Some (0x400000, demo_frames\<lparr>next_frame := 0x401000,
    allocated_frames := (\<lambda>_. 0)(0 := 1), mem := clear_page 0x400000 (\<lambda>_. 0)\<rparr>)"
  by (simp add: quanta_frame_allocate_def demo_frames_def Let_def PAGE_SIZE_def set_frame_bit_def frame_bit_def)

text \<open>C4: In every state the allocator can reach from boot by allocations, releases and stores
  into allocated pages, allocating and releasing refine insertion into and removal from the set
  of allocated frames: an allocation fails exactly when the pool is used up, and otherwise hands
  out a cleared frame of the pool that was free.\<close>

theorem allocator_refines_set:
  assumes "frame_history regions s"
  shows "(case quanta_frame_allocate s of
      None \<Rightarrow> live s = {f. in_pool s f}
    | Some (f, s') \<Rightarrow> in_pool s f \<and> f \<notin> live s \<and> live s' = insert f (live s) \<and> mem s' = clear_page f (mem s))
    \<and> live (quanta_frame_release g s) = live s - {g}"
proof
  note inv = history_inv [OF assms]
  show "case quanta_frame_allocate s of
      None \<Rightarrow> live s = {f. in_pool s f}
    | Some (f, s') \<Rightarrow> in_pool s f \<and> f \<notin> live s \<and> live s' = insert f (live s) \<and> mem s' = clear_page f (mem s)"
  proof (cases "quanta_frame_allocate s")
    case None
    with allocate_None_full [OF inv] show ?thesis by (simp only: option.case)
  next
    case (Some r)
    then have "quanta_frame_allocate s = Some (fst r, snd r)" by simp
    from allocate_refines [OF inv this] this show ?thesis by (simp only: option.case prod.case simp_thms)
  qed
  show "live (quanta_frame_release g s) = live s - {g}" using release_refines [OF inv, of g] by (simp only: simp_thms)
qed

theorem allocator_refines_set_witness:
  "(case quanta_frame_allocate demo_frames of
      None \<Rightarrow> live demo_frames = {f. in_pool demo_frames f}
    | Some (f, s') \<Rightarrow> in_pool demo_frames f \<and> f \<notin> live demo_frames \<and> live s' = insert f (live demo_frames)
        \<and> mem s' = clear_page f (mem demo_frames))
    \<and> live (quanta_frame_release 0x400000 demo_frames) = live demo_frames - {0x400000}"
  by (rule allocator_refines_set [OF demo_history])

text \<open>C39: The pool chosen at boot lies inside one usable region and inside the identity-mapped
  range above 4 MiB, and no page-aligned range of any region that would qualify is larger, as
  long as no region starts in the last page of the address space.\<close>

theorem boot_pool_largest:
  assumes "\<forall>r\<in>set regions. usable r \<longrightarrow> physical_start r \<le> - 0x1000"
    and "r \<in> set regions" "pool_within r p"
  shows "\<exists>s. quanta_memory_initialize regions m = Some s \<and>
    range_size p \<le> range_size (pool_start s, pool_end s) \<and>
    (\<exists>r'\<in>set regions. pool_within r' (pool_start s, pool_end s))"
  using initialize_finds_largest [OF assms, of m] initialize_pool(1) by blast

theorem boot_pool_largest_witness:
  "\<exists>s. quanta_memory_initialize [Region 0x400000 0x100000 1] (\<lambda>_. 0) = Some s \<and>
    range_size (0x400000, 0x500000) \<le> range_size (pool_start s, pool_end s) \<and>
    (\<exists>r'\<in>set [Region 0x400000 0x100000 1]. pool_within r' (pool_start s, pool_end s))"
  by (rule boot_pool_largest [of _ "Region 0x400000 0x100000 1"])
    (simp_all add: usable_def pool_within_def IDENTITY_LIMIT_def page_aligned_def)

text \<open>Frames handed out by successive allocations are pairwise distinct, were all free
  before, and are exactly what the allocations add to the set of allocated frames.\<close>

theorem allocations_distinct:
  assumes "frame_history regions s" "alloc_many quanta_frame_allocate n s = Some (fs, s')"
  shows "distinct fs \<and> length fs = n \<and> set fs \<inter> live s = {} \<and> live s' = set fs \<union> live s"
  using pool.alloc_many_distinct [OF history_inv [OF assms(1)] assms(2)] by blast

theorem allocations_distinct_witness:
  "\<exists>s'. distinct [0x400000 :: u64] \<and> length [0x400000 :: u64] = 1 \<and> set [0x400000] \<inter> live demo_frames = {}
    \<and> live s' = set [0x400000] \<union> live demo_frames"
  using allocations_distinct [OF demo_history, of 1 "[0x400000]"] by (simp add: demo_alloc) blast

end
