(* ===== verification/Paging.thy ===== *)
theory Paging
  imports Frames
begin

text \<open>
  The page tables of \<^verbatim>\<open>kernel/mm/memory.c\<close>: address-space creation, \<open>map_page\<close> with
  its on-demand tables, and the recursive destruction.  \<open>walk\<close> is the processor's
  four-level translation, the abstract meaning of a root.  \<open>owner\<close> assigns to every table
  frame of an address space its place in the tree (the list of indices from the root);
  \<open>tree_ok\<close> says that the assignment describes memory.
\<close>

section \<open>Entries and indices\<close>

definition PAGE_PRESENT :: u64 where "PAGE_PRESENT = 1"
definition PAGE_WRITABLE :: u64 where "PAGE_WRITABLE = 2"
definition PAGE_USER :: u64 where "PAGE_USER = 4"
definition PAGE_NO_EXECUTE :: u64 where "PAGE_NO_EXECUTE = push_bit 63 1"
definition KERNEL_HIGH_PML4_INDEX :: nat where "KERNEL_HIGH_PML4_INDEX = 511"

text \<open>The index of \<open>virtual_address\<close> at the level whose field starts at bit \<open>sh\<close>.\<close>

definition table_index :: "u64 \<Rightarrow> nat \<Rightarrow> nat" where
  "table_index virtual_address sh = unat (drop_bit sh virtual_address AND 0x1ff)"

definition entry_address :: "u64 \<Rightarrow> nat \<Rightarrow> u64" where
  "entry_address table index = table + 8 * of_nat index"

definition entry_base :: "u64 \<Rightarrow> u64" where
  "entry_base entry = entry AND NOT 0xfff"

section \<open>Operations\<close>

definition table_for :: "u64 \<Rightarrow> frames \<Rightarrow> (u64 \<times> frames) option" where
  "table_for entry s =
     (if mem s entry AND PAGE_PRESENT = 0
      then case quanta_frame_allocate_or_panic s of
          None \<Rightarrow> None
        | Some (frame, s1) \<Rightarrow>
            let e = frame OR PAGE_PRESENT OR PAGE_WRITABLE OR PAGE_USER
            in Some (entry_base e, s1\<lparr>mem := (mem s1)(entry := e)\<rparr>)
      else Some (entry_base (mem s entry), s))"

definition quanta_address_space_create :: "frames \<Rightarrow> (u64 \<times> frames) option" where
  "quanta_address_space_create s =
     (case quanta_frame_allocate_or_panic s of
        None \<Rightarrow> None
      | Some (root, s1) \<Rightarrow>
          let active = mem s1 (0x100000 + of_nat KERNEL_HIGH_PML4_INDEX * 8)
          in Some (root, s1\<lparr>mem := (mem s1)(entry_address root KERNEL_HIGH_PML4_INDEX := active)\<rparr>))"

definition quanta_map_page :: "u64 \<Rightarrow> u64 \<Rightarrow> u64 \<Rightarrow> u64 \<Rightarrow> frames \<Rightarrow> frames option" where
  "quanta_map_page root virtual_address physical_address flags s =
     (case table_for (entry_address root (table_index virtual_address 39)) s of
        None \<Rightarrow> None
      | Some (pdpt, s1) \<Rightarrow>
     (case table_for (entry_address pdpt (table_index virtual_address 30)) s1 of
        None \<Rightarrow> None
      | Some (pd, s2) \<Rightarrow>
     (case table_for (entry_address pd (table_index virtual_address 21)) s2 of
        None \<Rightarrow> None
      | Some (pt, s3) \<Rightarrow>
          Some (s3\<lparr>mem := (mem s3)(entry_address pt (table_index virtual_address 12) :=
            (physical_address AND NOT 0xfff) OR flags)\<rparr>))))"

text \<open>
  \<open>destroy_table\<close> recurses on the level, and within a level on the index; the loop reads
  each entry when it reaches it, in the memory its earlier iterations left behind.  The
  loop only runs for \<open>level > 1\<close>, so its \<open>level = 0\<close> branch is never taken; it makes
  the recursion visibly well-founded.
\<close>

fun destroy_table :: "nat \<Rightarrow> u64 \<Rightarrow> frames \<Rightarrow> frames"
  and destroy_entries :: "nat \<Rightarrow> u64 \<Rightarrow> nat \<Rightarrow> frames \<Rightarrow> frames" where
  "destroy_table level table_frame s =
     quanta_frame_release table_frame
       (if level > 1 then destroy_entries level table_frame 512 s else s)"
| "destroy_entries level table_frame 0 s = s"
| "destroy_entries level table_frame (Suc remaining) s =
     (let entry = mem s (entry_address table_frame (512 - Suc remaining)) in
      destroy_entries level table_frame remaining
        (if entry AND PAGE_PRESENT = 0 then s
         else if level < 4 \<and> entry AND push_bit 7 1 \<noteq> 0 then s
         else if level = 0 then s
         else destroy_table (level - 1) (entry_base entry) s))"

declare destroy_table.simps [simp del] destroy_entries.simps [simp del]

primrec destroy_root_entries :: "u64 \<Rightarrow> nat \<Rightarrow> frames \<Rightarrow> frames" where
  "destroy_root_entries root 0 s = s"
| "destroy_root_entries root (Suc remaining) s =
     (let entry = mem s (entry_address root (KERNEL_HIGH_PML4_INDEX - Suc remaining)) in
      destroy_root_entries root remaining
        (if entry AND PAGE_PRESENT \<noteq> 0 then destroy_table 3 (entry_base entry) s else s))"

text \<open>\<open>active_root\<close> is the value read from \<^verbatim>\<open>cr3\<close>.\<close>

definition quanta_address_space_destroy :: "u64 \<Rightarrow> u64 \<Rightarrow> frames \<Rightarrow> frames" where
  "quanta_address_space_destroy active_root page_root s =
     (if \<not> frame_is_allocated s page_root then s
      else if active_root AND NOT 0xfff = page_root then s
      else quanta_frame_release page_root
             (destroy_root_entries page_root KERNEL_HIGH_PML4_INDEX s))"

section \<open>Translation and the tree of tables\<close>

primrec walk_tables :: "memory \<Rightarrow> u64 \<Rightarrow> nat list \<Rightarrow> u64 option" where
  "walk_tables m t [] = Some t"
| "walk_tables m t (i # is) =
     (if m (entry_address t i) AND PAGE_PRESENT = 0 then None
      else walk_tables m (entry_base (m (entry_address t i))) is)"

definition table_path :: "u64 \<Rightarrow> nat list" where
  "table_path va = [table_index va 39, table_index va 30, table_index va 21]"

definition walk :: "memory \<Rightarrow> u64 \<Rightarrow> u64 \<Rightarrow> u64 option" where
  "walk m root va =
     (case walk_tables m root (table_path va) of None \<Rightarrow> None
      | Some pt \<Rightarrow> (let e = m (entry_address pt (table_index va 12)) in
          if e AND PAGE_PRESENT = 0 then None else Some e))"

text \<open>The indices an address space owns: all of a table, but not the kernel's slot of the root.\<close>

definition own_index :: "nat list \<Rightarrow> nat \<Rightarrow> bool" where
  "own_index p i \<longleftrightarrow> i < 512 \<and> (p = [] \<longrightarrow> i < KERNEL_HIGH_PML4_INDEX)"

definition tree_ok :: "(u64 \<rightharpoonup> nat list) \<Rightarrow> u64 \<Rightarrow> frames \<Rightarrow> bool" where
  "tree_ok owner root s \<longleftrightarrow>
     (\<forall>f. owner f = Some [] \<longleftrightarrow> f = root) \<and>
     (\<forall>f p. owner f = Some p \<longrightarrow> f \<in> live s \<and> length p \<le> 3) \<and>
     (\<forall>f p i. owner f = Some p \<and> length p < 3 \<and> own_index p i
        \<and> mem s (entry_address f i) AND PAGE_PRESENT \<noteq> 0 \<longrightarrow>
          owner (entry_base (mem s (entry_address f i))) = Some (p @ [i])
          \<and> mem s (entry_address f i) AND push_bit 7 1 = 0) \<and>
     (\<forall>f p i. owner f = Some (p @ [i]) \<longrightarrow> own_index p i \<and>
        (\<exists>g. owner g = Some p \<and> mem s (entry_address g i) AND PAGE_PRESENT \<noteq> 0
             \<and> entry_base (mem s (entry_address g i)) = f))"

section \<open>Entries\<close>

lemma table_index_less: "table_index va sh < 512"
proof -
  have "drop_bit sh va AND 0x1ff \<le> 0x1ff" by (rule word_and_le1)
  then show ?thesis by (simp add: table_index_def word_le_nat_alt)
qed

lemma in_page_entry_address: "i < 512 \<Longrightarrow> in_page t (entry_address t i)"
  by (auto simp: in_page_def entry_address_def)

lemma entry_address_inject:
  assumes "page_aligned t" "page_aligned u" "i < 512" "j < 512"
  shows "entry_address t i = entry_address u j \<longleftrightarrow> t = u \<and> i = j"
proof
  assume eq: "entry_address t i = entry_address u j"
  have "t = u"
    using in_page_unique [OF assms(1,2), of "entry_address t i"] in_page_entry_address assms(3,4) eq
    by metis
  moreover have "unat t + 8 * i = unat u + 8 * j"
    using eq unat_page_entry [OF assms(1,3)] unat_page_entry [OF assms(2,4)]
    by (simp add: entry_address_def)
  ultimately show "t = u \<and> i = j" by simp
qed simp

lemma new_entry:
  assumes "page_aligned f"
  shows "entry_base (f OR PAGE_PRESENT OR PAGE_WRITABLE OR PAGE_USER) = f"
    and "(f OR PAGE_PRESENT OR PAGE_WRITABLE OR PAGE_USER) AND PAGE_PRESENT \<noteq> 0"
    and "(f OR PAGE_PRESENT OR PAGE_WRITABLE OR PAGE_USER) AND push_bit 7 1 = 0"
proof -
  have "f AND (PAGE_SIZE - 1) = 0" using assms by (simp add: page_mask_eq_0)
  then have low: "f AND mask 12 = 0" by (simp add: PAGE_SIZE_def mask_eq_exp_minus_1)
  have flags: "PAGE_PRESENT OR PAGE_WRITABLE OR PAGE_USER = 7"
    by (simp add: PAGE_PRESENT_def PAGE_WRITABLE_def PAGE_USER_def)
  have bits: "\<not> bit f n" if "n < 12" for n
    using arg_cong [OF low, of "\<lambda>w. bit w n"] that by (simp add: bit_and_iff bit_mask_iff)
  have fff: "(0xfff :: u64) = mask 12" by (simp add: mask_eq_exp_minus_1)
  have seven: "(7 :: u64) = mask 3" by (simp add: mask_eq_exp_minus_1)
  show "entry_base (f OR PAGE_PRESENT OR PAGE_WRITABLE OR PAGE_USER) = f"
    unfolding entry_base_def flags fff seven
    by (rule bit_word_eqI) (use bits in \<open>auto simp: bit_simps not_le\<close>)
  show "(f OR PAGE_PRESENT OR PAGE_WRITABLE OR PAGE_USER) AND PAGE_PRESENT \<noteq> 0"
    unfolding flags by (simp add: PAGE_PRESENT_def and_one_eq odd_iff_mod_2_eq_one [symmetric] bit_simps flip: bit_0)
  have "\<not> bit (f OR mask 3) 7" using bits by (simp add: bit_or_iff bit_mask_iff)
  then show "(f OR PAGE_PRESENT OR PAGE_WRITABLE OR PAGE_USER) AND push_bit 7 1 = 0"
    unfolding flags seven using bit_iff_and_push_bit_not_eq_0 [of "f OR mask 3" 7] by metis
qed

section \<open>Walks stay inside the tree\<close>

lemma tree_okD:
  assumes "tree_ok owner root s"
  shows "owner f = Some [] \<longleftrightarrow> f = root"
    and "owner f = Some p \<Longrightarrow> f \<in> live s" and "owner f = Some p \<Longrightarrow> length p \<le> 3"
    and "owner f = Some p \<Longrightarrow> length p < 3 \<Longrightarrow> own_index p i \<Longrightarrow>
      mem s (entry_address f i) AND PAGE_PRESENT \<noteq> 0 \<Longrightarrow>
      owner (entry_base (mem s (entry_address f i))) = Some (p @ [i])"
    and "owner f = Some p \<Longrightarrow> length p < 3 \<Longrightarrow> own_index p i \<Longrightarrow>
      mem s (entry_address f i) AND PAGE_PRESENT \<noteq> 0 \<Longrightarrow>
      mem s (entry_address f i) AND push_bit 7 1 = 0"
  using assms unfolding tree_ok_def by blast+

lemma tree_ok_parent:
  assumes "tree_ok owner root s" "owner f = Some (p @ [i])"
  obtains g where "own_index p i" "owner g = Some p"
    "mem s (entry_address g i) AND PAGE_PRESENT \<noteq> 0" "entry_base (mem s (entry_address g i)) = f"
  using assms unfolding tree_ok_def by blast

lemma owner_aligned: "tree_ok owner root s \<Longrightarrow> owner f = Some p \<Longrightarrow> page_aligned f"
  by (blast dest: tree_okD(2) live_aligned)

lemma owner_inject:
  assumes ok: "tree_ok owner root s"
  shows "owner f = Some p \<Longrightarrow> owner g = Some p \<Longrightarrow> f = g"
proof (induction p arbitrary: f g rule: rev_induct)
  case Nil
  then show ?case using tree_okD(1) [OF ok] by auto
next
  case (snoc i p)
  from ok snoc.prems(1) obtain f' where f': "owner f' = Some p" "entry_base (mem s (entry_address f' i)) = f"
    by (rule tree_ok_parent)
  from ok snoc.prems(2) obtain g' where g': "owner g' = Some p" "entry_base (mem s (entry_address g' i)) = g"
    by (rule tree_ok_parent)
  from snoc.IH [OF f'(1) g'(1)] f'(2) g'(2) show ?case by simp
qed

fun own_indices :: "nat list \<Rightarrow> nat list \<Rightarrow> bool" where
  "own_indices p [] \<longleftrightarrow> True"
| "own_indices p (i # is) \<longleftrightarrow> own_index p i \<and> own_indices (p @ [i]) is"

lemma walk_tables_owner:
  assumes ok: "tree_ok owner root s"
  shows "owner t = Some p \<Longrightarrow> own_indices p is \<Longrightarrow> length p + length is \<le> 3 \<Longrightarrow>
    walk_tables (mem s) t is = Some t' \<Longrightarrow> owner t' = Some (p @ is)"
proof (induction "is" arbitrary: t p)
  case Nil
  then show ?case by simp
next
  case (Cons i "is")
  have "owner (entry_base (mem s (entry_address t i))) = Some (p @ [i])"
    using Cons.prems by (auto intro!: tree_okD(4) [OF ok] split: if_splits)
  from Cons.IH [OF this] Cons.prems show ?case by (auto split: if_splits)
qed

text \<open>Below a frame whose entries are all zero every walk ends.\<close>

lemma walk_tables_append:
  "walk_tables m t (is @ js) = Option.bind (walk_tables m t is) (\<lambda>u. walk_tables m u js)"
  by (induction "is" arbitrary: t) auto

lemma walk_tables_cong:
  assumes ok: "tree_ok owner root s"
    and same: "\<And>f p i. owner f = Some p \<Longrightarrow> length p < 3 \<Longrightarrow> i < 512 \<Longrightarrow>
      m (entry_address f i) = mem s (entry_address f i)"
  shows "owner t = Some p \<Longrightarrow> own_indices p is \<Longrightarrow> length p + length is \<le> 3 \<Longrightarrow>
    walk_tables m t is = walk_tables (mem s) t is"
proof (induction "is" arbitrary: t p)
  case Nil
  then show ?case by simp
next
  case (Cons i "is")
  have i: "own_index p i" "i < 512" using Cons.prems(2) by (auto simp: own_index_def)
  have eq: "m (entry_address t i) = mem s (entry_address t i)"
    using Cons.prems i by (intro same) auto
  show ?case
  proof (cases "mem s (entry_address t i) AND PAGE_PRESENT = 0")
    case False
    then have "owner (entry_base (mem s (entry_address t i))) = Some (p @ [i])"
      using Cons.prems i by (intro tree_okD(4) [OF ok]) auto
    from Cons.IH [OF this] Cons.prems eq show ?thesis by simp
  qed (simp add: eq)
qed

section \<open>Adding a table\<close>

lemma fresh_table:
  assumes inv: "frames_inv s" and ok: "tree_ok owner root s"
    and t: "owner t = Some p" "length p < 3" "own_index p i"
    and absent: "mem s (entry_address t i) AND PAGE_PRESENT = 0"
    and alloc: "quanta_frame_allocate s = Some (f, s1)"
    and e: "e = f OR PAGE_PRESENT OR PAGE_WRITABLE OR PAGE_USER"
    and s': "s' = s1\<lparr>mem := (mem s1)(entry_address t i := e)\<rparr>"
  shows "frames_inv s' \<and> tree_ok (owner(f \<mapsto> p @ [i])) root s' \<and> owner f = None
    \<and> live s' = insert f (live s) \<and> page_aligned f
    \<and> (\<forall>a. mem s' a = (if a = entry_address t i then e else if in_page f a then 0 else mem s a))"
proof -
  have new: "frames_inv s1" "f \<notin> live s" "live s1 = insert f (live s)" "in_pool s f"
      "mem s1 = clear_page f (mem s)"
    using allocate_refines [OF inv alloc] by auto
  have f: "page_aligned f" using new(4) by (simp add: in_pool_def)
  have none: "owner f = None" using tree_okD(2) [OF ok] new(2) by (cases "owner f") auto
  have t_al: "page_aligned t" by (rule owner_aligned [OF ok t(1)])
  have tf: "t \<noteq> f" using none t(1) by auto
  have i: "i < 512" using t(3) by (simp add: own_index_def)
  have inv': "frames_inv s'"
    unfolding s' using new(1,3) tree_okD(2) [OF ok t(1)] in_page_entry_address [OF i]
    by (intro store_keeps_inv [of _ t]) auto
  have live': "live s' = insert f (live s)" by (simp add: s' new(3))
  have mem': "mem s' a = (if a = entry_address t i then e else if in_page f a then 0 else mem s a)" for a
    by (simp add: s' new(5) clear_page_apply)
  have old: "mem s' (entry_address g j) = (if g = t \<and> j = i then e else mem s (entry_address g j))"
    if "owner g = Some q" "j < 512" for g q j
  proof -
    have "page_aligned g" by (rule owner_aligned [OF ok that(1)])
    moreover have "g \<noteq> f" using none that(1) by auto
    ultimately have "\<not> in_page f (entry_address g j)"
      using in_page_unique [OF _ f in_page_entry_address [OF that(2)]] by auto
    with entry_address_inject [OF \<open>page_aligned g\<close> t_al that(2) i] show ?thesis by (simp add: mem')
  qed
  have zero: "mem s' (entry_address f j) = 0" if "j < 512" for j
    using entry_address_inject [OF f t_al that i] tf in_page_entry_address [OF that] by (simp add: mem')
  have e_base: "entry_base e = f" "e AND PAGE_PRESENT \<noteq> 0" "e AND push_bit 7 1 = 0"
    unfolding e by (rule new_entry [OF f])+
  let ?o = "owner(f \<mapsto> p @ [i])"
  have "tree_ok ?o root s'"
    unfolding tree_ok_def
  proof (intro conjI allI impI; (elim conjE)?)
    show "?o g = Some [] \<longleftrightarrow> g = root" for g
      using tree_okD(1) [OF ok, of g] tree_okD(1) [OF ok, of root] none by auto
    show "g \<in> live s'" if "?o g = Some q" for g q
      using that tree_okD(2) [OF ok] by (auto simp: live' split: if_splits)
    show "length q \<le> 3" if "?o g = Some q" for g q
      using that tree_okD(3) [OF ok] t(2) by (auto split: if_splits)
  next
    fix g q j
    assume g: "?o g = Some q" "length q < 3" "own_index q j"
      and present: "mem s' (entry_address g j) AND PAGE_PRESENT \<noteq> 0"
    have j: "j < 512" using g(3) by (simp add: own_index_def)
    have gf: "g \<noteq> f" using present zero [OF j] by auto
    then have g': "owner g = Some q" using g(1) by simp
    have "?o (entry_base (mem s' (entry_address g j))) = Some (q @ [j])
      \<and> mem s' (entry_address g j) AND push_bit 7 1 = 0"
    proof (cases "g = t \<and> j = i")
      case True
      then show ?thesis using old [OF g' j] e_base t(1) g' by auto
    next
      case False
      then have eq: "mem s' (entry_address g j) = mem s (entry_address g j)"
        using old [OF g' j] by auto
      have "owner (entry_base (mem s (entry_address g j))) = Some (q @ [j])"
        using tree_okD(4) [OF ok g' g(2,3)] present eq by simp
      then show ?thesis using tree_okD(5) [OF ok g' g(2,3)] present eq none by auto
    qed
    then show "?o (entry_base (mem s' (entry_address g j))) = Some (q @ [j])"
      and "mem s' (entry_address g j) AND push_bit 7 1 = 0" by auto
  next
    fix g q j
    assume g: "?o g = Some (q @ [j])"
    have "own_index q j \<and> (\<exists>h. ?o h = Some q \<and> mem s' (entry_address h j) AND PAGE_PRESENT \<noteq> 0
        \<and> entry_base (mem s' (entry_address h j)) = g)"
    proof (cases "g = f")
      case True
      then have "q = p" "j = i" using g by auto
      with True t tf old [OF t(1) i] e_base show ?thesis by (auto intro!: exI [of _ t])
    next
      case False
      then have "owner g = Some (q @ [j])" using g by simp
      from ok this obtain h where h: "own_index q j" "owner h = Some q"
        "mem s (entry_address h j) AND PAGE_PRESENT \<noteq> 0" "entry_base (mem s (entry_address h j)) = g"
        by (rule tree_ok_parent)
      have "\<not> (h = t \<and> j = i)" using h(3) absent by auto
      with old [OF h(2), of j] h(1) have "mem s' (entry_address h j) = mem s (entry_address h j)"
        by (auto simp: own_index_def)
      with h none show ?thesis by (auto intro!: exI [of _ h])
    qed
    then show "own_index q j" and "\<exists>h. ?o h = Some q \<and> mem s' (entry_address h j) AND PAGE_PRESENT \<noteq> 0
        \<and> entry_base (mem s' (entry_address h j)) = g" by auto
  qed
  with inv' none live' f mem' show ?thesis by blast
qed

section \<open>Mapping a page\<close>

lemma present_iff: "w AND PAGE_PRESENT \<noteq> 0 \<longleftrightarrow> bit w 0"
  using bit_iff_and_push_bit_not_eq_0 [of w 0] by (simp add: PAGE_PRESENT_def)

definition leaf_entry :: "memory \<Rightarrow> u64 \<Rightarrow> nat list \<Rightarrow> nat \<Rightarrow> u64 option" where
  "leaf_entry m t is j =
     (case walk_tables m t is of None \<Rightarrow> None
      | Some pt \<Rightarrow> (let e = m (entry_address pt j) in if e AND PAGE_PRESENT = 0 then None else Some e))"

lemma walk_leaf: "walk m root va = leaf_entry m root (table_path va) (table_index va 12)"
  by (simp add: walk_def leaf_entry_def)

lemma leaf_entry_Cons:
  "leaf_entry m t (i # is) j = (if m (entry_address t i) AND PAGE_PRESENT = 0 then None
     else leaf_entry m (entry_base (m (entry_address t i))) is j)"
  by (simp add: leaf_entry_def)

lemma leaf_entry_zero:
  assumes "\<forall>j<512. m (entry_address f j) = 0" and "set (j # is) \<subseteq> {..<512}"
  shows "leaf_entry m f is j = None"
  using assms by (cases "is") (auto simp: leaf_entry_def)

text \<open>Linking a zeroed table where there was none changes no translation.\<close>

lemma leaf_entry_linked:
  assumes ok: "tree_ok owner root s" and t0: "owner t0 = Some p0" "length p0 < 3" "i0 < 512"
    and absent: "mem s (entry_address t0 i0) AND PAGE_PRESENT = 0"
    and zero: "\<forall>j<512. m (entry_address (entry_base (m (entry_address t0 i0))) j) = 0"
    and same: "\<And>g q j. owner g = Some q \<Longrightarrow> j < 512 \<Longrightarrow> \<not> (g = t0 \<and> j = i0) \<Longrightarrow>
      m (entry_address g j) = mem s (entry_address g j)"
  shows "owner t = Some p \<Longrightarrow> own_indices p is \<Longrightarrow> length p + length is = 3 \<Longrightarrow>
    set (j # is) \<subseteq> {..<512} \<Longrightarrow> leaf_entry m t is j = leaf_entry (mem s) t is j"
proof (induction "is" arbitrary: t p)
  case Nil
  have "t \<noteq> t0" using Nil t0 by auto
  then show ?case using same [of t p j] Nil by (simp add: leaf_entry_def)
next
  case (Cons i "is")
  have own: "own_index p i" "length p < 3" and i: "i < 512" and sub: "set (j # is) \<subseteq> {..<512}"
    using Cons.prems by auto
  show ?case
  proof (cases "t = t0 \<and> i = i0")
    case True
    then show ?thesis
      using absent leaf_entry_zero [where m = m and j = j, OF zero sub] by (simp add: leaf_entry_Cons)
  next
    case False
    then have eq: "m (entry_address t i) = mem s (entry_address t i)"
      using same [OF Cons.prems(1) i] by simp
    show ?thesis
    proof (cases "mem s (entry_address t i) AND PAGE_PRESENT = 0")
      case False
      then have "owner (entry_base (mem s (entry_address t i))) = Some (p @ [i])"
        using tree_okD(4) [OF ok Cons.prems(1) own(2,1)] by simp
      from Cons.IH [OF this] Cons.prems eq False show ?thesis by (simp add: leaf_entry_Cons)
    qed (simp add: eq leaf_entry_Cons)
  qed
qed

text \<open>
  What every step of \<open>quanta_map_page\<close> keeps: the invariants, the frames already in use,
  the existing part of the tree and all translations of the lower half.
\<close>

definition user_half :: "u64 \<Rightarrow> bool" where
  "user_half va \<longleftrightarrow> table_index va 39 < KERNEL_HIGH_PML4_INDEX"

definition extends :: "u64 \<Rightarrow> (u64 \<rightharpoonup> nat list) \<Rightarrow> frames \<Rightarrow> (u64 \<rightharpoonup> nat list) \<Rightarrow> frames \<Rightarrow> bool" where
  "extends root owner s owner' s' \<longleftrightarrow> frames_inv s' \<and> tree_ok owner' root s' \<and> owner \<subseteq>\<^sub>m owner'
     \<and> live s' = live s \<union> dom owner' \<and> dom owner' \<inter> live s = dom owner
     \<and> (\<forall>va. user_half va \<longrightarrow> walk (mem s') root va = walk (mem s) root va)
     \<and> (\<forall>f q j. owner f = Some q \<and> j < 512 \<and> mem s (entry_address f j) AND PAGE_PRESENT \<noteq> 0
          \<longrightarrow> mem s' (entry_address f j) = mem s (entry_address f j))"

lemma own_indices_path: "user_half va \<Longrightarrow> own_indices [] (table_path va)"
  by (simp add: table_path_def own_index_def user_half_def table_index_less)

lemma table_path_range: "set (table_index va 12 # table_path va) \<subseteq> {..<512}"
  by (simp add: table_path_def table_index_less)

lemma table_for_step:
  assumes inv: "frames_inv s" and ok: "tree_ok owner root s"
    and t: "owner t = Some p" "length p < 3" "own_index p i"
    and step: "table_for (entry_address t i) s = Some (u, s')"
  obtains owner' where "extends root owner s owner' s'" "owner' u = Some (p @ [i])"
    "mem s' (entry_address t i) AND PAGE_PRESENT \<noteq> 0" "entry_base (mem s' (entry_address t i)) = u"
proof (cases "mem s (entry_address t i) AND PAGE_PRESENT = 0")
  case False
  then have "u = entry_base (mem s (entry_address t i))" "s' = s"
    using step by (auto simp: table_for_def)
  moreover have "dom owner \<subseteq> live s" using tree_okD(2) [OF ok] by auto
  ultimately have "extends root owner s owner s'" using inv ok by (auto simp: extends_def)
  with that [of owner] False \<open>u = _\<close> \<open>s' = s\<close> tree_okD(4) [OF ok t] show ?thesis by simp
next
  case True
  have i: "i < 512" using t(3) by (simp add: own_index_def)
  obtain f s1 where alloc: "quanta_frame_allocate s = Some (f, s1)"
    and u: "u = entry_base (f OR PAGE_PRESENT OR PAGE_WRITABLE OR PAGE_USER)"
    and s': "s' = s1\<lparr>mem := (mem s1)(entry_address t i := f OR PAGE_PRESENT OR PAGE_WRITABLE OR PAGE_USER)\<rparr>"
    using step True by (auto simp: table_for_def quanta_frame_allocate_or_panic_def Let_def split: option.splits)
  from fresh_table [OF inv ok t True alloc refl s']
  have new: "frames_inv s'" "tree_ok (owner(f \<mapsto> p @ [i])) root s'" "owner f = None"
      "live s' = insert f (live s)" and f: "page_aligned f"
    and mem': "\<And>a. mem s' a = (if a = entry_address t i
      then f OR PAGE_PRESENT OR PAGE_WRITABLE OR PAGE_USER else if in_page f a then 0 else mem s a)"
    by auto
  have uf: "u = f" unfolding u by (rule new_entry(1) [OF f])
  have t_al: "page_aligned t" and tf: "t \<noteq> f" using owner_aligned [OF ok t(1)] new(3) t(1) by auto
  have zero: "\<forall>j<512. mem s' (entry_address f j) = 0"
    using entry_address_inject [OF f t_al _ i] tf in_page_entry_address by (simp add: mem')
  have same: "mem s' (entry_address g j) = mem s (entry_address g j)"
    if "owner g = Some q" "j < 512" "\<not> (g = t \<and> j = i)" for g q j
  proof -
    have "page_aligned g" "g \<noteq> f" using owner_aligned [OF ok that(1)] new(3) that(1) by auto
    then have "\<not> in_page f (entry_address g j)"
      using in_page_unique [OF _ f in_page_entry_address [OF that(2)]] by auto
    with entry_address_inject [OF \<open>page_aligned g\<close> t_al that(2) i] that(3) show ?thesis
      by (auto simp: mem')
  qed
  have entry: "mem s' (entry_address t i) AND PAGE_PRESENT \<noteq> 0" "entry_base (mem s' (entry_address t i)) = f"
    using new_entry(1,2) [OF f] by (simp_all add: mem')
  have walks: "walk (mem s') root va = walk (mem s) root va" if "user_half va" for va
    unfolding walk_leaf
    by (rule leaf_entry_linked [OF ok t(1,2) i True _ same _ own_indices_path [OF that] _ table_path_range])
      (use entry zero tree_okD(1) [OF ok, of root] in \<open>auto simp: table_path_def\<close>)
  have kept: "mem s' (entry_address g j) = mem s (entry_address g j)"
    if "owner g = Some q" "j < 512" "mem s (entry_address g j) AND PAGE_PRESENT \<noteq> 0" for g q j
    using same [OF that(1,2)] that(3) True by metis
  have "owner \<subseteq>\<^sub>m owner(f \<mapsto> p @ [i])" using new(3) by (auto simp: map_le_def)
  moreover have "dom owner \<subseteq> live s" using tree_okD(2) [OF ok] by auto
  moreover have "f \<notin> live s" using allocate_refines [OF inv alloc] by simp
  ultimately have "extends root owner s (owner(f \<mapsto> p @ [i])) s'"
    unfolding extends_def using new(1,2,4) walks kept by auto
  from that [OF this] uf entry show ?thesis by simp
qed

lemma extends_trans:
  assumes "extends root o1 s1 o2 s2" "extends root o2 s2 o3 s3"
  shows "extends root o1 s1 o3 s3"
proof -
  have kept: "mem s3 (entry_address g j) = mem s1 (entry_address g j)"
    if "o1 g = Some q" "j < 512" "mem s1 (entry_address g j) AND PAGE_PRESENT \<noteq> 0" for g q j
  proof -
    have "o2 g = Some q" using assms(1) that(1) by (auto simp: extends_def map_le_def dom_def)
    moreover have "mem s2 (entry_address g j) = mem s1 (entry_address g j)"
      using assms(1) that unfolding extends_def by blast
    ultimately show ?thesis using assms(2) that unfolding extends_def by metis
  qed
  have "o1 \<subseteq>\<^sub>m o2" "o2 \<subseteq>\<^sub>m o3" using assms by (simp_all add: extends_def)
  then have "o1 \<subseteq>\<^sub>m o3" by (rule map_le_trans)
  moreover have "dom o2 \<subseteq> dom o3" using assms(2) map_le_implies_dom_le unfolding extends_def by blast
  then have "live s3 = live s1 \<union> dom o3" "dom o3 \<inter> live s1 = dom o1"
    using assms unfolding extends_def by blast+
  ultimately show ?thesis using assms kept unfolding extends_def by simp
qed

lemma extends_owner: "extends root owner s owner' s' \<Longrightarrow> owner f = Some p \<Longrightarrow> owner' f = Some p"
  by (auto simp: extends_def map_le_def dom_def)

lemma table_chain:
  assumes inv: "frames_inv s" and ok: "tree_ok owner root s" and va: "user_half va"
    and s1: "table_for (entry_address root (table_index va 39)) s = Some (pdpt, s1)"
    and s2: "table_for (entry_address pdpt (table_index va 30)) s1 = Some (pd, s2)"
    and s3: "table_for (entry_address pd (table_index va 21)) s2 = Some (pt, s3)"
  obtains owner' where "extends root owner s owner' s3" "owner' pt = Some (table_path va)"
    "walk_tables (mem s3) root (table_path va) = Some pt"
proof -
  have root: "owner root = Some []" using tree_okD(1) [OF ok] by simp
  obtain o1 where o1: "extends root owner s o1 s1" "o1 pdpt = Some ([] @ [table_index va 39])"
    "mem s1 (entry_address root (table_index va 39)) AND PAGE_PRESENT \<noteq> 0"
    "entry_base (mem s1 (entry_address root (table_index va 39))) = pdpt"
    using va table_index_less by (auto intro: table_for_step [OF inv ok root _ _ s1] simp: own_index_def user_half_def)
  then have i1: "frames_inv s1" "tree_ok o1 root s1" by (auto simp: extends_def)
  obtain o2 where o2: "extends root o1 s1 o2 s2" "o2 pd = Some (([] @ [table_index va 39]) @ [table_index va 30])"
    "mem s2 (entry_address pdpt (table_index va 30)) AND PAGE_PRESENT \<noteq> 0"
    "entry_base (mem s2 (entry_address pdpt (table_index va 30))) = pd"
    using table_index_less by (auto intro: table_for_step [OF i1 o1(2) _ _ s2] simp: own_index_def)
  then have i2: "frames_inv s2" "tree_ok o2 root s2" by (auto simp: extends_def)
  obtain o3 where o3: "extends root o2 s2 o3 s3"
    "o3 pt = Some ((([] @ [table_index va 39]) @ [table_index va 30]) @ [table_index va 21])"
    "mem s3 (entry_address pd (table_index va 21)) AND PAGE_PRESENT \<noteq> 0"
    "entry_base (mem s3 (entry_address pd (table_index va 21))) = pt"
    using table_index_less by (auto intro: table_for_step [OF i2 o2(2) _ _ s3] simp: own_index_def)
  have "mem s2 (entry_address root (table_index va 39)) = mem s1 (entry_address root (table_index va 39))"
    using o2(1) o1(3) extends_owner [OF o1(1) root] table_index_less unfolding extends_def by blast
  moreover have "mem s3 (entry_address root (table_index va 39)) = mem s2 (entry_address root (table_index va 39))"
    using o3(1) o1(3) calculation extends_owner [OF o2(1) extends_owner [OF o1(1) root]] table_index_less
    unfolding extends_def by metis
  moreover have "mem s3 (entry_address pdpt (table_index va 30)) = mem s2 (entry_address pdpt (table_index va 30))"
    using o3(1) o2(3) extends_owner [OF o2(1) o1(2)] table_index_less unfolding extends_def by blast
  ultimately have "walk_tables (mem s3) root (table_path va) = Some pt"
    using o1 o2 o3 by (simp add: table_path_def)
  moreover have "extends root owner s o3 s3" by (rule extends_trans [OF o1(1) extends_trans [OF o2(1) o3(1)]])
  ultimately show ?thesis using that o3(2) by (simp add: table_path_def)
qed

definition same_page :: "u64 \<Rightarrow> u64 \<Rightarrow> bool" where
  "same_page va va' \<longleftrightarrow> table_path va = table_path va' \<and> table_index va 12 = table_index va' 12"

lemma leaf_store_tree:
  assumes inv: "frames_inv s" and ok: "tree_ok owner root s" and pt: "owner pt = Some p" "length p = 3"
    and j: "j < 512" and s': "s' = s\<lparr>mem := (mem s)(entry_address pt j := v)\<rparr>"
  shows "frames_inv s' \<and> tree_ok owner root s'
    \<and> (\<forall>f q i. owner f = Some q \<and> length q < 3 \<and> i < 512 \<longrightarrow>
         mem s' (entry_address f i) = mem s (entry_address f i))"
proof -
  have same: "mem s' (entry_address f i) = mem s (entry_address f i)"
    if "owner f = Some q" "length q < 3" "i < 512" for f q i
    using entry_address_inject [OF owner_aligned [OF ok that(1)] owner_aligned [OF ok pt(1)] that(3) j] that pt
    by (auto simp: s')
  have "frames_inv s'"
    unfolding s' by (rule store_keeps_inv [OF inv tree_okD(2) [OF ok pt(1)] in_page_entry_address [OF j]])
  moreover have "tree_ok owner root s'"
    unfolding tree_ok_def
  proof (intro conjI allI impI; (elim conjE)?)
    fix f p i assume f: "owner f = Some p" "length p < 3" "own_index p i"
      and present: "mem s' (entry_address f i) AND PAGE_PRESENT \<noteq> 0"
    have "mem s' (entry_address f i) = mem s (entry_address f i)"
      using same f by (auto simp: own_index_def)
    then show "owner (entry_base (mem s' (entry_address f i))) = Some (p @ [i])"
      and "mem s' (entry_address f i) AND push_bit 7 1 = 0"
      using present tree_okD(4,5) [OF ok f] by auto
  next
    fix f p i assume f: "owner f = Some (p @ [i])"
    from ok f obtain g where g: "own_index p i" "owner g = Some p"
      "mem s (entry_address g i) AND PAGE_PRESENT \<noteq> 0" "entry_base (mem s (entry_address g i)) = f"
      by (rule tree_ok_parent)
    have "length p < 3" using tree_okD(3) [OF ok f] by simp
    with same [OF g(2)] g(1) have "mem s' (entry_address g i) = mem s (entry_address g i)"
      by (simp add: own_index_def)
    with g show "own_index p i"
      and "\<exists>g. owner g = Some p \<and> mem s' (entry_address g i) AND PAGE_PRESENT \<noteq> 0
        \<and> entry_base (mem s' (entry_address g i)) = f" by auto
  qed (use ok in \<open>auto simp: tree_ok_def s'\<close>)
  ultimately show ?thesis using same by blast
qed

lemma map_page_walks:
  assumes inv: "frames_inv s" and ok: "tree_ok owner root s" and va: "user_half va"
    and present: "flags AND PAGE_PRESENT \<noteq> 0"
    and mapped: "quanta_map_page root va pa flags s = Some s'"
  obtains owner' where "frames_inv s'" "tree_ok owner' root s'" "owner \<subseteq>\<^sub>m owner'"
    "live s' = live s \<union> dom owner'" "dom owner' \<inter> live s = dom owner"
    "walk (mem s') root va = Some ((pa AND NOT 0xfff) OR flags)"
    "\<And>va'. user_half va' \<Longrightarrow> \<not> same_page va va' \<Longrightarrow> walk (mem s') root va' = walk (mem s) root va'"
proof -
  obtain pdpt s1 pd s2 pt s3 where chain:
    "table_for (entry_address root (table_index va 39)) s = Some (pdpt, s1)"
    "table_for (entry_address pdpt (table_index va 30)) s1 = Some (pd, s2)"
    "table_for (entry_address pd (table_index va 21)) s2 = Some (pt, s3)"
    and s': "s' = s3\<lparr>mem := (mem s3)(entry_address pt (table_index va 12) := (pa AND NOT 0xfff) OR flags)\<rparr>"
    using mapped by (auto simp: quanta_map_page_def split: option.splits prod.splits)
  from inv ok va chain obtain owner' where ext: "extends root owner s owner' s3"
    and pt: "owner' pt = Some (table_path va)" "walk_tables (mem s3) root (table_path va) = Some pt"
    by (rule table_chain)
  from ext have inv3: "frames_inv s3" and ok3: "tree_ok owner' root s3" and le: "owner \<subseteq>\<^sub>m owner'"
    and lv: "live s3 = live s \<union> dom owner'" "dom owner' \<inter> live s = dom owner"
    and walks: "\<And>va. user_half va \<Longrightarrow> walk (mem s3) root va = walk (mem s) root va"
    by (auto simp: extends_def)
  have len: "length (table_path va) = 3" by (simp add: table_path_def)
  from leaf_store_tree [OF inv3 ok3 pt(1) len table_index_less s']
  have inv': "frames_inv s'" and ok': "tree_ok owner' root s'"
    and same: "\<And>f q i. owner' f = Some q \<Longrightarrow> length q < 3 \<Longrightarrow> i < 512 \<Longrightarrow>
         mem s' (entry_address f i) = mem s3 (entry_address f i)" by auto
  have root: "owner' root = Some []" using tree_okD(1) [OF ok3] by simp
  have tables: "walk_tables (mem s') root (table_path v) = walk_tables (mem s3) root (table_path v)"
    if "user_half v" for v
    by (rule walk_tables_cong [OF ok3 same root own_indices_path [OF that]]) (auto simp: table_path_def)
  have bit0: "((pa AND NOT 0xfff) OR flags) AND PAGE_PRESENT \<noteq> 0"
    using present by (simp only: present_iff bit_or_iff simp_thms)
  have this_walk: "walk (mem s') root va = Some ((pa AND NOT 0xfff) OR flags)"
    using tables [OF va] pt(2) bit0 by (simp add: walk_def s')
  have other: "walk (mem s') root v = walk (mem s) root v" if "user_half v" "\<not> same_page va v" for v
  proof (cases "walk_tables (mem s3) root (table_path v)")
    case None
    then show ?thesis using tables [OF that(1)] walks [OF that(1)] by (simp add: walk_def)
  next
    case (Some pt')
    have "owner' pt' = Some ([] @ table_path v)"
      by (rule walk_tables_owner [OF ok3 root own_indices_path [OF that(1)] _ Some]) (simp add: table_path_def)
    then have pt': "owner' pt' = Some (table_path v)" by simp
    have "entry_address pt' (table_index v 12) \<noteq> entry_address pt (table_index va 12)"
      using entry_address_inject [OF owner_aligned [OF ok3 pt'] owner_aligned [OF ok3 pt(1)]
        table_index_less table_index_less] pt' pt(1) that(2) by (auto simp: same_page_def)
    then show ?thesis using tables [OF that(1)] walks [OF that(1)] Some by (simp add: walk_def s')
  qed
  have "live s' = live s \<union> dom owner'" using lv(1) by (simp add: s')
  from that [OF inv' ok' le this lv(2) this_walk other] show ?thesis .
qed

section \<open>Creation\<close>

lemma create_tree:
  assumes inv: "frames_inv s" and create: "quanta_address_space_create s = Some (root, s')"
  shows "frames_inv s' \<and> tree_ok [root \<mapsto> []] root s' \<and> root \<notin> live s \<and> live s' = insert root (live s)
    \<and> (\<forall>i<KERNEL_HIGH_PML4_INDEX. mem s' (entry_address root i) = 0)"
proof -
  obtain s1 v where alloc: "quanta_frame_allocate s = Some (root, s1)"
    and s': "s' = s1\<lparr>mem := (mem s1)(entry_address root KERNEL_HIGH_PML4_INDEX := v)\<rparr>"
    using create by (auto simp: quanta_address_space_create_def quanta_frame_allocate_or_panic_def Let_def
        split: option.splits)
  have new: "frames_inv s1" "root \<notin> live s" "live s1 = insert root (live s)" "mem s1 = clear_page root (mem s)"
    and al: "page_aligned root"
    using allocate_refines [OF inv alloc] by (auto simp: in_pool_def)
  have zero: "mem s' (entry_address root i) = 0" if "i < KERNEL_HIGH_PML4_INDEX" for i
    using that entry_address_inject [OF al al, of i KERNEL_HIGH_PML4_INDEX] in_page_entry_address [of i root]
    by (auto simp: s' new(4) clear_page_apply KERNEL_HIGH_PML4_INDEX_def)
  have "frames_inv s'"
    unfolding s' using new(3)
    by (intro store_keeps_inv [OF new(1), of root] in_page_entry_address) (auto simp: KERNEL_HIGH_PML4_INDEX_def)
  moreover have "tree_ok [root \<mapsto> []] root s'"
    using new(3) zero by (auto simp: tree_ok_def own_index_def s')
  moreover have "live s' = insert root (live s)" by (simp add: s' new(3))
  ultimately show ?thesis using new(2) zero by blast
qed

section \<open>Destruction\<close>

definition subtree :: "(u64 \<rightharpoonup> nat list) \<Rightarrow> nat list \<Rightarrow> u64 set" where
  "subtree owner p = {f. \<exists>q. owner f = Some (p @ q)}"

lemma tree_ok_ancestor:
  assumes ok: "tree_ok owner root s" and f: "owner f = Some (p @ q)"
  shows "\<exists>g. owner g = Some p"
  using f
proof (induction q arbitrary: f rule: rev_induct)
  case (snoc i q)
  then have "owner f = Some ((p @ q) @ [i])" by simp
  from ok this obtain g where "owner g = Some (p @ q)" by (rule tree_ok_parent)
  then show ?case by (rule snoc.IH)
qed auto

lemma subtree_child:
  assumes ok: "tree_ok owner root s" and t: "owner t = Some p"
    and f: "f \<in> subtree owner (p @ [i])"
  shows "own_index p i" "mem s (entry_address t i) AND PAGE_PRESENT \<noteq> 0" "length p < 3"
proof -
  obtain q where q: "owner f = Some ((p @ [i]) @ q)" using f by (auto simp: subtree_def)
  then show "length p < 3" using tree_okD(3) [OF ok q] by simp
  obtain g where g: "owner g = Some (p @ [i])" using tree_ok_ancestor [OF ok q] by blast
  from ok g obtain h where "own_index p i" "owner h = Some p" "mem s (entry_address h i) AND PAGE_PRESENT \<noteq> 0"
    by (rule tree_ok_parent)
  with owner_inject [OF ok t] show "own_index p i" "mem s (entry_address t i) AND PAGE_PRESENT \<noteq> 0" by auto
qed

lemma subtree_split:
  assumes ok: "tree_ok owner root s" and t: "owner t = Some p"
  shows "subtree owner p = insert t (\<Union>i\<in>{i. own_index p i}. subtree owner (p @ [i]))"
proof (intro set_eqI iffI)
  fix f assume "f \<in> subtree owner p"
  then obtain q where q: "owner f = Some (p @ q)" by (auto simp: subtree_def)
  show "f \<in> insert t (\<Union>i\<in>{i. own_index p i}. subtree owner (p @ [i]))"
  proof (cases q)
    case Nil
    then show ?thesis using q owner_inject [OF ok t, of f] by simp
  next
    case (Cons i r)
    then have "f \<in> subtree owner (p @ [i])" using q by (auto simp: subtree_def)
    with subtree_child(1) [OF ok t this] show ?thesis by blast
  qed
qed (use t in \<open>auto simp: subtree_def\<close>)

lemma entry_outside_subtree:
  assumes ok: "tree_ok owner root s" and t: "owner t = Some p" "i < 512"
  shows "entry_address t i \<notin> subtree owner (p @ [j])"
proof
  assume "entry_address t i \<in> subtree owner (p @ [j])"
  then obtain q where q: "owner (entry_address t i) = Some (p @ j # q)" by (auto simp: subtree_def)
  have "t = entry_address t i"
    by (rule in_page_unique [OF owner_aligned [OF ok t(1)] owner_aligned [OF ok q] in_page_entry_address [OF t(2)]]) simp
  with q t(1) show False by simp
qed

definition freed :: "u64 set \<Rightarrow> frames \<Rightarrow> frames \<Rightarrow> bool" where
  "freed F s s' \<longleftrightarrow> frames_inv s' \<and> live s' = live s - F \<and> (\<forall>a. a \<notin> F \<longrightarrow> mem s' a = mem s a)"

lemma freed_release: "frames_inv s \<Longrightarrow> freed {f} s (quanta_frame_release f s)"
  using release_refines [of s f] by (simp add: freed_def)

lemma freed_trans: "freed F s s1 \<Longrightarrow> freed G s1 s2 \<Longrightarrow> freed (F \<union> G) s s2"
  by (auto simp: freed_def)

lemma freed_invar: "freed F s s' \<Longrightarrow> frames_inv s'"
  by (simp add: freed_def)

lemma freed_none: "frames_inv s \<Longrightarrow> freed {} s s"
  by (simp add: freed_def)

lemma freed_entry:
  assumes fr: "freed F s s'" and ok: "tree_ok owner root s0" and F: "F \<subseteq> dom owner"
    and f: "f \<in> dom owner" "f \<notin> F" "i < 512"
  shows "mem s' (entry_address f i) = mem s (entry_address f i)"
proof -
  have "entry_address f i \<notin> F"
  proof
    assume in_F: "entry_address f i \<in> F"
    have "f = entry_address f i"
      using owner_aligned [OF ok] f(1) F in_F
      by (intro in_page_unique [OF _ _ in_page_entry_address [OF f(3)] in_page_base]) blast+
    with in_F f(2) show False by simp
  qed
  with fr show ?thesis by (simp add: freed_def)
qed

lemma subtree_dom: "subtree owner p \<subseteq> dom owner"
  by (auto simp: subtree_def)

lemma subtree_disjoint: "i \<noteq> j \<Longrightarrow> subtree owner (p @ [i]) \<inter> subtree owner (p @ [j]) = {}"
  by (auto simp: subtree_def)

lemma parent_notin_subtree: "owner t = Some p \<Longrightarrow> t \<notin> subtree owner (p @ [i])"
  by (auto simp: subtree_def)

lemma later_disjoint:
  assumes "owner t = Some p" "i \<notin> I"
  shows "insert t (\<Union>j\<in>I. subtree owner (p @ [j])) \<inter> subtree owner (p @ [i]) = {}"
proof -
  have "subtree owner (p @ [j]) \<inter> subtree owner (p @ [i]) = {}" if "j \<in> I" for j
    using subtree_disjoint that assms(2) by metis
  with parent_notin_subtree [of owner t p, OF assms(1)] show ?thesis by blast
qed

text \<open>
  One level: if destroying a child frees its subtree, the loop over the entries of a
  table frees the subtrees of the remaining entries.
\<close>

definition entries_kept :: "u64 set \<Rightarrow> frames \<Rightarrow> frames \<Rightarrow> bool" where
  "entries_kept F s0 s \<longleftrightarrow> (\<forall>f \<in> F. \<forall>i<512. mem s (entry_address f i) = mem s0 (entry_address f i))"

lemma entries_kept_freed:
  assumes "freed F s s'" and "tree_ok owner root s0" and "F \<subseteq> dom owner"
    and "entries_kept G s0 s" and "H \<subseteq> G" "H \<subseteq> dom owner" "H \<inter> F = {}"
  shows "entries_kept H s0 s'"
  unfolding entries_kept_def
proof (intro ballI allI impI)
  fix f i assume f: "f \<in> H" and i: "i < (512::nat)"
  have "mem s' (entry_address f i) = mem s (entry_address f i)"
    using f i assms(6,7) by (intro freed_entry [OF assms(1-3)]) auto
  also have "\<dots> = mem s0 (entry_address f i)" using assms(4,5) f i by (auto simp: entries_kept_def)
  finally show "mem s' (entry_address f i) = mem s0 (entry_address f i)" .
qed

definition destroys :: "(u64 \<rightharpoonup> nat list) \<Rightarrow> frames \<Rightarrow> nat \<Rightarrow> bool" where
  "destroys owner s0 level \<longleftrightarrow> (\<forall>t p s. owner t = Some p \<and> length p + level = 4 \<and> frames_inv s \<and>
     entries_kept (subtree owner p) s0 s \<longrightarrow> freed (subtree owner p) s (destroy_table level t s))"

lemma destroy_entry_frees:
  assumes ok: "tree_ok owner root s0" and child: "destroys owner s0 level"
    and t: "owner t = Some p" "length p + level = 3" "own_index p i" "1 \<le> level"
    and inv: "frames_inv s" and kept: "entries_kept (insert t (subtree owner (p @ [i]))) s0 s"
  shows "freed (subtree owner (p @ [i])) s
    (if mem s (entry_address t i) AND PAGE_PRESENT = 0 then s
     else destroy_table level (entry_base (mem s (entry_address t i))) s)"
proof (cases "mem s (entry_address t i) AND PAGE_PRESENT = 0")
  case True
  moreover have eq: "mem s (entry_address t i) = mem s0 (entry_address t i)"
    using kept t(3) by (auto simp: entries_kept_def own_index_def)
  ultimately have "subtree owner (p @ [i]) = {}" using subtree_child(2) [OF ok t(1)] by auto
  with True freed_none [OF inv] show ?thesis by simp
next
  case False
  have eq: "mem s (entry_address t i) = mem s0 (entry_address t i)"
    using kept t(3) by (auto simp: entries_kept_def own_index_def)
  then have "owner (entry_base (mem s (entry_address t i))) = Some (p @ [i])"
    using False tree_okD(4) [OF ok t(1) _ t(3)] t(2,4) by simp
  then have "freed (subtree owner (p @ [i])) s (destroy_table level (entry_base (mem s (entry_address t i))) s)"
    using child inv kept t(2) unfolding destroys_def by (auto simp: entries_kept_def)
  with False show ?thesis by simp
qed

lemma destroy_entries_frees:
  assumes ok: "tree_ok owner root s0" and child: "destroys owner s0 level"
    and t: "owner t = Some p" "length p + level = 3" "p \<noteq> []" "1 \<le> level"
  shows "k \<le> 512 \<Longrightarrow> frames_inv s \<Longrightarrow> entries_kept (insert t (\<Union>i\<in>{512 - k..<512}. subtree owner (p @ [i]))) s0 s \<Longrightarrow>
    freed (\<Union>i\<in>{512 - k..<512}. subtree owner (p @ [i])) s (destroy_entries (Suc level) t k s)"
proof (induction k arbitrary: s)
  case 0
  then show ?case by (simp add: destroy_entries.simps freed_none)
next
  case (Suc k)
  let ?i = "512 - Suc k" and ?e = "mem s (entry_address t (512 - Suc k))"
  let ?s1 = "if ?e AND PAGE_PRESENT = 0 then s else destroy_table level (entry_base ?e) s"
  have i: "own_index p ?i" using Suc.prems(1) t(3) by (simp add: own_index_def)
  have range: "{?i..<512} = insert ?i {512 - k..<512}" using Suc.prems(1) by auto
  have fr: "freed (subtree owner (p @ [?i])) s ?s1"
    by (rule destroy_entry_frees [OF ok child t(1,2) i t(4) Suc.prems(2)])
      (use Suc.prems(3) range in \<open>auto simp: entries_kept_def\<close>)
  have kept: "entries_kept (insert t (\<Union>j\<in>{512 - k..<512}. subtree owner (p @ [j]))) s0 ?s1"
  proof (rule entries_kept_freed [OF fr ok subtree_dom Suc.prems(3)])
    show "insert t (\<Union>j\<in>{512 - k..<512}. subtree owner (p @ [j])) \<inter> subtree owner (p @ [?i]) = {}"
      using Suc.prems(1) by (intro later_disjoint [of owner t, OF t(1)]) auto
    show "insert t (\<Union>j\<in>{512 - k..<512}. subtree owner (p @ [j]))
        \<subseteq> insert t (\<Union>j\<in>{?i..<512}. subtree owner (p @ [j]))" unfolding range by blast
    show "insert t (\<Union>j\<in>{512 - k..<512}. subtree owner (p @ [j])) \<subseteq> dom owner"
      using domI [of owner t, OF t(1)] subtree_dom by blast
  qed
  have no_large: "?e AND push_bit 7 1 = 0" if "?e AND PAGE_PRESENT \<noteq> 0"
  proof -
    have "?e = mem s0 (entry_address t ?i)"
      using Suc.prems(3) by (auto simp: entries_kept_def)
    then show ?thesis using tree_okD(5) [OF ok t(1) _ i] that t(2,4) by simp
  qed
  have "destroy_entries (Suc level) t (Suc k) s = destroy_entries (Suc level) t k ?s1"
    using no_large by (simp add: destroy_entries.simps(2) Let_def)
  moreover have "frames_inv ?s1" using fr unfolding freed_def by blast
  then have "freed (\<Union>j\<in>{512 - k..<512}. subtree owner (p @ [j])) ?s1 (destroy_entries (Suc level) t k ?s1)"
    using Suc.IH kept Suc.prems(1) by simp
  ultimately show ?case using freed_trans [OF fr] unfolding range by simp
qed

lemma destroy_table_frees:
  assumes ok: "tree_ok owner root s0"
  shows "level < 3 \<Longrightarrow> destroys owner s0 (Suc level)"
proof (induction level)
  case 0
  show ?case
    unfolding destroys_def
  proof (intro allI impI; elim conjE)
    fix t p s assume t: "owner t = Some p" "length p + Suc 0 = 4" "frames_inv s"
    have "subtree owner (p @ [i]) = {}" for i
      using subtree_child(3) [OF ok t(1)] t(2) by fastforce
    then have "subtree owner p = {t}" using subtree_split [OF ok t(1)] by simp
    then show "freed (subtree owner p) s (destroy_table (Suc 0) t s)"
      using freed_release [OF t(3)] by (simp add: destroy_table.simps)
  qed
next
  case (Suc level)
  then have child: "destroys owner s0 (Suc level)" by simp
  show ?case
    unfolding destroys_def
  proof (intro allI impI; elim conjE)
    fix t p s
    assume t: "owner t = Some p" "length p + Suc (Suc level) = 4" "frames_inv s"
      and kept: "entries_kept (subtree owner p) s0 s"
    have p: "p \<noteq> []" using t(2) Suc.prems by auto
    have all: "{i. own_index p i} = {0..<512}" using p by (auto simp: own_index_def)
    let ?F = "\<Union>i\<in>{0..<512}. subtree owner (p @ [i])"
    have split: "subtree owner p = insert t ?F" using subtree_split [OF ok t(1)] by (simp add: all)
    have "freed ?F s (destroy_entries (Suc (Suc level)) t 512 s)"
      using destroy_entries_frees [OF ok child t(1) _ p, of 512 s] t(2,3) kept by (simp add: split)
    moreover from this have "freed {t} (destroy_entries (Suc (Suc level)) t 512 s) (destroy_table (Suc (Suc level)) t s)"
      unfolding destroy_table.simps [of "Suc (Suc level)"] by (simp add: freed_release freed_invar)
    ultimately have "freed (?F \<union> {t}) s (destroy_table (Suc (Suc level)) t s)" by (rule freed_trans)
    then show "freed (subtree owner p) s (destroy_table (Suc (Suc level)) t s)" by (simp add: split)
  qed
qed

lemma destroy_root_frees:
  assumes ok: "tree_ok owner root s0"
  shows "k \<le> 511 \<Longrightarrow> frames_inv s \<Longrightarrow> entries_kept (insert root (\<Union>i\<in>{511 - k..<511}. subtree owner [i])) s0 s \<Longrightarrow>
    freed (\<Union>i\<in>{511 - k..<511}. subtree owner [i]) s (destroy_root_entries root k s)"
proof (induction k arbitrary: s)
  case 0
  then show ?case by (simp add: freed_none)
next
  case (Suc k)
  let ?i = "511 - Suc k" and ?e = "mem s (entry_address root (511 - Suc k))"
  let ?s1 = "if ?e AND PAGE_PRESENT = 0 then s else destroy_table 3 (entry_base ?e) s"
  have root: "owner root = Some []" using tree_okD(1) [OF ok] by simp
  have child: "destroys owner s0 3" using destroy_table_frees [OF ok, of 2] by (simp add: numeral_3_eq_3)
  have i: "own_index [] ?i" unfolding own_index_def KERNEL_HIGH_PML4_INDEX_def using Suc.prems(1) by linarith
  have range: "{?i..<511} = insert ?i {511 - k..<511}" using Suc.prems(1) by auto
  have fr: "freed (subtree owner [?i]) s ?s1"
    using destroy_entry_frees [OF ok child root _ i _ Suc.prems(2)] Suc.prems(3) range
    by (auto simp: entries_kept_def)
  have kept: "entries_kept (insert root (\<Union>j\<in>{511 - k..<511}. subtree owner [j])) s0 ?s1"
  proof (rule entries_kept_freed [OF fr ok subtree_dom Suc.prems(3)])
    show "insert root (\<Union>j\<in>{511 - k..<511}. subtree owner [j]) \<inter> subtree owner [?i] = {}"
      using Suc.prems(1) later_disjoint [of owner root "[]" ?i "{511 - k..<511}", OF root] by simp
    show "insert root (\<Union>j\<in>{511 - k..<511}. subtree owner [j])
        \<subseteq> insert root (\<Union>j\<in>{?i..<511}. subtree owner [j])" unfolding range by blast
    show "insert root (\<Union>j\<in>{511 - k..<511}. subtree owner [j]) \<subseteq> dom owner"
      using domI [of owner root, OF root] subtree_dom by blast
  qed
  have "destroy_root_entries root (Suc k) s = destroy_root_entries root k ?s1"
    by (simp add: Let_def KERNEL_HIGH_PML4_INDEX_def)
  moreover have "frames_inv ?s1" using fr unfolding freed_def by blast
  then have "freed (\<Union>j\<in>{511 - k..<511}. subtree owner [j]) ?s1 (destroy_root_entries root k ?s1)"
    using Suc.IH kept Suc.prems(1) by simp
  ultimately show ?case using freed_trans [OF fr] unfolding range by simp
qed

lemma destroy_frees_tree:
  assumes inv: "frames_inv s" and ok: "tree_ok owner root s" and active: "active AND NOT 0xfff \<noteq> root"
  shows "freed (dom owner) s (quanta_address_space_destroy active root s)"
proof -
  have root: "owner root = Some []" using tree_okD(1) [OF ok] by simp
  have alloc: "frame_is_allocated s root" using tree_okD(2) [OF ok root] by (simp add: live_def)
  let ?F = "\<Union>i\<in>{0..<511}. subtree owner [i]"
  have all: "{i. own_index [] i} = {0..<511}" by (auto simp: own_index_def KERNEL_HIGH_PML4_INDEX_def)
  have split: "dom owner = insert root ?F"
    using subtree_split [OF ok root] by (simp add: all subtree_def dom_def)
  have "freed ?F s (destroy_root_entries root 511 s)"
    using destroy_root_frees [OF ok, of 511 s] inv by (simp add: entries_kept_def)
  moreover from this have "freed {root} (destroy_root_entries root 511 s)
      (quanta_frame_release root (destroy_root_entries root 511 s))"
    by (intro freed_release freed_invar)
  ultimately have "freed (?F \<union> {root}) s (quanta_frame_release root (destroy_root_entries root 511 s))"
    by (rule freed_trans)
  then show ?thesis
    using alloc active by (simp add: quanta_address_space_destroy_def KERNEL_HIGH_PML4_INDEX_def split)
qed

section \<open>The life of an address space\<close>

text \<open>
  Everything that happens to memory between the creation of an address space and its
  destruction: mappings, frames allocated meanwhile (collected in \<open>U\<close>, the pages of the
  task among them), and stores into those frames.
\<close>

inductive space_history :: "frames \<Rightarrow> u64 \<Rightarrow> u64 set \<Rightarrow> frames \<Rightarrow> bool" for s0 root where
  created: "quanta_address_space_create s0 = Some (root, s) \<Longrightarrow> space_history s0 root {} s"
| mapped: "space_history s0 root U s \<Longrightarrow> user_half va \<Longrightarrow>
    quanta_map_page root va pa flags s = Some s' \<Longrightarrow> space_history s0 root U s'"
| alloc: "space_history s0 root U s \<Longrightarrow> quanta_frame_allocate s = Some (f, s') \<Longrightarrow>
    space_history s0 root (insert f U) s'"
| store: "space_history s0 root U s \<Longrightarrow> p \<in> U \<Longrightarrow> in_page p a \<Longrightarrow>
    space_history s0 root U (s\<lparr>mem := (mem s)(a := v)\<rparr>)"

lemma tree_ok_cong:
  assumes ok: "tree_ok owner root s" and live: "dom owner \<subseteq> live s'"
    and same: "\<And>f i. f \<in> dom owner \<Longrightarrow> i < 512 \<Longrightarrow> mem s' (entry_address f i) = mem s (entry_address f i)"
  shows "tree_ok owner root s'"
  unfolding tree_ok_def
proof (intro conjI allI impI; (elim conjE)?)
  fix f p i assume f: "owner f = Some p" "length p < 3" "own_index p i"
    and present: "mem s' (entry_address f i) AND PAGE_PRESENT \<noteq> 0"
  have "mem s' (entry_address f i) = mem s (entry_address f i)"
    using same f by (auto simp: own_index_def)
  then show "owner (entry_base (mem s' (entry_address f i))) = Some (p @ [i])"
    and "mem s' (entry_address f i) AND push_bit 7 1 = 0"
    using present tree_okD(4,5) [OF ok f] by auto
next
  fix f p i assume f: "owner f = Some (p @ [i])"
  from ok f obtain g where g: "own_index p i" "owner g = Some p"
    "mem s (entry_address g i) AND PAGE_PRESENT \<noteq> 0" "entry_base (mem s (entry_address g i)) = f"
    by (rule tree_ok_parent)
  with same have "mem s' (entry_address g i) = mem s (entry_address g i)" by (auto simp: own_index_def)
  with g show "own_index p i" and "\<exists>g. owner g = Some p \<and> mem s' (entry_address g i) AND PAGE_PRESENT \<noteq> 0
      \<and> entry_base (mem s' (entry_address g i)) = f" by auto
qed (use ok live in \<open>auto simp: tree_ok_def\<close>)

lemma map_page_tree:
  assumes inv: "frames_inv s" and ok: "tree_ok owner root s" and va: "user_half va"
    and mapped: "quanta_map_page root va pa flags s = Some s'"
  obtains owner' where "frames_inv s'" "tree_ok owner' root s'"
    "live s' = live s \<union> dom owner'" "dom owner' \<inter> live s = dom owner"
proof -
  obtain pdpt s1 pd s2 pt s3 where chain:
    "table_for (entry_address root (table_index va 39)) s = Some (pdpt, s1)"
    "table_for (entry_address pdpt (table_index va 30)) s1 = Some (pd, s2)"
    "table_for (entry_address pd (table_index va 21)) s2 = Some (pt, s3)"
    and s': "s' = s3\<lparr>mem := (mem s3)(entry_address pt (table_index va 12) := (pa AND NOT 0xfff) OR flags)\<rparr>"
    using mapped by (auto simp: quanta_map_page_def split: option.splits prod.splits)
  from inv ok va chain obtain owner' where ext: "extends root owner s owner' s3"
    and pt: "owner' pt = Some (table_path va)" "walk_tables (mem s3) root (table_path va) = Some pt"
    by (rule table_chain)
  from ext have 3: "frames_inv s3" "tree_ok owner' root s3"
    "live s3 = live s \<union> dom owner'" "dom owner' \<inter> live s = dom owner" by (auto simp: extends_def)
  have len: "length (table_path va) = 3" by (simp add: table_path_def)
  from leaf_store_tree [OF 3(1,2) pt(1) len table_index_less s'] 3(3,4) that show ?thesis
    by (auto simp: s')
qed

definition space_account :: "frames \<Rightarrow> u64 \<Rightarrow> u64 set \<Rightarrow> frames \<Rightarrow> (u64 \<rightharpoonup> nat list) \<Rightarrow> bool" where
  "space_account s0 root U s owner \<longleftrightarrow> frames_inv s \<and> tree_ok owner root s
     \<and> live s = live s0 \<union> U \<union> dom owner \<and> dom owner \<inter> (live s0 \<union> U) = {}"

lemma tree_ok_outside:
  assumes ok: "tree_ok owner root s" and f: "f \<in> dom owner" "i < 512" and p: "page_aligned p" "p \<notin> dom owner"
  shows "\<not> in_page p (entry_address f i)"
proof -
  have "page_aligned f" using f(1) owner_aligned [OF ok] by blast
  with in_page_unique [OF p(1) this] in_page_entry_address [OF f(2)] f(1) p(2) show ?thesis by metis
qed

lemma space_history_account:
  assumes inv: "frames_inv s0"
  shows "space_history s0 root U s \<Longrightarrow> \<exists>owner. space_account s0 root U s owner"
proof (induction rule: space_history.induct)
  case (created s)
  from create_tree [OF inv created] have "space_account s0 root {} s [root \<mapsto> []]"
    by (auto simp: space_account_def)
  then show ?case by blast
next
  case (mapped U s va pa flags s')
  then obtain owner where acc: "space_account s0 root U s owner" by blast
  then have inv: "frames_inv s" and ok: "tree_ok owner root s" by (simp_all add: space_account_def)
  from inv ok mapped.hyps(2,3) obtain owner' where "frames_inv s'" "tree_ok owner' root s'"
    "live s' = live s \<union> dom owner'" "dom owner' \<inter> live s = dom owner" by (rule map_page_tree)
  with acc have "space_account s0 root U s' owner'" unfolding space_account_def by blast
  then show ?case by blast
next
  case (alloc U s f s')
  then obtain owner where acc: "space_account s0 root U s owner" by blast
  then have inv: "frames_inv s" and ok: "tree_ok owner root s" and dom: "dom owner \<subseteq> live s"
    by (auto simp: space_account_def)
  from allocate_refines [OF inv alloc.hyps(2)] have new: "frames_inv s'" "f \<notin> live s"
    "live s' = insert f (live s)" "mem s' = clear_page f (mem s)" and al: "page_aligned f"
    by (auto simp: in_pool_def)
  have "tree_ok owner root s'"
  proof (rule tree_ok_cong [OF ok])
    show "dom owner \<subseteq> live s'" using dom new(3) by blast
    show "mem s' (entry_address g i) = mem s (entry_address g i)" if "g \<in> dom owner" "i < 512" for g i
      using tree_ok_outside [OF ok that al] dom new(2,4) by (auto simp: clear_page_apply)
  qed
  with acc new have "space_account s0 root (insert f U) s' owner"
    unfolding space_account_def by blast
  then show ?case by blast
next
  case (store U s p a v)
  then obtain owner where acc: "space_account s0 root U s owner" by blast
  let ?s' = "s\<lparr>mem := (mem s)(a := v)\<rparr>"
  from acc have inv: "frames_inv s" and ok: "tree_ok owner root s" and p: "p \<in> live s" "p \<notin> dom owner"
    and dom: "dom owner \<subseteq> live s" using store.hyps(2) by (auto simp: space_account_def)
  have "tree_ok owner root ?s'"
  proof (rule tree_ok_cong [OF ok])
    show "mem ?s' (entry_address g i) = mem s (entry_address g i)" if "g \<in> dom owner" "i < 512" for g i
      using tree_ok_outside [OF ok that live_aligned [OF p(1)] p(2)] store.hyps(3) by auto
  qed (use dom in simp)
  with acc store_keeps_inv [OF inv p(1) store.hyps(3)] have "space_account s0 root U ?s' owner"
    by (simp add: space_account_def)
  then show ?case by blast
qed

lemma space_destroy_exact:
  assumes inv: "frames_inv s0" and hist: "space_history s0 root U s"
    and active: "active AND NOT 0xfff \<noteq> root"
  shows "frames_inv (quanta_address_space_destroy active root s)
    \<and> live (quanta_address_space_destroy active root s) = live s0 \<union> U"
proof -
  obtain owner where acc: "space_account s0 root U s owner"
    using space_history_account [OF inv hist] by blast
  then have "freed (dom owner) s (quanta_address_space_destroy active root s)"
    using destroy_frees_tree active by (simp add: space_account_def)
  with acc show ?thesis unfolding space_account_def freed_def by blast
qed

section \<open>Enough frames\<close>

definition free_frames :: "frames \<Rightarrow> u64 set" where
  "free_frames s = {f. in_pool s f} - live s"

lemma table_for_succeeds:
  assumes inv: "frames_inv s" and free: "Suc n \<le> card (free_frames s)"
  shows "\<exists>u s'. table_for entry s = Some (u, s') \<and> n \<le> card (free_frames s')"
proof (cases "mem s entry AND PAGE_PRESENT = 0")
  case True
  have "quanta_frame_allocate s \<noteq> None"
  proof
    assume "quanta_frame_allocate s = None"
    with allocate_None_full [OF inv] have "free_frames s = {}" by (auto simp: free_frames_def)
    with free show False by simp
  qed
  then obtain f s1 where alloc: "quanta_frame_allocate s = Some (f, s1)" by auto
  from allocate_refines [OF inv this] have "free_frames s1 = free_frames s - {f}"
    by (auto simp: free_frames_def in_pool_def)
  then have "n \<le> card (free_frames s1)" using free by (cases "f \<in> free_frames s") (simp_all add: card_Diff_singleton_if)
  moreover have "free_frames (s1\<lparr>mem := m\<rparr>) = free_frames s1" for m by (simp add: free_frames_def in_pool_def)
  ultimately show ?thesis
    using True alloc by (simp add: table_for_def quanta_frame_allocate_or_panic_def Let_def)
qed (use free in \<open>simp add: table_for_def\<close>)

lemma map_page_succeeds:
  assumes inv: "frames_inv s" and ok: "tree_ok owner root s" and va: "user_half va"
    and free: "3 \<le> card (free_frames s)"
  shows "\<exists>s'. quanta_map_page root va pa flags s = Some s'"
proof -
  have own: "own_index [] (table_index va 39)" "own_index [i] j = (j < 512)" "own_index [i, j] l = (l < 512)" for i j l
    using va by (simp_all add: own_index_def user_half_def table_index_less)
  have root: "owner root = Some []" using tree_okD(1) [OF ok] by simp
  obtain t1 s1 where 1: "table_for (entry_address root (table_index va 39)) s = Some (t1, s1)" "2 \<le> card (free_frames s1)"
    using table_for_succeeds [OF inv, of 2] free by (auto simp: numeral_3_eq_3 numeral_2_eq_2) blast
  from inv ok root _ own(1) 1(1) obtain o1 where e1: "extends root owner s o1 s1" "o1 t1 = Some ([] @ [table_index va 39])"
    by (rule table_for_step) simp
  then have i1: "frames_inv s1" "tree_ok o1 root s1" "o1 t1 = Some [table_index va 39]" by (simp_all add: extends_def)
  obtain t2 s2 where 2: "table_for (entry_address t1 (table_index va 30)) s1 = Some (t2, s2)" "1 \<le> card (free_frames s2)"
    using table_for_succeeds [OF i1(1), of 1] 1(2) by (auto simp: numeral_2_eq_2) blast
  from i1(1,2,3) _ _ 2(1) obtain o2 where e2: "extends root o1 s1 o2 s2"
    by (rule table_for_step) (simp_all add: own table_index_less)
  then have "frames_inv s2" by (simp add: extends_def)
  from table_for_succeeds [OF this, of 0] 2(2)
  obtain t3 s3 where 3: "table_for (entry_address t2 (table_index va 21)) s2 = Some (t3, s3)" by auto blast
  from 1(1) 2(1) 3 show ?thesis by (simp add: quanta_map_page_def)
qed

section \<open>An address space on the demonstration machine\<close>

definition demo_space :: frames where
  "demo_space = snd (the (quanta_address_space_create demo_frames))"

lemma demo_create: "quanta_address_space_create demo_frames = Some (0x400000, demo_space)"
  by (simp add: demo_space_def quanta_address_space_create_def quanta_frame_allocate_or_panic_def demo_alloc)

lemma demo_space_history: "space_history demo_frames 0x400000 {} demo_space"
  by (rule space_history.created [OF demo_create])

lemma demo_space_tree: "frames_inv demo_space" "tree_ok [0x400000 \<mapsto> []] 0x400000 demo_space"
  and demo_space_live: "live demo_space = {0x400000}"
  using create_tree [OF demo_inv(1) demo_create] demo_inv(2) by simp_all

lemma demo_space_pool: "pool_start demo_space = 0x400000" "pool_end demo_space = 0x500000"
proof -
  have pool: "pool_start demo_frames = 0x400000" "pool_end demo_frames = 0x500000" by (simp_all add: demo_frames_def)
  show "pool_start demo_space = 0x400000" "pool_end demo_space = 0x500000"
    by (simp_all add: demo_space_def quanta_address_space_create_def quanta_frame_allocate_or_panic_def
        demo_alloc pool)
qed

lemma demo_space_free: "3 \<le> card (free_frames demo_space)"
proof -
  have "{0x401000, 0x402000, 0x403000} \<subseteq> free_frames demo_space"
    by (simp add: free_frames_def in_pool_def demo_space_live demo_space_pool page_aligned_def)
  then have "card {0x401000, 0x402000, 0x403000 :: u64} \<le> card (free_frames demo_space)"
    by (intro card_mono) simp_all
  then show ?thesis by simp
qed

lemma demo_user_half: "user_half 0x400000"
  by (simp add: user_half_def table_index_def KERNEL_HIGH_PML4_INDEX_def)

section \<open>Properties\<close>

text \<open>C6: Mapping a page of an address space into its user half makes the walk of the four
  levels of tables return exactly the frame and the flags that were asked for, and leaves the
  walk of every other page of the user half as it was.\<close>

theorem mapped_page_translates:
  assumes "frames_inv s0" "space_history s0 root U s" "user_half va" "flags AND PAGE_PRESENT \<noteq> 0"
    and "quanta_map_page root va pa flags s = Some s'"
  shows "walk (mem s') root va = Some ((pa AND NOT 0xfff) OR flags)
    \<and> (\<forall>va'. user_half va' \<and> \<not> same_page va va' \<longrightarrow> walk (mem s') root va' = walk (mem s) root va')"
proof -
  obtain owner where acc: "space_account s0 root U s owner"
    using space_history_account [OF assms(1,2)] by blast
  then have "frames_inv s" "tree_ok owner root s" by (simp_all add: space_account_def)
  from this assms(3-5) show ?thesis by (rule map_page_walks) blast
qed

theorem mapped_page_translates_witness:
  "\<exists>s'. quanta_map_page 0x400000 0x400000 0xb8000 7 demo_space = Some s' \<and>
     walk (mem s') 0x400000 0x400000 = Some ((0xb8000 AND NOT 0xfff) OR 7)
     \<and> (\<forall>va'. user_half va' \<and> \<not> same_page 0x400000 va' \<longrightarrow>
          walk (mem s') 0x400000 va' = walk (mem demo_space) 0x400000 va')"
proof -
  obtain s' where m: "quanta_map_page 0x400000 0x400000 0xb8000 7 demo_space = Some s'"
    using map_page_succeeds [OF demo_space_tree demo_user_half demo_space_free] by blast
  have "(7 :: u64) AND PAGE_PRESENT \<noteq> 0" by (simp add: PAGE_PRESENT_def)
  from mapped_page_translates [OF demo_inv(1) demo_space_history demo_user_half this m] m
  show ?thesis by blast
qed

text \<open>C34: A mapping in the user half of an address space succeeds whenever three frames are free,
  one for each level of tables below the root.\<close>

theorem mapping_succeeds:
  assumes "frames_inv s0" "space_history s0 root U s" "user_half va" "3 \<le> card (free_frames s)"
  shows "\<exists>s'. quanta_map_page root va pa flags s = Some s'"
proof -
  obtain owner where acc: "space_account s0 root U s owner"
    using space_history_account [OF assms(1,2)] by blast
  then have "frames_inv s" "tree_ok owner root s" by (simp_all add: space_account_def)
  from this assms(3,4) show ?thesis by (rule map_page_succeeds)
qed

theorem mapping_succeeds_witness:
  "\<exists>s'. quanta_map_page 0x400000 0x400000 0xb8000 7 demo_space = Some s'"
  by (rule mapping_succeeds [OF demo_inv(1) demo_space_history demo_user_half demo_space_free])

text \<open>C5: Destroying an address space that is not the active one releases its root and all its
  tables and nothing else: what is allocated afterwards is what was allocated before the space was
  created, and the frames other owners have allocated since.\<close>

theorem space_destroy_releases_tables:
  assumes "frames_inv s0" "space_history s0 root U s" "active AND NOT 0xfff \<noteq> root"
  shows "frames_inv (quanta_address_space_destroy active root s)
    \<and> live (quanta_address_space_destroy active root s) = live s0 \<union> U"
  by (rule space_destroy_exact [OF assms])

theorem space_destroy_releases_tables_witness:
  "frames_inv (quanta_address_space_destroy 0x100000 0x400000 demo_space)
    \<and> live (quanta_address_space_destroy 0x100000 0x400000 demo_space) = live demo_frames \<union> {}"
  by (rule space_destroy_releases_tables [OF demo_inv(1) demo_space_history]) simp

end
