(* ===== verification/Storage.thy ===== *)
theory Storage
  imports Prelude
begin

text \<open>
  The block layer: \<^verbatim>\<open>kernel/vfs/storage.c\<close> and, below it, the entry points of
  \<^verbatim>\<open>kernel/arch/x86_64/tables.c\<close> that reach a drive.  A drive is hardware: a \<open>drive\<close>
  holds what its answers depend on, its sectors and the sectors on which a command fails,
  and a failing write may leave anything in the one sector it was aimed at.  The locale
  \<open>sector_store\<close> states what a client relies on and derives reading and writing of byte
  ranges; it is interpreted on the boot device, which is what the file systems and the
  account records use.
\<close>

section \<open>State\<close>

record drive =
  present :: bool
  sectors :: u64
  platter :: "u32 \<Rightarrow> byte list"
  read_fault :: "u32 \<Rightarrow> bool"
  write_fault :: "u32 \<Rightarrow> byte list option"

text \<open>
  \<open>live_base\<close>, \<open>live_sectors\<close> and \<open>live_image\<close> are \<^verbatim>\<open>memory_storage\<close> and the image it
  points to; \<open>disk_count\<close> and \<open>live_count\<close> are the \<^verbatim>\<open>sector_count\<close> fields of the static
  device descriptors; \<open>markers\<close> is what the diagnostic port has received, oldest first.
\<close>

record machine =
  drives :: "nat \<Rightarrow> drive"
  live_base :: u64
  live_sectors :: u64
  live_image :: "u32 \<Rightarrow> byte list"
  disk_count :: "nat \<Rightarrow> u64"
  live_count :: u64
  markers :: "string list"

datatype device = Disk nat | Live

definition write_marker :: "string \<Rightarrow> machine \<Rightarrow> machine" where
  "write_marker text s = s\<lparr>markers := markers s @ [text]\<rparr>"

section \<open>Drive access\<close>

definition ata_sector_count :: "machine \<Rightarrow> nat \<Rightarrow> u64" where
  "ata_sector_count s device_index =
     (if device_index \<ge> 4 \<or> \<not> present (drives s device_index) then 0
      else sectors (drives s device_index))"

text \<open>The bounds checks of the drive commands; \<open>None\<close> and \<open>False\<close> are the result -1.\<close>

definition ata_accepts :: "machine \<Rightarrow> nat \<Rightarrow> u32 \<Rightarrow> bool" where
  "ata_accepts s device_index lba \<longleftrightarrow>
     \<not> (device_index \<ge> 4 \<or> \<not> present (drives s device_index)) \<and>
     \<not> (ucast lba \<ge> sectors (drives s device_index) \<or> lba \<ge> push_bit 28 1)"

definition ata_read :: "machine \<Rightarrow> nat \<Rightarrow> u32 \<Rightarrow> byte list option" where
  "ata_read s device_index lba =
     (if \<not> ata_accepts s device_index lba then None
      else if read_fault (drives s device_index) lba then None
      else Some (platter (drives s device_index) lba))"

definition ata_write :: "machine \<Rightarrow> nat \<Rightarrow> u32 \<Rightarrow> byte list \<Rightarrow> bool \<times> machine" where
  "ata_write s device_index lba buffer =
     (if \<not> ata_accepts s device_index lba then (False, s)
      else let d = drives s device_index in
        case write_fault d lba of
          Some left \<Rightarrow>
            (False, s\<lparr>drives := (drives s)(device_index := d\<lparr>platter := (platter d)(lba := left)\<rparr>)\<rparr>)
        | None \<Rightarrow>
            (True, s\<lparr>drives := (drives s)(device_index := d\<lparr>platter := (platter d)(lba := buffer)\<rparr>)\<rparr>))"

definition memory_storage_read :: "machine \<Rightarrow> u32 \<Rightarrow> byte list option" where
  "memory_storage_read s lba =
     (if live_base s = 0 \<or> ucast lba \<ge> live_sectors s then None else Some (live_image s lba))"

section \<open>Devices\<close>

definition live_available :: "machine \<Rightarrow> bool" where
  "live_available s \<longleftrightarrow> live_base s \<noteq> 0 \<and> live_sectors s \<noteq> 0"

definition device_name :: "device \<Rightarrow> byte list" where
  "device_name d = (case d of Live \<Rightarrow> str ''live''
     | Disk n \<Rightarrow> str ''disk'' @ [of_nat n + 48])"

definition sector_count :: "machine \<Rightarrow> device \<Rightarrow> u64" where
  "sector_count s d = (case d of Live \<Rightarrow> live_count s | Disk n \<Rightarrow> disk_count s n)"

primrec device_read :: "device \<Rightarrow> machine \<Rightarrow> u32 \<Rightarrow> byte list option" where
  "device_read (Disk n) s sector = ata_read s n sector"
| "device_read Live s sector = memory_storage_read s sector"

text \<open>The \<^verbatim>\<open>write\<close> pointer of the live device is null.\<close>

primrec device_write :: "device \<Rightarrow> (machine \<Rightarrow> u32 \<Rightarrow> byte list \<Rightarrow> bool \<times> machine) option" where
  "device_write (Disk n) = Some (\<lambda>s sector buffer. ata_write s n sector buffer)"
| "device_write Live = None"

definition detected_disk_count :: "machine \<Rightarrow> u32 \<times> machine" where
  "detected_disk_count s =
     foldl (\<lambda>(count, s) index.
         let n = ata_sector_count s index;
             s1 = s\<lparr>disk_count := (disk_count s)(index := n)\<rparr>
         in (if n \<noteq> 0 then count + 1 else count, s1)) (0, s) [0..<4]"

definition quanta_storage_boot_device :: "machine \<Rightarrow> device option" where
  "quanta_storage_boot_device s =
     (if live_available s then Some Live
      else if ata_sector_count s 0 \<noteq> 0 then Some (Disk 0) else None)"

definition quanta_storage_device_count :: "machine \<Rightarrow> u32 \<times> machine" where
  "quanta_storage_device_count s =
     (let s1 = s\<lparr>live_count := live_sectors s\<rparr>;
          (count, s2) = detected_disk_count s1
      in (count + (if live_available s2 then 1 else 0), s2))"

text \<open>The loop over the four disks: the result, or the number of disks passed.\<close>

fun device_at_from :: "nat list \<Rightarrow> u32 \<Rightarrow> u32 \<Rightarrow> machine \<Rightarrow> (device + u32) \<times> machine" where
  "device_at_from [] output index s = (Inr output, s)"
| "device_at_from (disk # disks) output index s =
     (let n = ata_sector_count s disk;
          s1 = s\<lparr>disk_count := (disk_count s)(disk := n)\<rparr>
      in if n = 0 then device_at_from disks output index s1
         else if output = index then (Inl (Disk disk), s1)
         else device_at_from disks (output + 1) index s1)"

definition quanta_storage_device_at :: "u32 \<Rightarrow> machine \<Rightarrow> device option \<times> machine" where
  "quanta_storage_device_at index s =
     (case device_at_from [0..<4] 0 index s of
        (Inl d, s1) \<Rightarrow> (Some d, s1)
      | (Inr output, s1) \<Rightarrow>
          if output = index \<and> live_available s1
          then (Some Live, s1\<lparr>live_count := live_sectors s1\<rparr>)
          else (None, s1))"

definition quanta_block_device_read :: "device option \<Rightarrow> u64 \<Rightarrow> machine \<Rightarrow> byte list option" where
  "quanta_block_device_read device sector s =
     (case device of None \<Rightarrow> None
      | Some d \<Rightarrow>
          if sector > 0xffffffff then None
          else if sector_count s d \<noteq> 0 \<and> sector \<ge> sector_count s d then None
          else device_read d s (ucast sector))"

definition quanta_block_device_write ::
    "device option \<Rightarrow> u64 \<Rightarrow> byte list \<Rightarrow> machine \<Rightarrow> bool \<times> machine" where
  "quanta_block_device_write device sector buffer s =
     (case device of None \<Rightarrow> (False, s)
      | Some d \<Rightarrow>
          (case device_write d of None \<Rightarrow> (False, s)
           | Some write \<Rightarrow>
               if sector > 0xffffffff then (False, s)
               else if sector_count s d \<noteq> 0 \<and> sector \<ge> sector_count s d then (False, s)
               else write s (ucast sector) buffer))"

lemma ata_sector_count_update [simp]:
  "ata_sector_count (s\<lparr>disk_count := f\<rparr>) = ata_sector_count s"
  "ata_sector_count (s\<lparr>live_count := n\<rparr>) = ata_sector_count s"
  "ata_sector_count (s\<lparr>markers := m\<rparr>) = ata_sector_count s"
  by (simp_all add: ata_sector_count_def fun_eq_iff)

lemma live_available_update [simp]:
  "live_available (s\<lparr>disk_count := f\<rparr>) = live_available s"
  "live_available (s\<lparr>live_count := n\<rparr>) = live_available s"
  "live_available (s\<lparr>drives := d\<rparr>) = live_available s"
  "live_available (s\<lparr>markers := m\<rparr>) = live_available s"
  by (simp_all add: live_available_def)

lemma detected_disk_count_eq:
  "detected_disk_count s =
     (of_nat (length (filter (\<lambda>i. ata_sector_count s i \<noteq> 0) [0..<4])),
      s\<lparr>disk_count := (\<lambda>i. if i < 4 then ata_sector_count s i else disk_count s i)\<rparr>)"
proof -
  have u: "[0..<4] = [0, 1, 2, 3 :: nat]" by (simp add: upt_rec)
  have f: "(disk_count s)(0 := ata_sector_count s 0, Suc 0 := ata_sector_count s (Suc 0),
      2 := ata_sector_count s 2, 3 := ata_sector_count s 3)
    = (\<lambda>i. if i < 4 then ata_sector_count s i else disk_count s i)"
    by (auto simp: fun_eq_iff numeral_eq_Suc less_Suc_eq)
  show ?thesis unfolding detected_disk_count_def u by (simp add: Let_def f)
qed

definition device_list :: "machine \<Rightarrow> device list" where
  "device_list s = map Disk (filter (\<lambda>i. ata_sector_count s i \<noteq> 0) [0..<4])
     @ (if live_available s then [Live] else [])"

lemma length_device_list: "length (device_list s) \<le> 5"
proof -
  have "length (filter (\<lambda>i. ata_sector_count s i \<noteq> 0) [0..<4]) \<le> length [0..<4]" by (rule length_filter_le)
  then show ?thesis by (simp add: device_list_def)
qed

lemma device_count_list:
  "quanta_storage_device_count s = (of_nat (length (device_list s)),
     s\<lparr>live_count := live_sectors s,
       disk_count := (\<lambda>i. if i < 4 then ata_sector_count s i else disk_count s i)\<rparr>)"
  by (simp add: quanta_storage_device_count_def detected_disk_count_eq device_list_def Let_def
      cong: if_cong)

lemma device_count_bound: "unat (fst (quanta_storage_device_count s)) \<le> 5"
  using length_device_list [of s] by (simp add: device_count_list unat_of_nat)

lemma device_count_less: "(count, s1) = quanta_storage_device_count s \<Longrightarrow> unat count \<le> 5"
  using device_count_bound [of s] by (metis fst_conv)

function find_device_from :: "byte list \<Rightarrow> nat \<Rightarrow> machine \<Rightarrow> device option \<times> machine" where
  "find_device_from name index s =
     (let (count, s1) = quanta_storage_device_count s in
      if index < unat count
      then let (device, s2) = quanta_storage_device_at (of_nat index) s1 in
        (case device of None \<Rightarrow> find_device_from name (index + 1) s2
         | Some d \<Rightarrow> if text_equal name (device_name d) then (Some d, s2)
             else find_device_from name (index + 1) s2)
      else (None, s1))"
  by auto
termination
  by (relation "measure (\<lambda>(name, index, s). 5 - index)") (auto dest!: device_count_less)

declare find_device_from.simps [simp del]

definition quanta_storage_find_device :: "byte list option \<Rightarrow> machine \<Rightarrow> device option \<times> machine" where
  "quanta_storage_find_device name s =
     (case name of None \<Rightarrow> (None, s) | Some n \<Rightarrow> find_device_from n 0 s)"

section \<open>Enumeration\<close>

definition counts_only :: "machine \<Rightarrow> machine \<Rightarrow> bool" where
  "counts_only s s' \<longleftrightarrow> (\<exists>f n. s' = s\<lparr>disk_count := f, live_count := n\<rparr>)"

lemma counts_only_refl [simp]: "counts_only s s"
  unfolding counts_only_def by (intro exI [of _ "disk_count s"] exI [of _ "live_count s"]) simp

lemma counts_only_trans: "counts_only s s1 \<Longrightarrow> counts_only s1 s2 \<Longrightarrow> counts_only s s2"
  unfolding counts_only_def by force

lemma counts_only_disk: "counts_only s (s\<lparr>disk_count := f\<rparr>)"
  unfolding counts_only_def by (intro exI [of _ f] exI [of _ "live_count s"]) simp

lemma counts_only_live: "counts_only s (s\<lparr>live_count := n\<rparr>)"
  unfolding counts_only_def by (intro exI [of _ "disk_count s"] exI [of _ n]) simp

lemma device_list_counts: "counts_only s s' \<Longrightarrow> device_list s' = device_list s"
  by (auto simp: counts_only_def device_list_def)

lemma device_count_counts:
  "counts_only s (snd (quanta_storage_device_count s))"
  using counts_only_trans [OF counts_only_live counts_only_disk] by (simp add: device_count_list)

lemma device_at_from_list:
  assumes "unat out + length disks < 2 ^ 32"
  shows "fst (device_at_from disks out index s) =
    (let ds = filter (\<lambda>i. ata_sector_count s i \<noteq> 0) disks; k = unat index - unat out in
     if unat out \<le> unat index \<and> k < length ds then Inl (Disk (ds ! k))
     else Inr (out + of_nat (length ds)))
   \<and> counts_only s (snd (device_at_from disks out index s))"
  using assms
proof (induction disks out index s rule: device_at_from.induct)
  case (1 out index s)
  then show ?case by (simp add: Let_def)
next
  case (2 disk disks out index s)
  let ?n = "ata_sector_count s disk" and ?s1 = "s\<lparr>disk_count := (disk_count s)(disk := ata_sector_count s disk)\<rparr>"
  have c1: "counts_only s ?s1" by (rule counts_only_disk)
  have up: "unat (out + 1) = Suc (unat out)" using "2.prems" by (intro unat_word_ariths(1) [THEN trans]) simp
  consider "?n = 0" | "?n \<noteq> 0" "out = index" | "?n \<noteq> 0" "out \<noteq> index" by blast
  then show ?case
  proof cases
    case 1
    then show ?thesis using "2.IH"(1) [OF refl refl] "2.prems" counts_only_trans [OF c1] by (simp add: Let_def)
  next
    case 2
    then show ?thesis using c1 by (simp add: Let_def)
  next
    case 3
    then have "unat out \<noteq> unat index" by (auto dest: unsigned_word_eqI)
    then have "unat (out + 1) \<le> unat index \<longleftrightarrow> unat out \<le> unat index"
      "unat out \<le> unat index \<Longrightarrow> unat index - unat out = Suc (unat index - unat (out + 1))"
      using up by auto
    then show ?thesis
      using "2.IH"(2) [OF refl refl 3] "2.prems" 3 up counts_only_trans [OF c1]
      by (auto simp: Let_def)
  qed
qed

lemma device_at_list:
  "fst (quanta_storage_device_at index s) =
     (if unat index < length (device_list s) then Some (device_list s ! unat index) else None)
   \<and> counts_only s (snd (quanta_storage_device_at index s))"
proof -
  let ?ds = "filter (\<lambda>i. ata_sector_count s i \<noteq> 0) [0..<4]"
  have len: "length ?ds \<le> 4" using length_filter_le [of _ "[0..<4]"] by simp
  obtain r s1 where r: "device_at_from [0..<4] 0 index s = (r, s1)" by fastforce
  from device_at_from_list [of 0 "[0..<4]" index s] r
  have res: "r = (if unat index < length ?ds then Inl (Disk (?ds ! unat index)) else Inr (of_nat (length ?ds)))"
    and c: "counts_only s s1" by (simp_all add: Let_def)
  have live: "live_available s1 = live_available s" using c by (auto simp: counts_only_def)
  have eq: "(of_nat (length ?ds) = index) \<longleftrightarrow> unat index = length ?ds"
  proof
    assume "of_nat (length ?ds) = index"
    then have "unat index = unat (of_nat (length ?ds) :: u32)" by simp
    then show "unat index = length ?ds" using len by (simp add: unat_of_nat)
  next
    assume "unat index = length ?ds"
    then have "of_nat (length ?ds) = (of_nat (unat index) :: u32)" by simp
    then show "of_nat (length ?ds) = index" by simp
  qed
  show ?thesis
    using r res c live eq counts_only_trans [OF c counts_only_live]
    by (auto simp: quanta_storage_device_at_def device_list_def nth_append less_Suc_eq)
qed

lemma find_device_from_list:
  "fst (find_device_from name index s) =
     List.find (\<lambda>d. cstr name = cstr (device_name d)) (drop index (device_list s))
   \<and> counts_only s (snd (find_device_from name index s))"
proof (induction name index s rule: find_device_from.induct)
  case (1 name index s)
  let ?l = "device_list s"
  obtain count s1 where count: "quanta_storage_device_count s = (count, s1)" by fastforce
  have n: "unat count = length ?l" and c1: "counts_only s s1"
    using count device_count_list [of s] length_device_list [of s] device_count_counts [of s]
    by (auto simp: unat_of_nat)
  show ?case
  proof (cases "index < length ?l")
    case False
    then show ?thesis using c1 by (simp add: find_device_from.simps [of name index] count n Let_def)
  next
    case True
    obtain dev s2 where at: "quanta_storage_device_at (of_nat index) s1 = (dev, s2)" by fastforce
    have i: "unat (of_nat index :: u32) = index"
      using True length_device_list [of s] by (simp add: unat_of_nat)
    have dev: "dev = Some (?l ! index)" and c2: "counts_only s1 s2"
      using device_at_list [of "of_nat index" s1] at True i by (simp_all add: device_list_counts [OF c1])
    have c: "counts_only s s2" by (rule counts_only_trans [OF c1 c2])
    have tl: "drop index ?l = ?l ! index # drop (Suc index) ?l" using True by (simp add: Cons_nth_drop_Suc)
    show ?thesis
      using "1.IH"(2) [OF count [symmetric] refl _ at [symmetric] refl dev] True n c counts_only_trans [OF c]
      by (auto simp: find_device_from.simps [of name index] count at dev Let_def tl device_list_counts [OF c])
  qed
qed

lemma find_device_list:
  "fst (quanta_storage_find_device (Some name) s) =
     List.find (\<lambda>d. cstr name = cstr (device_name d)) (device_list s)"
  using find_device_from_list [of name 0 s] by (simp add: quanta_storage_find_device_def)

section \<open>Reading and writing ranges of bytes\<close>

text \<open>
  The loops that the file systems run over a range of bytes of the disk: one sector at a
  time, and for a write the sector is read, changed and written back.
\<close>

function read_span :: "(u32 \<Rightarrow> byte list option) \<Rightarrow> nat \<Rightarrow> nat \<Rightarrow> byte list option" where
  "read_span rd offset len =
     (if len = 0 then Some []
      else case rd (of_nat (offset div 512)) of
          None \<Rightarrow> None
        | Some sector \<Rightarrow>
            (let byte = offset mod 512; count = min (512 - byte) len in
             map_option (\<lambda>rest. take count (drop byte sector) @ rest)
               (read_span rd (offset + count) (len - count))))"
  by auto
termination
  by (relation "measure (\<lambda>(rd, offset, len). len)") (auto simp: min_def)

declare read_span.simps [simp del]

function write_span :: "('s \<Rightarrow> u32 \<Rightarrow> byte list option) \<Rightarrow> (u32 \<Rightarrow> byte list \<Rightarrow> 's \<Rightarrow> bool \<times> 's) \<Rightarrow>
    nat \<Rightarrow> byte list \<Rightarrow> 's \<Rightarrow> bool \<times> 's" where
  "write_span rd wr offset input s =
     (if input = [] then (True, s)
      else case rd s (of_nat (offset div 512)) of
          None \<Rightarrow> (False, s)
        | Some sector \<Rightarrow>
            (let byte = offset mod 512; count = min (512 - byte) (length input) in
             case wr (of_nat (offset div 512))
                 (take byte sector @ take count input @ drop (byte + count) sector) s of
               (False, s1) \<Rightarrow> (False, s1)
             | (True, s1) \<Rightarrow> write_span rd wr (offset + count) (drop count input) s1))"
  by auto
termination
  by (relation "measure (\<lambda>(rd, wr, offset, input, s). length input)") (auto simp: min_def)

declare write_span.simps [simp del]

definition byte_at :: "('s \<Rightarrow> u32 \<Rightarrow> byte list option) \<Rightarrow> 's \<Rightarrow> nat \<Rightarrow> byte option" where
  "byte_at rd s a = map_option (\<lambda>sector. sector ! (a mod 512)) (rd s (of_nat (a div 512)))"

lemma div_mod_shift:
  assumes "(a :: nat) mod 512 + i < 512"
  shows "(a + i) div 512 = a div 512" and "(a + i) mod 512 = a mod 512 + i"
proof -
  have eq: "a + i = (a mod 512 + i) + 512 * (a div 512)" by simp
  show "(a + i) div 512 = a div 512"
    by (subst eq, subst div_mult_self2) (use assms in simp_all)
  show "(a + i) mod 512 = a mod 512 + i"
    by (subst eq, subst mod_mult_self2) (use assms in simp)
qed

locale sector_store =
  fixes rd :: "'s \<Rightarrow> u32 \<Rightarrow> byte list option"
    and wr :: "u32 \<Rightarrow> byte list \<Rightarrow> 's \<Rightarrow> bool \<times> 's"
    and inv :: "'s \<Rightarrow> bool"
  assumes read_length: "inv s \<Longrightarrow> rd s n = Some b \<Longrightarrow> length b = 512"
    and write_inv: "inv s \<Longrightarrow> length b = 512 \<Longrightarrow> wr n b s = (ok, s') \<Longrightarrow> inv s'"
    and write_other: "inv s \<Longrightarrow> wr n b s = (ok, s') \<Longrightarrow> m \<noteq> n \<Longrightarrow> rd s' m = rd s m"
    and write_readable: "inv s \<Longrightarrow> wr n b s = (ok, s') \<Longrightarrow> rd s' m = None \<longleftrightarrow> rd s m = None"
    and write_this: "inv s \<Longrightarrow> wr n b s = (True, s') \<Longrightarrow> rd s n \<noteq> None \<Longrightarrow> rd s' n = Some b"
begin

lemma span_step:
  assumes "inv s" "rd s (of_nat (offset div 512)) = Some sector" "0 < len"
    and "count = min (512 - offset mod 512) len"
  shows "0 < count" "count \<le> len" "length sector = 512" "offset mod 512 + count \<le> 512"
    and "i < count \<Longrightarrow> byte_at rd s (offset + i) = Some (sector ! (offset mod 512 + i))"
proof -
  have "offset mod 512 < 512" by simp
  then show c: "0 < count" "count \<le> len" "offset mod 512 + count \<le> 512" using assms(3,4) by auto
  show "length sector = 512" using read_length assms(1,2) by blast
  assume "i < count"
  then have "offset mod 512 + i < 512" using c by simp
  from div_mod_shift [OF this] show "byte_at rd s (offset + i) = Some (sector ! (offset mod 512 + i))"
    using assms(2) by (simp add: byte_at_def)
qed

lemma read_span_bytes:
  assumes "inv s"
  shows "read_span (rd s) offset len = Some bs \<Longrightarrow>
    length bs = len \<and> (\<forall>i<len. byte_at rd s (offset + i) = Some (bs ! i))"
proof (induction len arbitrary: offset bs rule: less_induct)
  case (less len)
  show ?case
  proof (cases "len = 0")
    case True
    then show ?thesis using less.prems by (simp add: read_span.simps)
  next
    case False
    define count where "count = min (512 - offset mod 512) len"
    obtain sector rest where sector: "rd s (of_nat (offset div 512)) = Some sector"
      and rest: "read_span (rd s) (offset + count) (len - count) = Some rest"
      and bs: "bs = take count (drop (offset mod 512) sector) @ rest"
      using less.prems False
      by (subst (asm) read_span.simps) (auto simp: Let_def count_def split: option.splits)
    note step = span_step [OF assms sector _ count_def]
    have "len - count < len" using step(1) False by simp
    from less.IH [OF this rest] have IH: "length rest = len - count"
      "\<And>i. i < len - count \<Longrightarrow> byte_at rd s (offset + count + i) = Some (rest ! i)" by auto
    have "byte_at rd s (offset + i) = Some (bs ! i)" if "i < len" for i
    proof (cases "i < count")
      case True
      then show ?thesis using step False by (simp add: bs nth_append)
    next
      case False
      then show ?thesis using IH(2) [of "i - count"] that step by (simp add: bs nth_append)
    qed
    moreover have "length bs = len" using step False IH(1) by (simp add: bs)
    ultimately show ?thesis by blast
  qed
qed

lemma read_span_None:
  assumes "inv s"
  shows "read_span (rd s) offset len = None \<Longrightarrow> \<exists>i<len. byte_at rd s (offset + i) = None"
proof (induction len arbitrary: offset rule: less_induct)
  case (less len)
  then have pos: "0 < len" by (cases "len = 0") (auto simp: read_span.simps)
  define count where "count = min (512 - offset mod 512) len"
  show ?case
  proof (cases "rd s (of_nat (offset div 512))")
    case None
    then show ?thesis using pos by (auto simp: byte_at_def intro!: exI [of _ 0])
  next
    case (Some sector)
    note step = span_step [OF assms Some pos count_def]
    have "read_span (rd s) (offset + count) (len - count) = None"
      using less.prems pos Some by (subst (asm) read_span.simps) (auto simp: Let_def count_def)
    with less.IH [of "len - count" "offset + count"] step pos
    obtain i where "i < len - count" "byte_at rd s (offset + count + i) = None" by auto
    then show ?thesis by (intro exI [of _ "count + i"]) (auto simp: ac_simps)
  qed
qed

lemma read_span_iff:
  assumes "inv s"
  shows "read_span (rd s) offset len = Some bs \<longleftrightarrow>
    length bs = len \<and> (\<forall>i<len. byte_at rd s (offset + i) = Some (bs ! i))"
proof
  assume r: "length bs = len \<and> (\<forall>i<len. byte_at rd s (offset + i) = Some (bs ! i))"
  then obtain cs where cs: "read_span (rd s) offset len = Some cs"
    using read_span_None [OF assms, of offset len] by (cases "read_span (rd s) offset len") auto
  from read_span_bytes [OF assms this] r have "cs = bs" by (auto intro!: nth_equalityI)
  with cs show "read_span (rd s) offset len = Some bs" by simp
qed (rule read_span_bytes [OF assms])

lemma read_span_cong:
  assumes "inv s" "inv s'" "\<And>i. i < len \<Longrightarrow> byte_at rd s' (offset + i) = byte_at rd s (offset + i)"
  shows "read_span (rd s') offset len = read_span (rd s) offset len"
proof (cases "read_span (rd s) offset len")
  case None
  from read_span_None [OF assms(1) this] assms(3) obtain i where i: "i < len" "byte_at rd s' (offset + i) = None"
    by auto
  show ?thesis
  proof (cases "read_span (rd s') offset len")
    case (Some bs)
    from read_span_bytes [OF assms(2) this] i show ?thesis by simp
  qed (simp add: None)
next
  case (Some bs)
  with read_span_bytes [OF assms(1) Some] assms(3)
  have "read_span (rd s') offset len = Some bs" by (simp add: read_span_iff [OF assms(2)])
  with Some show ?thesis by simp
qed

end

text \<open>Bytes below this bound lie in sectors with distinct 32-bit numbers.\<close>

definition disk_limit :: nat where
  "disk_limit = 512 * 2 ^ 32"

lemma sector_number_inject:
  assumes "a < disk_limit" "b < disk_limit"
  shows "(of_nat (a div 512) :: u32) = of_nat (b div 512) \<longleftrightarrow> a div 512 = b div 512"
proof
  assume "(of_nat (a div 512) :: u32) = of_nat (b div 512)"
  then have eq: "unat (of_nat (a div 512) :: u32) = unat (of_nat (b div 512) :: u32)" by simp
  have "a div 512 < 2 ^ 32" "b div 512 < 2 ^ 32"
    using assms by (simp_all add: disk_limit_def less_mult_imp_div_less)
  then have "unat (of_nat (a div 512) :: u32) = a div 512" "unat (of_nat (b div 512) :: u32) = b div 512"
    by (simp_all add: unat_of_nat)
  with eq show "a div 512 = b div 512" by simp
qed simp

lemma nth_patch:
  assumes "byte + length new \<le> length xs" "i < length xs"
  shows "(take byte xs @ new @ drop (byte + length new) xs) ! i =
    (if byte \<le> i \<and> i < byte + length new then new ! (i - byte) else xs ! i)"
  using assms by (auto simp: nth_append)

context sector_store
begin

lemma write_step:
  assumes inv: "inv s" and sector: "rd s (of_nat (offset div 512)) = Some sector"
    and new: "new \<noteq> []" "offset mod 512 + length new \<le> 512" "offset + length new \<le> disk_limit"
    and wr: "wr (of_nat (offset div 512))
      (take (offset mod 512) sector @ new @ drop (offset mod 512 + length new) sector) s = (ok, s1)"
    and a: "a < disk_limit"
  shows "inv s1" "rd s1 m = None \<longleftrightarrow> rd s m = None"
    and "ok \<Longrightarrow> byte_at rd s1 a = (if offset \<le> a \<and> a < offset + length new
           then Some (new ! (a - offset)) else byte_at rd s a)"
    and "a div 512 \<noteq> offset div 512 \<Longrightarrow> byte_at rd s1 a = byte_at rd s a"
proof -
  have len: "length sector = 512" by (rule read_length [OF inv sector])
  let ?b = "take (offset mod 512) sector @ new @ drop (offset mod 512 + length new) sector"
  show "inv s1" by (rule write_inv [OF inv _ wr]) (use len new(2) in simp)
  show "rd s1 m = None \<longleftrightarrow> rd s m = None" by (rule write_readable [OF inv wr])
  have off: "offset < disk_limit" using new by (cases new) auto
  show other: "byte_at rd s1 a = byte_at rd s a" if "a div 512 \<noteq> offset div 512"
    using write_other [OF inv wr] sector_number_inject [OF a off] that by (simp add: byte_at_def)
  show "byte_at rd s1 a = (if offset \<le> a \<and> a < offset + length new
      then Some (new ! (a - offset)) else byte_at rd s a)" if ok
  proof (cases "a div 512 = offset div 512")
    case False
    have "\<not> (offset \<le> a \<and> a < offset + length new)"
    proof
      assume *: "offset \<le> a \<and> a < offset + length new"
      then have "offset mod 512 + (a - offset) < 512" using new(2) by linarith
      from div_mod_shift(1) [OF this] * False show False by simp
    qed
    then show ?thesis using other [OF False] by (simp only: if_False)
  next
    case True
    have "rd s1 (of_nat (offset div 512)) = Some ?b"
      using write_this [OF inv] wr that sector by simp
    then have "byte_at rd s1 a = Some (?b ! (a mod 512))" by (simp add: byte_at_def True)
    also have "?b ! (a mod 512) = (if offset mod 512 \<le> a mod 512 \<and> a mod 512 < offset mod 512 + length new
        then new ! (a mod 512 - offset mod 512) else sector ! (a mod 512))"
      using new(2) by (intro nth_patch) (simp_all add: len)
    also have "Some \<dots> = (if offset \<le> a \<and> a < offset + length new then Some (new ! (a - offset)) else byte_at rd s a)"
    proof -
      have "a = 512 * (offset div 512) + a mod 512" "offset = 512 * (offset div 512) + offset mod 512"
        using True mult_div_mod_eq [of 512 a] mult_div_mod_eq [of 512 offset] by simp_all
      then have "offset mod 512 \<le> a mod 512 \<longleftrightarrow> offset \<le> a" "a mod 512 < offset mod 512 + length new \<longleftrightarrow> a < offset + length new"
        "a mod 512 - offset mod 512 = a - offset" by linarith+
      then show ?thesis using sector True by (simp add: byte_at_def)
    qed
    finally show ?thesis .
  qed
qed

lemma write_span_spec:
  assumes "inv s" "offset + length input \<le> disk_limit" "write_span rd wr offset input s = (ok, s')"
  shows "inv s' \<and> (\<forall>m. rd s' m = None \<longleftrightarrow> rd s m = None)
    \<and> (\<forall>a<disk_limit. (\<forall>k<length input. (offset + k) div 512 \<noteq> a div 512) \<longrightarrow> byte_at rd s' a = byte_at rd s a)
    \<and> (ok \<longrightarrow> (\<forall>a<disk_limit. byte_at rd s' a = (if offset \<le> a \<and> a < offset + length input
           then Some (input ! (a - offset)) else byte_at rd s a)))"
  using assms
proof (induction "length input" arbitrary: offset input s rule: less_induct)
  case less
  show ?case
  proof (cases "input = []")
    case True
    then show ?thesis using less.prems by (auto simp: write_span.simps)
  next
    case False
    define count where "count = min (512 - offset mod 512) (length input)"
    have c: "0 < count" "count \<le> length input" "offset mod 512 + count \<le> 512"
      using False by (auto simp: count_def)
    let ?new = "take count input"
    have new: "?new \<noteq> []" "offset mod 512 + length ?new \<le> 512" "offset + length ?new \<le> disk_limit"
      using c False less.prems(2) by auto
    show ?thesis
    proof (cases "rd s (of_nat (offset div 512))")
      case None
      then show ?thesis using less.prems False by (auto simp: write_span.simps)
    next
      case (Some sector)
      obtain ok1 s1 where wr: "wr (of_nat (offset div 512))
        (take (offset mod 512) sector @ ?new @ drop (offset mod 512 + length ?new) sector) s = (ok1, s1)"
        by fastforce
      note step = write_step [OF less.prems(1) Some new wr]
      have wr': "wr (of_nat (offset div 512))
        (take (offset mod 512) sector @ take count input @ drop (offset mod 512 + count) sector) s = (ok1, s1)"
        using wr c(2) by (simp add: min_absorb2)
      have first: "0 < length input" using False by simp
      show ?thesis
      proof (cases ok1)
        case False
        then have "s' = s1" "\<not> ok"
          using less.prems(3) \<open>input \<noteq> []\<close> Some wr'
          by (auto simp: write_span.simps [of rd wr offset input] Let_def count_def)
        with step first show ?thesis by (force simp: disk_limit_def)
      next
        case True
        then have rest: "write_span rd wr (offset + count) (drop count input) s1 = (ok, s')"
          using less.prems(3) False Some wr'
          by (simp add: write_span.simps [of rd wr offset input] Let_def count_def)
        have len: "length (drop count input) < length input" using c by simp
        have inv1: "inv s1" by (rule step(1) [of 0]) (simp add: disk_limit_def)
        have lim: "offset + count + length (drop count input) \<le> disk_limit" using less.prems(2) c by simp
        note IH = less.hyps [OF len inv1 lim rest]
        have ro: "rd s1 m = None \<longleftrightarrow> rd s m = None" for m by (rule step(2) [of 0]) (simp add: disk_limit_def)
        have out: "byte_at rd s' a = byte_at rd s a"
          if a: "a < disk_limit" "\<forall>k<length input. (offset + k) div 512 \<noteq> a div 512" for a
        proof -
          have "byte_at rd s' a = byte_at rd s1 a"
            using IH a c by (auto simp: add.assoc)
          moreover have "byte_at rd s1 a = byte_at rd s a" using a first by (intro step(4)) auto
          ultimately show ?thesis by simp
        qed
        have done_ok: "byte_at rd s' a = (if offset \<le> a \<and> a < offset + length input
           then Some (input ! (a - offset)) else byte_at rd s a)" if "ok" and a: "a < disk_limit" for a
        proof -
          have "byte_at rd s' a = (if offset + count \<le> a \<and> a < offset + count + length (drop count input)
             then Some (drop count input ! (a - (offset + count))) else byte_at rd s1 a)" using IH that by blast
          moreover have "byte_at rd s1 a = (if offset \<le> a \<and> a < offset + count
             then Some (?new ! (a - offset)) else byte_at rd s a)"
            using step(3) [OF a True] c(2) by (simp add: min_absorb2)
          ultimately show ?thesis using c by auto
        qed
        from IH ro out done_ok show ?thesis by auto
      qed
    qed
  qed
qed

end

text \<open>A store on which every write of a readable sector succeeds.\<close>

locale reliable_store = sector_store +
  fixes sound :: "'a \<Rightarrow> bool"
  assumes sound_write: "inv s \<Longrightarrow> sound s \<Longrightarrow> rd s n \<noteq> None \<Longrightarrow> wr n b s = (ok, s') \<Longrightarrow> ok \<and> sound s'"
begin

lemma write_span_succeeds:
  assumes "inv s" "sound s" "offset + length input \<le> disk_limit"
    and "\<forall>i<length input. byte_at rd s (offset + i) \<noteq> None"
  shows "\<exists>s'. write_span rd wr offset input s = (True, s') \<and> sound s'"
  using assms
proof (induction "length input" arbitrary: offset input s rule: less_induct)
  case less
  show ?case
  proof (cases "input = []")
    case True
    then show ?thesis using less.prems by (simp add: write_span.simps)
  next
    case False
    define count where "count = min (512 - offset mod 512) (length input)"
    have c: "0 < count" "count \<le> length input" "offset mod 512 + count \<le> 512"
      using False by (auto simp: count_def)
    have "byte_at rd s (offset + 0) \<noteq> None" using less.prems(4) False by blast
    then obtain sector where sector: "rd s (of_nat (offset div 512)) = Some sector"
      by (auto simp: byte_at_def)
    let ?b = "take (offset mod 512) sector @ take count input @ drop (offset mod 512 + count) sector"
    obtain ok1 s1 where wr: "wr (of_nat (offset div 512)) ?b s = (ok1, s1)" by fastforce
    from sound_write [OF less.prems(1,2) _ wr] sector have ok1: ok1 and sound1: "sound s1" by auto
    have len: "length sector = 512" by (rule read_length [OF less.prems(1) sector])
    have inv1: "inv s1" by (rule write_inv [OF less.prems(1) _ wr]) (use len c in simp)
    have readable: "byte_at rd s1 (offset + count + i) \<noteq> None" if "i < length (drop count input)" for i
    proof -
      have "count + i < length input" using that by simp
      then have "byte_at rd s (offset + (count + i)) \<noteq> None" using less.prems(4) by blast
      then show ?thesis using write_readable [OF less.prems(1) wr] by (auto simp: byte_at_def ac_simps)
    qed
    have shorter: "length (drop count input) < length input"
      and lim: "offset + count + length (drop count input) \<le> disk_limit"
      using c less.prems(3) by auto
    obtain s' where "write_span rd wr (offset + count) (drop count input) s1 = (True, s')" "sound s'"
      using less.hyps [OF shorter inv1 sound1 lim] readable by blast
    then show ?thesis
      using False sector wr ok1
      by (simp add: write_span.simps [of rd wr offset input] Let_def count_def)
  qed
qed

end

section \<open>The boot device\<close>

text \<open>
  \<open>read_sector\<close>, \<open>write_sector\<close> of the file systems and \<open>account_read\<close>, \<open>account_write\<close>
  of the account records; the static buffer of \<^verbatim>\<open>read_sector\<close> is its result.
\<close>

definition boot_read :: "machine \<Rightarrow> u32 \<Rightarrow> byte list option" where
  "boot_read s number = quanta_block_device_read (quanta_storage_boot_device s) (ucast number) s"

definition boot_write :: "u32 \<Rightarrow> byte list \<Rightarrow> machine \<Rightarrow> bool \<times> machine" where
  "boot_write number buffer s =
     quanta_block_device_write (quanta_storage_boot_device s) (ucast number) buffer s"

text \<open>Every sector has 512 bytes, also one that a failed write has left behind.\<close>

definition machine_ok :: "machine \<Rightarrow> bool" where
  "machine_ok s \<longleftrightarrow> (\<forall>lba. length (live_image s lba) = 512) \<and>
     (\<forall>d lba. length (platter (drives s d) lba) = 512 \<and>
        (\<forall>left. write_fault (drives s d) lba = Some left \<longrightarrow> length left = 512))"

definition boot_disk_sound :: "machine \<Rightarrow> bool" where
  "boot_disk_sound s \<longleftrightarrow> \<not> live_available s \<and> (\<forall>lba. write_fault (drives s 0) lba = None)"

lemma boot_read_eq:
  "boot_read s n =
     (if live_available s
      then if live_count s \<noteq> 0 \<and> ucast n \<ge> live_count s then None else memory_storage_read s n
      else if ata_sector_count s 0 = 0 \<or> disk_count s 0 \<noteq> 0 \<and> ucast n \<ge> disk_count s 0 then None
      else ata_read s 0 n)"
proof -
  have "(ucast n :: u64) \<le> 0xffffffff"
    using unat_less_pow [of n] by (simp add: word_le_nat_alt unat_ucast_up)
  then have "\<not> (ucast n :: u64) > 0xffffffff" by simp
  moreover have "ucast (ucast n :: u64) = n" by (rule u32_u64_u32)
  ultimately show ?thesis
    by (simp add: boot_read_def quanta_block_device_read_def quanta_storage_boot_device_def sector_count_def)
qed

lemma boot_write_eq:
  "boot_write n b s =
     (if live_available s \<or> ata_sector_count s 0 = 0 \<or> disk_count s 0 \<noteq> 0 \<and> ucast n \<ge> disk_count s 0
      then (False, s) else ata_write s 0 n b)"
proof -
  have "(ucast n :: u64) \<le> 0xffffffff"
    using unat_less_pow [of n] by (simp add: word_le_nat_alt unat_ucast_up)
  then have "\<not> (ucast n :: u64) > 0xffffffff" by simp
  moreover have "ucast (ucast n :: u64) = n" by (rule u32_u64_u32)
  ultimately show ?thesis
    by (simp add: boot_write_def quanta_block_device_write_def quanta_storage_boot_device_def sector_count_def)
qed

lemma boot_write_cases:
  assumes "boot_write n b s = (ok, s')"
  obtains (refused) "\<not> ok" "s' = s"
  | (written) left where "\<not> live_available s" "ata_accepts s 0 n" "ok \<longleftrightarrow> write_fault (drives s 0) n = None"
      "left = (case write_fault (drives s 0) n of None \<Rightarrow> b | Some l \<Rightarrow> l)"
      "s' = s\<lparr>drives := (drives s)(0 := (drives s 0)\<lparr>platter := (platter (drives s 0))(n := left)\<rparr>)\<rparr>"
proof (cases "boot_write n b s = (False, s)")
  case True
  then show thesis using assms refused by simp
next
  case False
  then have live: "\<not> live_available s" and w: "ata_write s 0 n b = (ok, s')" and w': "ata_write s 0 n b \<noteq> (False, s)"
    using assms by (auto simp: boot_write_eq split: if_splits)
  have acc: "ata_accepts s 0 n" using w' by (cases "ata_accepts s 0 n") (simp_all add: ata_write_def)
  show thesis
    by (rule written [OF live acc _ refl])
      (use w acc in \<open>auto simp: ata_write_def Let_def split: option.splits\<close>)
qed

lemma boot_read_after:
  assumes "\<not> live_available s"
  shows "boot_read (s\<lparr>drives := (drives s)(0 := (drives s 0)\<lparr>platter := p\<rparr>)\<rparr>) m =
    (if boot_read s m = None then None else Some (p m))"
  using assms
  by (auto simp: boot_read_eq ata_read_def ata_accepts_def ata_sector_count_def)

interpretation boot: sector_store boot_read boot_write machine_ok
proof
  fix s n b assume "machine_ok s" "boot_read s n = Some b"
  then show "length b = 512"
    by (auto simp: machine_ok_def boot_read_eq ata_read_def memory_storage_read_def split: if_splits)
next
  fix s :: machine and b n ok s'
  assume ok: "machine_ok s" "length b = 512" and w: "boot_write n b s = (ok, s')"
  from w show "machine_ok s'"
    by (cases rule: boot_write_cases) (use ok in \<open>auto simp: machine_ok_def split: option.splits\<close>)
next
  fix s :: machine and b n ok s' and m :: u32
  assume w: "boot_write n b s = (ok, s')"
  from w show "m \<noteq> n \<Longrightarrow> boot_read s' m = boot_read s m"
    by (cases rule: boot_write_cases)
      (auto simp: boot_read_after, auto simp: boot_read_eq ata_read_def split: if_splits)
  from w show "boot_read s' m = None \<longleftrightarrow> boot_read s m = None"
    by (cases rule: boot_write_cases) (auto simp: boot_read_after)
next
  fix s :: machine and b n s'
  assume w: "boot_write n b s = (True, s')" and "boot_read s n \<noteq> None"
  from w show "boot_read s' n = Some b"
    by (cases rule: boot_write_cases) (use \<open>boot_read s n \<noteq> None\<close> in \<open>auto simp: boot_read_after\<close>)
qed

lemma boot_device_write_accepted:
  assumes "\<not> live_available s" "boot_read s n \<noteq> None"
  shows "boot_write n b s = ata_write s 0 n b"
  using assms by (auto simp: boot_read_eq boot_write_eq split: if_splits)

interpretation boot: reliable_store boot_read boot_write machine_ok boot_disk_sound
proof
  fix s :: machine and b n ok s'
  assume s: "boot_disk_sound s" and r: "boot_read s n \<noteq> None" and w: "boot_write n b s = (ok, s')"
  have live: "\<not> live_available s" using s by (simp add: boot_disk_sound_def)
  from r live have acc: "ata_accepts s 0 n" by (auto simp: boot_read_eq ata_read_def split: if_splits)
  have "ata_write s 0 n b = (ok, s')" using w boot_device_write_accepted [OF live r] by simp
  then show "ok \<and> boot_disk_sound s'"
    using s acc by (auto simp: ata_write_def boot_disk_sound_def Let_def)
qed

section \<open>Property\<close>

text \<open>Counting, indexing and searching the block devices agree with one list of the devices
  present: the drives that answer, in order, and then the live image.\<close>

theorem device_enumeration:
  "unat (fst (quanta_storage_device_count s)) = length (device_list s) \<and>
   fst (quanta_storage_device_at index s) =
     (if unat index < length (device_list s) then Some (device_list s ! unat index) else None) \<and>
   fst (quanta_storage_find_device (Some name) s) =
     List.find (\<lambda>d. cstr name = cstr (device_name d)) (device_list s)"
proof -
  have "length (device_list s) < 2 ^ 32" using length_device_list [of s] by simp
  then have "unat (fst (quanta_storage_device_count s)) = length (device_list s)"
    by (simp add: device_count_list unat_of_nat)
  then show ?thesis by (simp add: device_at_list find_device_list)
qed

end
