(* ===== verification/Account.thy ===== *)
theory Account
  imports Storage Crc32 Sha256
begin

text \<open>
  The password records of \<^verbatim>\<open>kernel/core/account.c\<close>: two sectors of the boot device hold
  a record each, the newer one counts, and a change writes the other slot.
\<close>

definition ACCOUNT_LBA :: u32 where [geometry]: "ACCOUNT_LBA = 512"

section \<open>Operations\<close>

text \<open>The constant-time comparison loop.\<close>

definition equal_bytes :: "byte list \<Rightarrow> byte list \<Rightarrow> nat \<Rightarrow> bool" where
  "equal_bytes a b len \<longleftrightarrow> foldl (\<lambda>difference i. difference OR (a ! i XOR b ! i)) 0 [0..<len] = 0"

definition has_magic :: "byte list \<Rightarrow> bool" where
  "has_magic rec \<longleftrightarrow> take 8 rec = str ''QACCOUNT''"

definition record_valid :: "byte list \<Rightarrow> bool" where
  "record_valid rec \<longleftrightarrow> has_magic rec \<and> u16_at rec 8 = 1 \<and>
     u32_at rec 68 = crc32 (take 68 rec)"

definition record_generation :: "byte list \<Rightarrow> u64" where
  "record_generation rec = u64_at rec 12"

definition salted :: "byte list \<Rightarrow> byte list \<Rightarrow> u64 \<Rightarrow> byte list" where
  "salted salt password len = salt @ map (cat password) [0..<unat len]"

text \<open>The result, and the value stored through \<^verbatim>\<open>temporary\<close> if there is one.\<close>

definition quanta_account_verify :: "byte list \<Rightarrow> u64 \<Rightarrow> machine \<Rightarrow> bool \<times> u32 option" where
  "quanta_account_verify password len s =
     (if len > 64 then (False, None)
      else case boot_read s ACCOUNT_LBA of None \<Rightarrow> (False, None)
      | Some first \<Rightarrow> (case boot_read s (ACCOUNT_LBA + 1) of None \<Rightarrow> (False, None)
      | Some second \<Rightarrow>
          (let generation = (if has_magic first then record_generation first else 0);
               other_generation = (if has_magic second then record_generation second else 0);
               newest = (if other_generation > generation then second else first);
               chosen = (if other_generation > generation then other_generation else generation)
           in if chosen = 0 then (False, None)
              else (equal_bytes (hash (salted (field newest 20 16) password len)) (drop 36 newest) 32,
                    Some (ucast (newest ! 10 AND 1))))))"

definition new_salt :: "byte list \<Rightarrow> u64 \<Rightarrow> byte list" where
  "new_salt active generation =
     map (\<lambda>index. active ! (20 + index) XOR ucast (drop_bit ((index mod 8) * 8) generation)) [0..<16]"

definition new_record :: "u64 \<Rightarrow> byte list \<Rightarrow> byte list \<Rightarrow> byte list" where
  "new_record generation salt digest =
     (let body = str ''QACCOUNT'' @ le16 1 @ le16 0 @ le64 generation @ salt @ digest
      in body @ le32 (crc32 body) @ replicate 440 0)"

definition active_is_first :: "byte list \<Rightarrow> byte list \<Rightarrow> bool" where
  "active_is_first first second \<longleftrightarrow> record_valid first \<and>
     \<not> (record_valid second \<and> record_generation second > record_generation first)"

text \<open>Writing the new record, reading it back, and the final verification.\<close>

definition commit_record :: "u32 \<Rightarrow> u64 \<Rightarrow> byte list \<Rightarrow> byte list \<Rightarrow> byte list \<Rightarrow> u64 \<Rightarrow> machine \<Rightarrow> bool \<times> machine" where
  "commit_record target_lba generation digest rec password len s =
     (case boot_write target_lba rec s of
        (False, s1) \<Rightarrow> (False, s1)
      | (True, s1) \<Rightarrow>
          (case boot_read s1 target_lba of None \<Rightarrow> (False, s1)
           | Some target \<Rightarrow>
               if \<not> record_valid target \<or> record_generation target \<noteq> generation
                  \<or> \<not> equal_bytes (drop 36 target) digest 32
               then (False, s1)
               else (fst (quanta_account_verify password len s1), s1)))"

definition quanta_account_change :: "byte list \<Rightarrow> u64 \<Rightarrow> machine \<Rightarrow> bool \<times> machine" where
  "quanta_account_change password len s =
     (if len = 0 \<or> len > 64 then (False, s)
      else case boot_read s ACCOUNT_LBA of None \<Rightarrow> (False, s)
      | Some first \<Rightarrow> (case boot_read s (ACCOUNT_LBA + 1) of None \<Rightarrow> (False, s)
      | Some second \<Rightarrow>
          if \<not> record_valid first \<and> \<not> record_valid second then (False, s)
          else
          (let active = (if active_is_first first second then first else second);
               target_lba = (if active_is_first first second then ACCOUNT_LBA + 1 else ACCOUNT_LBA);
               generation = record_generation active + 1;
               salt = new_salt active generation;
               digest = hash (salted salt password len)
           in commit_record target_lba generation digest (new_record generation salt digest) password len s)))"

section \<open>Records\<close>

lemma foldl_or_zero:
  "foldl (\<lambda>d i. d OR f i) (d :: byte) xs = 0 \<longleftrightarrow> d = 0 \<and> (\<forall>i\<in>set xs. f i = 0)"
proof (induction xs arbitrary: d)
  case (Cons x xs)
  have "d OR f x = 0 \<longleftrightarrow> d = 0 \<and> f x = 0"
    by (rule or_eq_0_iff)
  with Cons show ?case by auto
qed simp

lemma xor_zero: "a XOR b = 0 \<longleftrightarrow> a = (b :: byte)"
  using xor_cancel_right [of a b b] by simp

lemma equal_bytes_iff:
  assumes "len \<le> length a" "len \<le> length b"
  shows "equal_bytes a b len \<longleftrightarrow> take len a = take len b"
proof -
  have "equal_bytes a b len \<longleftrightarrow> (\<forall>i<len. a ! i = b ! i)"
    unfolding equal_bytes_def by (subst foldl_or_zero) (auto simp: xor_zero)
  also have "\<dots> \<longleftrightarrow> take len a = take len b"
    using assms by (auto simp: list_eq_iff_nth_eq)
  finally show ?thesis .
qed

lemma le16_zero: "le16 0 = [0, 0]"
  by (simp add: le16_def numeral_2_eq_2)

lemma new_record_fields:
  assumes "length salt = 16" "length digest = 32"
  shows "length (new_record g salt digest) = 512"
    and "has_magic (new_record g salt digest)" "record_valid (new_record g salt digest)"
    and "record_generation (new_record g salt digest) = g"
    and "field (new_record g salt digest) 20 16 = salt"
    and "take 32 (drop 36 (new_record g salt digest)) = digest"
    and "new_record g salt digest ! 10 = 0"
proof -
  have magic: "length (str ''QACCOUNT'') = 8" by (simp add: str_def)
  let ?body = "str ''QACCOUNT'' @ le16 1 @ le16 0 @ le64 g @ salt @ digest"
  have body: "length ?body = 68" using assms magic by simp
  have rec: "new_record g salt digest = ?body @ le32 (crc32 ?body) @ replicate 440 0"
    by (simp only: new_record_def Let_def)
  show "length (new_record g salt digest) = 512" unfolding rec using body by simp
  show m: "has_magic (new_record g salt digest)"
    unfolding rec has_magic_def using magic by simp
  have "u16_at (new_record g salt digest) 8 = 1"
    unfolding rec u16_at_def using magic assms by (simp add: field_layout)
  moreover have "u32_at (new_record g salt digest) 68 = crc32 ?body"
    unfolding rec u32_at_def using body magic assms by (simp add: field_layout)
  moreover have "take 68 (new_record g salt digest) = ?body"
    unfolding rec using body by (simp only: take_append) simp
  ultimately show "record_valid (new_record g salt digest)" using m by (simp add: record_valid_def)
  show "record_generation (new_record g salt digest) = g"
    unfolding rec record_generation_def u64_at_def using magic assms by (simp add: field_layout)
  show "field (new_record g salt digest) 20 16 = salt"
    unfolding rec using magic assms by (simp add: field_layout)
  show "take 32 (drop 36 (new_record g salt digest)) = digest"
    unfolding rec using magic assms by simp
  show "new_record g salt digest ! 10 = 0"
    unfolding rec using magic by (simp add: nth_append le16_zero)
qed

lemma length_new_salt [simp]: "length (new_salt a g) = 16"
  by (simp add: new_salt_def)

section \<open>Verification and change\<close>

definition chosen_record :: "byte list \<Rightarrow> byte list \<Rightarrow> byte list option" where
  "chosen_record first second =
     (let g1 = (if has_magic first then record_generation first else 0);
          g2 = (if has_magic second then record_generation second else 0)
      in if g2 > g1 then Some second else if g1 = 0 then None else Some first)"

definition digest_of :: "byte list \<Rightarrow> byte list" where
  "digest_of rec = take 32 (drop 36 rec)"

lemma verify_chosen:
  assumes ok: "machine_ok s" and r: "boot_read s ACCOUNT_LBA = Some first"
    "boot_read s (ACCOUNT_LBA + 1) = Some second" and len: "len \<le> 64"
  shows "quanta_account_verify password len s =
    (case chosen_record first second of None \<Rightarrow> (False, None)
     | Some rec \<Rightarrow> (digest_of rec = hash (salted (field rec 20 16) password len),
         Some (ucast (rec ! 10 AND 1))))"
proof -
  have "length first = 512" "length second = 512" using boot.read_length ok r by blast+
  then have eq: "equal_bytes (hash m) (drop 36 r) 32 \<longleftrightarrow> digest_of r = hash m"
    if "r = first \<or> r = second" for m r
    using that length_hash [of m] equal_bytes_iff [of 32 "hash m" "drop 36 r"] by (auto simp: digest_of_def)
  show ?thesis
    using r len by (auto simp: quanta_account_verify_def chosen_record_def eq Let_def)
qed

lemma ACCOUNT_LBA_neq: "ACCOUNT_LBA + 1 \<noteq> ACCOUNT_LBA" "ACCOUNT_LBA \<noteq> ACCOUNT_LBA + 1"
  by (simp_all add: ACCOUNT_LBA_def)

text \<open>A change never writes the slot of the record in force, whatever the drive does.\<close>

lemma change_keeps_active:
  assumes ok: "machine_ok s" and r: "boot_read s ACCOUNT_LBA = Some first"
    "boot_read s (ACCOUNT_LBA + 1) = Some second"
    and active: "active_lba = (if active_is_first first second then ACCOUNT_LBA else ACCOUNT_LBA + 1)"
    and change: "quanta_account_change password len s = (res, s')"
  shows "boot_read s' n = boot_read s n \<or> n = (if active_is_first first second then ACCOUNT_LBA + 1 else ACCOUNT_LBA)"
    and "boot_read s' active_lba = boot_read s active_lba"
proof -
  let ?t = "if active_is_first first second then ACCOUNT_LBA + 1 else ACCOUNT_LBA"
  have "s' = s \<or> (\<exists>rec res1. boot_write ?t rec s = (res1, s'))"
    using change r unfolding quanta_account_change_def commit_record_def Let_def
    by (auto split: prod.splits bool.splits option.splits if_splits)
  then show other: "boot_read s' n = boot_read s n \<or> n = ?t" for n
    using boot.write_other [OF ok] by blast
  show "boot_read s' active_lba = boot_read s active_lba"
    using other [of active_lba] active ACCOUNT_LBA_neq by auto
qed

definition active_record :: "byte list \<Rightarrow> byte list \<Rightarrow> byte list" where
  "active_record first second = (if active_is_first first second then first else second)"

lemma change_succeeds:
  assumes ok: "machine_ok s" and sound: "boot_disk_sound s" and r: "boot_read s ACCOUNT_LBA = Some first"
    "boot_read s (ACCOUNT_LBA + 1) = Some second" and valid: "record_valid first \<or> record_valid second"
    and len: "0 < len" "len \<le> 64" and gen: "record_generation (active_record first second) \<noteq> - 1"
  defines "g \<equiv> record_generation (active_record first second) + 1"
  defines "salt \<equiv> new_salt (active_record first second) g"
  shows "\<exists>s'. quanta_account_change password len s = (True, s')
    \<and> (\<forall>password' len'. len' \<le> 64 \<longrightarrow> quanta_account_verify password' len' s' =
         (hash (salted salt password' len') = hash (salted salt password len), Some 0))"
proof -
  let ?a = "active_record first second"
  let ?rec = "new_record g salt (hash (salted salt password len))"
  let ?t = "if active_is_first first second then ACCOUNT_LBA + 1 else ACCOUNT_LBA"
  have salt: "length salt = 16" by (simp add: salt_def)
  note new = new_record_fields [OF salt length_hash, where g = g]
  obtain res1 s1 where w: "boot_write ?t ?rec s = (res1, s1)" by fastforce
  have "boot_read s ?t \<noteq> None" using r by simp
  from boot.sound_write [OF ok sound this w] have res1: res1 by simp
  have ok1: "machine_ok s1" by (rule boot.write_inv [OF ok new(1) w])
  have t: "boot_read s1 ?t = Some ?rec" using boot.write_this [OF ok] w res1 r by simp
  have valid_a: "record_valid ?a" using valid by (auto simp: active_record_def active_is_first_def)
  then have magic: "has_magic ?a" by (simp add: record_valid_def)
  have newer: "record_generation ?a < g" "g \<noteq> 0" using word_succ [OF gen] by (simp_all add: g_def)
  then have not_newer: "\<not> g < record_generation ?a" by simp
  obtain f2 s2 where r1: "boot_read s1 ACCOUNT_LBA = Some f2" "boot_read s1 (ACCOUNT_LBA + 1) = Some s2"
    and chosen: "chosen_record f2 s2 = Some ?rec"
  proof (cases "active_is_first first second")
    case True
    have "boot_read s1 ACCOUNT_LBA = Some first"
      using boot.write_other [OF ok w, of ACCOUNT_LBA] True r ACCOUNT_LBA_neq by simp
    with that [of first ?rec] t True newer not_newer magic new(2,4) show thesis
      by (simp add: chosen_record_def active_record_def)
  next
    case False
    have "boot_read s1 (ACCOUNT_LBA + 1) = Some second"
      using boot.write_other [OF ok w, of "ACCOUNT_LBA + 1"] False r ACCOUNT_LBA_neq by simp
    with that [of ?rec second] t False newer not_newer magic new(2,4) show thesis
      by (simp add: chosen_record_def active_record_def leD)
  qed
  have verify: "quanta_account_verify password' len' s1 =
      (hash (salted salt password' len') = hash (salted salt password len), Some 0)" if "len' \<le> 64" for password' len'
    unfolding verify_chosen [OF ok1 r1 that] chosen using new(5,6,7) by (auto simp: digest_of_def)
  have eq: "equal_bytes (drop 36 ?rec) (hash (salted salt password len)) 32"
    using equal_bytes_iff [of 32 "drop 36 ?rec" "hash (salted salt password len)"] new(1,6) length_hash by simp
  have "commit_record ?t g (hash (salted salt password len)) ?rec password len s = (True, s1)"
    using w res1 t eq new(3,4) verify [OF len(2)] by (simp add: commit_record_def)
  then have "quanta_account_change password len s = (True, s1)"
    using len valid
    by (simp only: quanta_account_change_def r option.case Let_def active_record_def [symmetric]
        g_def [symmetric] salt_def [symmetric]) auto
  with verify show ?thesis by blast
qed

text \<open>
  A write that the drive abandons after the first 20 bytes leaves the magic and the new
  generation on top of the older record.  Verification looks at nothing else, so from then
  on the password of the older record is the one that opens the session.
\<close>

lemma change_torn_write:
  fixes password :: "byte list" and len :: u64
  assumes ok: "machine_ok s" and live: "\<not> live_available s" and r: "boot_read s ACCOUNT_LBA = Some first"
    "boot_read s (ACCOUNT_LBA + 1) = Some second"
    and valid: "active_is_first first second" and len: "0 < len" "len \<le> 64"
    and gen: "record_generation first \<noteq> - 1"
  defines "g \<equiv> record_generation first + 1"
  defines "salt \<equiv> new_salt first g"
  defines "rec \<equiv> new_record g salt (hash (salted salt password len))"
  assumes torn: "write_fault (drives s 0) (ACCOUNT_LBA + 1) = Some (take 20 rec @ drop 20 second)"
  shows "\<exists>s'. quanta_account_change password len s = (False, s')
    \<and> (\<forall>password' len'. len' \<le> 64 \<longrightarrow> fst (quanta_account_verify password' len' s') =
         (digest_of second = hash (salted (field second 20 16) password' len')))"
proof -
  have salt: "length salt = 16" by (simp add: salt_def)
  note new = new_record_fields [OF salt length_hash, where g = g]
  have l2: "length second = 512" by (rule boot.read_length [OF ok r(2)])
  let ?torn = "take 20 rec @ drop 20 second"
  obtain res1 s1 where w: "boot_write (ACCOUNT_LBA + 1) rec s = (res1, s1)" by fastforce
  have acc: "ata_accepts s 0 (ACCOUNT_LBA + 1)"
    using r(2) live by (auto simp: boot_read_eq ata_read_def split: if_splits)
  have "ata_write s 0 (ACCOUNT_LBA + 1) rec = (res1, s1)"
    using boot_device_write_accepted [OF live] r(2) w by simp
  then have res1: "\<not> res1"
    and s1: "s1 = s\<lparr>drives := (drives s)(0 := (drives s 0)\<lparr>platter := (platter (drives s 0))(ACCOUNT_LBA + 1 := ?torn)\<rparr>)\<rparr>"
    using acc torn by (auto simp: ata_write_def Let_def)
  have t: "boot_read s1 (ACCOUNT_LBA + 1) = Some ?torn" unfolding s1 boot_read_after [OF live] using r by simp
  have f: "boot_read s1 ACCOUNT_LBA = Some first"
    using boot.write_other [OF ok w, of ACCOUNT_LBA] r ACCOUNT_LBA_neq by simp
  have ok1: "machine_ok s1" by (rule boot.write_inv [OF ok _ w]) (simp add: rec_def new(1))
  have l: "length rec = 512" by (simp add: rec_def new(1))
  have magic: "has_magic ?torn"
    using new(2) [of "salted salt password len"] l by (simp add: has_magic_def rec_def)
  have "u64_at ?torn 12 = u64_at rec 12" using l by (simp add: u64_at_def field_def drop_take)
  then have g: "record_generation ?torn = g"
    using new(4) by (simp add: record_generation_def rec_def)
  have d: "digest_of ?torn = digest_of second" "field ?torn 20 16 = field second 20 16"
    using l l2 by (simp_all add: digest_of_def field_def)
  have "record_generation first < g" using word_succ [OF gen] by (simp add: g_def)
  then have chosen: "chosen_record first ?torn = Some ?torn"
    using magic g word_succ(1) [OF gen] by (auto simp: chosen_record_def g_def word_gt_0 Let_def)
  have "fst (quanta_account_verify password' len' s1) =
      (digest_of second = hash (salted (field second 20 16) password' len'))" if "len' \<le> 64" for password' len'
    unfolding verify_chosen [OF ok1 f t that] chosen by (simp add: d)
  moreover have "commit_record (ACCOUNT_LBA + 1) g (hash (salted salt password len)) rec password len s = (False, s1)"
    using w res1 by (simp add: commit_record_def)
  then have "quanta_account_change password len s = (False, s1)"
    using len valid
    by (simp only: quanta_account_change_def r option.case Let_def if_True
        g_def [symmetric] salt_def [symmetric] rec_def [symmetric]) (auto simp: active_is_first_def)
  ultimately show ?thesis by blast
qed

section \<open>Properties\<close>

text \<open>A drive that holds two account records, the first one in force, for the concrete instances.\<close>

definition demo_record :: "u64 \<Rightarrow> byte list" where
  "demo_record generation = new_record generation (replicate 16 0) (hash (salted (replicate 16 0) (str ''old'') 3))"

definition demo_accounts :: "(u32 \<Rightarrow> byte list option) \<Rightarrow> machine" where
  "demo_accounts fault = \<lparr>drives = (\<lambda>_. \<lparr>present = True, sectors = 1000,
       platter = (\<lambda>n. if n = 512 then demo_record 2 else if n = 513 then demo_record 1 else replicate 512 0),
       read_fault = (\<lambda>_. False), write_fault = fault\<rparr>),
     live_base = 0, live_sectors = 0, live_image = (\<lambda>_. replicate 512 0),
     disk_count = (\<lambda>_. 0), live_count = 0, markers = []\<rparr>"

lemma demo_record_fields:
  "length (demo_record g) = 512" "has_magic (demo_record g)" "record_valid (demo_record g)"
  "record_generation (demo_record g) = g"
  by (simp_all add: demo_record_def new_record_fields)

lemma demo_accounts_ok:
  "(\<And>n left. fault n = Some left \<Longrightarrow> length left = 512) \<Longrightarrow> machine_ok (demo_accounts fault)"
  by (simp add: machine_ok_def demo_accounts_def demo_record_fields)

lemma demo_accounts_live: "\<not> live_available (demo_accounts fault)"
  by (simp add: live_available_def demo_accounts_def)

lemma demo_accounts_read:
  "boot_read (demo_accounts fault) ACCOUNT_LBA = Some (demo_record 2)"
  "boot_read (demo_accounts fault) (ACCOUNT_LBA + 1) = Some (demo_record 1)"
  by (simp_all add: boot_read_eq demo_accounts_live)
    (simp_all add: demo_accounts_def ata_sector_count_def ata_read_def ata_accepts_def ACCOUNT_LBA_def)

lemma demo_accounts_active: "active_is_first (demo_record 2) (demo_record 1)"
  by (simp add: active_is_first_def demo_record_fields)

text \<open>C17: A password change on a boot disk without faults succeeds whenever one of the two records
  is valid and its generation can still grow; afterwards verification accepts a password exactly
  when its salted digest is that of the new password, and reports no flag.\<close>

theorem account_change_effective:
  assumes "machine_ok s" "boot_disk_sound s" "boot_read s ACCOUNT_LBA = Some first"
    "boot_read s (ACCOUNT_LBA + 1) = Some second" "record_valid first \<or> record_valid second"
    "0 < len" "len \<le> 64" "record_generation (active_record first second) \<noteq> - 1"
  shows "\<exists>s'. quanta_account_change password len s = (True, s')
    \<and> (let salt = new_salt (active_record first second) (record_generation (active_record first second) + 1)
       in \<forall>password' len'. len' \<le> 64 \<longrightarrow> quanta_account_verify password' len' s' =
         (hash (salted salt password' len') = hash (salted salt password len), Some 0))"
  using change_succeeds [OF assms, of password] by (simp add: Let_def)

theorem account_change_effective_witness:
  "\<exists>s'. quanta_account_change (str ''new'') 3 (demo_accounts (\<lambda>_. None)) = (True, s')
    \<and> (let salt = new_salt (active_record (demo_record 2) (demo_record 1))
             (record_generation (active_record (demo_record 2) (demo_record 1)) + 1)
       in \<forall>password' len'. len' \<le> 64 \<longrightarrow> quanta_account_verify password' len' s' =
         (hash (salted salt password' len') = hash (salted salt (str ''new'') 3), Some 0))"
proof (rule account_change_effective [OF demo_accounts_ok _ demo_accounts_read])
  show "boot_disk_sound (demo_accounts (\<lambda>_. None))"
    using demo_accounts_live by (simp add: boot_disk_sound_def demo_accounts_def)
  show "record_valid (demo_record 2) \<or> record_valid (demo_record 1)" by (simp add: demo_record_fields)
  show "record_generation (active_record (demo_record 2) (demo_record 1)) \<noteq> - 1"
    by (simp add: active_record_def demo_accounts_active demo_record_fields)
qed simp_all



text \<open>C36: When the drive abandons the write of a new record behind its first 20 bytes, the change
  reports failure, but verification from then on accepts the password of the older, superseded
  record: it trusts magic and generation and does not check the record's checksum.\<close>

theorem account_torn_write_revives_old:
  fixes password :: "byte list" and len :: u64
  assumes "machine_ok s" "\<not> live_available s" "boot_read s ACCOUNT_LBA = Some first"
    "boot_read s (ACCOUNT_LBA + 1) = Some second" "active_is_first first second" "0 < len" "len \<le> 64"
    "record_generation first \<noteq> - 1"
    "write_fault (drives s 0) (ACCOUNT_LBA + 1) = Some (take 20 (new_record (record_generation first + 1)
       (new_salt first (record_generation first + 1))
       (hash (salted (new_salt first (record_generation first + 1)) password len))) @ drop 20 second)"
  shows "\<exists>s'. quanta_account_change password len s = (False, s')
    \<and> (\<forall>password' len'. len' \<le> 64 \<longrightarrow> fst (quanta_account_verify password' len' s') =
         (digest_of second = hash (salted (field second 20 16) password' len')))"
  by (rule change_torn_write [OF assms])

theorem account_torn_write_revives_old_witness:
  "\<exists>s s'. quanta_account_change (str ''new'') 3 s = (False, s')
    \<and> (\<forall>password' len'. len' \<le> 64 \<longrightarrow> fst (quanta_account_verify password' len' s') =
         (digest_of (demo_record 1) = hash (salted (field (demo_record 1) 20 16) password' len')))"
proof -
  define left where "left = take 20 (new_record (record_generation (demo_record 2) + 1)
       (new_salt (demo_record 2) (record_generation (demo_record 2) + 1))
       (hash (salted (new_salt (demo_record 2) (record_generation (demo_record 2) + 1)) (str ''new'') 3)))
     @ drop 20 (demo_record 1)"
  have len: "length left = 512"
    by (simp add: left_def demo_record_fields new_record_fields(1) [OF length_new_salt length_hash])
  have ok: "machine_ok (demo_accounts (\<lambda>_. Some left))" by (rule demo_accounts_ok) (use len in auto)
  show ?thesis
    by (intro exI [of _ "demo_accounts (\<lambda>_. Some left)"]
          account_torn_write_revives_old [OF ok demo_accounts_live demo_accounts_read demo_accounts_active])
      (simp_all add: demo_record_fields demo_accounts_def left_def)
qed

end
