(* ===== verification/Qfs2.thy ===== *)
theory Qfs2
  imports Storage Crc32
begin

text \<open>
  The writable file system of \<^verbatim>\<open>kernel/core/qfs2.c\<close>: the packed structures as records
  with their byte layout, the metadata readers and writers over the boot device, path
  lookup, reading, listing, \<open>stat\<close>, and the creation of nodes.  The static sector buffer is
  written by every \<^verbatim>\<open>read_sector\<close> before it is used and is therefore the result of that call.
\<close>

definition QFS2_LBA :: u32 where [geometry]: "QFS2_LBA = 514"
definition QFS2_ROOT_INODE :: u64 where "QFS2_ROOT_INODE = 1"
definition QFS2_FILE :: u32 where "QFS2_FILE = 1"
definition QFS2_DIRECTORY :: u32 where "QFS2_DIRECTORY = 2"

section \<open>Structures\<close>

record qfs2_superblock =
  sb_magic :: "byte list"
  sb_version :: u16
  sb_sector_size :: u16
  sb_total_sectors :: u32
  sb_bitmap_lba :: u32
  sb_inode_lba :: u32
  sb_inode_sectors :: u32
  sb_entry_lba :: u32
  sb_entry_sectors :: u32
  sb_root_inode :: u32
  sb_checksum :: u32
  sb_reserved :: u32

record qfs2_inode =
  in_inode :: u64
  in_kind :: u32
  in_mode :: u32
  in_uid :: u32
  in_gid :: u32
  in_size :: u32
  in_first_sector :: u32
  in_sectors :: u64
  in_generation :: u64
  in_reserved :: u32
  in_flags :: u32

record qfs2_dentry =
  de_parent :: u64
  de_inode :: u64
  de_kind :: byte
  de_name_length :: byte
  de_name :: "byte list"

record quanta_file_stat =
  st_inode :: u64
  st_size :: u64
  st_blocks :: u64
  st_mode :: u32
  st_uid :: u32
  st_gid :: u32
  st_type :: u32
  st_generation :: u64

definition superblock_of :: "byte list \<Rightarrow> qfs2_superblock" where
  "superblock_of b = \<lparr>sb_magic = field b 0 8, sb_version = u16_at b 8, sb_sector_size = u16_at b 10,
     sb_total_sectors = u32_at b 12, sb_bitmap_lba = u32_at b 16, sb_inode_lba = u32_at b 20,
     sb_inode_sectors = u32_at b 24, sb_entry_lba = u32_at b 28, sb_entry_sectors = u32_at b 32,
     sb_root_inode = u32_at b 36, sb_checksum = u32_at b 40, sb_reserved = u32_at b 44\<rparr>"

definition inode_of :: "byte list \<Rightarrow> qfs2_inode" where
  "inode_of b = \<lparr>in_inode = u64_at b 0, in_kind = u32_at b 8, in_mode = u32_at b 12,
     in_uid = u32_at b 16, in_gid = u32_at b 20, in_size = u32_at b 24, in_first_sector = u32_at b 28,
     in_sectors = u64_at b 32, in_generation = u64_at b 40, in_reserved = u32_at b 48,
     in_flags = u32_at b 52\<rparr>"

definition inode_bytes :: "qfs2_inode \<Rightarrow> byte list" where
  "inode_bytes i = le64 (in_inode i) @ le32 (in_kind i) @ le32 (in_mode i) @ le32 (in_uid i)
     @ le32 (in_gid i) @ le32 (in_size i) @ le32 (in_first_sector i) @ le64 (in_sectors i)
     @ le64 (in_generation i) @ le32 (in_reserved i) @ le32 (in_flags i)"

definition dentry_of :: "byte list \<Rightarrow> qfs2_dentry" where
  "dentry_of b = \<lparr>de_parent = u64_at b 0, de_inode = u64_at b 8, de_kind = b ! 16,
     de_name_length = b ! 17, de_name = field b 18 48\<rparr>"

definition dentry_bytes :: "qfs2_dentry \<Rightarrow> byte list" where
  "dentry_bytes d = le64 (de_parent d) @ le64 (de_inode d) @ [de_kind d, de_name_length d] @ de_name d"

section \<open>Metadata\<close>

definition superblock_ok :: "byte list \<Rightarrow> qfs2_superblock \<Rightarrow> bool" where
  "superblock_ok sector super \<longleftrightarrow>
     \<not> (take 5 (sb_magic super) \<noteq> str ''QFSv2'' \<or> sb_version super \<noteq> 2 \<or>
        sb_sector_size super \<noteq> 512 \<or> sb_root_inode super \<noteq> 1 \<or>
        sb_total_sectors super = 0 \<or> sb_bitmap_lba super < QFS2_LBA + 1 \<or>
        sb_inode_lba super \<le> sb_bitmap_lba super \<or> sb_inode_sectors super = 0 \<or>
        sb_entry_lba super < sb_inode_lba super \<or>
        sb_entry_lba super + sb_entry_sectors super > sb_total_sectors super \<or>
        sb_checksum super \<noteq> crc32 (take 40 sector))"

definition load_super :: "machine \<Rightarrow> qfs2_superblock option" where
  "load_super s =
     (case boot_read s QFS2_LBA of None \<Rightarrow> None
      | Some sector \<Rightarrow> let super = superblock_of sector in
          if superblock_ok sector super then Some super else None)"

definition outside_limit :: "qfs2_superblock \<Rightarrow> u64 \<Rightarrow> u64 \<Rightarrow> bool" where
  "outside_limit super offset len \<longleftrightarrow>
     (let limit = ucast (sb_total_sectors super) * 512 in offset > limit \<or> len > limit - offset)"

definition read_metadata :: "qfs2_superblock \<Rightarrow> u64 \<Rightarrow> nat \<Rightarrow> machine \<Rightarrow> byte list option" where
  "read_metadata super offset len s =
     (if outside_limit super offset (of_nat len) then None
      else read_span (boot_read s) (unat offset) len)"

definition write_metadata :: "qfs2_superblock \<Rightarrow> u64 \<Rightarrow> byte list \<Rightarrow> machine \<Rightarrow> bool \<times> machine" where
  "write_metadata super offset input s =
     (if outside_limit super offset (of_nat (length input)) then (False, s)
      else write_span boot_read boot_write (unat offset) input s)"

definition bad_inode_number :: "qfs2_superblock \<Rightarrow> u64 \<Rightarrow> bool" where
  "bad_inode_number super number \<longleftrightarrow>
     number = 0 \<or> number > (ucast (sb_inode_sectors super) * 512) div 56"

definition inode_offset :: "qfs2_superblock \<Rightarrow> u64 \<Rightarrow> u64" where
  "inode_offset super number = ucast (sb_inode_lba super) * 512 + (number - 1) * 56"

definition read_inode :: "qfs2_superblock \<Rightarrow> u64 \<Rightarrow> machine \<Rightarrow> qfs2_inode option" where
  "read_inode super number s =
     (if bad_inode_number super number then None
      else map_option inode_of (read_metadata super (inode_offset super number) 56 s))"

definition write_inode :: "qfs2_superblock \<Rightarrow> u64 \<Rightarrow> qfs2_inode \<Rightarrow> machine \<Rightarrow> bool \<times> machine" where
  "write_inode super number inode s =
     (if bad_inode_number super number then (False, s)
      else write_metadata super (inode_offset super number) (inode_bytes inode) s)"

section \<open>Lookup\<close>

function name_equal_from :: "byte list \<Rightarrow> nat \<Rightarrow> byte list \<Rightarrow> nat \<Rightarrow> bool" where
  "name_equal_from left left_length right index =
     (if cat right index \<noteq> 0 \<and> index < left_length \<and> cat left index = cat right index
      then name_equal_from left left_length right (index + 1)
      else cat right index = 0 \<and> index = left_length)"
  by auto
termination
  by (relation "measure (\<lambda>(left, left_length, right, index). left_length - index)") auto

declare name_equal_from.simps [simp del]

definition name_equal :: "byte list \<Rightarrow> nat \<Rightarrow> byte list \<Rightarrow> bool" where
  "name_equal left left_length right = name_equal_from left left_length right 0"

definition entry_count :: "qfs2_superblock \<Rightarrow> u32" where
  "entry_count super = ucast ((ucast (sb_entry_sectors super * 512) :: u64) div 66)"

definition entry_offset :: "qfs2_superblock \<Rightarrow> nat \<Rightarrow> u64" where
  "entry_offset super index = ucast (sb_entry_lba super * 512) + of_nat index * 66"

definition named :: "qfs2_dentry \<Rightarrow> bool" where
  "named entry \<longleftrightarrow> de_name_length entry > 0 \<and> de_name_length entry \<le> 48"

primrec find_child_from :: "qfs2_superblock \<Rightarrow> u64 \<Rightarrow> byte list \<Rightarrow> nat \<Rightarrow> nat \<Rightarrow> machine \<Rightarrow> u64 option" where
  "find_child_from super parent name index 0 s = None"
| "find_child_from super parent name index (Suc remaining) s =
     (case read_metadata super (entry_offset super index) 66 s of None \<Rightarrow> None
      | Some b \<Rightarrow> let entry = dentry_of b in
          if de_parent entry = parent \<and> named entry \<and>
             name_equal (de_name entry) (unat (de_name_length entry)) name
          then Some (de_inode entry)
          else find_child_from super parent name (index + 1) remaining s)"

definition find_child :: "qfs2_superblock \<Rightarrow> u64 \<Rightarrow> byte list \<Rightarrow> machine \<Rightarrow> u64 option" where
  "find_child super parent name s = find_child_from super parent name 0 (unat (entry_count super)) s"

text \<open>ASCII: 58 is a colon, 62 is \<^verbatim>\<open>>\<close>, 47 and 92 are the two slashes, 32 a space, 10 a newline.\<close>

definition drive_end :: "byte list \<Rightarrow> nat" where
  "drive_end path = length (takeWhile (\<lambda>c. c \<noteq> 58) (cstr path))"

text \<open>
  One component: the characters up to the next \<^verbatim>\<open>>\<close> or the end, refused when it holds
  a separator of another system or has more than 48 characters.
\<close>

fun take_component :: "byte list \<Rightarrow> byte list \<Rightarrow> (byte list \<times> byte list) option" where
  "take_component component [] = Some (component, [])"
| "take_component component (c # rest) =
     (if c = 62 then Some (component, c # rest)
      else if c = 47 \<or> c = 92 \<or> c = 58 then None
      else if length component + 1 \<ge> 49 then None
      else take_component (component @ [c]) rest)"

lemma take_component_shorter:
  "take_component component rest = Some (found, after) \<Longrightarrow>
     length found + length after = length component + length rest"
  by (induction component rest rule: take_component.induct) (auto split: if_splits)

text \<open>Skipping the separator; a second one in a row is refused.\<close>

definition skip_separator :: "byte list \<Rightarrow> byte list option" where
  "skip_separator rest =
     (case rest of [] \<Rightarrow> Some []
      | c # after \<Rightarrow> if cat after 0 = 62 then None else Some after)"

lemma skip_separator_shorter: "skip_separator rest = Some next \<Longrightarrow> length next = length rest - 1"
  by (auto simp: skip_separator_def split: list.splits if_splits)

function find_path_from :: "qfs2_superblock \<Rightarrow> u64 \<Rightarrow> byte list \<Rightarrow> machine \<Rightarrow> u64 option" where
  "find_path_from super current rest s =
     (if rest = [] then Some current
      else case take_component [] rest of None \<Rightarrow> None
      | Some (component, after) \<Rightarrow>
          (case skip_separator after of None \<Rightarrow> None
           | Some next \<Rightarrow>
               if component = [] then find_path_from super current next s
               else case find_child super current component s of None \<Rightarrow> None
                 | Some child \<Rightarrow> find_path_from super child next s))"
  by auto
termination
proof (relation "measure (\<lambda>(super, current, rest, s). length rest)", goal_cases)
  case (2 super current rest s x2 x y x2a)
  then show ?case using take_component_shorter [of "[]" rest x y] skip_separator_shorter [of y x2a]
    by (cases rest) auto
next
  case (3 super current rest s x2 x y x2a x2b)
  then show ?case using take_component_shorter [of "[]" rest x y] skip_separator_shorter [of y x2a]
    by (cases x) auto
qed simp

declare find_path_from.simps [simp del]

definition find_path :: "qfs2_superblock \<Rightarrow> byte list \<Rightarrow> machine \<Rightarrow> u64 option" where
  "find_path super path s =
     (let p = cstr path; index = drive_end path in
      if index = length p \<or> \<not> (take index p = str ''prime'' \<or> take index p = str ''live'') then None
      else find_path_from super QFS2_ROOT_INODE (drop (index + 1) p) s)"

section \<open>Reading, listing, stat\<close>

text \<open>
  The sectors of a file, \<open>copied\<close> bytes in.  The result is whether all of them could be
  read, and the bytes stored in the output so far.
\<close>

function read_file_blocks :: "machine \<Rightarrow> u32 \<Rightarrow> nat \<Rightarrow> nat \<Rightarrow> bool \<times> byte list" where
  "read_file_blocks s first_sector copied limit =
     (if copied \<ge> limit then (True, [])
      else case boot_read s (first_sector + of_nat (copied div 512)) of
          None \<Rightarrow> (False, [])
        | Some sector \<Rightarrow>
            (let count = min (limit - copied) 512;
                 (complete, rest) = read_file_blocks s first_sector (copied + count) limit
             in (complete, take count sector @ rest)))"
  by auto
termination
  by (relation "measure (\<lambda>(s, first_sector, copied, limit). limit - copied)") auto

declare read_file_blocks.simps [simp del]

text \<open>A result of the C type \<^verbatim>\<open>int\<close> with the bytes stored from the start of \<open>output\<close>.\<close>

definition quanta_qfs2_read :: "byte list \<Rightarrow> u32 \<Rightarrow> machine \<Rightarrow> int \<times> byte list" where
  "quanta_qfs2_read path capacity s =
     (if capacity = 0 then (-1, [])
      else case load_super s of None \<Rightarrow> (-1, [])
      | Some super \<Rightarrow> (case find_path super path s of None \<Rightarrow> (-1, [])
      | Some number \<Rightarrow> (case read_inode super number s of None \<Rightarrow> (-1, [])
      | Some inode \<Rightarrow>
          if in_kind inode \<noteq> QFS2_FILE \<or> in_size inode \<ge> capacity then (-1, [])
          else if in_size inode = 0 then (0, [0])
          else if in_sectors inode = 0 \<or> in_first_sector inode < sb_entry_lba super \<or>
              ucast (in_first_sector inode) + in_sectors inode > ucast (sb_total_sectors super)
            then (-1, [])
          else (case read_file_blocks s (in_first_sector inode) 0 (unat (in_size inode)) of
              (False, stored) \<Rightarrow> (-1, stored)
            | (True, stored) \<Rightarrow> (sint (in_size inode), stored @ [0])))))"

text \<open>The listing so far is \<open>output\<close>, its terminator not included.\<close>

primrec list_entries :: "qfs2_superblock \<Rightarrow> u64 \<Rightarrow> u32 \<Rightarrow> nat \<Rightarrow> nat \<Rightarrow> byte list \<Rightarrow> machine \<Rightarrow>
    bool \<times> byte list" where
  "list_entries super number capacity index 0 output s = (True, output)"
| "list_entries super number capacity index (Suc remaining) output s =
     (case read_metadata super (entry_offset super index) 66 s of None \<Rightarrow> (False, output)
      | Some b \<Rightarrow> let entry = dentry_of b; n = unat (de_name_length entry) in
          if de_parent entry \<noteq> number \<or> n = 0 \<or> n > 48 \<or> length output + n + 2 \<ge> unat capacity
          then list_entries super number capacity (index + 1) remaining output s
          else list_entries super number capacity (index + 1) remaining
                 (output @ take n (de_name entry) @ [32]) s)"

definition quanta_qfs2_list :: "byte list \<Rightarrow> u32 \<Rightarrow> machine \<Rightarrow> int \<times> byte list" where
  "quanta_qfs2_list path capacity s =
     (if capacity < 2 then (-1, [])
      else case load_super s of None \<Rightarrow> (-1, [])
      | Some super \<Rightarrow> (case find_path super path s of None \<Rightarrow> (-1, [])
      | Some number \<Rightarrow> (case read_inode super number s of None \<Rightarrow> (-1, [])
      | Some inode \<Rightarrow>
          if in_kind inode \<noteq> QFS2_DIRECTORY then (-1, [])
          else (case list_entries super number capacity 0 (unat (entry_count super)) [] s of
              (False, output) \<Rightarrow> (-1, output @ (if output = [] then [] else [0]))
            | (True, output) \<Rightarrow>
                if output = [] then (0, [0])
                else (int (length output), butlast output @ [10, 0])))))"

definition QUANTA_FILE_REGULAR :: u32 where "QUANTA_FILE_REGULAR = 1"
definition QUANTA_FILE_DIRECTORY :: u32 where "QUANTA_FILE_DIRECTORY = 2"

definition quanta_qfs2_stat :: "byte list \<Rightarrow> machine \<Rightarrow> quanta_file_stat option" where
  "quanta_qfs2_stat path s =
     (case load_super s of None \<Rightarrow> None
      | Some super \<Rightarrow> (case find_path super path s of None \<Rightarrow> None
      | Some number \<Rightarrow> (case read_inode super number s of None \<Rightarrow> None
      | Some inode \<Rightarrow> Some \<lparr>st_inode = in_inode inode, st_size = ucast (in_size inode),
          st_blocks = in_sectors inode, st_mode = in_mode inode, st_uid = in_uid inode,
          st_gid = in_gid inode,
          st_type = (if in_kind inode = QFS2_DIRECTORY then QUANTA_FILE_DIRECTORY
                     else QUANTA_FILE_REGULAR),
          st_generation = in_generation inode\<rparr>)))"

definition quanta_qfs_v2_size_bytes :: "machine \<Rightarrow> u64" where
  "quanta_qfs_v2_size_bytes s =
     (case load_super s of None \<Rightarrow> 0 | Some super \<Rightarrow> ucast (sb_total_sectors super) * 512)"

section \<open>Creation\<close>

text \<open>The two loops over the end of the path: trailing separators, and the last inner one.\<close>

fun trim_length :: "byte list \<Rightarrow> nat \<Rightarrow> nat \<Rightarrow> nat" where
  "trim_length p drive len =
     (if len > drive + 1 \<and> p ! (len - 1) = 62 then trim_length p drive (len - 1) else len)"

declare trim_length.simps [simp del]

definition last_cut :: "byte list \<Rightarrow> nat \<Rightarrow> nat \<Rightarrow> nat" where
  "last_cut p drive len =
     foldl (\<lambda>cut index. if p ! index = 62 then index else cut) 0 [drive + 1..<len]"

definition split_path :: "byte list \<Rightarrow> (byte list \<times> byte list) option" where
  "split_path path =
     (let p = cstr path; drive = drive_end path in
      if drive = length p then None
      else if 47 \<in> set p \<or> 92 \<in> set p then None
      else let len = trim_length p drive (length p) in
        if len \<le> drive + 1 then None
        else let cut = last_cut p drive len in
          if len - cut - 1 \<ge> 49 \<or> cut \<ge> 96 then None
          else if cut \<le> drive
            then Some (take (drive + 1) p, take (len - drive - 1) (drop (drive + 1) p))
            else Some (take cut p, take (len - cut - 1) (drop (cut + 1) p)))"

text \<open>\<open>None\<close>: a read failed; \<open>Some None\<close>: nothing is free.\<close>

fun find_free_inode :: "qfs2_superblock \<Rightarrow> nat list \<Rightarrow> machine \<Rightarrow> u64 option option" where
  "find_free_inode super [] s = Some None"
| "find_free_inode super (index # rest) s =
     (case read_inode super (of_nat index) s of None \<Rightarrow> None
      | Some inode \<Rightarrow>
          if in_inode inode = 0 then Some (Some (of_nat index)) else find_free_inode super rest s)"

definition inode_count :: "qfs2_superblock \<Rightarrow> u32" where
  "inode_count super = ucast ((ucast (sb_inode_sectors super) * 512 :: u64) div 56)"

definition create_count :: "qfs2_superblock \<Rightarrow> u32" where
  "create_count super = ucast ((ucast (sb_entry_sectors super) * 512 :: u64) div 66)"

definition create_offset :: "qfs2_superblock \<Rightarrow> nat \<Rightarrow> u64" where
  "create_offset super index = ucast (sb_entry_lba super) * 512 + of_nat index * 66"

fun find_free_entry :: "qfs2_superblock \<Rightarrow> nat list \<Rightarrow> machine \<Rightarrow> nat option option" where
  "find_free_entry super [] s = Some None"
| "find_free_entry super (index # rest) s =
     (case read_metadata super (create_offset super index) 66 s of None \<Rightarrow> None
      | Some b \<Rightarrow>
          if de_name_length (dentry_of b) = 0 then Some (Some index) else find_free_entry super rest s)"

definition new_inode :: "u64 \<Rightarrow> u32 \<Rightarrow> qfs2_inode" where
  "new_inode number kind = \<lparr>in_inode = number, in_kind = kind,
     in_mode = (if kind = QFS2_DIRECTORY then 0x1ed else 0x1a4), in_uid = 1000, in_gid = 1000,
     in_size = 0, in_first_sector = 0, in_sectors = 0, in_generation = 1, in_reserved = 0,
     in_flags = 0\<rparr>"

definition empty_inode :: qfs2_inode where
  "empty_inode = \<lparr>in_inode = 0, in_kind = 0, in_mode = 0, in_uid = 0, in_gid = 0, in_size = 0,
     in_first_sector = 0, in_sectors = 0, in_generation = 0, in_reserved = 0, in_flags = 0\<rparr>"

definition new_dentry :: "u64 \<Rightarrow> u64 \<Rightarrow> u32 \<Rightarrow> byte list \<Rightarrow> qfs2_dentry" where
  "new_dentry parent number kind name = \<lparr>de_parent = parent, de_inode = number,
     de_kind = ucast kind, de_name_length = of_nat (length name),
     de_name = name @ replicate (48 - length name) 0\<rparr>"

text \<open>The two writes and the verification that ends \<open>create_node\<close>.\<close>

definition store_node :: "qfs2_superblock \<Rightarrow> u64 \<Rightarrow> byte list \<Rightarrow> u32 \<Rightarrow> u64 \<Rightarrow> nat \<Rightarrow> machine \<Rightarrow>
    bool \<times> machine" where
  "store_node super parent name kind number index s =
     (case write_inode super number (new_inode number kind) s of
        (False, s1) \<Rightarrow> (False, write_marker ''QUANTA_MKDIR_INODE_WRITE_FAILED'' s1)
      | (True, s1) \<Rightarrow>
     (case write_metadata super (create_offset super index)
         (dentry_bytes (new_dentry parent number kind name)) s1 of
        (False, s2) \<Rightarrow> (False, snd (write_inode super number empty_inode s2))
      | (True, s2) \<Rightarrow>
          if (case read_inode super number s2 of None \<Rightarrow> True
              | Some inode \<Rightarrow> in_inode inode \<noteq> number \<or> in_kind inode \<noteq> kind)
             \<or> find_child super parent name s2 \<noteq> Some number
          then (False, write_marker ''QUANTA_MKDIR_VERIFY_FAILED'' s2)
          else (True, s2)))"

definition create_node :: "byte list \<Rightarrow> u32 \<Rightarrow> machine \<Rightarrow> bool \<times> machine" where
  "create_node path kind s =
     (case load_super s of None \<Rightarrow> (False, write_marker ''QUANTA_MKDIR_SUPER_FAILED'' s)
      | Some super \<Rightarrow>
     (case split_path path of None \<Rightarrow> (False, write_marker ''QUANTA_MKDIR_PATH_FAILED'' s)
      | Some (parent, name) \<Rightarrow>
     (case Option.bind (find_path super parent s) (\<lambda>number.
             map_option (\<lambda>inode. (number, inode)) (read_inode super number s)) of
        None \<Rightarrow> (False, write_marker ''QUANTA_MKDIR_PARENT_FAILED'' s)
      | Some (parent_inode, inode) \<Rightarrow>
          if in_kind inode \<noteq> QFS2_DIRECTORY
          then (False, write_marker ''QUANTA_MKDIR_PARENT_FAILED'' s)
          else if find_child super parent_inode name s \<noteq> None
          then (False, write_marker ''QUANTA_MKDIR_PARENT_FAILED'' s)
          else
     (case find_free_inode super [2..<unat (inode_count super) + 1] s of
        None \<Rightarrow> (False, write_marker ''QUANTA_MKDIR_INODE_READ_FAILED'' s)
      | Some None \<Rightarrow> (False, write_marker ''QUANTA_MKDIR_NO_INODE'' s)
      | Some (Some number) \<Rightarrow>
     (case find_free_entry super [0..<unat (create_count super)] s of
        None \<Rightarrow> (False, write_marker ''QUANTA_MKDIR_ENTRY_READ_FAILED'' s)
      | Some None \<Rightarrow> (False, write_marker ''QUANTA_MKDIR_NO_ENTRY'' s)
      | Some (Some index) \<Rightarrow> store_node super parent_inode name kind number index s)))))"

definition quanta_qfs2_mkdir :: "byte list \<Rightarrow> machine \<Rightarrow> bool \<times> machine" where
  "quanta_qfs2_mkdir path s = create_node path QFS2_DIRECTORY s"

definition quanta_qfs2_create :: "byte list \<Rightarrow> machine \<Rightarrow> bool \<times> machine" where
  "quanta_qfs2_create path s = create_node path QFS2_FILE s"

section \<open>Layout of the structures\<close>

lemma length_inode_bytes [simp]: "length (inode_bytes i) = 56"
  by (simp add: inode_bytes_def)

lemma inode_roundtrip: "inode_of (inode_bytes i) = i"
  by (simp add: inode_of_def inode_bytes_def u64_at_def u32_at_def field_layout)

lemma length_dentry_bytes: "length (dentry_bytes d) = 18 + length (de_name d)"
  by (simp add: dentry_bytes_def)

lemma dentry_roundtrip:
  assumes "length (de_name d) = 48"
  shows "dentry_of (dentry_bytes d) = d"
  using assms field_Cons
  by (simp add: dentry_of_def dentry_bytes_def u64_at_def field_layout nth_append)

section \<open>Metadata as bytes of the disk\<close>

abbreviation disk_byte :: "machine \<Rightarrow> nat \<Rightarrow> byte option" where
  "disk_byte \<equiv> byte_at boot_read"

definition fs_bytes :: "qfs2_superblock \<Rightarrow> nat" where
  "fs_bytes super = unat (sb_total_sectors super) * 512"

lemma fs_bytes_limit: "fs_bytes super < disk_limit" "fs_bytes super < 2 ^ 64"
  using unat_less_pow [of "sb_total_sectors super"] by (simp_all add: fs_bytes_def disk_limit_def)

lemma unat_mult_512:
  assumes "unat (w :: u32) * 512 < 2 ^ 64"
  shows "unat (ucast w * 512 :: u64) = unat w * 512"
  using assms by (simp add: unat_word_ariths unat_ucast_up)

lemma outside_limit_nat: "\<not> outside_limit super offset len \<longleftrightarrow> unat offset + unat len \<le> fs_bytes super"
proof -
  let ?limit = "ucast (sb_total_sectors super) * 512 :: u64"
  have lim: "unat ?limit = fs_bytes super"
    using fs_bytes_limit(2) [of super] unfolding fs_bytes_def by (rule unat_mult_512)
  have "offset \<le> ?limit \<Longrightarrow> unat (?limit - offset) = fs_bytes super - unat offset"
    using lim by (simp add: unat_sub)
  then show ?thesis
    using lim by (auto simp: outside_limit_def Let_def not_less word_le_nat_alt)
qed

lemma read_metadata_iff:
  assumes "machine_ok s" "len < 2 ^ 64"
  shows "read_metadata super offset len s = Some bs \<longleftrightarrow>
    unat offset + len \<le> fs_bytes super \<and> length bs = len
    \<and> (\<forall>i<len. disk_byte s (unat offset + i) = Some (bs ! i))"
  using assms outside_limit_nat [of super offset "of_nat len"]
  by (auto simp: read_metadata_def boot.read_span_iff unat_of_nat)

lemma read_metadata_cong:
  assumes "machine_ok s" "machine_ok s'"
    and "\<And>i. i < len \<Longrightarrow> disk_byte s' (unat offset + i) = disk_byte s (unat offset + i)"
  shows "read_metadata super offset len s' = read_metadata super offset len s"
  using boot.read_span_cong [OF assms(1,2), of len "unat offset"] assms(3) by (simp add: read_metadata_def)

lemma write_metadata_spec:
  assumes ok: "machine_ok s" and w: "write_metadata super offset input s = (res, s')"
    and len: "length input < 2 ^ 64"
  shows "machine_ok s'" and "boot_read s' m = None \<longleftrightarrow> boot_read s m = None"
    and "res \<Longrightarrow> unat offset + length input \<le> fs_bytes super"
    and "res \<Longrightarrow> a < disk_limit \<Longrightarrow> disk_byte s' a =
          (if unat offset \<le> a \<and> a < unat offset + length input
           then Some (input ! (a - unat offset)) else disk_byte s a)"
    and "a < disk_limit \<Longrightarrow> (\<forall>k<length input. (unat offset + k) div 512 \<noteq> a div 512) \<Longrightarrow>
          disk_byte s' a = disk_byte s a"
proof -
  have "machine_ok s' \<and> (\<forall>m. boot_read s' m = None \<longleftrightarrow> boot_read s m = None)
    \<and> (res \<longrightarrow> unat offset + length input \<le> fs_bytes super)
    \<and> (res \<longrightarrow> (\<forall>a<disk_limit. disk_byte s' a = (if unat offset \<le> a \<and> a < unat offset + length input
           then Some (input ! (a - unat offset)) else disk_byte s a)))
    \<and> (\<forall>a<disk_limit. (\<forall>k<length input. (unat offset + k) div 512 \<noteq> a div 512) \<longrightarrow>
          disk_byte s' a = disk_byte s a)"
  proof (cases "outside_limit super offset (of_nat (length input))")
    case True
    then show ?thesis using w ok by (auto simp: write_metadata_def)
  next
    case False
    then have lim: "unat offset + length input \<le> fs_bytes super"
      using outside_limit_nat [of super offset "of_nat (length input)"] len by (simp add: unat_of_nat)
    then have "unat offset + length input \<le> disk_limit" using fs_bytes_limit(1) [of super] by simp
    moreover have "write_span boot_read boot_write (unat offset) input s = (res, s')"
      using w False by (simp add: write_metadata_def)
    ultimately show ?thesis using boot.write_span_spec [OF ok] lim by blast
  qed
  then show "machine_ok s'" "boot_read s' m = None \<longleftrightarrow> boot_read s m = None"
    "res \<Longrightarrow> unat offset + length input \<le> fs_bytes super"
    "res \<Longrightarrow> a < disk_limit \<Longrightarrow> disk_byte s' a =
          (if unat offset \<le> a \<and> a < unat offset + length input
           then Some (input ! (a - unat offset)) else disk_byte s a)"
    "a < disk_limit \<Longrightarrow> (\<forall>k<length input. (unat offset + k) div 512 \<noteq> a div 512) \<Longrightarrow>
          disk_byte s' a = disk_byte s a"
    by blast+
qed

section \<open>The layout of a volume\<close>

text \<open>
  What the formatting tool establishes beyond the checks of \<open>load_super\<close>: the inode table
  lies between the superblock and the entry table, and the entry table below 4 GiB, where
  the 32-bit products of \<open>find_child\<close> do not wrap.
\<close>

definition layout :: "qfs2_superblock \<Rightarrow> bool" where
  "layout super \<longleftrightarrow> 515 \<le> unat (sb_inode_lba super)
     \<and> unat (sb_inode_lba super) + unat (sb_inode_sectors super) \<le> unat (sb_entry_lba super)
     \<and> unat (sb_entry_lba super) + unat (sb_entry_sectors super) < 2 ^ 23
     \<and> unat (sb_entry_lba super) + unat (sb_entry_sectors super) \<le> unat (sb_total_sectors super)"

definition inode_at :: "qfs2_superblock \<Rightarrow> u64 \<Rightarrow> nat" where
  "inode_at super number = unat (sb_inode_lba super) * 512 + 56 * (unat number - 1)"

definition entry_at :: "qfs2_superblock \<Rightarrow> nat \<Rightarrow> nat" where
  "entry_at super index = unat (sb_entry_lba super) * 512 + 66 * index"

definition inode_slots :: "qfs2_superblock \<Rightarrow> nat" where
  "inode_slots super = unat (sb_inode_sectors super) * 512 div 56"

definition entry_slots :: "qfs2_superblock \<Rightarrow> nat" where
  "entry_slots super = unat (sb_entry_sectors super) * 512 div 66"

lemma layout_bounds:
  assumes "layout super"
  shows "unat (sb_inode_lba super) * 512 < 2 ^ 32" "unat (sb_inode_sectors super) * 512 < 2 ^ 32"
    "unat (sb_entry_lba super) * 512 < 2 ^ 32" "unat (sb_entry_sectors super) * 512 < 2 ^ 32"
  using assms by (auto simp: layout_def)

lemma bad_inode_number_nat:
  "\<not> bad_inode_number super number \<longleftrightarrow> 1 \<le> unat number \<and> unat number \<le> inode_slots super"
proof -
  have "unat (ucast (sb_inode_sectors super) * 512 :: u64) = unat (sb_inode_sectors super) * 512"
    using unat_less_pow [of "sb_inode_sectors super"] by (intro unat_mult_512) simp
  then have "unat ((ucast (sb_inode_sectors super) * 512 :: u64) div 56) = inode_slots super"
    by (simp add: unat_div inode_slots_def)
  then show ?thesis by (auto simp: bad_inode_number_def word_less_nat_alt unat_eq_0 unat_gt_0 not_less Suc_le_eq)
qed


lemma inode_offset_nat:
  assumes "layout super" "\<not> bad_inode_number super number"
  shows "unat (inode_offset super number) = inode_at super number"
    and "inode_at super number + 56 \<le> unat (sb_entry_lba super) * 512"
    and "515 * 512 \<le> inode_at super number"
proof -
  have n: "1 \<le> unat number" "unat number \<le> inode_slots super"
    using assms(2) bad_inode_number_nat by blast+
  have slots: "56 * inode_slots super \<le> unat (sb_inode_sectors super) * 512"
    unfolding inode_slots_def by simp
  have base: "unat (ucast (sb_inode_lba super) * 512 :: u64) = unat (sb_inode_lba super) * 512"
    using layout_bounds(1) [OF assms(1)] by (intro unat_mult_512) simp
  have "(1 :: u64) \<le> number" using n(1) by (simp add: word_le_nat_alt)
  then have "unat (number - 1) = unat number - 1" by (simp add: unat_sub)
  moreover have small: "56 * (unat number - 1) + 56 \<le> unat (sb_inode_sectors super) * 512"
    using n slots by simp
  then have "56 * (unat number - 1) < 2 ^ 32" using layout_bounds(2) [OF assms(1)] by simp
  ultimately have prod: "unat ((number - 1) * 56) = 56 * (unat number - 1)"
    by (subst unat_word_ariths(2)) simp
  have sum: "inode_at super number + 56 \<le> unat (sb_entry_lba super) * 512"
    using small assms(1) by (simp add: inode_at_def layout_def)
  then have "inode_at super number < 2 ^ 64" using layout_bounds(3) [OF assms(1)] by simp
  then show "unat (inode_offset super number) = inode_at super number"
    using base prod by (simp add: inode_offset_def inode_at_def unat_word_ariths)
  show "inode_at super number + 56 \<le> unat (sb_entry_lba super) * 512" by (rule sum)
  show "515 * 512 \<le> inode_at super number" using assms(1) by (simp add: inode_at_def layout_def)
qed

lemma entry_slots_bound:
  assumes "layout super" "index < entry_slots super"
  shows "entry_at super index + 66 \<le> fs_bytes super" "entry_at super index + 66 < 2 ^ 33"
    "66 * index < 2 ^ 32"
proof -
  have slots: "66 * entry_slots super \<le> unat (sb_entry_sectors super) * 512"
    unfolding entry_slots_def by simp
  then have i: "66 * index + 66 \<le> unat (sb_entry_sectors super) * 512" using assms(2) by simp
  then show "66 * index < 2 ^ 32" using layout_bounds(4) [OF assms(1)] by simp
  show "entry_at super index + 66 \<le> fs_bytes super"
    using i assms(1) by (simp add: entry_at_def layout_def fs_bytes_def)
  show "entry_at super index + 66 < 2 ^ 33"
    using i assms(1) by (simp add: entry_at_def layout_def)
qed

lemma entry_offset_nat:
  assumes "layout super" "index < entry_slots super"
  shows "unat (entry_offset super index) = entry_at super index"
    and "create_offset super index = entry_offset super index"
proof -
  have "unat (sb_entry_lba super * 512) = unat (sb_entry_lba super) * 512"
    using layout_bounds(3) [OF assms(1)] by (simp add: unat_word_ariths)
  then have base: "unat (ucast (sb_entry_lba super * 512) :: u64) = unat (sb_entry_lba super) * 512"
    by (simp add: unat_ucast_up)
  also have "\<dots> = unat (ucast (sb_entry_lba super) * 512 :: u64)"
    using layout_bounds(3) [OF assms(1)] by (intro unat_mult_512 [symmetric]) simp
  finally have "ucast (sb_entry_lba super * 512) = (ucast (sb_entry_lba super) * 512 :: u64)"
    by (rule unsigned_word_eqI)
  then show "create_offset super index = entry_offset super index"
    by (simp add: create_offset_def entry_offset_def)
  note small = entry_slots_bound [OF assms]
  have "index < 2 ^ 32" using small(3) by simp
  then have "unat (of_nat index * 66 :: u64) = 66 * index"
    using small(3) by (simp add: unat_word_ariths unat_of_nat)
  then show "unat (entry_offset super index) = entry_at super index"
    using base small(2) by (simp add: entry_offset_def entry_at_def unat_word_ariths)
qed

lemma entry_count_nat:
  assumes "layout super"
  shows "unat (entry_count super) = entry_slots super" "create_count super = entry_count super"
proof -
  have "unat (sb_entry_sectors super * 512) = unat (sb_entry_sectors super) * 512"
    using layout_bounds(4) [OF assms] by (simp add: unat_word_ariths)
  then have a: "unat (ucast (sb_entry_sectors super * 512) :: u64) = unat (sb_entry_sectors super) * 512"
    by (simp add: unat_ucast_up)
  also have "\<dots> = unat (ucast (sb_entry_sectors super) * 512 :: u64)"
    using layout_bounds(4) [OF assms] by (intro unat_mult_512 [symmetric]) simp
  finally have "ucast (sb_entry_sectors super * 512) = (ucast (sb_entry_sectors super) * 512 :: u64)"
    by (rule unsigned_word_eqI)
  then show "create_count super = entry_count super" by (simp add: create_count_def entry_count_def)
  have "unat ((ucast (sb_entry_sectors super * 512) :: u64) div 66) = entry_slots super"
    using a by (simp add: unat_div entry_slots_def)
  moreover have "entry_slots super < 2 ^ 32"
    using layout_bounds(4) [OF assms] by (simp add: entry_slots_def less_mult_imp_div_less)
  ultimately show "unat (entry_count super) = entry_slots super"
    by (simp add: entry_count_def unsigned_ucast_eq take_bit_nat_eq_self_iff)
qed

section \<open>Lookup of a name\<close>

lemma name_equal_from_iff:
  assumes "index \<le> n" "n \<le> length left"
  shows "name_equal_from left n right index \<longleftrightarrow> drop index (take n left) = cstr (drop index right)"
  using assms
proof (induction left n right index rule: name_equal_from.induct)
  case (1 left n right index)
  show ?case
  proof (cases "cat right index \<noteq> 0 \<and> index < n \<and> cat left index = cat right index")
    case True
    then have r: "index < length right" "right ! index \<noteq> 0" by (auto simp: cat_def split: if_splits)
    have "drop index (take n left) = left ! index # drop (Suc index) (take n left)"
      using True "1.prems" by (simp add: Cons_nth_drop_Suc [symmetric])
    moreover have "drop index right = right ! index # drop (Suc index) right"
      using r by (simp add: Cons_nth_drop_Suc)
    ultimately show ?thesis
      using "1.IH" [OF True] True "1.prems" r
      by (simp add: name_equal_from.simps [of left n right index] cat_def)
  next
    case False
    have eq: "name_equal_from left n right index \<longleftrightarrow> cat right index = 0 \<and> index = n"
      using False by (subst name_equal_from.simps) (simp only: if_False)
    show ?thesis
    proof (cases "cat right index = 0")
      case True
      then have "cstr (drop index right) = []"
        by (simp add: cstr_eq_Nil_iff)
      then show ?thesis using eq True "1.prems" by (auto simp: drop_eq_Nil)
    next
      case nz: False
      then have r: "index < length right" "right ! index \<noteq> 0" by (auto simp: cat_def split: if_splits)
      then have c: "cstr (drop index right) = right ! index # cstr (drop (Suc index) right)"
        by (simp add: Cons_nth_drop_Suc [symmetric])
      have "drop index (take n left) \<noteq> cstr (drop index right)"
      proof (cases "index < n")
        case True
        then have "drop index (take n left) = left ! index # drop (Suc index) (take n left)"
          using "1.prems" by (simp add: Cons_nth_drop_Suc [symmetric])
        then show ?thesis using False nz True r c "1.prems" by (auto simp: cat_def)
      qed (simp add: c)
      then show ?thesis using eq nz by simp
    qed
  qed
qed

lemma name_equal_iff:
  "n \<le> length left \<Longrightarrow> name_equal left n right \<longleftrightarrow> take n left = cstr right"
  using name_equal_from_iff [of 0 n left right] by (simp add: name_equal_def)

text \<open>\<open>matches\<close> is the test of one directory entry.\<close>

definition matches :: "u64 \<Rightarrow> byte list \<Rightarrow> byte list \<Rightarrow> bool" where
  "matches parent name b \<longleftrightarrow> de_parent (dentry_of b) = parent \<and> named (dentry_of b) \<and>
     name_equal (de_name (dentry_of b)) (unat (de_name_length (dentry_of b))) name"

lemma find_child_from_matches:
  "find_child_from super parent name index (Suc remaining) s =
     (case read_metadata super (entry_offset super index) 66 s of None \<Rightarrow> None
      | Some b \<Rightarrow> if matches parent name b then Some (de_inode (dentry_of b))
          else find_child_from super parent name (index + 1) remaining s)"
  by (simp only: find_child_from.simps matches_def Let_def)

declare find_child_from.simps(2) [simp del]

text \<open>
  An entry table that differs in one entry, which matched nothing before: lookups of other
  names are unchanged.
\<close>

lemma find_child_from_cong:
  assumes "\<And>j. index \<le> j \<Longrightarrow> j < index + remaining \<Longrightarrow>
      read_metadata super (entry_offset super j) 66 s' = read_metadata super (entry_offset super j) 66 s
      \<or> (\<exists>b b'. read_metadata super (entry_offset super j) 66 s = Some b
           \<and> read_metadata super (entry_offset super j) 66 s' = Some b'
           \<and> \<not> matches parent name b \<and> \<not> matches parent name b')"
  shows "find_child_from super parent name index remaining s' =
    find_child_from super parent name index remaining s"
  using assms
proof (induction remaining arbitrary: index)
  case (Suc remaining)
  have IH: "find_child_from super parent name (index + 1) remaining s' =
    find_child_from super parent name (index + 1) remaining s"
    by (rule Suc.IH) (use Suc.prems in auto)
  show ?case
  proof (cases "read_metadata super (entry_offset super index) 66 s' = read_metadata super (entry_offset super index) 66 s")
    case True
    then show ?thesis by (simp only: find_child_from_matches IH)
  next
    case False
    then obtain b b' where "read_metadata super (entry_offset super index) 66 s = Some b"
      "read_metadata super (entry_offset super index) 66 s' = Some b'"
      "\<not> matches parent name b" "\<not> matches parent name b'"
      using Suc.prems [of index] by auto
    then show ?thesis by (simp add: find_child_from_matches IH [simplified])
  qed
qed simp

lemma matches_free: "de_name_length (dentry_of b) = 0 \<Longrightarrow> \<not> matches parent name b"
  by (simp add: matches_def named_def)

lemma matches_new_dentry:
  assumes "0 < length name" "length name \<le> 48" "0 \<notin> set name"
  shows "length (dentry_bytes (new_dentry parent number kind name)) = 66"
    and "matches q nm (dentry_bytes (new_dentry parent number kind name)) \<longleftrightarrow> q = parent \<and> cstr nm = name"
    and "de_inode (dentry_of (dentry_bytes (new_dentry parent number kind name))) = number"
proof -
  let ?d = "new_dentry parent number kind name"
  have l: "length (de_name ?d) = 48" using assms by (simp add: new_dentry_def)
  then show "length (dentry_bytes ?d) = 66" by (simp add: length_dentry_bytes)
  have r: "dentry_of (dentry_bytes ?d) = ?d" by (rule dentry_roundtrip [OF l])
  show "de_inode (dentry_of (dentry_bytes ?d)) = number" unfolding r by (simp add: new_dentry_def)
  have n: "unat (de_name_length ?d) = length name" using assms by (simp add: new_dentry_def unat_of_nat)
  then have "named ?d" using assms by (simp add: named_def word_less_nat_alt word_le_nat_alt)
  moreover have "name_equal (de_name ?d) (length name) nm \<longleftrightarrow> name = cstr nm"
    using l assms by (simp add: name_equal_iff) (simp add: new_dentry_def)
  ultimately show "matches q nm (dentry_bytes ?d) \<longleftrightarrow> q = parent \<and> cstr nm = name"
    unfolding matches_def r n by (auto simp: new_dentry_def)
qed

section \<open>What the two writes of a new node change\<close>

lemma span_sectors_before:
  assumes "(off :: nat) mod 512 = 0 \<or> True" "a div 512 < off div 512"
  shows "\<forall>k. (off + k) div 512 \<noteq> a div 512"
  using assms by (metis div_le_mono le_add1 not_le)

lemma read_inode_cong:
  assumes "machine_ok s" "machine_ok s'" "layout super"
    and same: "\<not> bad_inode_number super number \<Longrightarrow> \<forall>i<56. disk_byte s' (inode_at super number + i)
      = disk_byte s (inode_at super number + i)"
  shows "read_inode super number s' = read_inode super number s"
  using read_metadata_cong [OF assms(1,2), of 56 "inode_offset super number" super]
    same inode_offset_nat(1) [OF assms(3)]
  by (auto simp: read_inode_def)

lemma entry_view_cong:
  assumes "machine_ok s" "machine_ok s'" "layout super" "index < entry_slots super"
    and "\<And>i. i < 66 \<Longrightarrow> disk_byte s' (entry_at super index + i) = disk_byte s (entry_at super index + i)"
  shows "read_metadata super (entry_offset super index) 66 s' = read_metadata super (entry_offset super index) 66 s"
  using read_metadata_cong [OF assms(1,2)] assms(5) entry_offset_nat(1) [OF assms(3,4)] by simp

definition superblock_kept :: "machine \<Rightarrow> machine \<Rightarrow> bool" where
  "superblock_kept s s' \<longleftrightarrow> (\<forall>i<512. disk_byte s' (514 * 512 + i) = disk_byte s (514 * 512 + i))"

lemma load_super_cong:
  assumes ok: "machine_ok s" "machine_ok s'" and kept: "superblock_kept s s'"
  shows "load_super s' = load_super s"
proof -
  have b: "disk_byte t (514 * 512 + i) = map_option (\<lambda>sec. sec ! i) (boot_read t 514)" if "i < 512" for t i
    using div_mod_shift [of "514 * 512" i] that by (simp add: byte_at_def)
  have "boot_read s' 514 = boot_read s 514"
  proof (cases "boot_read s 514")
    case None
    have "disk_byte s' (514 * 512 + 0) = disk_byte s (514 * 512 + 0)"
      using kept unfolding superblock_kept_def by (rule allE [of _ 0]) simp
    then have "map_option (\<lambda>sec. sec ! 0) (boot_read s' 514) = None"
      using b [of 0 s] b [of 0 s'] None by simp
    then show ?thesis using None by simp
  next
    case (Some sec)
    then have nth: "map_option (\<lambda>sec. sec ! i) (boot_read s' 514) = Some (sec ! i)" if "i < 512" for i
      using kept b [OF that, of s] b [OF that, of s'] that by (auto simp: superblock_kept_def)
    from nth [of 0] obtain sec' where s': "boot_read s' 514 = Some sec'" by auto
    have "sec' = sec"
      using boot.read_length [OF ok(1) Some] boot.read_length [OF ok(2) s'] nth s'
      by (intro nth_equalityI) auto
    with s' Some show ?thesis by simp
  qed
  then show ?thesis by (simp add: load_super_def QFS2_LBA_def)
qed

end
