(* ===== verification/Qfs1.thy ===== *)
theory Qfs1
  imports Qfs2
begin

text \<open>
  The read-only file system of \<^verbatim>\<open>kernel/core/qfs.c\<close>: a flat table of 64-byte records whose
  full paths stand for directories too.  Names that \<^verbatim>\<open>qfs2.c\<close> uses as well carry the prefix
  \<open>qfs1\<close>.  \<^verbatim>\<open>record.path\<close> is read as a C string that starts the record, so a path without a
  terminator runs on into the fields behind it, as it does in the packed structure.
\<close>

definition QFS_LBA :: u32 where [geometry]: "QFS_LBA = 258"
definition QFS_FILE :: u32 where "QFS_FILE = 1"

record qfs_superblock =
  q1_version :: u16
  q1_sector_size :: u16
  q1_count :: u32
  q1_table_lba :: u32
  q1_data_lba :: u32
  q1_total_sectors :: u32
  q1_checksum :: u32

record qfs_record =
  r1_path :: "byte list"
  r1_lba :: u32
  r1_size :: u32
  r1_sectors :: u32
  r1_flags :: u32

definition qfs1_superblock_of :: "byte list \<Rightarrow> qfs_superblock" where
  "qfs1_superblock_of b = \<lparr>q1_version = u16_at b 8, q1_sector_size = u16_at b 10, q1_count = u32_at b 12,
     q1_table_lba = u32_at b 16, q1_data_lba = u32_at b 20, q1_total_sectors = u32_at b 24,
     q1_checksum = u32_at b 28\<rparr>"

definition qfs1_record_of :: "byte list \<Rightarrow> qfs_record" where
  "qfs1_record_of b = \<lparr>r1_path = b, r1_lba = u32_at b 48, r1_size = u32_at b 52,
     r1_sectors = u32_at b 56, r1_flags = u32_at b 60\<rparr>"

definition is_separator :: "byte \<Rightarrow> bool" where
  "is_separator c \<longleftrightarrow> c = 32 \<or> c = 10"

text \<open>Whether \<open>name\<close> is one of the words of \<open>out\<close>.\<close>

function listed :: "byte list \<Rightarrow> byte list \<Rightarrow> bool" where
  "listed out name =
     (if out = [] then False
      else if takeWhile (\<lambda>c. \<not> is_separator c) out = name then True
      else listed (dropWhile is_separator (dropWhile (\<lambda>c. \<not> is_separator c) out)) name)"
  by auto
termination
proof (relation "measure (\<lambda>(out, name). length out)", goal_cases)
  case (2 out name)
  then obtain c r where out: "out = c # r" by (cases out) auto
  have "length (dropWhile is_separator (dropWhile (\<lambda>c. \<not> is_separator c) r)) \<le> length r"
    using length_dropWhile_le order_trans by metis
  moreover have "length (dropWhile is_separator r) \<le> length r" by (rule length_dropWhile_le)
  ultimately show ?case by (auto simp: out)
qed simp

declare listed.simps [simp del]

section \<open>Paths\<close>

text \<open>
  The loop of \<open>normalize_path\<close> on what follows the colon, with \<open>used\<close> bytes of the 96
  written: a separator becomes a slash, another system's separator is refused.
\<close>

fun normalize_from :: "nat \<Rightarrow> byte list \<Rightarrow> byte list option" where
  "normalize_from used [] = Some []"
| "normalize_from used (c # rest) =
     (if \<not> used + 1 < 96 then None
      else if c = 47 \<or> c = 92 \<or> c = 58 then None
      else map_option (Cons (if c = 62 then 47 else c)) (normalize_from (used + 1) rest))"

definition normalize_path :: "byte list \<Rightarrow> byte list option" where
  "normalize_path path =
     (let p = cstr path; colon = drive_end path in
      if colon = 0 \<or> colon = length p then None
      else map_option (Cons 47) (normalize_from 1 (drop (colon + 1) p)))"

section \<open>Operations\<close>

definition qfs1_load_super :: "machine \<Rightarrow> qfs_superblock option" where
  "qfs1_load_super s =
     (case boot_read s QFS_LBA of None \<Rightarrow> None
      | Some sector \<Rightarrow> let super = qfs1_superblock_of sector in
          if take 3 sector \<noteq> str ''QFS'' \<or> q1_version super \<noteq> 1 \<or> q1_sector_size super \<noteq> 512 \<or>
             q1_count super = 0 \<or> q1_table_lba super < QFS_LBA + 1 \<or>
             q1_data_lba super < q1_table_lba super then None
          else if q1_checksum super \<noteq> crc32 (take 28 sector) then None
          else Some super)"

text \<open>The record of the table with the given index.\<close>

definition read_record :: "qfs_superblock \<Rightarrow> u32 \<Rightarrow> machine \<Rightarrow> qfs_record option" where
  "read_record super index s =
     (let record_offset = index * 64 in
      map_option (\<lambda>sector. qfs1_record_of (field sector (unat (record_offset mod 512)) 64))
        (boot_read s (q1_table_lba super + record_offset div 512)))"

text \<open>The sectors of a file from number \<open>offset\<close> on; success and the bytes stored.\<close>

function copy_sectors :: "qfs_record \<Rightarrow> nat \<Rightarrow> nat \<Rightarrow> machine \<Rightarrow> bool \<times> byte list" where
  "copy_sectors record offset copied s =
     (if offset < unat (r1_sectors record) \<and> copied < unat (r1_size record)
      then let count = min (unat (r1_size record) - copied) 512 in
        case boot_read s (r1_lba record + of_nat offset) of
          None \<Rightarrow> (False, [])
        | Some sector \<Rightarrow>
            (let (complete, rest) = copy_sectors record (offset + 1) (copied + count) s
             in (complete, take count sector @ rest))
      else (True, []))"
  by auto
termination
  by (relation "measure (\<lambda>(record, offset, copied, s). unat (r1_sectors record) - offset)") auto

declare copy_sectors.simps [simp del]

primrec qfs1_read_from :: "qfs_superblock \<Rightarrow> byte list \<Rightarrow> u32 \<Rightarrow> u32 \<Rightarrow> nat \<Rightarrow> machine \<Rightarrow> int \<times> byte list" where
  "qfs1_read_from super normalized capacity index 0 s = (-1, [])"
| "qfs1_read_from super normalized capacity index (Suc remaining) s =
     (case read_record super index s of None \<Rightarrow> (-1, [])
      | Some record \<Rightarrow>
          if r1_flags record \<noteq> QFS_FILE \<or> \<not> text_equal (r1_path record) normalized
          then qfs1_read_from super normalized capacity (index + 1) remaining s
          else if r1_size record \<ge> capacity \<or> r1_sectors record = 0 \<or> r1_lba record < q1_data_lba super
          then (-1, [])
          else (case copy_sectors record 0 0 s of
              (False, stored) \<Rightarrow> (-1, stored)
            | (True, stored) \<Rightarrow> (int (length stored), stored @ [0])))"

definition quanta_qfs_read :: "byte list \<Rightarrow> u32 \<Rightarrow> machine \<Rightarrow> int \<times> byte list" where
  "quanta_qfs_read path capacity s =
     (if capacity = 0 then (-1, [])
      else case normalize_path path of None \<Rightarrow> (-1, [])
      | Some normalized \<Rightarrow> (case qfs1_load_super s of None \<Rightarrow> (-1, [])
      | Some super \<Rightarrow> qfs1_read_from super normalized capacity 0 (unat (q1_count super)) s))"

text \<open>The directory prefix: the path with a slash at its end, at most 47 characters.\<close>

definition list_prefix :: "byte list \<Rightarrow> byte list option" where
  "list_prefix normalized =
     (let copied = take 47 normalized in
      if copied = [] \<or> length copied + 1 \<ge> 48 then None
      else Some (if last copied \<noteq> 47 then copied @ [47] else copied))"

text \<open>\<open>None\<close> in the result is the return of -1; the listing so far is \<open>out\<close>.\<close>

primrec qfs1_list_from :: "qfs_superblock \<Rightarrow> byte list \<Rightarrow> u32 \<Rightarrow> u32 \<Rightarrow> nat \<Rightarrow> byte list \<Rightarrow> machine \<Rightarrow>
    bool \<times> byte list" where
  "qfs1_list_from super pre capacity index 0 out s = (True, out)"
| "qfs1_list_from super pre capacity index (Suc remaining) out s =
     (case read_record super index s of None \<Rightarrow> (False, out)
      | Some record \<Rightarrow>
          if r1_flags record \<noteq> QFS_FILE \<or> \<not> starts_with (r1_path record) pre \<or>
             cat (r1_path record) (length pre) = 0
          then qfs1_list_from super pre capacity (index + 1) remaining out s
          else
           (let name = takeWhile (\<lambda>c. c \<noteq> 47) (cstr (drop (length pre) (r1_path record))) in
            if listed out name then qfs1_list_from super pre capacity (index + 1) remaining out s
            else if length out + length name + 2 \<ge> unat capacity then (False, out)
            else qfs1_list_from super pre capacity (index + 1) remaining (out @ name @ [32]) s))"

definition quanta_qfs_list :: "byte list \<Rightarrow> u32 \<Rightarrow> machine \<Rightarrow> int \<times> byte list" where
  "quanta_qfs_list path capacity s =
     (if capacity < 2 then (-1, [])
      else case normalize_path path of None \<Rightarrow> (-1, [])
      | Some normalized \<Rightarrow> (case qfs1_load_super s of None \<Rightarrow> (-1, [])
      | Some super \<Rightarrow> (case list_prefix normalized of None \<Rightarrow> (-1, [0])
      | Some pre \<Rightarrow>
          (case qfs1_list_from super pre capacity 0 (unat (q1_count super)) [] s of
             (False, out) \<Rightarrow> (-1, out @ [0])
           | (True, out) \<Rightarrow>
               if out = [] then (-1, [0])
               else (int (length out), butlast out @ [10, 0])))))"

primrec qfs1_stat_from :: "qfs_superblock \<Rightarrow> byte list \<Rightarrow> u32 \<Rightarrow> nat \<Rightarrow> machine \<Rightarrow>
    quanta_file_stat option option" where
  "qfs1_stat_from super normalized index 0 s = Some None"
| "qfs1_stat_from super normalized index (Suc remaining) s =
     (case read_record super index s of None \<Rightarrow> None
      | Some record \<Rightarrow>
          if r1_flags record = QFS_FILE \<and> text_equal (r1_path record) normalized
          then Some (Some \<lparr>st_inode = ucast (index + 1), st_size = ucast (r1_size record),
              st_blocks = ucast (r1_sectors record), st_mode = 0x1a4, st_uid = 1000, st_gid = 1000,
              st_type = QUANTA_FILE_REGULAR, st_generation = 1\<rparr>)
          else qfs1_stat_from super normalized (index + 1) remaining s)"

definition quanta_qfs_stat :: "byte list \<Rightarrow> machine \<Rightarrow> quanta_file_stat option" where
  "quanta_qfs_stat path s =
     (case normalize_path path of None \<Rightarrow> None
      | Some normalized \<Rightarrow> (case qfs1_load_super s of None \<Rightarrow> None
      | Some super \<Rightarrow> (case qfs1_stat_from super normalized 0 (unat (q1_count super)) s of
          None \<Rightarrow> None
        | Some (Some stat) \<Rightarrow> Some stat
        | Some None \<Rightarrow>
            if fst (quanta_qfs_list path 48 s) \<ge> 0
            then Some \<lparr>st_inode = 0, st_size = 0, st_blocks = 0, st_mode = 0x1ed, st_uid = 1000,
              st_gid = 1000, st_type = QUANTA_FILE_DIRECTORY, st_generation = 1\<rparr>
            else None)))"

definition quanta_qfs_v1_size_bytes :: "machine \<Rightarrow> u64" where
  "quanta_qfs_v1_size_bytes s =
     (case qfs1_load_super s of None \<Rightarrow> 0 | Some super \<Rightarrow> ucast (q1_total_sectors super) * 512)"

end
