(* ===== verification/Mount.thy ===== *)
theory Mount
  imports Qfs1
begin

text \<open>
  The boot mount of \<^verbatim>\<open>kernel/vfs/mount.c\<close>, which recognises the volume and chooses the
  provider of the file operations, and the built-in files of \<^verbatim>\<open>kernel/vfs/ramfs.c\<close>.
\<close>

section \<open>The boot mount\<close>

definition FILESYSTEM_UNKNOWN :: u32 where "FILESYSTEM_UNKNOWN = 0"
definition FILESYSTEM_QFS1 :: u32 where "FILESYSTEM_QFS1 = 1"
definition FILESYSTEM_QFS2 :: u32 where "FILESYSTEM_QFS2 = 2"
definition FILESYSTEM_FAT :: u32 where "FILESYSTEM_FAT = 3"
definition FILESYSTEM_VFAT :: u32 where "FILESYSTEM_VFAT = 4"

definition QUANTA_MOUNT_READ_ONLY :: u32 where "QUANTA_MOUNT_READ_ONLY = 1"
definition QUANTA_MOUNT_BOOT :: u32 where "QUANTA_MOUNT_BOOT = 2"

text \<open>The two \<^verbatim>\<open>quanta_fs_provider\<close> tables.\<close>

datatype fs_provider = Qfs1_Provider | Qfs2_Provider

primrec provider_read :: "fs_provider \<Rightarrow> byte list \<Rightarrow> u32 \<Rightarrow> machine \<Rightarrow> int \<times> byte list" where
  "provider_read Qfs1_Provider = quanta_qfs_read"
| "provider_read Qfs2_Provider = quanta_qfs2_read"

primrec provider_list :: "fs_provider \<Rightarrow> byte list \<Rightarrow> u32 \<Rightarrow> machine \<Rightarrow> int \<times> byte list" where
  "provider_list Qfs1_Provider = quanta_qfs_list"
| "provider_list Qfs2_Provider = quanta_qfs2_list"

primrec provider_stat :: "fs_provider \<Rightarrow> byte list \<Rightarrow> machine \<Rightarrow> quanta_file_stat option" where
  "provider_stat Qfs1_Provider = quanta_qfs_stat"
| "provider_stat Qfs2_Provider = quanta_qfs2_stat"

record quanta_mount =
  mt_device :: "device option"
  mt_provider :: "fs_provider option"
  mt_size_bytes :: u64
  mt_kind :: u32
  mt_flags :: u32

definition initial_mount :: quanta_mount where
  "initial_mount = \<lparr>mt_device = None, mt_provider = None, mt_size_bytes = 0,
     mt_kind = FILESYSTEM_UNKNOWN, mt_flags = QUANTA_MOUNT_BOOT\<rparr>"

definition probe_qfs :: "byte list option \<Rightarrow> u32" where
  "probe_qfs result =
     (case result of None \<Rightarrow> FILESYSTEM_UNKNOWN
      | Some sector \<Rightarrow>
          if take 5 sector = str ''QFSv1'' then FILESYSTEM_QFS1
          else if take 5 sector = str ''QFSv2'' then FILESYSTEM_QFS2
          else FILESYSTEM_UNKNOWN)"

definition probe_fat :: "byte list \<Rightarrow> u32" where
  "probe_fat sector =
     (let bytes_per_sector = u16_at sector 11; reserved = u16_at sector 14; fats = sector ! 16;
          root_entries = u16_at sector 17; sectors_per_fat = u16_at sector 22;
          kind0 = (if bytes_per_sector = 512 \<and> reserved \<noteq> 0 \<and> fats \<noteq> 0 \<and> root_entries \<noteq> 0
                      \<and> sectors_per_fat \<noteq> 0 then FILESYSTEM_FAT else FILESYSTEM_UNKNOWN);
          kind1 = (if field sector 54 3 = str ''FAT'' then FILESYSTEM_FAT else kind0)
      in if field sector 82 3 = str ''FAT'' then FILESYSTEM_VFAT else kind1)"

definition quanta_vfs_probe_boot :: "machine \<Rightarrow> u32" where
  "quanta_vfs_probe_boot s =
     (let kind = probe_qfs (boot_read s QFS2_LBA) in
      if kind = FILESYSTEM_UNKNOWN then
        (case boot_read s 0 of None \<Rightarrow> kind
         | Some sector \<Rightarrow>
             if sector ! 510 = 0x55 \<and> sector ! 511 = 0xaa then probe_fat sector else kind)
      else kind)"

definition quanta_vfs_boot_mount :: "machine \<Rightarrow> quanta_mount \<Rightarrow> quanta_mount" where
  "quanta_vfs_boot_mount s m =
     (if mt_device m \<noteq> None then m
      else
       (let device = quanta_storage_boot_device s;
            kind = quanta_vfs_probe_boot s;
            m1 = m\<lparr>mt_device := device, mt_kind := kind\<rparr>
        in if kind = FILESYSTEM_QFS1
           then m1\<lparr>mt_provider := Some Qfs1_Provider, mt_size_bytes := quanta_qfs_v1_size_bytes s,
                   mt_flags := mt_flags m1 OR QUANTA_MOUNT_READ_ONLY\<rparr>
           else if kind = FILESYSTEM_QFS2
           then m1\<lparr>mt_provider := Some Qfs2_Provider, mt_size_bytes := quanta_qfs_v2_size_bytes s,
                   mt_flags := (if Option.bind device device_write = None
                                then mt_flags m1 OR QUANTA_MOUNT_READ_ONLY else mt_flags m1)\<rparr>
           else m1))"

section \<open>The built-in files\<close>

definition newline :: byte where "newline = 10"

definition ramfs_entries :: "(byte list \<times> byte list) list" where
  "ramfs_entries =
     [(str ''/etc/motd'', str ''Welcome to QuantaOs.'' @ [newline]),
      (str ''/etc/os-release'', str ''NAME=QuantaOs'' @ [newline] @ str ''ARCH=x86_64'' @ [newline]),
      (str ''/home/quanta/readme'', str ''This is your single-user QuantaOs session.'' @ [newline]),
      (str ''/bin/session'', str ''ELF64 user session'' @ [newline]),
      (str ''/bin/echo'', str ''ELF64 utility metadata'' @ [newline]),
      (str ''/bin/cat'', str ''ELF64 utility metadata'' @ [newline])]"

definition quanta_ramfs_read :: "byte list \<Rightarrow> byte list option" where
  "quanta_ramfs_read path = map_option snd (List.find (\<lambda>e. text_equal path (fst e)) ramfs_entries)"

definition quanta_ramfs_list :: "byte list \<Rightarrow> byte list option" where
  "quanta_ramfs_list path =
     (if text_equal path (str ''/'') \<or> text_equal path [] then Some (str ''etc  home  bin'' @ [newline])
      else if text_equal path (str ''/etc'') then Some (str ''motd  os-release'' @ [newline])
      else if text_equal path (str ''/home/quanta'') then Some (str ''readme'' @ [newline])
      else if text_equal path (str ''/bin'') then Some (str ''cat  echo  session'' @ [newline])
      else None)"


section \<open>Buffers\<close>

text \<open>The file operations never store beyond the capacity they were given.\<close>

lemma read_file_blocks_length:
  "length (snd (read_file_blocks s first_sector copied n)) \<le> n - copied"
proof (induction s first_sector copied n rule: read_file_blocks.induct)
  case (1 s first_sector copied n)
  show ?case
  proof (cases "copied \<ge> n \<or> boot_read s (first_sector + of_nat (copied div 512)) = None")
    case True
    then show ?thesis by (auto simp: read_file_blocks.simps [of s first_sector copied])
  next
    case False
    then obtain sector where sector: "\<not> n \<le> copied" "boot_read s (first_sector + of_nat (copied div 512)) = Some sector"
      by auto
    define count where "count = min (n - copied) 512"
    obtain ok rest where rest: "read_file_blocks s first_sector (copied + count) n = (ok, rest)" by fastforce
    have "length rest \<le> n - (copied + count)"
      using "1.IH" [OF sector refl] rest by (simp add: count_def)
    moreover have "count \<le> n - copied" by (simp add: count_def)
    ultimately have "length (take count sector @ rest) \<le> n - copied" by simp
    then show ?thesis
      using sector rest by (simp add: read_file_blocks.simps [of s first_sector copied] Let_def count_def)
  qed
qed

lemma qfs2_read_cases:
  obtains (nothing) "snd (quanta_qfs2_read path capacity s) = []"
  | (terminator) "snd (quanta_qfs2_read path capacity s) = [0]" "capacity \<noteq> 0"
  | (blocks) f n where "n < capacity" "length (snd (quanta_qfs2_read path capacity s)) \<le>
      length (snd (read_file_blocks s f 0 (unat n))) + 1"
proof -
  let ?r = "quanta_qfs2_read path capacity s"
  have "snd ?r = [] \<or> snd ?r = [0] \<and> capacity \<noteq> 0 \<or>
    (\<exists>f n. n < capacity \<and> length (snd ?r) \<le> length (snd (read_file_blocks s f 0 (unat n))) + 1)"
  proof (cases "capacity = 0 \<or> snd ?r = [] \<or> snd ?r = [0]")
    case True
    then show ?thesis by (auto simp: quanta_qfs2_read_def)
  next
    case False
    then obtain super number inode where *: "capacity \<noteq> 0" "load_super s = Some super" "find_path super path s = Some number"
      "read_inode super number s = Some inode"
      by (auto simp: quanta_qfs2_read_def split: option.splits)
    then have size: "in_size inode < capacity" using False by (auto simp: quanta_qfs2_read_def not_le split: if_splits)
    obtain ok stored where rd: "read_file_blocks s (in_first_sector inode) 0 (unat (in_size inode)) = (ok, stored)" by fastforce
    have "length (snd ?r) \<le> length stored + 1"
      using * rd by (cases ok) (auto simp: quanta_qfs2_read_def)
    with rd size show ?thesis by (metis snd_conv)
  qed
  with that show thesis by blast
qed

lemma qfs2_read_bounded: "length (snd (quanta_qfs2_read path capacity s)) \<le> unat capacity"
proof (cases rule: qfs2_read_cases [of path capacity s])
  case terminator
  then show ?thesis using unat_gt_0 [of capacity] by simp
next
  case (blocks f n)
  then show ?thesis
    using read_file_blocks_length [of s f 0 "unat n"] by (simp add: word_less_nat_alt)
qed simp

lemma list_entries_length:
  "length out < unat capacity \<Longrightarrow>
   length (snd (list_entries super number capacity index n out s)) < unat capacity"
proof (induction n arbitrary: index out)
  case (Suc n)
  show ?case
  proof (cases "read_metadata super (entry_offset super index) 66 s")
    case None
    then show ?thesis using Suc.prems by simp
  next
    case (Some b)
    let ?e = "dentry_of b" and ?n = "unat (de_name_length (dentry_of b))"
    show ?thesis
    proof (cases "de_parent ?e \<noteq> number \<or> ?n = 0 \<or> ?n > 48 \<or> length out + ?n + 2 \<ge> unat capacity")
      case True
      then show ?thesis using Suc.IH [OF Suc.prems] Some by (auto simp: Let_def)
    next
      case False
      then have "length (out @ take ?n (de_name ?e) @ [32]) < unat capacity" by auto
      from Suc.IH [OF this] Some False show ?thesis by (auto simp: Let_def)
    qed
  qed
qed simp

lemma qfs2_list_bounded: "length (snd (quanta_qfs2_list path capacity s)) \<le> unat capacity"
proof (cases "capacity < 2")
  case False
  then have two: "2 \<le> unat capacity" by (simp add: not_less word_le_nat_alt)
  have entries: "length out < unat capacity" if "list_entries super n capacity 0 k [] s = (ok, out)" for super n k ok out
    using list_entries_length [of "[]" capacity super n 0 k s] two that by simp
  show ?thesis
    using False two entries
    by (fastforce simp: quanta_qfs2_list_def Suc_le_eq split: option.splits prod.splits bool.splits)
qed (simp add: quanta_qfs2_list_def)

lemma copy_sectors_length:
  "length (snd (copy_sectors rcd offset copied s)) \<le> unat (r1_size rcd) - copied"
proof (induction rcd offset copied s rule: copy_sectors.induct)
  case (1 rcd offset copied s)
  show ?case
  proof (cases "offset < unat (r1_sectors rcd) \<and> copied < unat (r1_size rcd)")
    case False
    then show ?thesis by (subst copy_sectors.simps) (simp only: if_False snd_conv list.size zero_le)
  next
    case True
    define count where "count = min (unat (r1_size rcd) - copied) 512"
    show ?thesis
    proof (cases "boot_read s (r1_lba rcd + of_nat offset)")
      case None
      then show ?thesis using True by (simp add: copy_sectors.simps [of rcd offset])
    next
      case (Some sector)
      obtain ok rest where rest: "copy_sectors rcd (offset + 1) (copied + count) s = (ok, rest)" by fastforce
      have "length rest \<le> unat (r1_size rcd) - (copied + count)"
        using "1.IH" [OF True refl Some] rest by (simp add: count_def)
      moreover have "count \<le> unat (r1_size rcd) - copied" by (simp add: count_def)
      ultimately have "length (take count sector @ rest) \<le> unat (r1_size rcd) - copied" by simp
      then show ?thesis
        using True Some rest by (simp add: copy_sectors.simps [of rcd offset copied] Let_def count_def)
    qed
  qed
qed

lemma qfs1_read_from_length:
  assumes "capacity \<noteq> 0"
  shows "length (snd (qfs1_read_from super normalized capacity index n s)) \<le> unat capacity"
proof (induction n arbitrary: index)
  case (Suc n)
  show ?case
  proof (cases "read_record super index s")
    case (Some rcd)
    obtain ok stored where cp: "copy_sectors rcd 0 0 s = (ok, stored)" by fastforce
    have "length stored < unat capacity" if "\<not> capacity \<le> r1_size rcd"
      using copy_sectors_length [of rcd 0 0 s] that cp by (simp add: not_le word_less_nat_alt)
    then show ?thesis using Suc.IH Some cp by (cases ok) auto
  qed simp
qed simp

lemma qfs1_read_bounded: "length (snd (quanta_qfs_read path capacity s)) \<le> unat capacity"
  using qfs1_read_from_length [of capacity] by (auto simp: quanta_qfs_read_def split: option.splits)

lemma qfs1_list_from_length:
  "length out < unat capacity \<Longrightarrow>
   length (snd (qfs1_list_from super pre capacity index n out s)) < unat capacity"
proof (induction n arbitrary: index out)
  case (Suc n)
  show ?case
  proof (cases "read_record super index s")
    case (Some rcd)
    let ?name = "takeWhile (\<lambda>c. c \<noteq> 47) (cstr (drop (length pre) (r1_path rcd)))"
    show ?thesis
    proof (cases "length out + length ?name + 2 \<ge> unat capacity")
      case True
      then show ?thesis using Suc.prems Suc.IH [OF Suc.prems] Some by (auto simp: Let_def)
    next
      case False
      then have "length (out @ ?name @ [32]) < unat capacity" by simp
      from Suc.IH [OF this] Suc.IH [OF Suc.prems] Some False show ?thesis by (auto simp: Let_def)
    qed
  qed (use Suc.prems in simp)
qed simp

lemma qfs1_list_bounded: "length (snd (quanta_qfs_list path capacity s)) \<le> unat capacity"
proof (cases "capacity < 2")
  case False
  then have two: "2 \<le> unat capacity" by (simp add: not_less word_le_nat_alt)
  have entries: "length out < unat capacity" if "qfs1_list_from super pre capacity 0 k [] s = (ok, out)" for super pre k ok out
    using qfs1_list_from_length [of "[]" capacity super pre 0 k s] two that by simp
  show ?thesis
    using False two entries
    by (fastforce simp: quanta_qfs_list_def Suc_le_eq split: option.splits prod.splits bool.splits)
qed (simp add: quanta_qfs_list_def)

text \<open>Hence both providers respect the buffer that the system call validated.\<close>

lemma provider_bounded:
  "length (snd (provider_read p path capacity s)) \<le> unat capacity"
  "length (snd (provider_list p path capacity s)) \<le> unat capacity"
  by (cases p; simp add: qfs2_read_bounded qfs1_read_bounded qfs2_list_bounded qfs1_list_bounded)+

section \<open>Property\<close>

text \<open>Whatever the volume holds and whichever file system serves it, reading a file and
  listing a directory never store more bytes than the capacity they were given.\<close>

theorem provider_within_capacity:
  "length (snd (provider_read p path capacity s)) \<le> unat capacity \<and>
   length (snd (provider_list p path capacity s)) \<le> unat capacity"
  by (simp add: provider_bounded)

end
