(* ===== verification/Qfs2_Paths.thy ===== *)
theory Qfs2_Paths
  imports Qfs2
begin

text \<open>
  Paths of \<^verbatim>\<open>kernel/core/qfs2.c\<close> as lists of names: \<open>find_path\<close> is a walk along the names
  of its argument, and \<open>split_path\<close> takes off the last one.
\<close>

section \<open>Paths as lists of names\<close>

function path_names :: "byte list \<Rightarrow> byte list list option" where
  "path_names rest =
     (if rest = [] then Some []
      else case take_component [] rest of None \<Rightarrow> None
      | Some (component, after) \<Rightarrow>
          (case skip_separator after of None \<Rightarrow> None
           | Some next \<Rightarrow> if component = [] then path_names next
               else map_option (Cons component) (path_names next)))"
  by auto
termination
proof (relation "measure length", goal_cases)
  case (2 rest x2 x y x2a)
  then show ?case using take_component_shorter [of "[]" rest x y] skip_separator_shorter [of y x2a]
    by (cases rest) auto
next
  case (3 rest x2 x y x2a)
  then show ?case using take_component_shorter [of "[]" rest x y] skip_separator_shorter [of y x2a]
    by (cases x) auto
qed simp

declare path_names.simps [simp del]

fun walk_names :: "qfs2_superblock \<Rightarrow> machine \<Rightarrow> u64 \<Rightarrow> byte list list \<Rightarrow> u64 option" where
  "walk_names super s current [] = Some current"
| "walk_names super s current (name # names) =
     Option.bind (find_child super current name s) (\<lambda>child. walk_names super s child names)"

lemma find_path_from_names:
  "find_path_from super current rest s = Option.bind (path_names rest) (walk_names super s current)"
proof (induction super current rest s rule: find_path_from.induct)
  case (1 super current rest s)
  show ?case
  proof (cases "rest = []")
    case True
    then show ?thesis by (simp add: find_path_from.simps path_names.simps)
  next
    case False
    show ?thesis
    proof (cases "take_component [] rest")
      case None
      then show ?thesis using False by (simp add: find_path_from.simps path_names.simps)
    next
      case (Some p)
      then obtain component after where p: "take_component [] rest = Some (component, after)" by (cases p) auto
      show ?thesis
      proof (cases "skip_separator after")
        case None
        then show ?thesis using False p by (simp add: find_path_from.simps path_names.simps)
      next
        case (Some next')
        show ?thesis
        proof (cases "component = []")
          case True
          then show ?thesis using "1.IH"(1) [OF False p refl Some True] False p Some
            by (simp add: find_path_from.simps [of super current rest] path_names.simps [of rest])
        next
          case comp: False
          show ?thesis
            using "1.IH"(2) [OF False p refl Some comp] False p Some comp
            by (cases "find_child super current component s"; cases "path_names next'")
              (simp_all add: find_path_from.simps [of super current rest] path_names.simps [of rest])
        qed
      qed
    qed
  qed
qed

lemma take_component_append:
  "take_component component (x @ y) =
     (case take_component component x of None \<Rightarrow> None
      | Some (found, []) \<Rightarrow> take_component found y
      | Some (found, c # after) \<Rightarrow> Some (found, c # after @ y))"
  by (induction component x rule: take_component.induct) auto

lemma take_component_after:
  "take_component component x = Some (found, after) \<Longrightarrow>
     \<exists>mid. x = mid @ after \<and> found = component @ mid \<and> (after = [] \<or> hd after = 62)"
  by (induction component x rule: take_component.induct) (auto split: if_splits)

lemma path_names_join:
  assumes "y = [] \<or> hd y \<noteq> 62"
  shows "x = [] \<or> last x \<noteq> 62 \<Longrightarrow>
    path_names (x @ 62 # y) = Option.bind (path_names x) (\<lambda>ns. map_option ((@) ns) (path_names y))"
proof (induction x rule: path_names.induct)
  case (1 x)
  have y0: "cat y 0 \<noteq> 62" using assms by (cases y) auto
  show ?case
  proof (cases "x = []")
    case True
    then show ?thesis using y0
      by (cases "path_names y")
        (simp_all add: path_names.simps [of "62 # y"] path_names.simps [of "[]"] skip_separator_def)
  next
    case False
    show ?thesis
    proof (cases "take_component [] x")
      case None
      then show ?thesis using False
        by (simp add: path_names.simps [of x] path_names.simps [of "x @ 62 # y"] take_component_append)
    next
      case (Some p)
      then obtain comp after where p: "take_component [] x = Some (comp, after)" by (cases p) auto
      from take_component_after [OF p] obtain mid where mid: "x = comp @ after" "after = [] \<or> hd after = 62" by auto
      show ?thesis
      proof (cases after)
        case Nil
        then have "take_component [] (x @ 62 # y) = Some (comp, 62 # y)" "comp \<noteq> []"
          using p mid False by (auto simp: take_component_append)
        then show ?thesis using False p Nil y0
          by (cases "path_names y") (simp_all add: path_names.simps [of x] path_names.simps [of "x @ 62 # y"] path_names.simps [of "[]"]
              skip_separator_def option.map_comp o_def)
      next
        case (Cons c after')
        have t: "take_component [] (x @ 62 # y) = Some (comp, 62 # after' @ 62 # y)"
          using take_component_append [of "[]" x "62 # y"] p Cons mid(2) by simp
        have ne: "after' \<noteq> []" using "1.prems" mid Cons False by auto
        then have skip: "skip_separator (62 # after' @ 62 # y) =
            map_option (\<lambda>r. r @ 62 # y) (skip_separator after)"
          using Cons by (cases after') (auto simp: skip_separator_def)
        have last: "after' = [] \<or> last after' \<noteq> 62" using "1.prems" mid Cons ne by auto
        show ?thesis
        proof (cases "skip_separator after")
          case None
          then show ?thesis using False p t skip
            by (simp add: path_names.simps [of x] path_names.simps [of "x @ 62 # y"])
        next
          case (Some nx)
          then have nx: "nx = after'" using Cons by (auto simp: skip_separator_def split: if_splits)
          show ?thesis
            using "1.IH"(1) [OF False p refl Some] "1.IH"(2) [OF False p refl Some] False p t skip Some nx last
            by (cases "comp = []"; cases "path_names after'"; cases "path_names y")
              (simp_all add: path_names.simps [of x] path_names.simps [of "x @ 62 # y"])
        qed
      qed
    qed
  qed
qed

lemma path_names_single:
  assumes "x \<noteq> []" "length x \<le> 48" "set x \<inter> {47, 92, 58, 62} = {}"
  shows "path_names x = Some [x]"
proof -
  have "length acc + length x \<le> 48 \<Longrightarrow> take_component acc x = Some (acc @ x, [])" for acc
    using assms(3) by (induction x arbitrary: acc) auto
  from this [of "[]"] assms show ?thesis
    by (simp add: path_names.simps [of x] path_names.simps [of "[]"] skip_separator_def)
qed


lemma trim_length_spec:
  "trim_length p d n \<le> n"
  "trim_length p d n > d + 1 \<Longrightarrow> p ! (trim_length p d n - 1) \<noteq> 62"
  "trim_length p d n \<le> i \<Longrightarrow> i < n \<Longrightarrow> p ! i = 62"
proof (induction p d n rule: trim_length.induct)
  case (1 p d n)
  case 1
  then show ?case using "1.IH"(1) by (subst trim_length.simps) auto
next
  case (1 p d n)
  case 2
  then show ?case using "1.IH"(2) by (subst trim_length.simps) (auto simp: trim_length.simps [of p d n] split: if_splits)
next
  case (1 p d n)
  case 3
  show ?case
  proof (cases "n > d + 1 \<and> p ! (n - 1) = 62")
    case True
    then have eq: "trim_length p d n = trim_length p d (n - 1)" by (subst trim_length.simps) simp
    show ?thesis
    proof (cases "i = n - 1")
      case False
      then show ?thesis using "1.IH"(3) [OF True] 3 eq by simp
    qed (use True in simp)
  next
    case False
    then have "trim_length p d n = n" by (subst trim_length.simps) (simp only: if_False)
    then show ?thesis using 3 by simp
  qed
qed

lemma last_cut_spec:
  "(last_cut p d n = 0 \<and> (\<forall>i. d < i \<and> i < n \<longrightarrow> p ! i \<noteq> 62)) \<or>
   (d < last_cut p d n \<and> last_cut p d n < n \<and> p ! last_cut p d n = 62 \<and>
     (\<forall>i. last_cut p d n < i \<and> i < n \<longrightarrow> p ! i \<noteq> 62))"
proof (induction n)
  case 0
  then show ?case by (simp add: last_cut_def)
next
  case (Suc n)
  show ?case
  proof (cases "d < n")
    case True
    then have "last_cut p d (Suc n) = (if p ! n = 62 then n else last_cut p d n)"
      by (simp add: last_cut_def)
    then show ?thesis using Suc True by (auto simp: less_Suc_eq)
  next
    case False
    then show ?thesis by (auto simp: last_cut_def)
  qed
qed

definition path_rest :: "byte list \<Rightarrow> byte list" where
  "path_rest path = drop (drive_end path + 1) (cstr path)"

definition clean_rest :: "byte list \<Rightarrow> bool" where
  "clean_rest r \<longleftrightarrow> set r \<inter> {47, 92, 58} = {} \<and> (\<forall>i. Suc i < length r \<longrightarrow> \<not> (r ! i = 62 \<and> r ! Suc i = 62))"

lemma takeWhile_take: "takeWhile P (take n xs) = take n (takeWhile P xs)"
proof (induction xs arbitrary: n)
  case (Cons x xs)
  then show ?case by (cases n) auto
qed simp

lemma drive_end_take:
  assumes "drive_end path < n" "n \<le> length (cstr path)"
  shows "drive_end (take n (cstr path)) = drive_end path" "cstr (take n (cstr path)) = take n (cstr path)"
proof -
  have "0 \<notin> set (take n (cstr path))" using zero_notin_cstr in_set_takeD by metis
  then show *: "cstr (take n (cstr path)) = take n (cstr path)" by (rule cstr_id)
  have "takeWhile (\<lambda>c. c \<noteq> 58) (take n (cstr path)) = take n (takeWhile (\<lambda>c. c \<noteq> 58) (cstr path))"
    by (rule takeWhile_take)
  then show "drive_end (take n (cstr path)) = drive_end path"
    using assms by (simp add: drive_end_def *)
qed


lemma clean_rest_parts:
  assumes "clean_rest (a @ b)"
  shows "clean_rest a" "clean_rest b" "\<not> (a \<noteq> [] \<and> last a = 62 \<and> b \<noteq> [] \<and> hd b = 62)"
proof -
  have adj: "\<not> ((a @ b) ! i = 62 \<and> (a @ b) ! Suc i = 62)" if "Suc i < length (a @ b)" for i
    using assms that by (auto simp: clean_rest_def)
  have chars: "set (a @ b) \<inter> {47, 92, 58} = {}" using assms by (simp add: clean_rest_def)
  show "clean_rest a"
    unfolding clean_rest_def
  proof (intro conjI allI impI)
    show "\<not> (a ! i = 62 \<and> a ! Suc i = 62)" if "Suc i < length a" for i
      using adj [of i] that by (simp add: nth_append)
  qed (use chars in auto)
  show "clean_rest b"
    unfolding clean_rest_def
  proof (intro conjI allI impI)
    show "\<not> (b ! i = 62 \<and> b ! Suc i = 62)" if "Suc i < length b" for i
      using adj [of "length a + i"] that by (simp add: nth_append)
  qed (use chars in auto)
  show "\<not> (a \<noteq> [] \<and> last a = 62 \<and> b \<noteq> [] \<and> hd b = 62)"
  proof
    assume *: "a \<noteq> [] \<and> last a = 62 \<and> b \<noteq> [] \<and> hd b = 62"
    then obtain n where n: "length a = Suc n" by (cases a) auto
    from * have "a \<noteq> []" "last a = 62" "b \<noteq> []" "hd b = 62" by auto
    then have "a ! n = 62" "b ! 0 = 62" using n last_conv_nth [of a] hd_conv_nth [of b] by auto
    with adj [of n] n \<open>b \<noteq> []\<close> show False by (simp add: nth_append)
  qed
qed

lemma path_names_trail:
  assumes "clean_rest (x @ trail)" "set trail \<subseteq> {62}" "x \<noteq> []" "last x \<noteq> 62"
  shows "path_names (x @ trail) = path_names x"
proof -
  have "clean_rest trail" by (rule clean_rest_parts(2) [OF assms(1)])
  with assms(2) have "trail = [] \<or> trail = [62]"
  proof (cases trail)
    case (Cons c t)
    then show ?thesis
    proof (cases t)
      case (Cons c' t')
      with \<open>trail = c # t\<close> \<open>clean_rest trail\<close> assms(2) have False
        unfolding clean_rest_def by (auto dest!: spec [of _ 0])
      then show ?thesis ..
    qed (use assms(2) in auto)
  qed simp
  then show ?thesis
  proof
    assume "trail = [62]"
    then show ?thesis using path_names_join [of "[]" x] assms(4)
      by (cases "path_names x") (simp_all add: path_names.simps [of "[]"])
  qed simp
qed

lemma drop_split: "i \<le> j \<Longrightarrow> drop i xs = take (j - i) (drop i xs) @ drop j xs"
  by (metis append_take_drop_id drop_drop le_add_diff_inverse2)

lemma split_path_parts:
  assumes split: "split_path path = Some (parent, name)"
  obtains before trail where
    "set name \<inter> {62} = {}" "name \<noteq> []" "length name \<le> 48" "0 \<notin> set name" "set trail \<subseteq> {62}"
    "drive_end path < length (cstr path)"
    "(before = None \<and> path_rest path = name @ trail \<and> parent = take (drive_end path + 1) (cstr path))
     \<or> (\<exists>a. before = Some a \<and> path_rest path = a @ 62 # name @ trail
          \<and> parent = take (drive_end path + 1) (cstr path) @ a)"
proof -
  define p d where "p = cstr path" and "d = drive_end path"
  define n where "n = trim_length p d (length p)"
  define c where "c = last_cut p d n"
  have dp: "d < length p"
  proof -
    have "d \<le> length p" by (simp add: d_def p_def drive_end_def length_takeWhile_le)
    moreover have "d \<noteq> length p" using split by (auto simp: split_path_def Let_def p_def d_def split: if_splits)
    ultimately show ?thesis by simp
  qed
  have n: "d + 1 < n" and small: "n - c - 1 < 49"
    and res: "(c \<le> d \<and> parent = take (d + 1) p \<and> name = take (n - d - 1) (drop (d + 1) p))
      \<or> (d < c \<and> parent = take c p \<and> name = take (n - c - 1) (drop (c + 1) p))"
    using split by (auto simp: split_path_def Let_def p_def d_def n_def c_def split: if_splits)
  note t = trim_length_spec [where p = p and d = d and n = "length p", folded n_def]
  have np: "n \<le> length p" by (rule t(1))
  have last: "p ! (n - 1) \<noteq> 62" by (rule t(2)) (use n in simp)
  let ?trail = "drop n p"
  have trail: "set ?trail \<subseteq> {62}"
    using t(3) by (auto simp: in_set_conv_nth)
  have nz: "0 \<notin> set p" by (simp add: p_def)
  consider "c = 0" "\<forall>i. d < i \<and> i < n \<longrightarrow> p ! i \<noteq> 62"
    | "d < c" "c < n" "p ! c = 62" "\<forall>i. c < i \<and> i < n \<longrightarrow> p ! i \<noteq> 62"
    using last_cut_spec [of p d n] by (auto simp: c_def)
  then show thesis
  proof cases
    case 1
    then have name: "name = take (n - d - 1) (drop (d + 1) p)" "parent = take (d + 1) p" using res by auto
    have rest: "drop (d + 1) p = name @ ?trail"
      using drop_split [of "d + 1" n p] n by (simp add: name(1))
    show thesis
    proof (rule that [of ?trail None])
      show "set name \<inter> {62} = {}" using 1(2) n np by (auto simp: name(1) in_set_conv_nth)
      show "name \<noteq> []" using n np dp by (simp add: name(1))
      show "length name \<le> 48" using small 1(1) by (simp add: name(1))
      show "0 \<notin> set name" using nz unfolding name(1) by (meson in_set_dropD in_set_takeD)
    qed (use trail dp rest name in \<open>auto simp: path_rest_def p_def d_def\<close>)
  next
    case 2
    then have name: "name = take (n - c - 1) (drop (c + 1) p)" "parent = take c p" using res by auto
    let ?a = "take (c - (d + 1)) (drop (d + 1) p)"
    have "drop (d + 1) p = ?a @ drop c p" using drop_split [of "d + 1" c p] 2(1) by simp
    moreover have "drop c p = 62 # drop (c + 1) p" using 2(2,3) np by (simp add: Cons_nth_drop_Suc [symmetric])
    moreover have "drop (c + 1) p = name @ ?trail"
      using drop_split [of "c + 1" n p] 2(2) by (simp add: name(1))
    ultimately have rest: "drop (d + 1) p = ?a @ 62 # name @ ?trail" by simp
    have parent: "parent = take (d + 1) p @ ?a"
      using take_add [of "d + 1" "c - (d + 1)" p] 2(1) by (simp add: name(2))
    have inner: "c + 1 < n"
    proof (rule ccontr)
      assume "\<not> c + 1 < n"
      then have "c = n - 1" using 2(2) by simp
      with last 2(3) show False by simp
    qed
    show thesis
    proof (rule that [of ?trail "Some ?a"])
      show "set name \<inter> {62} = {}" using 2(4) n np by (auto simp: name(1) in_set_conv_nth)
      show "name \<noteq> []" using inner np by (simp add: name(1))
      show "length name \<le> 48" using small by (simp add: name(1))
      show "0 \<notin> set name" using nz unfolding name(1) by (meson in_set_dropD in_set_takeD)
    qed (use trail dp rest parent in \<open>auto simp: path_rest_def p_def d_def\<close>)
  qed
qed

lemma name_equal_from_cstr:
  "index \<le> length (cstr right) \<Longrightarrow>
   name_equal_from left n (cstr right) index = name_equal_from left n right index"
proof (induction left n right index rule: name_equal_from.induct)
  case (1 left n right index)
  show ?case
  proof (cases "index = length (cstr right)")
    case True
    then have "cat right index = 0" "cat (cstr right) index = 0"
      by (simp_all add: cat_cstr_length cat_beyond)
    then show ?thesis
      by (simp add: name_equal_from.simps [of left n right] name_equal_from.simps [of left n "cstr right"])
  next
    case False
    then have less: "index < length (cstr right)" using "1.prems" by simp
    then have "cat (cstr right) index = cat right index" by (rule cat_cstr_less)
    moreover have "Suc index \<le> length (cstr right)" using less by simp
    ultimately show ?thesis using "1.IH"
      by (simp add: name_equal_from.simps [of left n right index] name_equal_from.simps [of left n "cstr right" index])
  qed
qed

lemma find_child_cstr: "find_child super parent (cstr name) s = find_child super parent name s"
proof -
  have "name_equal l n (cstr name) = name_equal l n name" for l n
    using name_equal_from_cstr [of 0 name] by (simp add: name_equal_def)
  then have m: "matches parent (cstr name) = matches parent name" by (simp add: matches_def fun_eq_iff)
  have "find_child_from super parent (cstr name) i k s = find_child_from super parent name i k s" for i k
  proof (induction k arbitrary: i)
    case (Suc k)
    show ?case by (simp only: find_child_from_matches m Suc)
  qed simp
  then show ?thesis by (simp add: find_child_def)
qed

definition known_drive :: "byte list \<Rightarrow> bool" where
  "known_drive path \<longleftrightarrow> drive_end path < length (cstr path)
     \<and> take (drive_end path) (cstr path) \<in> {str ''prime'', str ''live''}"

lemma drive_end_le: "drive_end path \<le> length (cstr path)"
  by (simp add: drive_end_def length_takeWhile_le)

text \<open>A lookup is a walk along the names of the path, from the root.\<close>

lemma find_path_walk:
  "find_path super path s =
     (if known_drive path
      then Option.bind (path_names (path_rest path)) (walk_names super s QFS2_ROOT_INODE) else None)"
  using drive_end_le [of path]
  by (auto simp: find_path_def known_drive_def path_rest_def Let_def find_path_from_names)

lemma walk_names_append:
  "walk_names super s current (names @ [name]) =
     Option.bind (walk_names super s current names) (\<lambda>child. find_child super child name s)"
  by (induction names arbitrary: current) (auto simp: bind_assoc split: bind_splits)

lemma split_path_names:
  assumes split: "split_path path = Some (parent, name)" and clean: "clean_rest (path_rest path)"
  shows "path_names (path_rest path) = Option.bind (path_names (path_rest parent)) (\<lambda>ns. Some (ns @ [name]))"
    and "known_drive parent = known_drive path"
    and "0 < length name" "length name \<le> 48" "0 \<notin> set name"
proof -
  from split obtain before trail where name: "set name \<inter> {62} = {}" "name \<noteq> []" "length name \<le> 48" "0 \<notin> set name"
    and trail: "set trail \<subseteq> {62}" and d: "drive_end path < length (cstr path)"
    and parts: "(before = None \<and> path_rest path = name @ trail \<and> parent = take (drive_end path + 1) (cstr path))
     \<or> (\<exists>a. before = Some a \<and> path_rest path = a @ 62 # name @ trail
          \<and> parent = take (drive_end path + 1) (cstr path) @ a)" by (rule split_path_parts)
  show "0 < length name" "length name \<le> 48" "0 \<notin> set name" using name by auto
  have last: "last name \<noteq> 62" "hd name \<noteq> 62" using name(1,2) last_in_set [of name] hd_in_set [of name] by force+
  define n where "n = length parent"
  have parent: "parent = take n (cstr path)" "drive_end path < n" "n \<le> length (cstr path)"
  proof -
    from parts have "\<exists>r. cstr path = parent @ r \<and> drive_end path < length parent"
    proof (elim disjE exE conjE)
      assume "parent = take (drive_end path + 1) (cstr path)"
      then show ?thesis using d by (intro exI [of _ "drop (drive_end path + 1) (cstr path)"]) auto
    next
      fix a assume r: "path_rest path = a @ 62 # name @ trail" and p: "parent = take (drive_end path + 1) (cstr path) @ a"
      have "cstr path = take (drive_end path + 1) (cstr path) @ path_rest path" by (simp add: path_rest_def)
      with r p d show ?thesis by (intro exI [of _ "62 # name @ trail"]) (auto simp: path_rest_def)
    qed
    then obtain r where r: "cstr path = parent @ r" "drive_end path < length parent" by blast
    then show "parent = take n (cstr path)" "drive_end path < n" "n \<le> length (cstr path)"
      by (simp_all add: n_def)
  qed
  note de = drive_end_take [OF parent(2,3), folded parent(1)]
  show "known_drive parent = known_drive path"
    using de parent d by (auto simp: known_drive_def n_def [symmetric] min_absorb2)
  have prest: "path_rest parent = drop (drive_end path + 1) parent" using de by (simp add: path_rest_def)
  show "path_names (path_rest path) = Option.bind (path_names (path_rest parent)) (\<lambda>ns. Some (ns @ [name]))"
    using parts
  proof (elim disjE exE conjE)
    assume r: "path_rest path = name @ trail" and p: "parent = take (drive_end path + 1) (cstr path)"
    have "path_rest parent = []" unfolding prest using p by simp
    moreover have "set name \<inter> {47, 92, 58, 62} = {}" using clean r name(1) by (auto simp: clean_rest_def)
    then have "path_names name = Some [name]" by (rule path_names_single [OF name(2,3)])
    ultimately show ?thesis
      using path_names_trail [of name trail] clean trail last name(2) r by (simp add: path_names.simps [of "[]"])
  next
    fix a assume r: "path_rest path = a @ 62 # name @ trail" and p: "parent = take (drive_end path + 1) (cstr path) @ a"
    have pa: "path_rest parent = a" unfolding prest using p d by simp
    have clean': "clean_rest ((a @ 62 # name) @ trail)" "clean_rest (a @ 62 # name @ trail)" using clean r by simp_all
    have a: "a = [] \<or> last a \<noteq> 62" using clean_rest_parts(3) [OF clean'(2)] by auto
    have "set name \<inter> {47, 92, 58, 62} = {}" using clean r name(1) by (auto simp: clean_rest_def)
    then have n: "path_names name = Some [name]" by (rule path_names_single [OF name(2,3)])
    have "path_names (path_rest path) = path_names (a @ 62 # name)"
      using path_names_trail [OF clean'(1) trail] last name(2) r by simp
    also have "\<dots> = Option.bind (path_names a) (\<lambda>ns. map_option ((@) ns) (path_names name))"
      by (rule path_names_join) (use last a in auto)
    finally show ?thesis by (simp add: n pa)
  qed
qed

lemma find_path_split:
  assumes "split_path path = Some (parent, name)" and "clean_rest (path_rest path)"
  shows "find_path super path s = Option.bind (find_path super parent s) (\<lambda>number. find_child super number name s)"
  using split_path_names(1,2) [OF assms]
  by (cases "path_names (path_rest parent)") (simp_all add: find_path_walk walk_names_append)

end
