(* ===== verification/Qfs2_Create.thy ===== *)
theory Qfs2_Create
  imports Qfs2_Paths
begin

text \<open>
  The creation of files and directories in \<^verbatim>\<open>kernel/core/qfs2.c\<close>: what the two metadata
  writes change on the volume and what they leave alone, that the node is then found under
  its path, and that creation succeeds on a sound disk with room.
\<close>

lemma store_node_steps:
  assumes "store_node super parent name kind number index s = (True, s')"
  obtains s1 where "write_inode super number (new_inode number kind) s = (True, s1)"
    "write_metadata super (create_offset super index) (dentry_bytes (new_dentry parent number kind name)) s1 = (True, s')"
    "find_child super parent name s' = Some number"
  using assms by (auto simp: store_node_def split: prod.splits bool.splits if_splits)

lemma store_node_bytes:
  assumes ok: "machine_ok s" and lay: "layout super" and num: "\<not> bad_inode_number super number"
    and idx: "index < entry_slots super" and name: "0 < length name" "length name \<le> 48" "0 \<notin> set name"
    and w1: "write_inode super number (new_inode number kind) s = (True, s1)"
    and w2: "write_metadata super (create_offset super index)
      (dentry_bytes (new_dentry parent number kind name)) s1 = (True, s')"
  shows "machine_ok s'" and "a < disk_limit \<Longrightarrow> disk_byte s' a =
    (if entry_at super index \<le> a \<and> a < entry_at super index + 66
     then Some (dentry_bytes (new_dentry parent number kind name) ! (a - entry_at super index))
     else if inode_at super number \<le> a \<and> a < inode_at super number + 56
     then Some (inode_bytes (new_inode number kind) ! (a - inode_at super number))
     else disk_byte s a)"
proof -
  note l = matches_new_dentry(1) [OF name, of parent number kind]
  have w1': "write_metadata super (inode_offset super number) (inode_bytes (new_inode number kind)) s = (True, s1)"
    using w1 num by (simp add: write_inode_def)
  note e1 = write_metadata_spec [OF ok w1', unfolded length_inode_bytes inode_offset_nat(1) [OF lay num]]
  have ok1: "machine_ok s1" by (rule e1(1)) simp
  note e2 = write_metadata_spec [OF ok1 w2, unfolded l entry_offset_nat [OF lay idx]]
  show "machine_ok s'" by (rule e2(1)) simp
  show "disk_byte s' a = (if entry_at super index \<le> a \<and> a < entry_at super index + 66
     then Some (dentry_bytes (new_dentry parent number kind name) ! (a - entry_at super index))
     else if inode_at super number \<le> a \<and> a < inode_at super number + 56
     then Some (inode_bytes (new_inode number kind) ! (a - inode_at super number))
     else disk_byte s a)" if "a < disk_limit"
    using e2(4) [OF _ TrueI that] e1(4) [OF _ TrueI that] by (simp only: simp_thms) simp
qed

lemma node_written:
  assumes ok: "machine_ok s" and lay: "layout super" and num: "\<not> bad_inode_number super number"
    and idx: "index < entry_slots super" and name: "0 < length name" "length name \<le> 48" "0 \<notin> set name"
    and w1: "write_inode super number (new_inode number kind) s = (True, s1)"
    and w2: "write_metadata super (create_offset super index)
      (dentry_bytes (new_dentry parent number kind name)) s1 = (True, s')"
  shows "machine_ok s'" "superblock_kept s s'"
    and "read_inode super m s' = (if m = number then Some (new_inode number kind) else read_inode super m s)"
    and "read_metadata super (entry_offset super index) 66 s' = Some (dentry_bytes (new_dentry parent number kind name))"
    and "j < entry_slots super \<Longrightarrow> j \<noteq> index \<Longrightarrow>
      read_metadata super (entry_offset super j) 66 s' = read_metadata super (entry_offset super j) 66 s"
proof -
  note bytes = store_node_bytes [OF ok lay num idx name w1 w2]
  show ok': "machine_ok s'" by (rule bytes(1))
  note ino = inode_offset_nat [OF lay num]
  have ent: "unat (sb_entry_lba super) * 512 \<le> entry_at super j" for j by (simp add: entry_at_def)
  have e_lim: "entry_at super j + 66 \<le> disk_limit" if "j < entry_slots super" for j
    using entry_slots_bound(1) [OF lay that] fs_bytes_limit(1) [of super] by simp
  have i_lim: "inode_at super m + 56 \<le> disk_limit" if "\<not> bad_inode_number super m" for m
    using inode_offset_nat(2) [OF lay that] ent [of index] e_lim [OF idx] by linarith
  show "superblock_kept s s'"
    unfolding superblock_kept_def
  proof (intro allI impI)
    fix i assume "i < (512 :: nat)"
    then have "514 * 512 + i < inode_at super number" "514 * 512 + i < entry_at super index"
      using ino(2,3) ent [of index] by linarith+
    moreover have "514 * 512 + i < disk_limit" using \<open>i < 512\<close> by (simp add: disk_limit_def)
    ultimately show "disk_byte s' (514 * 512 + i) = disk_byte s (514 * 512 + i)"
      using bytes(2) by simp
  qed
  show "read_inode super m s' = (if m = number then Some (new_inode number kind) else read_inode super m s)"
  proof (cases "m = number")
    case True
    have "read_metadata super (inode_offset super number) 56 s' = Some (inode_bytes (new_inode number kind))"
    proof (subst read_metadata_iff [OF ok'], simp, intro conjI allI impI)
      show "unat (inode_offset super number) + 56 \<le> fs_bytes super"
        using ino(1,2) ent [of index] entry_slots_bound(1) [OF lay idx] by linarith
      fix i assume "i < (56 :: nat)"
      then show "disk_byte s' (unat (inode_offset super number) + i) = Some (inode_bytes (new_inode number kind) ! i)"
        using bytes(2) [of "inode_at super number + i"] ino ent [of index] i_lim [OF num] by simp
    qed simp
    then show ?thesis using True num by (simp add: read_inode_def inode_roundtrip)
  next
    case False
    have "read_inode super m s' = read_inode super m s"
    proof (rule read_inode_cong [OF ok ok' lay], intro allI impI)
      fix i assume m: "\<not> bad_inode_number super m" and i: "i < (56 :: nat)"
      have "unat m \<noteq> unat number" using False by (auto dest: unsigned_word_eqI)
      moreover have "1 \<le> unat m" "1 \<le> unat number" using m num bad_inode_number_nat by blast+
      ultimately have "\<not> (inode_at super number \<le> inode_at super m + i \<and> inode_at super m + i < inode_at super number + 56)"
        using i unfolding inode_at_def by linarith
      moreover have "inode_at super m + i < entry_at super index"
        using inode_offset_nat(2) [OF lay m] ent [of index] i by linarith
      ultimately show "disk_byte s' (inode_at super m + i) = disk_byte s (inode_at super m + i)"
        using bytes(2) [of "inode_at super m + i"] i_lim [OF m] i by auto
    qed
    with False show ?thesis by simp
  qed
  show "read_metadata super (entry_offset super index) 66 s' =
      Some (dentry_bytes (new_dentry parent number kind name))"
  proof (subst read_metadata_iff [OF ok'], simp, intro conjI allI impI)
    show "unat (entry_offset super index) + 66 \<le> fs_bytes super"
      using entry_slots_bound(1) [OF lay idx] entry_offset_nat(1) [OF lay idx] by simp
    show "length (dentry_bytes (new_dentry parent number kind name)) = 66" by (rule matches_new_dentry(1) [OF name])
    fix i assume "i < (66 :: nat)"
    then show "disk_byte s' (unat (entry_offset super index) + i) = Some (dentry_bytes (new_dentry parent number kind name) ! i)"
      using bytes(2) [of "entry_at super index + i"] entry_offset_nat(1) [OF lay idx] e_lim [OF idx] by simp
  qed
  show "read_metadata super (entry_offset super j) 66 s' = read_metadata super (entry_offset super j) 66 s"
    if j: "j < entry_slots super" "j \<noteq> index" for j
  proof (rule entry_view_cong [OF ok ok' lay j(1)])
    fix i assume i: "i < (66 :: nat)"
    have "\<not> (entry_at super index \<le> entry_at super j + i \<and> entry_at super j + i < entry_at super index + 66)"
      using i j(2) unfolding entry_at_def by linarith
    moreover have "\<not> entry_at super j + i < inode_at super number + 56"
      using ino(2) ent [of j] by linarith
    ultimately show "disk_byte s' (entry_at super j + i) = disk_byte s (entry_at super j + i)"
      using bytes(2) [of "entry_at super j + i"] e_lim [OF j(1)] i by auto
  qed
qed

lemma store_node_effect:
  assumes ok: "machine_ok s" and lay: "layout super" and num: "\<not> bad_inode_number super number"
    and idx: "index < entry_slots super" and name: "0 < length name" "length name \<le> 48" "0 \<notin> set name"
    and free: "read_metadata super (entry_offset super index) 66 s = Some b" "de_name_length (dentry_of b) = 0"
    and store: "store_node super parent name kind number index s = (True, s')"
  shows "machine_ok s'" "superblock_kept s s'"
    and "read_inode super m s' = (if m = number then Some (new_inode number kind) else read_inode super m s)"
    and "find_child super parent name s' = Some number"
    and "\<not> (q = parent \<and> cstr nm = name) \<Longrightarrow> find_child super q nm s' = find_child super q nm s"
proof -
  from store obtain s1 where w1: "write_inode super number (new_inode number kind) s = (True, s1)"
    and w2: "write_metadata super (create_offset super index) (dentry_bytes (new_dentry parent number kind name)) s1 = (True, s')"
    and child: "find_child super parent name s' = Some number" by (rule store_node_steps)
  note written = node_written [OF ok lay num idx name w1 w2]
  show "machine_ok s'" "superblock_kept s s'" by (rule written(1,2))+
  show "read_inode super m s' = (if m = number then Some (new_inode number kind) else read_inode super m s)"
    by (rule written(3))
  show "find_child super parent name s' = Some number" by (rule child)
  show "find_child super q nm s' = find_child super q nm s" if "\<not> (q = parent \<and> cstr nm = name)"
    unfolding find_child_def entry_count_nat(1) [OF lay]
  proof (rule find_child_from_cong)
    fix j assume "j < 0 + entry_slots super"
    then show "read_metadata super (entry_offset super j) 66 s' = read_metadata super (entry_offset super j) 66 s
      \<or> (\<exists>b b'. read_metadata super (entry_offset super j) 66 s = Some b
           \<and> read_metadata super (entry_offset super j) 66 s' = Some b' \<and> \<not> matches q nm b \<and> \<not> matches q nm b')"
      using written(4,5) free matches_free that matches_new_dentry(2) [OF name, of q nm parent number kind]
      by (cases "j = index") auto
  qed
qed

text \<open>On a sound disk with room the writes succeed and the verification finds the node.\<close>

lemma write_metadata_succeeds:
  assumes "machine_ok s" "boot_disk_sound s" "read_metadata super offset (length input) s \<noteq> None"
    and "length input < 2 ^ 64"
  shows "\<exists>s'. write_metadata super offset input s = (True, s') \<and> boot_disk_sound s'"
proof -
  obtain bs where bs: "read_metadata super offset (length input) s = Some bs" using assms(3) by blast
  then have lim: "unat offset + length input \<le> fs_bytes super"
    and bytes: "\<forall>i<length input. disk_byte s (unat offset + i) = Some (bs ! i)"
    using read_metadata_iff [OF assms(1,4)] by blast+
  have "\<not> outside_limit super offset (of_nat (length input))" using bs by (auto simp: read_metadata_def split: if_splits)
  moreover have "unat offset + length input \<le> disk_limit" using lim fs_bytes_limit(1) [of super] by simp
  ultimately show ?thesis
    using boot.write_span_succeeds [OF assms(1,2)] bytes by (simp add: write_metadata_def)
qed

lemma find_child_from_first:
  assumes "\<forall>j<k. \<exists>b. read_metadata super (entry_offset super (index + j)) 66 s = Some b \<and> \<not> matches parent name b"
    and "read_metadata super (entry_offset super (index + k)) 66 s = Some b" "matches parent name b"
  shows "k < remaining \<Longrightarrow> find_child_from super parent name index remaining s = Some (de_inode (dentry_of b))"
  using assms
proof (induction k arbitrary: index remaining)
  case 0
  then show ?case by (cases remaining) (simp_all add: find_child_from_matches)
next
  case (Suc k)
  obtain r where r: "remaining = Suc r" "k < r" using Suc.prems(1) by (cases remaining) auto
  obtain b0 where b0: "read_metadata super (entry_offset super index) 66 s = Some b0" "\<not> matches parent name b0"
    using Suc.prems(2) by (auto dest!: spec [of _ 0])
  have "\<forall>j<k. \<exists>b. read_metadata super (entry_offset super (index + 1 + j)) 66 s = Some b \<and> \<not> matches parent name b"
  proof (intro allI impI)
    fix j assume "j < k"
    with Suc.prems(2) [THEN spec, of "Suc j"] have "\<exists>b. read_metadata super (entry_offset super (index + Suc j)) 66 s = Some b \<and> \<not> matches parent name b"
      by simp
    then show "\<exists>b. read_metadata super (entry_offset super (index + 1 + j)) 66 s = Some b \<and> \<not> matches parent name b"
      by simp
  qed
  from Suc.IH [OF r(2) this] Suc.prems(3,4) r b0 show ?case by (simp add: find_child_from_matches)
qed

lemma find_child_from_None:
  assumes "find_child_from super parent name index remaining s = None"
    and "\<forall>j<remaining. read_metadata super (entry_offset super (index + j)) 66 s \<noteq> None"
  shows "\<forall>j<remaining. \<exists>b. read_metadata super (entry_offset super (index + j)) 66 s = Some b \<and> \<not> matches parent name b"
  using assms
proof (induction remaining arbitrary: index)
  case (Suc remaining)
  obtain b0 where b0: "read_metadata super (entry_offset super index) 66 s = Some b0" "\<not> matches parent name b0"
    "find_child_from super parent name (index + 1) remaining s = None"
    using Suc.prems by (auto simp: find_child_from_matches split: option.splits if_splits dest!: spec [of _ 0])
  have IH: "\<forall>j<remaining. \<exists>b. read_metadata super (entry_offset super (index + 1 + j)) 66 s = Some b \<and> \<not> matches parent name b"
  proof (rule Suc.IH [OF b0(3)], intro allI impI)
    fix j assume "j < remaining"
    then have "read_metadata super (entry_offset super (index + Suc j)) 66 s \<noteq> None" using Suc.prems(2) [THEN spec, of "Suc j"] by simp
    then show "read_metadata super (entry_offset super (index + 1 + j)) 66 s \<noteq> None" by simp
  qed
  show ?case
  proof (intro allI impI)
    fix j assume "j < Suc remaining"
    then show "\<exists>b. read_metadata super (entry_offset super (index + j)) 66 s = Some b \<and> \<not> matches parent name b"
      using b0 IH by (cases j) auto
  qed
qed simp

lemma store_node_succeeds:
  assumes ok: "machine_ok s" and sound: "boot_disk_sound s" and lay: "layout super"
    and inode: "read_inode super number s \<noteq> None"
    and idx: "index < entry_slots super" and name: "0 < length name" "length name \<le> 48" "0 \<notin> set name"
    and readable: "\<forall>j<entry_slots super. read_metadata super (entry_offset super j) 66 s \<noteq> None"
    and absent: "find_child super parent name s = None"
  shows "\<exists>s'. store_node super parent name kind number index s = (True, s')"
proof -
  have num: "\<not> bad_inode_number super number" using inode by (auto simp: read_inode_def)
  have "read_metadata super (inode_offset super number) (length (inode_bytes (new_inode number kind))) s \<noteq> None"
    using inode num by (auto simp: read_inode_def)
  from write_metadata_succeeds [OF ok sound this] obtain s1 where
    w1': "write_metadata super (inode_offset super number) (inode_bytes (new_inode number kind)) s = (True, s1)"
    and sound1: "boot_disk_sound s1" by auto
  then have w1: "write_inode super number (new_inode number kind) s = (True, s1)"
    using num by (simp add: write_inode_def)
  have ok1: "machine_ok s1" by (rule write_metadata_spec(1) [OF ok w1']) simp
  have ro1: "boot_read s1 m = None \<longleftrightarrow> boot_read s m = None" for m
    by (rule write_metadata_spec(2) [OF ok w1']) simp
  note l = matches_new_dentry(1) [OF name, of parent number kind]
  obtain b where b: "read_metadata super (entry_offset super index) 66 s = Some b" using readable idx by blast
  have "read_metadata super (create_offset super index) 66 s1 \<noteq> None"
  proof
    assume none: "read_metadata super (create_offset super index) 66 s1 = None"
    from b have lim: "unat (entry_offset super index) + 66 \<le> fs_bytes super"
      and bytes: "\<forall>i<66. disk_byte s (unat (entry_offset super index) + i) = Some (b ! i)"
      using read_metadata_iff [OF ok, of 66] by auto
    have "\<not> outside_limit super (entry_offset super index) 66"
      using outside_limit_nat [of super "entry_offset super index" 66] lim by simp
    then obtain i where "i < 66" "disk_byte s1 (unat (entry_offset super index) + i) = None"
      using none boot.read_span_None [OF ok1] entry_offset_nat(2) [OF lay idx]
      by (auto simp: read_metadata_def)
    then have "disk_byte s (unat (entry_offset super index) + i) = None" using ro1 by (auto simp: byte_at_def)
    with bytes \<open>i < 66\<close> show False by simp
  qed
  then obtain s2 where w2: "write_metadata super (create_offset super index)
      (dentry_bytes (new_dentry parent number kind name)) s1 = (True, s2)"
    using write_metadata_succeeds [OF ok1 sound1, of super "create_offset super index"
      "dentry_bytes (new_dentry parent number kind name)"] l by auto
  note written = node_written [OF ok lay num idx name w1 w2]
  have none: "\<forall>j<entry_slots super. \<exists>b. read_metadata super (entry_offset super j) 66 s = Some b \<and> \<not> matches parent name b"
    using find_child_from_None [of super parent name 0 "entry_slots super" s] absent readable
    by (simp add: find_child_def entry_count_nat(1) [OF lay])
  have "find_child_from super parent name 0 (entry_slots super) s2 =
      Some (de_inode (dentry_of (dentry_bytes (new_dentry parent number kind name))))"
  proof (rule find_child_from_first [OF _ _ _ idx])
    show "\<forall>j<index. \<exists>b. read_metadata super (entry_offset super (0 + j)) 66 s2 = Some b \<and> \<not> matches parent name b"
      using written(5) none idx by auto
    show "read_metadata super (entry_offset super (0 + index)) 66 s2 = Some (dentry_bytes (new_dentry parent number kind name))"
      using written(4) by simp
    show "matches parent name (dentry_bytes (new_dentry parent number kind name))"
      using matches_new_dentry(2) [OF name] name(3) by (simp add: cstr_id)
  qed
  then have "find_child super parent name s2 = Some number"
    using matches_new_dentry(3) [OF name] by (simp add: find_child_def entry_count_nat(1) [OF lay])
  moreover have "read_inode super number s2 = Some (new_inode number kind)" using written(3) by simp
  ultimately have "store_node super parent name kind number index s = (True, s2)"
    using w1 w2 by (simp add: store_node_def new_inode_def)
  then show ?thesis by blast
qed

section \<open>Creation of a node\<close>


lemma find_free_inode_spec:
  "find_free_inode super indices s = Some (Some number) \<Longrightarrow>
     \<exists>i. read_inode super number s = Some i \<and> in_inode i = 0"
  by (induction indices) (auto split: option.splits if_splits)

lemma find_free_entry_spec:
  "find_free_entry super indices s = Some (Some index) \<Longrightarrow> index \<in> set indices \<and>
     (\<exists>b. read_metadata super (create_offset super index) 66 s = Some b \<and> de_name_length (dentry_of b) = 0)"
  by (induction indices) (auto split: option.splits if_splits)

lemma create_node_steps:
  assumes "create_node path kind s = (True, s')"
  obtains super parent name parent_number parent_inode number index where
    "load_super s = Some super" "split_path path = Some (parent, name)"
    "find_path super parent s = Some parent_number"
    "read_inode super parent_number s = Some parent_inode" "in_kind parent_inode = QFS2_DIRECTORY"
    "find_child super parent_number name s = None"
    "find_free_inode super [2..<unat (inode_count super) + 1] s = Some (Some number)"
    "find_free_entry super [0..<unat (create_count super)] s = Some (Some index)"
    "store_node super parent_number name kind number index s = (True, s')"
  using assms
  by (auto simp: create_node_def split: option.splits prod.splits if_splits bind_splits)

lemma walk_names_kept:
  assumes absent: "find_child super parent name s = None"
    and other: "\<And>q nm. \<not> (q = parent \<and> cstr nm = name) \<Longrightarrow> find_child super q nm s' = find_child super q nm s"
  shows "walk_names super s current names = Some r \<Longrightarrow> walk_names super s' current names = Some r"
proof (induction names arbitrary: current)
  case (Cons nm names)
  then obtain child where child: "find_child super current nm s = Some child"
    "walk_names super s child names = Some r" by (auto split: bind_splits)
  have "\<not> (current = parent \<and> cstr nm = name)"
    using child(1) absent find_child_cstr [of super current nm s] by auto
  with other child Cons.IH show ?case by simp
qed simp

definition created :: "qfs2_superblock \<Rightarrow> byte list \<Rightarrow> u32 \<Rightarrow> u64 \<Rightarrow> machine \<Rightarrow> machine \<Rightarrow> bool" where
  "created super path kind number s s' \<longleftrightarrow>
     find_path super path s = None \<and> (\<exists>i. read_inode super number s = Some i \<and> in_inode i = 0) \<and>
     load_super s' = Some super \<and> find_path super path s' = Some number \<and>
     (\<forall>m. read_inode super m s' = (if m = number then Some (new_inode number kind) else read_inode super m s)) \<and>
     (\<forall>q r. find_path super q s = Some r \<longrightarrow> find_path super q s' = Some r)"

lemma create_node_effect:
  assumes ok: "machine_ok s" and super: "load_super s = Some super" and lay: "layout super"
    and clean: "clean_rest (path_rest path)" and create: "create_node path kind s = (True, s')"
  shows "machine_ok s' \<and> (\<exists>number. created super path kind number s s')"
proof -
  from create obtain parent name parent_number parent_inode number index where
    split: "split_path path = Some (parent, name)" and parent: "find_path super parent s = Some parent_number"
    and absent: "find_child super parent_number name s = None"
    and inode: "find_free_inode super [2..<unat (inode_count super) + 1] s = Some (Some number)"
    and entry: "find_free_entry super [0..<unat (create_count super)] s = Some (Some index)"
    and store: "store_node super parent_number name kind number index s = (True, s')"
    using super by (elim create_node_steps) auto
  note name = split_path_names(3-5) [OF split clean]
  from find_free_inode_spec [OF inode] obtain i where i: "read_inode super number s = Some i" "in_inode i = 0" by blast
  then have num: "\<not> bad_inode_number super number" by (auto simp: read_inode_def split: if_splits)
  from find_free_entry_spec [OF entry] have idx: "index < entry_slots super"
    using entry_count_nat [OF lay] by simp
  with find_free_entry_spec [OF entry] obtain b where
    free: "read_metadata super (entry_offset super index) 66 s = Some b" "de_name_length (dentry_of b) = 0"
    using entry_offset_nat(2) [OF lay idx] by auto
  note effect = store_node_effect [OF ok lay num idx name free store]
  have walk: "walk_names super s current names = Some r \<Longrightarrow> walk_names super s' current names = Some r" for current names r
    by (rule walk_names_kept [OF absent effect(5)])
  have kept: "find_path super q s' = Some r" if "find_path super q s = Some r" for q r
    using that walk by (auto simp: find_path_walk split: if_splits bind_splits)
  have "find_path super path s = None" using find_path_split [OF split clean] parent absent by simp
  moreover have "find_path super path s' = Some number"
    using find_path_split [OF split clean] kept [OF parent] effect(4) by simp
  moreover have "load_super s' = Some super" using load_super_cong [OF ok effect(1,2)] super by simp
  ultimately have "created super path kind number s s'"
    unfolding created_def using i effect(3) kept by blast
  with effect(1) show ?thesis by blast
qed

lemma inode_count_nat:
  assumes "layout super"
  shows "unat (inode_count super) = inode_slots super"
proof -
  have "unat (ucast (sb_inode_sectors super) * 512 :: u64) = unat (sb_inode_sectors super) * 512"
    using layout_bounds(2) [OF assms] by (intro unat_mult_512) simp
  then have "unat ((ucast (sb_inode_sectors super) * 512 :: u64) div 56) = inode_slots super"
    by (simp add: unat_div inode_slots_def)
  moreover have "inode_slots super < 2 ^ 32"
    using layout_bounds(2) [OF assms] by (simp add: inode_slots_def less_mult_imp_div_less)
  ultimately show ?thesis by (simp add: inode_count_def unsigned_ucast_eq take_bit_nat_eq_self_iff)
qed

lemma find_free_inode_finds:
  assumes "\<forall>k\<in>set ks. read_inode super (of_nat k) s \<noteq> None"
    and "k \<in> set ks" "read_inode super (of_nat k) s = Some i" "in_inode i = 0"
  shows "\<exists>n. find_free_inode super ks s = Some (Some n)"
  using assms by (induction ks) (auto split: option.splits)

lemma find_free_entry_finds:
  assumes "\<forall>j\<in>set js. read_metadata super (create_offset super j) 66 s \<noteq> None"
    and "j \<in> set js" "read_metadata super (create_offset super j) 66 s = Some b"
    and "de_name_length (dentry_of b) = 0"
  shows "\<exists>n. find_free_entry super js s = Some (Some n)"
  using assms by (induction js) (auto split: option.splits)

text \<open>A directory with a free name, a volume with a free inode and a free entry.\<close>

definition room_for :: "qfs2_superblock \<Rightarrow> byte list \<Rightarrow> machine \<Rightarrow> bool" where
  "room_for super path s \<longleftrightarrow>
     (\<exists>parent name number inode. split_path path = Some (parent, name)
        \<and> find_path super parent s = Some number \<and> read_inode super number s = Some inode
        \<and> in_kind inode = QFS2_DIRECTORY \<and> find_child super number name s = None) \<and>
     (\<exists>n i. 2 \<le> n \<and> n \<le> inode_slots super \<and> read_inode super (of_nat n) s = Some i \<and> in_inode i = 0) \<and>
     (\<exists>j b. j < entry_slots super \<and> read_metadata super (entry_offset super j) 66 s = Some b
        \<and> de_name_length (dentry_of b) = 0)"

definition tables_readable :: "qfs2_superblock \<Rightarrow> machine \<Rightarrow> bool" where
  "tables_readable super s \<longleftrightarrow>
     (\<forall>n. 2 \<le> n \<and> n \<le> inode_slots super \<longrightarrow> read_inode super (of_nat n) s \<noteq> None) \<and>
     (\<forall>j<entry_slots super. read_metadata super (entry_offset super j) 66 s \<noteq> None)"

lemma create_node_succeeds:
  assumes ok: "machine_ok s" and sound: "boot_disk_sound s" and super: "load_super s = Some super"
    and lay: "layout super" and clean: "clean_rest (path_rest path)"
    and readable: "tables_readable super s" and room: "room_for super path s"
  shows "\<exists>s'. create_node path kind s = (True, s')"
proof -
  obtain parent name number inode where split: "split_path path = Some (parent, name)"
    and parent: "find_path super parent s = Some number" "read_inode super number s = Some inode"
      "in_kind inode = QFS2_DIRECTORY" and absent: "find_child super number name s = None"
    using room by (auto simp: room_for_def)
  note name = split_path_names(3-5) [OF split clean]
  have inodes: "\<forall>k\<in>set [2..<unat (inode_count super) + 1]. read_inode super (of_nat k) s \<noteq> None"
    using readable by (auto simp: tables_readable_def inode_count_nat [OF lay])
  have entries: "\<forall>j\<in>set [0..<unat (create_count super)]. read_metadata super (create_offset super j) 66 s \<noteq> None"
    using readable entry_offset_nat(2) [OF lay] by (auto simp: tables_readable_def entry_count_nat [OF lay])
  obtain n where n: "find_free_inode super [2..<unat (inode_count super) + 1] s = Some (Some n)"
  proof -
    obtain k i where k: "2 \<le> k" "k \<le> inode_slots super" and i: "read_inode super (of_nat k) s = Some i" "in_inode i = 0"
      using room by (auto simp: room_for_def)
    have "k \<in> set [2..<unat (inode_count super) + 1]" using k unfolding inode_count_nat [OF lay] by auto
    from find_free_inode_finds [OF inodes this i] that show thesis by blast
  qed
  obtain index where index: "find_free_entry super [0..<unat (create_count super)] s = Some (Some index)"
  proof -
    obtain j b where "j < entry_slots super" "read_metadata super (entry_offset super j) 66 s = Some b"
      "de_name_length (dentry_of b) = 0" using room by (auto simp: room_for_def)
    then show thesis
      using find_free_entry_finds [OF entries, of j b] that entry_offset_nat(2) [OF lay]
      by (auto simp: entry_count_nat [OF lay])
  qed
  have "read_inode super n s \<noteq> None" using find_free_inode_spec [OF n] by auto
  moreover have "index < entry_slots super" using find_free_entry_spec [OF index] by (simp add: entry_count_nat [OF lay])
  ultimately obtain s' where "store_node super number name kind n index s = (True, s')"
    using store_node_succeeds [OF ok sound lay _ _ name] readable absent unfolding tables_readable_def by blast
  then have "create_node path kind s = (True, s')"
    using super split parent absent n index by (simp add: create_node_def)
  then show ?thesis by blast
qed

section \<open>A small volume\<close>

text \<open>A boot disk with an empty volume, for the concrete instances: one sector of inodes at 516
  that holds the root directory, one sector of entries at 517.\<close>

definition demo_super_body :: "byte list" where
  "demo_super_body = str ''QFSv2'' @ [0, 0, 0] @ le16 2 @ le16 512 @ le32 600 @ le32 515 @ le32 516 @ le32 1
     @ le32 517 @ le32 1 @ le32 1"

definition demo_root_inode :: qfs2_inode where
  "demo_root_inode = \<lparr>in_inode = 1, in_kind = 2, in_mode = 0, in_uid = 0, in_gid = 0, in_size = 0,
     in_first_sector = 0, in_sectors = 0, in_generation = 1, in_reserved = 0, in_flags = 0\<rparr>"

definition demo_sector :: "u32 \<Rightarrow> byte list" where
  "demo_sector n = (if n = 514 then demo_super_body @ le32 (crc32 demo_super_body) @ replicate 468 0
     else if n = 516 then inode_bytes demo_root_inode @ replicate 456 0 else replicate 512 0)"

definition demo_volume :: machine where
  "demo_volume = \<lparr>drives = (\<lambda>_. \<lparr>present = True, sectors = 1000, platter = demo_sector,
       read_fault = (\<lambda>_. False), write_fault = (\<lambda>_. None)\<rparr>),
     live_base = 0, live_sectors = 0, live_image = (\<lambda>_. replicate 512 0),
     disk_count = (\<lambda>_. 0), live_count = 0, markers = []\<rparr>"

definition demo_super :: qfs2_superblock where
  "demo_super = \<lparr>sb_magic = str ''QFSv2'' @ [0, 0, 0], sb_version = 2, sb_sector_size = 512,
     sb_total_sectors = 600, sb_bitmap_lba = 515, sb_inode_lba = 516, sb_inode_sectors = 1,
     sb_entry_lba = 517, sb_entry_sectors = 1, sb_root_inode = 1, sb_checksum = crc32 demo_super_body,
     sb_reserved = 0\<rparr>"

lemma length_demo_body: "length demo_super_body = 40"
  by (simp add: demo_super_body_def)

lemma length_demo_sector [simp]: "length (demo_sector n) = 512"
  by (simp add: demo_sector_def length_demo_body)

lemma demo_volume_ok: "machine_ok demo_volume"
  by (simp add: machine_ok_def demo_volume_def)

lemma demo_volume_live: "\<not> live_available demo_volume"
  by (simp add: live_available_def demo_volume_def)

lemma demo_volume_sound: "boot_disk_sound demo_volume"
  using demo_volume_live by (simp add: boot_disk_sound_def) (simp add: demo_volume_def)

lemma demo_read: "boot_read demo_volume n = (if n < 1000 then Some (demo_sector n) else None)"
proof -
  have "(1000 \<le> (ucast n :: u64)) = (1000 \<le> n)" by (simp add: word_le_nat_alt unat_ucast_up)
  moreover have "n < 1000 \<Longrightarrow> \<not> push_bit 28 1 \<le> n" by (simp add: word_le_nat_alt word_less_nat_alt)
  ultimately show ?thesis using demo_volume_live
    by (simp add: boot_read_eq) (auto simp: demo_volume_def ata_sector_count_def ata_read_def ata_accepts_def not_less not_le)
qed

lemma demo_body_fields:
  "field demo_super_body 0 8 = str ''QFSv2'' @ [0, 0, 0]" "u16_at demo_super_body 8 = 2" "u16_at demo_super_body 10 = 512"
  "u32_at demo_super_body 12 = 600" "u32_at demo_super_body 16 = 515" "u32_at demo_super_body 20 = 516"
  "u32_at demo_super_body 24 = 1" "u32_at demo_super_body 28 = 517" "u32_at demo_super_body 32 = 1"
  "u32_at demo_super_body 36 = 1"
  by (simp_all add: demo_super_body_def u16_at_def u32_at_def field_layout field_Cons)
    (simp add: field_def)

lemma demo_superblock_of:
  "superblock_of (demo_sector 514) = demo_super" "take 40 (demo_sector 514) = demo_super_body"
proof -
  have f: "field (demo_sector 514) off n = field demo_super_body off n" if "off + n \<le> 40" for off n
    using that by (simp add: demo_sector_def field_append1 length_demo_body)
  have u: "u32_at (demo_sector 514) off = u32_at demo_super_body off" if "off + 4 \<le> 40" for off
    using f [OF that] by (simp add: u32_at_def)
  have h: "u16_at (demo_sector 514) off = u16_at demo_super_body off" if "off + 2 \<le> 40" for off
    using f [OF that] by (simp add: u16_at_def)
  have c: "u32_at (demo_sector 514) 40 = crc32 demo_super_body"
    by (simp add: demo_sector_def u32_at_def field_layout length_demo_body)
  have r: "u32_at (demo_sector 514) 44 = 0"
    by (simp add: demo_sector_def u32_at_def field_layout length_demo_body field_zeros)
  show "superblock_of (demo_sector 514) = demo_super"
    by (simp add: superblock_of_def demo_super_def f h u c r demo_body_fields)
  show "take 40 (demo_sector 514) = demo_super_body"
    by (simp add: demo_sector_def length_demo_body)
qed

lemma demo_load_super: "load_super demo_volume = Some demo_super"
  unfolding load_super_def QFS2_LBA_def demo_read
  by (simp add: demo_superblock_of superblock_ok_def Let_def)
    (simp add: demo_super_def QFS2_LBA_def)

lemma demo_layout: "layout demo_super"
  by (simp add: layout_def demo_super_def)

lemma demo_metadata:
  assumes "unat offset mod 512 + len \<le> 512" "unat offset + len \<le> 600 * 512" "0 < len" "len \<le> 512"
  shows "read_metadata demo_super offset len demo_volume =
    Some (take len (drop (unat offset mod 512) (demo_sector (of_nat (unat offset div 512)))))"
proof -
  have "fs_bytes demo_super = 600 * 512" by (simp add: fs_bytes_def demo_super_def)
  then have "\<not> outside_limit demo_super offset (of_nat len)"
    using assms by (simp add: outside_limit_nat unat_of_nat)
  moreover have "(of_nat (unat offset div 512) :: u32) < 1000"
    using assms(2,3) by (simp add: word_less_nat_alt unat_of_nat)
  ultimately show ?thesis
    using assms by (simp add: read_metadata_def read_span.simps [of _ "unat offset"] read_span.simps [of _ _ 0] demo_read min_def Let_def)
qed

lemma sector_offset: "x < 512 \<Longrightarrow> (q * 512 + x) mod 512 = x \<and> (q * 512 + x) div 512 = (q :: nat)"
  by simp

lemma demo_inode:
  assumes "1 \<le> n" "n \<le> 9"
  shows "read_inode demo_super (of_nat n) demo_volume =
    Some (inode_of (take 56 (drop (56 * (n - 1)) (demo_sector 516))))"
proof -
  have bad: "\<not> bad_inode_number demo_super (of_nat n)"
    using assms by (simp add: bad_inode_number_nat inode_slots_def demo_super_def unat_of_nat)
  have off: "unat (inode_offset demo_super (of_nat n)) = 516 * 512 + 56 * (n - 1)"
    using inode_offset_nat(1) [OF demo_layout bad] assms by (simp add: inode_at_def demo_super_def unat_of_nat)
  have "(516 * 512 + 56 * (n - 1)) mod 512 = 56 * (n - 1)" "(516 * 512 + 56 * (n - 1)) div 512 = 516"
    using assms sector_offset [of "56 * (n - 1)" 516] by simp_all
  with off assms bad show ?thesis by (simp add: read_inode_def demo_metadata)
qed

lemma demo_inode_root: "read_inode demo_super 1 demo_volume = Some demo_root_inode"
  using demo_inode [of 1] by (simp add: demo_sector_def inode_roundtrip)

lemma demo_inode_free: "\<exists>i. read_inode demo_super 2 demo_volume = Some i \<and> in_inode i = 0"
  using demo_inode [of 2] by (simp add: demo_sector_def inode_of_def u64_at_def field_zeros)

lemma demo_entry: "j < 7 \<Longrightarrow> read_metadata demo_super (entry_offset demo_super j) 66 demo_volume = Some (replicate 66 0)"
proof -
  assume j: "j < 7"
  then have "unat (entry_offset demo_super j) = 517 * 512 + 66 * j"
    using entry_offset_nat(1) [OF demo_layout] by (simp add: entry_slots_def entry_at_def demo_super_def)
  moreover have "(517 * 512 + 66 * j) mod 512 = 66 * j" "(517 * 512 + 66 * j) div 512 = 517"
    using j sector_offset [of "66 * j" 517] by simp_all
  ultimately show ?thesis using j by (simp add: demo_metadata demo_sector_def min_def)
qed

lemma demo_slots: "entry_slots demo_super = 7" "inode_slots demo_super = 9"
  by (simp_all add: entry_slots_def inode_slots_def demo_super_def)

lemma demo_entry_free: "de_name_length (dentry_of (replicate 66 0)) = 0"
  by (simp add: dentry_of_def)

lemma demo_find_child: "find_child demo_super parent name demo_volume = None"
proof -
  have "n + index \<le> 7 \<Longrightarrow> find_child_from demo_super parent name index n demo_volume = None" for n index
    by (induction n arbitrary: index)
      (simp_all add: find_child_from_matches demo_entry matches_free demo_entry_free)
  then show ?thesis
    using entry_count_nat(1) [OF demo_layout] by (simp add: find_child_def demo_slots)
qed

lemma demo_readable: "tables_readable demo_super demo_volume"
  using demo_inode demo_entry by (auto simp: tables_readable_def demo_slots)

lemma demo_split: "split_path (str ''prime:a'') = Some (str ''prime:'', str ''a'')"
  by (simp add: split_path_def str_def drive_end_def trim_length.simps last_cut_def Let_def)

lemma demo_find_root: "find_path demo_super (str ''prime:'') demo_volume = Some 1"
  by (simp add: find_path_def str_def drive_end_def find_path_from.simps QFS2_ROOT_INODE_def Let_def)

lemma demo_room: "room_for demo_super (str ''prime:a'') demo_volume"
  unfolding room_for_def
  using demo_split demo_find_root demo_inode_root demo_find_child demo_inode_free demo_entry [of 0] demo_entry_free
  by (auto simp: demo_root_inode_def QFS2_DIRECTORY_def demo_slots intro: exI [of _ "2::nat"] exI [of _ "0::nat"])

section \<open>Properties\<close>





text \<open>Path lookup, a character loop with early returns, is a walk along the list of names
  the path parses into, from the root inode, for the two drive names the loop knows.\<close>

theorem find_path_walks_names:
  "find_path super path s =
     (if known_drive path
      then Option.bind (path_names (path_rest path)) (walk_names super s QFS2_ROOT_INODE) else None)"
  by (rule find_path_walk)

text \<open>A node in the root directory whose whole path has 50 characters or more cannot be
  created, although names of up to 48 characters are allowed everywhere else: for such a path
  the length test of \<open>split_path\<close> counts the drive name as well.\<close>

theorem split_path_root_limit:
  assumes "62 \<notin> set (cstr path)" "50 \<le> length (cstr path)"
  shows "split_path path = None"
proof -
  let ?p = "cstr path" and ?d = "drive_end path"
  have last: "?p ! (length ?p - 1) \<noteq> 62" using assms by (metis diff_less nth_mem zero_less_one order_less_le_trans zero_less_numeral)
  then have trim: "trim_length ?p ?d (length ?p) = length ?p" by (simp add: trim_length.simps)
  have "foldl (\<lambda>cut index. if ?p ! index = 62 then index else cut) 0 xs = 0" if "set xs \<subseteq> {..<length ?p}" for xs
    using that assms(1) by (induction xs) (auto dest: nth_mem)
  from this [of "[?d + 1..<length ?p]"] have "last_cut ?p ?d (length ?p) = 0" by (simp add: last_cut_def subset_iff)
  moreover have "49 \<le> length ?p - Suc 0" using assms(2) by simp
  ultimately show ?thesis by (simp add: split_path_def trim Let_def)
qed

theorem split_path_root_limit_witness:
  "split_path (str ''prime:'' @ replicate 44 97) = None"
  by (rule split_path_root_limit) (simp_all add: str_def cstr_append cstr_id)

end
