(* ===== verification/Task.thy ===== *)
theory Task
  imports Paging Account Mount Qfs2_Create
begin

text \<open>
  Tasks, capabilities and user memory of \<^verbatim>\<open>kernel/core/task.c\<close>.  The kernel's state is the
  record \<open>kernel\<close>; the memory a task sees is a byte map per task.  The console, the desktop,
  the clock and the keyboard belong to \<^verbatim>\<open>kernel/arch/x86_64/tables.c\<close>: what they are told is
  logged in \<open>events\<close>, and what they answer comes from the record \<open>environment\<close>.
\<close>

section \<open>State\<close>

datatype task_state = TASK_NEW | TASK_RUNNABLE | TASK_WAIT_REPLY | TASK_DONE

datatype capability_kind = CAP_NONE | CAP_MMIO | CAP_IRQ | CAP_DMA | CAP_ENDPOINT | CAP_NAMESPACE

record task_capability =
  cap_kind :: capability_kind
  cap_resource :: u64
  cap_handle :: u64
  cap_rights :: u64

record task_file =
  file_active :: bool
  file_flags :: u32
  file_offset :: u64
  file_path :: "byte list"

text \<open>\<open>capabilities\<close> holds the first \<^verbatim>\<open>capability_count\<close> entries of the array.\<close>

record quanta_task =
  root :: u64
  code_pages :: "u64 list"
  stack :: u64
  ip :: u64
  sp :: u64
  return_ip :: u64
  return_flags :: u64
  code_page_count :: u32
  state :: task_state
  endpoint :: u64
  authenticated :: bool
  capabilities :: "task_capability list"
  files :: "task_file list"

datatype event =
    Console_Write "byte list"
  | Console_Clear
  | Desktop_Draw "byte list"
  | Desktop_View u32
  | Desktop_Present

record environment =
  console_char :: int
  draw_accepted :: "byte list \<Rightarrow> bool"
  view_accepted :: "u32 \<Rightarrow> bool"
  present_accepted :: bool
  clock :: "byte list"
  display_size :: "u32 \<times> u32"

record kernel =
  mach :: machine
  boot_mount :: quanta_mount
  phys :: frames
  tasks :: "nat \<Rightarrow> quanta_task"
  current :: nat
  user_memory :: "nat \<Rightarrow> u64 \<Rightarrow> byte"
  ipc_request :: "byte list"
  ipc_reply :: "byte list"
  ipc_request_payload :: "byte list"
  ipc_reply_payload :: "byte list"
  ipc_request_length :: u32
  ipc_reply_length :: u32
  ipc_request_pending :: bool
  ipc_request_received :: bool
  events :: "event list"

text \<open>How a call leaves the kernel: to its caller, into another task, or not at all.\<close>

datatype outcome = Return int | Enter nat | Halt

definition STATUS_OK :: int where "STATUS_OK = 0"
definition STATUS_INVALID :: int where "STATUS_INVALID = -1"
definition STATUS_DENIED :: int where "STATUS_DENIED = -2"
definition STATUS_LIMIT :: int where "STATUS_LIMIT = -3"
definition STATUS_STATE :: int where "STATUS_STATE = -4"

definition USER_CODE_BASE :: u64 where [geometry]: "USER_CODE_BASE = 0x400000"
definition USER_STACK_BASE :: u64 where [geometry]: "USER_STACK_BASE = 0x7fffffffd000"
definition USER_STACK_END :: u64 where [geometry]: "USER_STACK_END = 0x7ffffffff000"
definition QUANTA_PATH_MAX :: nat where [geometry]: "QUANTA_PATH_MAX = 96"
definition RIGHT_SEND :: u64 where "RIGHT_SEND = 1"
definition RIGHT_RECEIVE :: u64 where "RIGHT_RECEIVE = 2"

section \<open>Capabilities\<close>

definition quanta_task_grant :: "capability_kind \<Rightarrow> u64 \<Rightarrow> quanta_task \<Rightarrow> int \<times> u64 option \<times> quanta_task" where
  "quanta_task_grant kind resource task =
     (if kind = CAP_NONE \<or> length (capabilities task) \<ge> 8 then (STATUS_LIMIT, None, task)
      else
       (let slot = length (capabilities task);
            handle0 = of_nat slot + 1 :: u64;
            handle = (if handle0 = 0 then 1 else handle0);
            capability = \<lparr>cap_kind = kind, cap_resource = resource, cap_handle = handle,
              cap_rights = RIGHT_SEND OR RIGHT_RECEIVE\<rparr>;
            task1 = (if kind = CAP_ENDPOINT then task\<lparr>endpoint := handle\<rparr> else task)
        in (STATUS_OK, Some handle, task1\<lparr>capabilities := capabilities task @ [capability]\<rparr>)))"

text \<open>The position of the first capability with a given handle.\<close>

fun capability_index :: "u64 \<Rightarrow> task_capability list \<Rightarrow> nat option" where
  "capability_index handle [] = None"
| "capability_index handle (c # cs) =
     (if cap_handle c = handle then Some 0 else map_option Suc (capability_index handle cs))"

definition quanta_task_revoke :: "u64 \<Rightarrow> quanta_task \<Rightarrow> int \<times> quanta_task" where
  "quanta_task_revoke handle task =
     (if handle = 0 then (STATUS_INVALID, task)
      else case capability_index handle (capabilities task) of
        None \<Rightarrow> (STATUS_INVALID, task)
      | Some index \<Rightarrow>
          (STATUS_OK, task\<lparr>
             capabilities := take index (capabilities task) @ drop (index + 1) (capabilities task),
             endpoint := (if endpoint task = handle then 0 else endpoint task)\<rparr>))"

definition has_namespace_capability :: "quanta_task \<Rightarrow> u64 \<Rightarrow> bool" where
  "has_namespace_capability task handle =
     list_ex (\<lambda>c. cap_handle c = handle \<and> cap_kind c = CAP_NAMESPACE \<and> cap_rights c AND RIGHT_SEND \<noteq> 0)
       (capabilities task)"

definition has_endpoint_capability :: "quanta_task \<Rightarrow> u64 \<Rightarrow> u64 \<Rightarrow> bool" where
  "has_endpoint_capability task handle rights =
     list_ex (\<lambda>c. cap_handle c = handle \<and> cap_kind c = CAP_ENDPOINT \<and> cap_rights c AND rights = rights)
       (capabilities task)"

section \<open>User memory\<close>

definition user_range_valid :: "quanta_task \<Rightarrow> u64 \<Rightarrow> u64 \<Rightarrow> bool" where
  "user_range_valid task address len =
     (let code_end = USER_CODE_BASE + ucast (code_page_count task) * 0x1000 in
      if len = 0 then address \<noteq> 0
      else if address > - 1 - len then False
      else let finish = address + len in
        if address \<ge> USER_STACK_BASE \<and> finish \<le> USER_STACK_END then True
        else if address \<ge> USER_CODE_BASE \<and> finish \<le> code_end then True
        else False)"

definition user_read :: "kernel \<Rightarrow> u64 \<Rightarrow> nat \<Rightarrow> byte list" where
  "user_read k address n = map (\<lambda>i. user_memory k (current k) (address + of_nat i)) [0..<n]"

text \<open>Stores in order, the first byte first.\<close>

primrec store_bytes :: "u64 \<Rightarrow> byte list \<Rightarrow> (u64 \<Rightarrow> byte) \<Rightarrow> u64 \<Rightarrow> byte" where
  "store_bytes address [] m = m"
| "store_bytes address (b # bs) m = store_bytes (address + 1) bs (m(address := b))"

definition user_write :: "u64 \<Rightarrow> byte list \<Rightarrow> kernel \<Rightarrow> kernel" where
  "user_write address bs k = k\<lparr>user_memory := (user_memory k)
     (current k := store_bytes address bs (user_memory k (current k)))\<rparr>"

text \<open>The string at a user address, as far as the path limit reaches.\<close>

definition path_at :: "kernel \<Rightarrow> u64 \<Rightarrow> byte list" where
  "path_at k message = user_read k message QUANTA_PATH_MAX"

definition file_for_handle :: "quanta_task \<Rightarrow> u64 \<Rightarrow> nat option" where
  "file_for_handle task handle =
     (if handle = 0 \<or> handle > 16 then None
      else if \<not> file_active (files task ! (unat handle - 1)) then None
      else Some (unat handle - 1))"

text \<open>The result, and what the 96-byte array at \<open>output\<close> holds afterwards up to its end.\<close>

function copy_path_from :: "nat \<Rightarrow> byte list \<Rightarrow> bool \<times> byte list" where
  "copy_path_from index input =
     (if index + 1 < QUANTA_PATH_MAX
      then if cat input index = 0 then (True, [0])
           else let (ok, rest) = copy_path_from (index + 1) input in (ok, cat input index # rest)
      else (False, [0]))"
  by auto
termination
  by (relation "measure (\<lambda>(index, input). QUANTA_PATH_MAX - index)") auto

declare copy_path_from.simps [simp del]

definition copy_path :: "byte list \<Rightarrow> bool \<times> byte list" where
  "copy_path input = copy_path_from 0 input"

text \<open>The loop over the characters behind the drive name, with the previous character.\<close>

function path_chars_valid :: "nat \<Rightarrow> byte \<Rightarrow> byte list \<Rightarrow> bool" where
  "path_chars_valid index previous path =
     (if index < QUANTA_PATH_MAX then
        let character = cat path index in
        if character = 0 then True
        else if character = 47 \<or> character = 92 \<or> character = 58 then False
        else if character = 62 \<and> (previous = 0 \<or> previous = 62) then False
        else path_chars_valid (index + 1) character path
      else False)"
  by auto
termination
  by (relation "measure (\<lambda>(index, previous, path). QUANTA_PATH_MAX - index)") auto

declare path_chars_valid.simps [simp del]

definition filesystem_path_valid :: "quanta_mount \<Rightarrow> byte list \<Rightarrow> bool" where
  "filesystem_path_valid m path =
     (case mt_device m of None \<Rightarrow> False
      | Some device \<Rightarrow>
          (let drive = (if device_name device ! 0 = of_char CHR ''l'' then str ''live'' else str ''prime'') in
           if \<not> list_all (\<lambda>index. cat path index = drive ! index) [0..<length drive] then False
           else if cat path (length drive) \<noteq> 58 then False
           else path_chars_valid (length drive + 1) 0 path))"

section \<open>Creation\<close>

definition PAGE_FLAGS_CODE :: u64 where
  "PAGE_FLAGS_CODE = PAGE_PRESENT OR PAGE_WRITABLE OR PAGE_USER"

definition PAGE_FLAGS_STACK :: u64 where
  "PAGE_FLAGS_STACK = PAGE_PRESENT OR PAGE_WRITABLE OR PAGE_USER OR PAGE_NO_EXECUTE"

definition PAGE_FLAGS_STORAGE :: u64 where
  "PAGE_FLAGS_STORAGE = PAGE_PRESENT OR PAGE_USER OR PAGE_NO_EXECUTE"

text \<open>
  \<open>copy_image\<close> on memory as 64-bit words: the bytes go into a page that the allocator has
  just cleared, so the bytes behind the end of the image are zero.
\<close>

definition copy_image :: "u64 \<Rightarrow> byte list \<Rightarrow> memory \<Rightarrow> memory" where
  "copy_image page bytes m =
     foldl (\<lambda>m i. m(page + 8 * of_nat i := u64_at (bytes @ replicate 8 0) (8 * i))) m
       [0..<(length bytes + 7) div 8]"

text \<open>The loop over the code pages: page number, the image from there on; \<open>None\<close> halts.\<close>

fun map_code_pages :: "u64 \<Rightarrow> nat \<Rightarrow> byte list list \<Rightarrow> frames \<Rightarrow> (u64 list \<times> frames) option" where
  "map_code_pages page_root page [] s = Some ([], s)"
| "map_code_pages page_root page (bytes # rest) s =
     (case quanta_frame_allocate_or_panic s of None \<Rightarrow> None
      | Some (frame, s1) \<Rightarrow>
     (case quanta_map_page page_root (0x400000 + of_nat page * 0x1000) frame PAGE_FLAGS_CODE
             (s1\<lparr>mem := copy_image frame bytes (mem s1)\<rparr>) of None \<Rightarrow> None
      | Some s2 \<Rightarrow>
     (case map_code_pages page_root (page + 1) rest s2 of None \<Rightarrow> None
      | Some (frames, s3) \<Rightarrow> Some (frame # frames, s3))))"

fun map_storage_pages :: "u64 \<Rightarrow> u64 \<Rightarrow> nat list \<Rightarrow> frames \<Rightarrow> frames option" where
  "map_storage_pages page_root base [] s = Some s"
| "map_storage_pages page_root base (page # rest) s =
     (let physical = base + of_nat page * 0x1000 in
      case quanta_map_page page_root physical physical PAGE_FLAGS_STORAGE s of None \<Rightarrow> None
      | Some s1 \<Rightarrow> map_storage_pages page_root base rest s1)"

text \<open>The image cut at page boundaries.\<close>

function image_pages :: "byte list \<Rightarrow> byte list list" where
  "image_pages bytes = (if bytes = [] then [] else take 0x1000 bytes # image_pages (drop 0x1000 bytes))"
  by auto
termination
  by (relation "measure length") auto

declare image_pages.simps [simp del]

text \<open>The address space of a new task: root, code pages, first stack page.\<close>

definition build_space :: "byte list \<Rightarrow> machine \<Rightarrow> frames \<Rightarrow> ((u64 \<times> u64 list \<times> u64) \<times> frames) option" where
  "build_space image_bytes m s =
     (case quanta_address_space_create s of None \<Rightarrow> None
      | Some (page_root, s1) \<Rightarrow>
      if (length image_bytes + 0xfff) div 0x1000 = 0 \<or> (length image_bytes + 0xfff) div 0x1000 > 16 then None
      else
     (case map_code_pages page_root 0 (image_pages image_bytes) s1 of None \<Rightarrow> None
      | Some (pages, s2) \<Rightarrow>
     (case quanta_frame_allocate_or_panic s2 of None \<Rightarrow> None
      | Some (stack_page, s3) \<Rightarrow>
     (case quanta_map_page page_root USER_STACK_BASE stack_page PAGE_FLAGS_STACK s3 of None \<Rightarrow> None
      | Some s4 \<Rightarrow>
     (case quanta_frame_allocate_or_panic s4 of None \<Rightarrow> None
      | Some (second, s5) \<Rightarrow>
     (case quanta_map_page page_root (USER_STACK_BASE + 0x1000) second PAGE_FLAGS_STACK s5 of None \<Rightarrow> None
      | Some s6 \<Rightarrow>
     (case quanta_map_page page_root 0xb8000 0xb8000 PAGE_FLAGS_CODE s6 of None \<Rightarrow> None
      | Some s7 \<Rightarrow>
     (case (if live_base m \<noteq> 0
            then map_storage_pages page_root (live_base m) [0..<unat ((live_sectors m + 7) div 8)] s7
            else Some s7) of None \<Rightarrow> None
      | Some s8 \<Rightarrow> Some ((page_root, pages, stack_page), s8)))))))))"

definition log_marker :: "string \<Rightarrow> kernel \<Rightarrow> kernel" where
  "log_marker text k = k\<lparr>mach := write_marker text (mach k)\<rparr>"

definition set_task :: "nat \<Rightarrow> quanta_task \<Rightarrow> kernel \<Rightarrow> kernel" where
  "set_task slot task k = k\<lparr>tasks := (tasks k)(slot := task)\<rparr>"

definition create :: "nat \<Rightarrow> byte list \<Rightarrow> u64 \<Rightarrow> kernel \<Rightarrow> kernel option" where
  "create slot image_bytes cap k =
     (case build_space image_bytes (mach k) (phys k) of None \<Rightarrow> None
      | Some ((page_root, pages, stack_page), s) \<Rightarrow>
         (let task = (tasks k slot)\<lparr>root := page_root, code_pages := pages, stack := stack_page,
                code_page_count := of_nat ((length image_bytes + 0xfff) div 0x1000),
                ip := 0x400000, sp := USER_STACK_END - 8, state := TASK_RUNNABLE, endpoint := cap\<rparr>;
              k1 = log_marker ''QUANTA_TASK_STORAGE_READY'' (log_marker ''QUANTA_TASK_STACK_READY''
                (log_marker ''QUANTA_TASK_CODE_READY'' (log_marker ''QUANTA_TASK_ADDRESS_SPACE_READY''
                  (k\<lparr>phys := s\<rparr>))))
          in if slot = 0 then
              (case quanta_task_grant CAP_NAMESPACE 0 task of (status, handle, task1) \<Rightarrow>
                 if status \<noteq> STATUS_OK \<or> handle \<noteq> Some 1 then None else Some (set_task slot task1 k1))
             else Some (set_task slot task k1)))"

definition run :: "nat \<Rightarrow> kernel \<Rightarrow> outcome \<times> kernel" where
  "run slot k = (Enter slot, k\<lparr>current := slot\<rparr>)"

text \<open>
  The boot sequence, with the three embedded images as arguments; the wait for the first
  timer tick is the hardware's.
\<close>

definition quanta_task_bootstrap :: "byte list \<Rightarrow> byte list \<Rightarrow> byte list \<Rightarrow> kernel \<Rightarrow> outcome \<times> kernel" where
  "quanta_task_bootstrap client server fault k =
     (case Option.bind (create 0 client 1 k) (\<lambda>k1. Option.bind (create 1 server 2 k1) (create 2 fault 0)) of
        None \<Rightarrow> (Halt, k)
      | Some k3 \<Rightarrow> run 0 (log_marker ''QUANTA_USER_SESSION_STARTING'' (log_marker ''QUANTA_TIMER_READY'' k3)))"

definition quanta_task_user_fault :: "u64 \<Rightarrow> kernel \<Rightarrow> outcome \<times> kernel" where
  "quanta_task_user_fault vector k =
     (let k1 = set_task (current k) ((tasks k (current k))\<lparr>state := TASK_DONE\<rparr>) k;
          k2 = (if vector = 13 then log_marker ''QUANTA_USER_GP'' k1 else k1);
          k3 = (if vector = 14 then log_marker ''QUANTA_USER_PAGE_FAULT'' k2 else k2);
          k4 = log_marker ''QUANTA_USER_FAULT_TERMINATED'' k3
      in if current k = 2 then (Halt, log_marker ''QUANTA_SERVICES_CONTINUE'' k4) else run 2 k4)"

end
