(* ===== verification/Syscall.thy ===== *)
theory Syscall
  imports Task
begin

text \<open>
  \<^verbatim>\<open>quanta_task_syscall\<close> of \<^verbatim>\<open>kernel/core/task.c\<close>, one definition per branch of the dispatcher:
  each takes the arguments of the system call and the kernel's state and gives the outcome
  and the new state.  Reads and writes of user memory go through the byte map of the
  current task, in the order of the code, so overlapping buffers behave as they do there.
\<close>

abbreviation this_task :: "kernel \<Rightarrow> quanta_task" where
  "this_task k \<equiv> tasks k (current k)"

abbreviation set_this :: "quanta_task \<Rightarrow> kernel \<Rightarrow> kernel" where
  "set_this task k \<equiv> set_task (current k) task k"

definition log_event :: "event \<Rightarrow> kernel \<Rightarrow> kernel" where
  "log_event e k = k\<lparr>events := events k @ [e]\<rparr>"

definition MAX_BUFFER :: u64 where [geometry]: "MAX_BUFFER = 256"
definition IPC_MAX_PAYLOAD :: u64 where [geometry]: "IPC_MAX_PAYLOAD = 64"

section \<open>Numbers of the calls\<close>

abbreviation SYSCALL_YIELD :: u64 where "SYSCALL_YIELD \<equiv> 0"
abbreviation SYSCALL_IPC_CALL :: u64 where "SYSCALL_IPC_CALL \<equiv> 1"
abbreviation SYSCALL_IPC_RECEIVE :: u64 where "SYSCALL_IPC_RECEIVE \<equiv> 2"
abbreviation SYSCALL_IPC_REPLY :: u64 where "SYSCALL_IPC_REPLY \<equiv> 3"
abbreviation SYSCALL_TASK_EXIT :: u64 where "SYSCALL_TASK_EXIT \<equiv> 4"
abbreviation SYSCALL_CONSOLE_WRITE :: u64 where "SYSCALL_CONSOLE_WRITE \<equiv> 5"
abbreviation SYSCALL_CONSOLE_READ :: u64 where "SYSCALL_CONSOLE_READ \<equiv> 6"
abbreviation SYSCALL_FS_LIST :: u64 where "SYSCALL_FS_LIST \<equiv> 7"
abbreviation SYSCALL_FS_READ :: u64 where "SYSCALL_FS_READ \<equiv> 8"
abbreviation SYSCALL_SYSTEM_INFO :: u64 where "SYSCALL_SYSTEM_INFO \<equiv> 9"
abbreviation SYSCALL_CONSOLE_CLEAR :: u64 where "SYSCALL_CONSOLE_CLEAR \<equiv> 10"
abbreviation SYSCALL_SHUTDOWN :: u64 where "SYSCALL_SHUTDOWN \<equiv> 11"
abbreviation SYSCALL_RTC_READ :: u64 where "SYSCALL_RTC_READ \<equiv> 12"
abbreviation SYSCALL_SESSION_LOGOUT :: u64 where "SYSCALL_SESSION_LOGOUT \<equiv> 13"
abbreviation SYSCALL_AUTH_VERIFY :: u64 where "SYSCALL_AUTH_VERIFY \<equiv> 14"
abbreviation SYSCALL_FS_OPEN :: u64 where "SYSCALL_FS_OPEN \<equiv> 15"
abbreviation SYSCALL_FS_CLOSE :: u64 where "SYSCALL_FS_CLOSE \<equiv> 16"
abbreviation SYSCALL_FS_READ_HANDLE :: u64 where "SYSCALL_FS_READ_HANDLE \<equiv> 17"
abbreviation SYSCALL_FS_STAT :: u64 where "SYSCALL_FS_STAT \<equiv> 20"
abbreviation SYSCALL_FS_MKDIR :: u64 where "SYSCALL_FS_MKDIR \<equiv> 22"
abbreviation SYSCALL_AUTH_CHANGE :: u64 where "SYSCALL_AUTH_CHANGE \<equiv> 27"
abbreviation SYSCALL_STORAGE_LIST :: u64 where "SYSCALL_STORAGE_LIST \<equiv> 28"
abbreviation SYSCALL_DESKTOP_DRAW :: u64 where "SYSCALL_DESKTOP_DRAW \<equiv> 29"
abbreviation SYSCALL_DESKTOP_VIEW :: u64 where "SYSCALL_DESKTOP_VIEW \<equiv> 30"
abbreviation SYSCALL_DESKTOP_PRESENT :: u64 where "SYSCALL_DESKTOP_PRESENT \<equiv> 31"

section \<open>Console and desktop\<close>

definition sys_console_write :: "u64 \<Rightarrow> u64 \<Rightarrow> kernel \<Rightarrow> outcome \<times> kernel" where
  "sys_console_write message len k =
     (if len > MAX_BUFFER then (Return STATUS_LIMIT, k)
      else if \<not> user_range_valid (this_task k) message len then (Return STATUS_INVALID, k)
      else (Return STATUS_OK, log_event (Console_Write (user_read k message (unat len))) k))"

definition sys_console_read :: "environment \<Rightarrow> kernel \<Rightarrow> outcome \<times> kernel" where
  "sys_console_read env k = (Return (console_char env), k)"

definition sys_console_clear :: "kernel \<Rightarrow> outcome \<times> kernel" where
  "sys_console_clear k = (Return STATUS_OK, log_event Console_Clear k)"

text \<open>A packed \<^verbatim>\<open>quanta_desktop_draw_command\<close> has 156 bytes.\<close>

definition sys_desktop_draw :: "environment \<Rightarrow> u64 \<Rightarrow> u64 \<Rightarrow> kernel \<Rightarrow> outcome \<times> kernel" where
  "sys_desktop_draw env message len k =
     (if len = 0 \<or> len > 32 \<or> len > - 1 div 156 then (Return STATUS_INVALID, k)
      else let command_bytes = len * 156 in
        if \<not> user_range_valid (this_task k) message command_bytes then (Return STATUS_INVALID, k)
        else let commands = user_read k message (unat command_bytes) in
          (Return (if draw_accepted env commands then STATUS_OK else STATUS_INVALID),
           log_event (Desktop_Draw commands) k))"

definition sys_desktop_view :: "environment \<Rightarrow> u64 \<Rightarrow> kernel \<Rightarrow> outcome \<times> kernel" where
  "sys_desktop_view env message k =
     (if message > 1 then (Return STATUS_INVALID, k)
      else (Return (if view_accepted env (ucast message) then STATUS_OK else STATUS_STATE),
            log_event (Desktop_View (ucast message)) k))"

definition sys_desktop_present :: "environment \<Rightarrow> kernel \<Rightarrow> outcome \<times> kernel" where
  "sys_desktop_present env k =
     (Return (if present_accepted env then STATUS_OK else STATUS_STATE), log_event Desktop_Present k)"

section \<open>Files\<close>

text \<open>The copy loops that end a read or a listing with a built-in text.\<close>

definition clip_text :: "u64 \<Rightarrow> byte list \<Rightarrow> byte list" where
  "clip_text len text = take (unat len - 1) text"

definition sys_fs_read :: "u64 \<Rightarrow> u64 \<Rightarrow> u64 \<Rightarrow> kernel \<Rightarrow> outcome \<times> kernel" where
  "sys_fs_read message payload len k =
     (if payload = 0 \<or> len = 0 \<or> len > MAX_BUFFER then (Return STATUS_INVALID, k)
      else if \<not> user_range_valid (this_task k) message 96 \<or>
        \<not> filesystem_path_valid (boot_mount k) (path_at k message) \<or>
        \<not> user_range_valid (this_task k) payload len then (Return STATUS_INVALID, k)
      else case mt_provider (boot_mount k) of None \<Rightarrow> (Return STATUS_STATE, k)
      | Some provider \<Rightarrow>
         (let (read_result, stored) = provider_read provider (path_at k message) (ucast len) (mach k);
              k1 = user_write payload stored k
          in if read_result \<ge> 0 then (Return read_result, k1)
             else case quanta_ramfs_read (path_at k1 message) of None \<Rightarrow> (Return STATUS_INVALID, k1)
             | Some contents \<Rightarrow>
                (let text = clip_text len contents
                 in (Return (int (length text)), user_write payload (text @ [0]) k1))))"

definition sys_fs_list :: "u64 \<Rightarrow> u64 \<Rightarrow> u64 \<Rightarrow> kernel \<Rightarrow> outcome \<times> kernel" where
  "sys_fs_list message payload len k =
     (if payload = 0 \<or> len = 0 \<or> len > MAX_BUFFER then (Return STATUS_INVALID, k)
      else if \<not> user_range_valid (this_task k) message 96 \<or>
        \<not> filesystem_path_valid (boot_mount k) (path_at k message) \<or>
        mt_provider (boot_mount k) = None \<or>
        \<not> user_range_valid (this_task k) payload len then (Return STATUS_INVALID, k)
      else
       (let (read_result, stored) = provider_list (the (mt_provider (boot_mount k)))
              (path_at k message) (ucast len) (mach k);
            k1 = user_write payload stored k
        in if read_result \<ge> 0 then (Return read_result, k1)
           else case quanta_ramfs_list (path_at k1 message) of None \<Rightarrow> (Return STATUS_INVALID, k1)
           | Some listing \<Rightarrow>
              (let text = clip_text len listing
               in (Return (int (length text)), user_write payload (text @ [0]) k1))))"

definition stat_bytes :: "quanta_file_stat \<Rightarrow> byte list" where
  "stat_bytes st = le64 (st_inode st) @ le64 (st_size st) @ le64 (st_blocks st) @ le32 (st_mode st)
     @ le32 (st_uid st) @ le32 (st_gid st) @ le32 (st_type st) @ le64 (st_generation st)"

definition sys_fs_stat :: "u64 \<Rightarrow> u64 \<Rightarrow> u64 \<Rightarrow> kernel \<Rightarrow> outcome \<times> kernel" where
  "sys_fs_stat message payload len k =
     (if payload = 0 \<or> len < 48 \<or>
        \<not> user_range_valid (this_task k) message 96 \<or>
        \<not> filesystem_path_valid (boot_mount k) (path_at k message) \<or>
        mt_provider (boot_mount k) = None \<or>
        \<not> user_range_valid (this_task k) payload 48 then (Return STATUS_INVALID, k)
      else case provider_stat (the (mt_provider (boot_mount k))) (path_at k message) (mach k) of
          None \<Rightarrow> (Return STATUS_INVALID, k)
        | Some st \<Rightarrow> (Return STATUS_OK, user_write payload (stat_bytes st) k))"

definition sys_fs_mkdir :: "u64 \<Rightarrow> kernel \<Rightarrow> outcome \<times> kernel" where
  "sys_fs_mkdir message k =
     (if mt_flags (boot_mount k) AND QUANTA_MOUNT_READ_ONLY \<noteq> 0 \<or>
        \<not> user_range_valid (this_task k) message 96 \<or>
        \<not> filesystem_path_valid (boot_mount k) (path_at k message) then (Return STATUS_DENIED, k)
      else if mt_kind (boot_mount k) \<noteq> FILESYSTEM_QFS2 then (Return STATUS_STATE, k)
      else (case quanta_qfs2_mkdir (path_at k message) (mach k) of
          (False, m) \<Rightarrow> (Return STATUS_STATE, log_marker ''QUANTA_MKDIR_FAILED'' (k\<lparr>mach := m\<rparr>))
        | (True, m) \<Rightarrow> (Return STATUS_OK, log_marker ''QUANTA_MKDIR_READY'' (k\<lparr>mach := m\<rparr>))))"

definition OPEN_CREATE :: u64 where "OPEN_CREATE = 4"
definition OPEN_DIRECTORY :: u64 where "OPEN_DIRECTORY = 16"

text \<open>
  The file behind a path to be opened, created on demand; the machine may have changed
  even if the result is \<open>None\<close>, the return of an error.
\<close>

definition open_stat :: "fs_provider \<Rightarrow> u64 \<Rightarrow> byte list \<Rightarrow> quanta_mount \<Rightarrow> machine \<Rightarrow>
    quanta_file_stat option \<times> machine" where
  "open_stat provider len path mt m =
     (case provider_stat provider path m of
        Some st \<Rightarrow> (Some st, m)
      | None \<Rightarrow>
          if len AND OPEN_CREATE = 0 \<or> mt_kind mt \<noteq> FILESYSTEM_QFS2 \<or>
             mt_flags mt AND QUANTA_MOUNT_READ_ONLY \<noteq> 0 \<or> len AND OPEN_DIRECTORY \<noteq> 0
          then (None, m)
          else (case quanta_qfs2_create path m of
              (False, m1) \<Rightarrow> (None, m1)
            | (True, m1) \<Rightarrow> (provider_stat provider path m1, m1)))"

fun free_file_slot :: "task_file list \<Rightarrow> nat" where
  "free_file_slot [] = 0"
| "free_file_slot (f # fs) = (if \<not> file_active f then 0 else Suc (free_file_slot fs))"

definition sys_fs_open :: "u64 \<Rightarrow> u64 \<Rightarrow> u64 \<Rightarrow> kernel \<Rightarrow> outcome \<times> kernel" where
  "sys_fs_open message payload len k =
     (if payload = 0 \<or>
        \<not> user_range_valid (this_task k) message 96 \<or>
        \<not> filesystem_path_valid (boot_mount k) (path_at k message) \<or>
        mt_provider (boot_mount k) = None \<or>
        \<not> user_range_valid (this_task k) payload 8 \<or>
        len AND NOT 0x1f \<noteq> 0 then (Return STATUS_INVALID, k)
      else (case open_stat (the (mt_provider (boot_mount k))) len (path_at k message) (boot_mount k) (mach k) of
        (None, m) \<Rightarrow> (Return STATUS_INVALID, k\<lparr>mach := m\<rparr>)
      | (Some st, m) \<Rightarrow>
         (let k1 = k\<lparr>mach := m\<rparr>; slot = free_file_slot (files (this_task k1)) in
          if len AND OPEN_DIRECTORY \<noteq> 0 \<and> st_type st \<noteq> QUANTA_FILE_DIRECTORY then (Return STATUS_INVALID, k1)
          else if slot = 16 then (Return STATUS_LIMIT, k1)
          else let (copied, path) = copy_path (path_at k1 message) in
            if \<not> copied then
              (Return STATUS_INVALID, set_this ((this_task k1)\<lparr>files :=
                 (files (this_task k1))[slot := (files (this_task k1) ! slot)\<lparr>file_path := path\<rparr>]\<rparr>) k1)
            else
              (let file = \<lparr>file_active = True, file_flags = ucast len, file_offset = 0, file_path = path\<rparr>;
                   k2 = set_this ((this_task k1)\<lparr>files := (files (this_task k1))[slot := file]\<rparr>) k1
               in (Return STATUS_OK, user_write payload (le64 (of_nat slot + 1)) k2)))))"

definition sys_fs_close :: "u64 \<Rightarrow> kernel \<Rightarrow> outcome \<times> kernel" where
  "sys_fs_close message k =
     (case file_for_handle (this_task k) message of None \<Rightarrow> (Return STATUS_INVALID, k)
      | Some slot \<Rightarrow>
          (Return STATUS_OK, set_this ((this_task k)\<lparr>files := (files (this_task k))[slot :=
             \<lparr>file_active = False, file_flags = 0, file_offset = 0, file_path = [0]\<rparr>]\<rparr>) k))"

definition sys_fs_read_handle :: "u64 \<Rightarrow> u64 \<Rightarrow> u64 \<Rightarrow> kernel \<Rightarrow> outcome \<times> kernel" where
  "sys_fs_read_handle message payload len k =
     (case file_for_handle (this_task k) message of None \<Rightarrow> (Return STATUS_INVALID, k)
      | Some slot \<Rightarrow>
          if payload = 0 \<or> len = 0 \<or> len > MAX_BUFFER \<or> \<not> user_range_valid (this_task k) payload len
          then (Return STATUS_INVALID, k)
          else
           (let file = files (this_task k) ! slot;
                (result, contents) = provider_read (the (mt_provider (boot_mount k))) (file_path file) 256 (mach k)
            in if result < 0 \<or> unat (file_offset file) \<ge> nat result then (Return 0, k)
               else
                (let available = min (nat result - unat (file_offset file)) (unat len);
                     k1 = user_write payload (take available (drop (unat (file_offset file)) contents)) k;
                     k2 = set_this ((this_task k1)\<lparr>files := (files (this_task k1))[slot :=
                       file\<lparr>file_offset := file_offset file + of_nat available\<rparr>]\<rparr>) k1
                 in (Return (int available), k2))))"

section \<open>Clock, account, system\<close>

definition sys_shutdown :: "kernel \<Rightarrow> outcome \<times> kernel" where
  "sys_shutdown k = (Halt, log_marker ''QUANTA_SHUTDOWN'' k)"

definition sys_rtc_read :: "environment \<Rightarrow> u64 \<Rightarrow> u64 \<Rightarrow> kernel \<Rightarrow> outcome \<times> kernel" where
  "sys_rtc_read env payload len k =
     (if payload = 0 \<or> len < 6 then (Return STATUS_INVALID, log_marker ''QUANTA_RTC_INVALID_ARGS'' k)
      else if \<not> user_range_valid (this_task k) payload 6
      then (Return STATUS_INVALID, log_marker ''QUANTA_RTC_INVALID_RANGE'' k)
      else (Return STATUS_OK, log_marker ''QUANTA_RTC_DONE''
             (user_write payload (take 6 (clock env)) (log_marker ''QUANTA_RTC_READY'' k))))"

definition sys_auth_verify :: "u64 \<Rightarrow> u64 \<Rightarrow> u64 \<Rightarrow> kernel \<Rightarrow> outcome \<times> kernel" where
  "sys_auth_verify message payload len k =
     (if len > 64 \<or> payload = 0 \<or> (len \<noteq> 0 \<and> \<not> user_range_valid (this_task k) message len) \<or>
        \<not> user_range_valid (this_task k) payload 4 then (Return STATUS_INVALID, k)
      else
       (let password = user_read k message (unat len) @ [0];
            (accepted, flag) = quanta_account_verify password len (mach k)
        in if \<not> accepted then (Return STATUS_DENIED, k)
           else (Return STATUS_OK,
             let k1 = user_write payload (le32 (case flag of None \<Rightarrow> 0 | Some f \<Rightarrow> f)) k
             in set_this ((this_task k1)\<lparr>authenticated := True\<rparr>) k1)))"

definition sys_auth_change :: "u64 \<Rightarrow> u64 \<Rightarrow> kernel \<Rightarrow> outcome \<times> kernel" where
  "sys_auth_change message len k =
     (if \<not> authenticated (this_task k) \<or> len = 0 \<or> len > 64 \<or>
        \<not> user_range_valid (this_task k) message len then (Return STATUS_DENIED, k)
      else
       (let password = user_read k message (unat len) @ [0];
            (changed, m) = quanta_account_change password len (mach k)
        in (Return (if changed then STATUS_OK else STATUS_STATE), k\<lparr>mach := m\<rparr>)))"

definition system_info_bytes :: "environment \<Rightarrow> quanta_mount \<Rightarrow> byte list" where
  "system_info_bytes env m = le64 (mt_size_bytes m)
     @ le32 (if mt_flags m AND QUANTA_MOUNT_READ_ONLY \<noteq> 0 then 1 else 0) @ le32 (mt_kind m)
     @ le32 (fst (display_size env)) @ le32 (snd (display_size env))"

definition sys_system_info :: "environment \<Rightarrow> u64 \<Rightarrow> u64 \<Rightarrow> kernel \<Rightarrow> outcome \<times> kernel" where
  "sys_system_info env payload len k =
     (let k1 = k\<lparr>boot_mount := quanta_vfs_boot_mount (mach k) (boot_mount k)\<rparr> in
      if len < 24 \<or> \<not> user_range_valid (this_task k1) payload 24 then (Return STATUS_INVALID, k1)
      else (Return STATUS_OK, user_write payload (system_info_bytes env (boot_mount k1)) k1))"

definition STORAGE_LIVE :: u32 where "STORAGE_LIVE = 1"
definition STORAGE_READ_ONLY :: u32 where "STORAGE_READ_ONLY = 2"

definition storage_flags :: "device \<Rightarrow> machine \<Rightarrow> u32" where
  "storage_flags device m =
     (if quanta_storage_boot_device m = Some device \<and> device_name device ! 0 = of_char CHR ''l''
      then STORAGE_LIVE OR STORAGE_READ_ONLY
      else if device_write device = None then STORAGE_READ_ONLY else 0)"

text \<open>
  One packed \<^verbatim>\<open>quanta_storage_info\<close> of 20 bytes at \<open>base\<close>: at most seven characters of the
  name with their terminator, the flags, the sector count.
\<close>

definition write_storage_info :: "u64 \<Rightarrow> device \<Rightarrow> kernel \<Rightarrow> kernel" where
  "write_storage_info base device k =
     (let k1 = user_write base (take 7 (cstr (device_name device)) @ [0]) k;
          k2 = user_write (base + 8) (le32 (storage_flags device (mach k1))) k1
      in user_write (base + 12) (le64 (sector_count (mach k2) device)) k2)"

fun storage_items :: "u64 \<Rightarrow> nat list \<Rightarrow> kernel \<Rightarrow> bool \<times> kernel" where
  "storage_items payload [] k = (True, k)"
| "storage_items payload (item # rest) k =
     (case quanta_storage_device_at (of_nat item) (mach k) of
        (None, m) \<Rightarrow> (False, k\<lparr>mach := m\<rparr>)
      | (Some device, m) \<Rightarrow>
          storage_items payload rest
            (write_storage_info (payload + 20 * of_nat item) device (k\<lparr>mach := m\<rparr>)))"

definition sys_storage_list :: "u64 \<Rightarrow> u64 \<Rightarrow> kernel \<Rightarrow> outcome \<times> kernel" where
  "sys_storage_list payload len k =
     (let capacity0 = len div 20;
          (count, m) = quanta_storage_device_count (mach k);
          k1 = k\<lparr>mach := m\<rparr>
      in if payload = 0 \<or> len < 20 \<or> \<not> user_range_valid (this_task k1) payload len
         then (Return STATUS_INVALID, k1)
         else
          (let capacity = (if capacity0 > ucast count then ucast count else capacity0);
               (complete, k2) = storage_items payload [0..<unat capacity] k1
           in (Return (if complete then int (unat capacity) else STATUS_STATE), k2)))"

definition sys_session_logout :: "kernel \<Rightarrow> outcome \<times> kernel" where
  "sys_session_logout k =
     (Return STATUS_OK, log_marker ''QUANTA_SESSION_LOGOUT''
        (set_this ((this_task k)\<lparr>authenticated := False\<rparr>) k))"

section \<open>Messages\<close>

text \<open>Fields of the packed message of 56 bytes.\<close>

definition ipc_version :: "byte list \<Rightarrow> u16" where "ipc_version b = u16_at b 0"
definition ipc_service :: "byte list \<Rightarrow> u16" where "ipc_service b = u16_at b 2"
definition ipc_correlation :: "byte list \<Rightarrow> u64" where "ipc_correlation b = u64_at b 8"
definition ipc_payload_length :: "byte list \<Rightarrow> u32" where "ipc_payload_length b = u32_at b 16"
definition ipc_capability_count :: "byte list \<Rightarrow> u16" where "ipc_capability_count b = u16_at b 20"
definition ipc_flags :: "byte list \<Rightarrow> u16" where "ipc_flags b = u16_at b 22"

definition ipc_message_valid :: "byte list \<Rightarrow> u64 \<Rightarrow> bool" where
  "ipc_message_valid message len \<longleftrightarrow> ipc_version message = 1 \<and>
     ucast (ipc_payload_length message) = len \<and>
     ipc_capability_count message = 0 \<and> ipc_flags message = 0"

definition replace_front :: "byte list \<Rightarrow> byte list \<Rightarrow> byte list" where
  "replace_front new old = new @ drop (length new) old"

definition sys_ipc_call :: "u64 \<Rightarrow> u64 \<Rightarrow> u64 \<Rightarrow> u64 \<Rightarrow> u64 \<Rightarrow> u64 \<Rightarrow> kernel \<Rightarrow> outcome \<times> kernel" where
  "sys_ipc_call handle message payload len ret_ip ret_flags k =
     (if current k \<noteq> 0 \<or> handle \<noteq> endpoint (this_task k) \<or>
        \<not> has_endpoint_capability (this_task k) handle RIGHT_SEND then (Return STATUS_DENIED, k)
      else if ipc_request_pending k \<or> \<not> user_range_valid (this_task k) message 56 \<or>
        (len \<noteq> 0 \<and> \<not> user_range_valid (this_task k) payload len) then (Return STATUS_INVALID, k)
      else let request = user_read k message 56 in
        if \<not> ipc_message_valid request len then (Return STATUS_INVALID, k)
        else
         (let k1 = k\<lparr>ipc_request := request, ipc_request_length := ucast len,
                ipc_request_payload := replace_front (user_read k payload (unat len)) (ipc_request_payload k),
                ipc_request_pending := True, ipc_request_received := False, ipc_reply_length := 0\<rparr>
          in run 1 (set_this ((this_task k1)\<lparr>return_ip := ret_ip, return_flags := ret_flags,
                state := TASK_WAIT_REPLY\<rparr>) k1)))"

definition sys_ipc_receive :: "u64 \<Rightarrow> u64 \<Rightarrow> u64 \<Rightarrow> u64 \<Rightarrow> kernel \<Rightarrow> outcome \<times> kernel" where
  "sys_ipc_receive handle message payload len k =
     (if current k \<noteq> 1 \<or> handle \<noteq> endpoint (this_task k) \<or>
        \<not> has_endpoint_capability (this_task k) handle RIGHT_RECEIVE \<or>
        state (tasks k 0) \<noteq> TASK_WAIT_REPLY \<or> \<not> ipc_request_pending k \<or> ipc_request_received k
      then (Return STATUS_STATE, k)
      else if len < ucast (ipc_request_length k) \<or> len > IPC_MAX_PAYLOAD \<or>
        \<not> user_range_valid (this_task k) message 56 \<or>
        (ipc_request_length k \<noteq> 0 \<and>
           \<not> user_range_valid (this_task k) payload (ucast (ipc_request_length k)))
      then (Return STATUS_INVALID, k)
      else
       (let k1 = user_write message (ipc_request k) k;
            k2 = user_write payload (take (unat (ipc_request_length k1)) (ipc_request_payload k1)) k1
        in (Return STATUS_OK, log_marker ''QUANTA_IPC_SERVER_RECEIVED'' (k2\<lparr>ipc_request_received := True\<rparr>))))"

definition sys_ipc_reply :: "u64 \<Rightarrow> u64 \<Rightarrow> u64 \<Rightarrow> u64 \<Rightarrow> kernel \<Rightarrow> outcome \<times> kernel" where
  "sys_ipc_reply handle message payload len k =
     (if current k \<noteq> 1 \<or> handle \<noteq> endpoint (this_task k) \<or>
        \<not> has_endpoint_capability (this_task k) handle RIGHT_SEND \<or>
        state (tasks k 0) \<noteq> TASK_WAIT_REPLY \<or> \<not> ipc_request_pending k \<or> \<not> ipc_request_received k
      then (Return STATUS_STATE, k)
      else if \<not> user_range_valid (this_task k) message 56 \<or>
        (len \<noteq> 0 \<and> \<not> user_range_valid (this_task k) payload len) then (Return STATUS_INVALID, k)
      else let response = user_read k message 56 in
        if \<not> ipc_message_valid response len \<or> ipc_service response \<noteq> ipc_service (ipc_request k) \<or>
           ipc_correlation response \<noteq> ipc_correlation (ipc_request k) then (Return STATUS_INVALID, k)
        else
         (let k1 = k\<lparr>ipc_reply := response, ipc_reply_length := ucast len,
                ipc_reply_payload := replace_front (user_read k payload (unat len)) (ipc_reply_payload k),
                ipc_request_pending := False\<rparr>;
              k2 = set_task 0 ((tasks k1 0)\<lparr>ip := return_ip (tasks k1 0), state := TASK_DONE\<rparr>) k1
          in run 2 (log_marker ''QUANTA_FAULT_TASK_STARTED''
               (log_marker ''QUANTA_IPC_ROUNDTRIP_READY'' k2))))"

definition sys_task_exit :: "kernel \<Rightarrow> outcome \<times> kernel" where
  "sys_task_exit k =
     (let k1 = set_this ((this_task k)\<lparr>state := TASK_DONE\<rparr>) k in
      if current k = 0 then run 2 (log_marker ''QUANTA_FAULT_TASK_STARTED'' k1) else (Halt, k1))"

section \<open>The dispatcher\<close>

text \<open>
  The branches behind \<^verbatim>\<open>current == 0 && has_namespace_capability\<close>, as a table from the
  number of the call to its branch; \<open>None\<close> falls through to the tests below them.
\<close>

definition namespace_call :: "environment \<Rightarrow> u64 \<Rightarrow> u64 \<Rightarrow> u64 \<Rightarrow> u64 \<Rightarrow> kernel \<Rightarrow> (outcome \<times> kernel) option" where
  "namespace_call env number message payload len k = map_of
     [(SYSCALL_CONSOLE_WRITE, sys_console_write message len k),
      (SYSCALL_CONSOLE_READ, sys_console_read env k),
      (SYSCALL_CONSOLE_CLEAR, sys_console_clear k),
      (SYSCALL_DESKTOP_DRAW, sys_desktop_draw env message len k),
      (SYSCALL_DESKTOP_VIEW, sys_desktop_view env message k),
      (SYSCALL_DESKTOP_PRESENT, sys_desktop_present env k),
      (SYSCALL_FS_READ, sys_fs_read message payload len k),
      (SYSCALL_FS_OPEN, sys_fs_open message payload len k),
      (SYSCALL_FS_CLOSE, sys_fs_close message k),
      (SYSCALL_FS_READ_HANDLE, sys_fs_read_handle message payload len k),
      (SYSCALL_FS_LIST, sys_fs_list message payload len k),
      (SYSCALL_FS_STAT, sys_fs_stat message payload len k),
      (SYSCALL_FS_MKDIR, sys_fs_mkdir message k),
      (SYSCALL_SHUTDOWN, sys_shutdown k),
      (SYSCALL_RTC_READ, sys_rtc_read env payload len k),
      (SYSCALL_AUTH_VERIFY, sys_auth_verify message payload len k),
      (SYSCALL_AUTH_CHANGE, sys_auth_change message len k),
      (SYSCALL_SYSTEM_INFO, sys_system_info env payload len k),
      (SYSCALL_STORAGE_LIST, sys_storage_list payload len k),
      (SYSCALL_SESSION_LOGOUT, sys_session_logout k)] number"

text \<open>What precedes the tests: the marker of the clock call and the lookup of the mount.\<close>

definition enter_call :: "u64 \<Rightarrow> kernel \<Rightarrow> kernel" where
  "enter_call number k0 =
     (let k1 = (if number = SYSCALL_RTC_READ then log_marker ''QUANTA_RTC_ENTER'' k0 else k0)
      in k1\<lparr>boot_mount := quanta_vfs_boot_mount (mach k1) (boot_mount k1)\<rparr>)"

definition dispatch :: "environment \<Rightarrow> u64 \<Rightarrow> u64 \<Rightarrow> u64 \<Rightarrow> u64 \<Rightarrow> u64 \<Rightarrow> u64 \<Rightarrow> u64 \<Rightarrow>
    kernel \<Rightarrow> outcome \<times> kernel" where
  "dispatch env number handle message payload len ret_ip ret_flags k =
     (if number \<in> {SYSCALL_IPC_CALL, SYSCALL_IPC_RECEIVE, SYSCALL_IPC_REPLY} \<and> len > IPC_MAX_PAYLOAD then (Return STATUS_LIMIT, k)
      else if len > MAX_BUFFER then (Return STATUS_LIMIT, k)
      else case (if current k = 0 \<and> has_namespace_capability (this_task k) handle
                 then namespace_call env number message payload len k else None) of
          Some result \<Rightarrow> result
        | None \<Rightarrow>
            if number = SYSCALL_IPC_CALL then sys_ipc_call handle message payload len ret_ip ret_flags k
            else if number = SYSCALL_IPC_RECEIVE then sys_ipc_receive handle message payload len k
            else if number = SYSCALL_IPC_REPLY then sys_ipc_reply handle message payload len k
            else if number = SYSCALL_TASK_EXIT then sys_task_exit k
            else (Return (if number = SYSCALL_YIELD then STATUS_OK else STATUS_INVALID), k))"

definition quanta_task_syscall :: "environment \<Rightarrow> u64 \<Rightarrow> u64 \<Rightarrow> u64 \<Rightarrow> u64 \<Rightarrow> u64 \<Rightarrow> u64 \<Rightarrow> u64 \<Rightarrow>
    kernel \<Rightarrow> outcome \<times> kernel" where
  "quanta_task_syscall env number handle message payload len ret_ip ret_flags k =
     dispatch env number handle message payload len ret_ip ret_flags (enter_call number k)"

end
