(* ===== verification/Syscall_Safety.thy ===== *)
theory Syscall_Safety
  imports Syscall
begin

text \<open>
  What no system call can do.  A call writes user memory only for the calling task and only
  inside the ranges that \<^verbatim>\<open>user_range_valid\<close> accepts, no call changes a task's capabilities, and
  a task is authenticated only by \<^verbatim>\<open>AUTH_VERIFY\<close>.  Each branch of the dispatcher has its own lemma
  (collections \<open>confined_calls\<close> and \<open>quiet_calls\<close>); the whole call, the step relation of
  the system after its boot and its runs follow from them.
\<close>

unbundle bit_operations_syntax

section \<open>Ranges of user memory\<close>

text \<open>The bytes a task may hand to the kernel: its stack pages and its code pages.\<close>

definition in_user_range :: "quanta_task \<Rightarrow> u64 \<Rightarrow> bool" where
  "in_user_range task a \<longleftrightarrow> USER_STACK_BASE \<le> a \<and> a < USER_STACK_END \<or>
     USER_CODE_BASE \<le> a \<and> a < USER_CODE_BASE + ucast (code_page_count task) * 0x1000"

lemma user_range_valid_sound:
  assumes "user_range_valid task address len" and "i < unat len"
  shows "in_user_range task (address + of_nat i)"
    and "unat (address + of_nat i) = unat address + i"
proof -
  have len: "len \<noteq> 0" using assms(2) by auto
  have fits: "address \<le> - 1 - len"
    using assms(1) len by (auto simp: user_range_valid_def Let_def split: if_splits)
  have "unat (- 1 - len) = 2 ^ 64 - 1 - unat len"
    using unat_sub [of len "- 1"] by (simp add: unsigned_minus_1_eq_mask mask_eq_exp_minus_1)
  then have sum: "unat address + unat len < 2 ^ 64"
    using fits unat_less_pow [of len] by (simp add: word_le_nat_alt)
  have finish: "unat (address + len) = unat address + unat len"
    using sum by (simp add: unat_word_ariths)
  have "unat (of_nat i :: u64) = i"
    using assms(2) unat_less_pow [of len] by (simp add: unat_of_nat)
  then show a: "unat (address + of_nat i) = unat address + i"
    using sum assms(2) by (simp add: unat_word_ariths)
  have lo: "address \<le> address + of_nat i" using a by (simp add: word_le_nat_alt)
  have hi: "address + of_nat i < address + len"
    using a finish assms(2) by (simp add: word_less_nat_alt)
  show "in_user_range task (address + of_nat i)"
    using assms(1) len lo hi fits
    by (auto simp: user_range_valid_def in_user_range_def Let_def split: if_splits)
qed

lemma store_bytes_apply:
  "store_bytes address bs m a \<noteq> m a \<Longrightarrow> \<exists>i<length bs. a = address + of_nat i"
proof (induction bs arbitrary: address m)
  case (Cons b bs)
  show ?case
  proof (cases "store_bytes (address + 1) bs (m(address := b)) a = (m(address := b)) a")
    case True
    then have "a = address" using Cons.prems by (auto split: if_splits)
    then show ?thesis by (intro exI [of _ 0]) simp
  next
    case False
    then obtain i where "i < length bs" "a = address + 1 + of_nat i" using Cons.IH by blast
    then show ?thesis by (intro exI [of _ "Suc i"]) (simp add: ac_simps)
  qed
qed simp

text \<open>User memory changes only for the current task and only inside its ranges.\<close>

definition writes_only :: "kernel \<Rightarrow> kernel \<Rightarrow> bool" where
  "writes_only k k' \<longleftrightarrow> (\<forall>t a. user_memory k' t a \<noteq> user_memory k t a \<longrightarrow>
     t = current k \<and> in_user_range (tasks k t) a)"

text \<open>What no system call changes: the ranges, the capabilities and the endpoint of a task.\<close>

definition authority :: "quanta_task \<Rightarrow> u32 \<times> task_capability list \<times> u64" where
  "authority task = (code_page_count task, capabilities task, endpoint task)"

definition confined :: "kernel \<Rightarrow> kernel \<Rightarrow> bool" where
  "confined k k' \<longleftrightarrow> writes_only k k' \<and> (\<forall>t. authority (tasks k' t) = authority (tasks k t))"

lemma confined_refl [simp]: "confined k k"
  by (simp add: confined_def writes_only_def)

lemma in_user_range_cong: "authority t' = authority t \<Longrightarrow> in_user_range t' a = in_user_range t a"
  by (simp add: authority_def in_user_range_def)

lemma confined_trans: "confined k k1 \<Longrightarrow> current k1 = current k \<Longrightarrow> confined k1 k2 \<Longrightarrow> confined k k2"
  unfolding confined_def writes_only_def by (metis in_user_range_cong)

lemma user_write_same [simp]:
  "tasks (user_write p bs k) = tasks k" "current (user_write p bs k) = current k"
  "mach (user_write p bs k) = mach k" "boot_mount (user_write p bs k) = boot_mount k"
  "events (user_write p bs k) = events k" "phys (user_write p bs k) = phys k"
  by (simp_all add: user_write_def)

lemma user_write_confined:
  assumes "user_range_valid (this_task k) base len" "off + length bs \<le> unat len"
  shows "confined k (user_write (base + of_nat off) bs k)"
proof -
  have "in_user_range (tasks k (current k)) a"
    if diff: "store_bytes (base + of_nat off) bs (user_memory k (current k)) a \<noteq> user_memory k (current k) a" for a
  proof -
    obtain i where i: "i < length bs" "a = base + of_nat off + of_nat i" using store_bytes_apply [OF diff] by blast
    have "off + i < unat len" using i(1) assms(2) by simp
    from user_range_valid_sound(1) [OF assms(1) this] show ?thesis using i(2) by (simp add: ac_simps)
  qed
  then show ?thesis by (auto simp: confined_def writes_only_def user_write_def)
qed

lemmas user_write_at = user_write_confined [where off = 0, simplified]

lemma set_this_confined:
  "authority task = authority (this_task k) \<Longrightarrow> confined k (set_this task k)"
  by (auto simp: confined_def writes_only_def set_task_def)

lemma set_task_same [simp]:
  "user_memory (set_task t task k) = user_memory k" "current (set_task t task k) = current k"
  "mach (set_task t task k) = mach k" "boot_mount (set_task t task k) = boot_mount k"
  "events (set_task t task k) = events k" "tasks (set_task t task k) = (tasks k)(t := task)"
  "phys (set_task t task k) = phys k"
  by (simp_all add: set_task_def)

lemma log_same [simp]:
  "user_memory (log_marker m k) = user_memory k" "current (log_marker m k) = current k"
  "tasks (log_marker m k) = tasks k" "boot_mount (log_marker m k) = boot_mount k"
  "user_memory (log_event e k) = user_memory k" "current (log_event e k) = current k"
  "tasks (log_event e k) = tasks k" "boot_mount (log_event e k) = boot_mount k"
  "events (log_marker m k) = events k" "phys (log_marker m k) = phys k"
  "mach (log_event e k) = mach k"
  by (simp_all add: log_marker_def log_event_def)

lemma confined_cong:
  "user_memory k2 = user_memory k1 \<Longrightarrow> tasks k2 = tasks k1 \<Longrightarrow> confined k k1 \<Longrightarrow> confined k k2"
  by (simp add: confined_def writes_only_def)

lemma confined_log [simp]:
  "confined k (log_marker m k1) = confined k k1" "confined k (log_event e k1) = confined k k1"
  "confined k (k1\<lparr>mach := x\<rparr>) = confined k k1" "confined k (k1\<lparr>boot_mount := y\<rparr>) = confined k k1"
  by (auto simp: confined_def writes_only_def)

lemma confined_log_left [simp]:
  "confined (log_marker m k) k1 = confined k k1"
  "confined (k\<lparr>mach := x\<rparr>) k1 = confined k k1" "confined (k\<lparr>boot_mount := y\<rparr>) k1 = confined k k1"
  by (auto simp: confined_def writes_only_def)

named_theorems confined_calls "what each branch of the dispatcher leaves alone"

lemma authority_update [simp]:
  "authority (task\<lparr>files := f\<rparr>) = authority task" "authority (task\<lparr>authenticated := b\<rparr>) = authority task"
  "authority (task\<lparr>state := s\<rparr>) = authority task" "authority (task\<lparr>return_ip := i, return_flags := g, state := s\<rparr>) = authority task"
  "authority (task\<lparr>ip := i\<rparr>) = authority task"
  "authority (task\<lparr>return_ip := i, return_flags := g\<rparr>) = authority task"
  by (simp_all add: authority_def)

lemma console_confined [confined_calls]:
  "confined k (snd (sys_console_write message len k))" "confined k (snd (sys_console_read env k))"
  "confined k (snd (sys_console_clear k))" "confined k (snd (sys_desktop_draw env message len k))"
  "confined k (snd (sys_desktop_view env message k))" "confined k (snd (sys_desktop_present env k))"
  by (simp_all add: sys_console_write_def sys_console_read_def sys_console_clear_def
      sys_desktop_draw_def sys_desktop_view_def sys_desktop_present_def Let_def)

lemma ucast_len: "len \<le> MAX_BUFFER \<Longrightarrow> unat (ucast len :: u32) = unat len"
  by (simp add: MAX_BUFFER_def word_le_nat_alt unsigned_ucast_eq take_bit_nat_eq_self_iff)

lemma provider_fits:
  assumes "len \<le> MAX_BUFFER"
  shows "provider_read p path (ucast len) m = (r, stored) \<Longrightarrow> length stored \<le> unat len"
    and "provider_list p path (ucast len) m = (r, stored) \<Longrightarrow> length stored \<le> unat len"
  using provider_bounded [where p = p and path = path and capacity = "ucast len" and s = m]
  by (auto simp: ucast_len [OF assms])

lemma clip_text_fits: "len \<noteq> 0 \<Longrightarrow> length (clip_text len text @ [0]) \<le> unat len"
  using unat_gt_0 [of len] by (auto simp: clip_text_def)

lemma range_this_task:
  "user_range_valid (this_task (user_write p bs k)) = user_range_valid (this_task k)"
  by simp

text \<open>A provider's result, then perhaps a built-in text, in the same buffer.\<close>

lemma two_writes_confined:
  assumes "user_range_valid (this_task k) payload len" "length a \<le> unat len" "length b \<le> unat len"
  shows "confined k (user_write payload a k)"
    and "confined k (user_write payload b (user_write payload a k))"
proof -
  show a: "confined k (user_write payload a k)" by (rule user_write_at [OF assms(1,2)])
  have "confined (user_write payload a k) (user_write payload b (user_write payload a k))"
    by (rule user_write_at) (use assms(1,3) in simp_all)
  with a show "confined k (user_write payload b (user_write payload a k))"
    by (auto intro: confined_trans)
qed

lemma fs_read_confined [confined_calls]: "confined k (snd (sys_fs_read message payload len k))"
proof (cases "payload = 0 \<or> len = 0 \<or> len > MAX_BUFFER \<or> \<not> user_range_valid (this_task k) message 96 \<or>
    \<not> filesystem_path_valid (boot_mount k) (path_at k message) \<or> \<not> user_range_valid (this_task k) payload len
    \<or> mt_provider (boot_mount k) = None")
  case True
  then show ?thesis by (auto simp: sys_fs_read_def)
next
  case False
  then obtain p where p: "mt_provider (boot_mount k) = Some p" by blast
  obtain r stored where read: "provider_read p (path_at k message) (ucast len) (mach k) = (r, stored)" by fastforce
  have fits: "length stored \<le> unat len" using provider_fits(1) [OF _ read] False by (simp add: not_less)
  have valid: "user_range_valid (this_task k) payload len" and len: "len \<noteq> 0" using False by auto
  note writes = two_writes_confined [OF valid fits clip_text_fits [OF len]]
  show ?thesis
    using False writes by (auto simp: sys_fs_read_def p read Let_def split: option.splits)
qed

lemma fs_list_confined [confined_calls]: "confined k (snd (sys_fs_list message payload len k))"
proof (cases "payload = 0 \<or> len = 0 \<or> len > MAX_BUFFER \<or> \<not> user_range_valid (this_task k) message 96 \<or>
    \<not> filesystem_path_valid (boot_mount k) (path_at k message) \<or> mt_provider (boot_mount k) = None
    \<or> \<not> user_range_valid (this_task k) payload len")
  case True
  then show ?thesis by (auto simp: sys_fs_list_def)
next
  case False
  then obtain p where p: "mt_provider (boot_mount k) = Some p" by auto
  obtain r stored where read: "provider_list p (path_at k message) (ucast len) (mach k) = (r, stored)" by fastforce
  have fits: "length stored \<le> unat len" using provider_fits(2) [OF _ read] False by (simp add: not_less)
  have valid: "user_range_valid (this_task k) payload len" and len: "len \<noteq> 0" using False by auto
  note writes = two_writes_confined [OF valid fits clip_text_fits [OF len]]
  show ?thesis
    using False writes by (auto simp: sys_fs_list_def p read Let_def split: option.splits)
qed

lemma fs_stat_confined [confined_calls]: "confined k (snd (sys_fs_stat message payload len k))"
proof -
  have "confined k (user_write payload (stat_bytes st) k)" if "user_range_valid (this_task k) payload 48" for st
    by (rule user_write_at [OF that]) (simp add: stat_bytes_def)
  then show ?thesis by (auto simp: sys_fs_stat_def split: option.splits)
qed

lemma fs_mkdir_confined [confined_calls]: "confined k (snd (sys_fs_mkdir message k))"
  by (auto simp: sys_fs_mkdir_def split: prod.splits bool.splits)

lemma fs_close_confined [confined_calls]: "confined k (snd (sys_fs_close message k))"
  by (auto simp: sys_fs_close_def intro!: set_this_confined split: option.splits)

lemma mach_task_confined:
  assumes "authority task = authority (this_task k)"
  shows "confined k (set_task (current k) task (k\<lparr>mach := m\<rparr>))"
  using assms by (auto simp: confined_def writes_only_def set_task_def)

lemma fs_open_confined [confined_calls]: "confined k (snd (sys_fs_open message payload len k))"
proof (cases "payload = 0 \<or> \<not> user_range_valid (this_task k) message 96 \<or>
    \<not> filesystem_path_valid (boot_mount k) (path_at k message) \<or> mt_provider (boot_mount k) = None \<or>
    \<not> user_range_valid (this_task k) payload 8 \<or> len AND NOT 0x1f \<noteq> 0")
  case True
  then show ?thesis by (simp only: sys_fs_open_def if_True snd_conv confined_refl)
next
  case False
  then have valid: "user_range_valid (this_task k) payload 8" by simp
  obtain st m where stat: "open_stat (the (mt_provider (boot_mount k))) len (path_at k message) (boot_mount k) (mach k) = (st, m)"
    by fastforce
  have writes: "confined k (user_write payload (le64 v) (set_task (current k) task (k\<lparr>mach := m\<rparr>)))"
    if "authority task = authority (this_task k)" for v task
  proof -
    let ?k2 = "set_task (current k) task (k\<lparr>mach := m\<rparr>)"
    have "user_range_valid (this_task ?k2) payload 8"
      using valid that by (simp add: user_range_valid_def authority_def)
    then have "confined ?k2 (user_write payload (le64 v) ?k2)" by (rule user_write_at) simp
    moreover have "confined k ?k2" by (rule mach_task_confined [OF that])
    ultimately show ?thesis by (auto intro: confined_trans)
  qed
  show ?thesis
    using False stat writes mach_task_confined
    by (auto simp: sys_fs_open_def Let_def split: option.splits prod.splits)
qed

lemma fs_read_handle_confined [confined_calls]: "confined k (snd (sys_fs_read_handle message payload len k))"
proof (cases "file_for_handle (this_task k) message")
  case (Some slot)
  show ?thesis
  proof (cases "payload = 0 \<or> len = 0 \<or> len > MAX_BUFFER \<or> \<not> user_range_valid (this_task k) payload len")
    case True
    then show ?thesis by (auto simp: sys_fs_read_handle_def Some)
  next
    case False
    have writes: "confined k (set_task (current k) task (user_write payload bs k))"
      if "authority task = authority (this_task k)" "length bs \<le> unat len" for task bs
    proof -
      have "confined k (user_write payload bs k)" by (rule user_write_at) (use False that(2) in auto)
      moreover have "confined (user_write payload bs k) (set_task (current (user_write payload bs k)) task (user_write payload bs k))"
        by (rule set_this_confined) (use that(1) in simp)
      ultimately show ?thesis by (auto intro: confined_trans)
    qed
    show ?thesis
      using False by (auto simp: sys_fs_read_handle_def Some Let_def intro!: writes split: prod.splits)
  qed
qed (simp add: sys_fs_read_handle_def)

lemma misc_confined [confined_calls]:
  "confined k (snd (sys_shutdown k))" "confined k (snd (sys_session_logout k))"
  "confined k (snd (sys_auth_change message len k))"
  by (auto simp: sys_shutdown_def sys_session_logout_def sys_auth_change_def Let_def
      intro!: set_this_confined split: prod.splits)

lemma rtc_confined [confined_calls]: "confined k (snd (sys_rtc_read env payload len k))"
proof -
  have "confined (log_marker m k) (user_write payload (take 6 t) (log_marker m k))"
    if "user_range_valid (this_task k) payload 6" for m t
    by (rule user_write_at [where len = 6]) (use that in auto)
  then show ?thesis by (auto simp: sys_rtc_read_def)
qed

lemma auth_verify_confined [confined_calls]: "confined k (snd (sys_auth_verify message payload len k))"
proof -
  have writes: "confined k (set_task (current k) task (user_write payload (le32 v) k))"
    if "user_range_valid (this_task k) payload 4" "authority task = authority (this_task k)" for task v
  proof -
    have "confined k (user_write payload (le32 v) k)" by (rule user_write_at [OF that(1)]) simp
    moreover have "confined (user_write payload (le32 v) k)
        (set_task (current (user_write payload (le32 v) k)) task (user_write payload (le32 v) k))"
      by (rule set_this_confined) (use that(2) in simp)
    ultimately show ?thesis by (auto intro: confined_trans)
  qed
  show ?thesis
    by (auto simp: sys_auth_verify_def Let_def intro!: writes split: prod.splits)
qed

lemma system_info_confined [confined_calls]: "confined k (snd (sys_system_info env payload len k))"
proof -
  let ?k1 = "k\<lparr>boot_mount := quanta_vfs_boot_mount (mach k) (boot_mount k)\<rparr>"
  have "confined ?k1 (user_write payload (system_info_bytes env m) ?k1)"
    if "user_range_valid (this_task ?k1) payload 24" for m
    by (rule user_write_at [OF that]) (simp add: system_info_bytes_def)
  then show ?thesis by (auto simp: sys_system_info_def Let_def)
qed

lemma length_device_name: "length (device_name d) \<le> 5"
  by (cases d) (simp_all add: device_name_def str_def)

lemma write_storage_info_confined:
  assumes "user_range_valid (this_task k) payload len" "off + 20 \<le> unat len"
  shows "confined k (write_storage_info (payload + of_nat off) d k)"
proof -
  define k1 where "k1 = user_write (payload + of_nat off) (take 7 (cstr (device_name d)) @ [0]) k"
  define k2 where "k2 = user_write (payload + of_nat off + 8) (le32 (storage_flags d (mach k1))) k1"
  have "length (take 7 (cstr (device_name d)) @ [0]) \<le> 8" by simp
  then have 1: "confined k k1" unfolding k1_def using assms by (intro user_write_confined [OF assms(1)]) simp
  have "confined k1 (user_write (payload + of_nat (off + 8)) (le32 (storage_flags d (mach k1))) k1)"
    by (rule user_write_confined [where len = len]) (use assms in \<open>simp_all add: k1_def\<close>)
  then have 2: "confined k1 k2" by (simp add: k2_def ac_simps)
  have "confined k2 (user_write (payload + of_nat (off + 12)) (le64 (sector_count (mach k2) d)) k2)"
    by (rule user_write_confined [where len = len]) (use assms in \<open>simp_all add: k1_def k2_def\<close>)
  then have 3: "confined k2 (write_storage_info (payload + of_nat off) d k)"
    unfolding write_storage_info_def Let_def k1_def [symmetric] k2_def [symmetric] by (simp only: of_nat_add ac_simps of_nat_numeral)
  have "current k1 = current k" "current k2 = current k" by (simp_all add: k1_def k2_def)
  then show ?thesis using 1 2 3 by (auto intro: confined_trans)
qed

lemma write_storage_info_same [simp]:
  "tasks (write_storage_info b d k) = tasks k" "current (write_storage_info b d k) = current k"
  by (simp_all add: write_storage_info_def Let_def)

lemma storage_items_confined:
  assumes "\<forall>i\<in>set items. 20 * i + 20 \<le> unat len"
  shows "user_range_valid (this_task k) payload len \<Longrightarrow>
    confined k (snd (storage_items payload items k))"
  using assms
proof (induction items arbitrary: k)
  case (Cons i items)
  obtain dev m where dev: "quanta_storage_device_at (of_nat i) (mach k) = (dev, m)" by fastforce
  show ?case
  proof (cases dev)
    case (Some d)
    let ?k1 = "write_storage_info (payload + 20 * of_nat i) d (k\<lparr>mach := m\<rparr>)"
    have "confined (k\<lparr>mach := m\<rparr>) (write_storage_info (payload + of_nat (20 * i)) d (k\<lparr>mach := m\<rparr>))"
      by (rule write_storage_info_confined [where len = len]) (use Cons.prems in auto)
    then have 1: "confined k ?k1" by simp
    have "confined ?k1 (snd (storage_items payload items ?k1))"
      by (rule Cons.IH) (use Cons.prems in auto)
    with 1 have "confined k (snd (storage_items payload items ?k1))" by (auto intro: confined_trans)
    then show ?thesis by (simp add: dev Some)
  qed (simp add: dev)
qed simp

lemma storage_list_confined [confined_calls]: "confined k (snd (sys_storage_list payload len k))"
proof -
  obtain count m where count: "quanta_storage_device_count (mach k) = (count, m)" by fastforce
  define cap where "cap = (if len div 20 > ucast count then ucast count else len div 20)"
  show ?thesis
  proof (cases "payload = 0 \<or> len < 20 \<or> \<not> user_range_valid (this_task k) payload len")
    case True
    then show ?thesis by (auto simp: sys_storage_list_def count Let_def)
  next
    case False
    have "cap \<le> len div 20" by (auto simp: cap_def)
    then have "unat cap \<le> unat len div 20" by (simp add: word_le_nat_alt unat_div)
    then have "unat cap * 20 \<le> unat len" by (simp add: less_eq_div_iff_mult_less_eq)
    then have "\<forall>i\<in>set [0..<unat cap]. 20 * i + 20 \<le> unat len" by auto
    then have "confined (k\<lparr>mach := m\<rparr>) (snd (storage_items payload [0..<unat cap] (k\<lparr>mach := m\<rparr>)))"
      by (rule storage_items_confined) (use False in simp)
    then show ?thesis using False
      by (auto simp: sys_storage_list_def count Let_def cap_def [symmetric] split: prod.split)
  qed
qed

lemma run_confined [simp]: "confined k (snd (run n k1)) = confined k k1"
  by (simp add: run_def confined_def writes_only_def)

lemma ipc_call_confined [confined_calls]:
  "confined k (snd (sys_ipc_call handle message payload len i f k))"
  by (auto simp: sys_ipc_call_def Let_def confined_def writes_only_def run_def set_task_def)

text \<open>The kernel's copy of the message has the size of the structure.\<close>

definition ipc_buffers_ok :: "kernel \<Rightarrow> bool" where
  "ipc_buffers_ok k \<longleftrightarrow> length (ipc_request k) = 56 \<and> length (ipc_request_payload k) = 64"

lemma user_write_Nil [simp]: "user_write p [] k = k"
  by (simp add: user_write_def)

lemma ipc_receive_confined:
  assumes ok: "ipc_buffers_ok k"
  shows "confined k (snd (sys_ipc_receive handle message payload len k))"
proof -
  let ?n = "ipc_request_length k" and ?q = "ipc_request_payload k" and ?r = "ipc_request k"
  have "confined k (user_write payload (take (unat ?n) ?q) (user_write message ?r k))"
    if "user_range_valid (this_task k) message 56" "?n \<noteq> 0 \<longrightarrow> user_range_valid (this_task k) payload (ucast ?n)"
  proof -
    have a: "confined k (user_write message ?r k)"
      by (rule user_write_at [OF that(1)]) (use ok in \<open>simp add: ipc_buffers_ok_def\<close>)
    show ?thesis
    proof (cases "?n = 0")
      case False
      have "confined (user_write message ?r k) (user_write payload (take (unat ?n) ?q) (user_write message ?r k))"
        by (rule user_write_at [where len = "ucast ?n"]) (use that False in \<open>simp_all add: unat_ucast_up\<close>)
      with a show ?thesis by (auto intro: confined_trans)
    qed (use a in simp)
  qed
  moreover have "ipc_request_length (user_write message ?r k) = ?n" "ipc_request_payload (user_write message ?r k) = ?q"
    by (simp_all add: user_write_def)
  moreover have "confined k (k1\<lparr>ipc_request_received := True\<rparr>) = confined k k1" for k1
    by (simp add: confined_def writes_only_def)
  moreover have "snd (sys_ipc_receive handle message payload len k) = k \<or>
      user_range_valid (this_task k) message 56 \<and>
      (?n \<noteq> 0 \<longrightarrow> user_range_valid (this_task k) payload (ucast ?n)) \<and>
      snd (sys_ipc_receive handle message payload len k) = log_marker ''QUANTA_IPC_SERVER_RECEIVED''
        (user_write payload (take (unat ?n) ?q) (user_write message ?r k)\<lparr>ipc_request_received := True\<rparr>)"
    unfolding sys_ipc_receive_def Let_def using calculation(2,3) by (simp; blast)
  ultimately show ?thesis by (elim disjE conjE) simp_all
qed

lemma ipc_reply_confined [confined_calls]: "confined k (snd (sys_ipc_reply handle message payload len k))"
  by (auto simp: sys_ipc_reply_def Let_def confined_def writes_only_def run_def set_task_def log_marker_def)

lemma task_exit_confined [confined_calls]: "confined k (snd (sys_task_exit k))"
  by (auto simp: sys_task_exit_def Let_def confined_def writes_only_def run_def set_task_def log_marker_def)

section \<open>The whole call\<close>

lemma namespace_call_confined:
  "namespace_call env number message payload len k = Some r \<Longrightarrow> confined k (snd r)"
  unfolding namespace_call_def by (drule map_of_SomeD) (auto simp: confined_calls)

lemma dispatch_cases:
  obtains (limit) "dispatch env number handle message payload len i f k = (Return STATUS_LIMIT, k)"
  | (namespace) r where "current k = 0" "has_namespace_capability (this_task k) handle"
      "namespace_call env number message payload len k = Some r"
      "dispatch env number handle message payload len i f k = r"
  | (call) "number = 1" "len \<le> IPC_MAX_PAYLOAD" "dispatch env number handle message payload len i f k =
      sys_ipc_call handle message payload len i f k"
  | (receive) "number = 2" "len \<le> IPC_MAX_PAYLOAD" "dispatch env number handle message payload len i f k =
      sys_ipc_receive handle message payload len k"
  | (reply) "number = 3" "len \<le> IPC_MAX_PAYLOAD" "dispatch env number handle message payload len i f k =
      sys_ipc_reply handle message payload len k"
  | (exit) "number = 4" "dispatch env number handle message payload len i f k = sys_task_exit k"
  | (other) "number \<notin> {1, 2, 3, 4}" "dispatch env number handle message payload len i f k =
      (Return (if number = 0 then STATUS_OK else STATUS_INVALID), k)"
proof (cases "number \<in> {1, 2, 3} \<and> len > IPC_MAX_PAYLOAD \<or> len > MAX_BUFFER")
  case True
  then have "dispatch env number handle message payload len i f k = (Return STATUS_LIMIT, k)"
    unfolding dispatch_def by (elim disjE) (simp_all only: if_True simp_thms if_cancel)
  then show thesis by (rule limit)
next
  case small: False
  let ?n = "if current k = 0 \<and> has_namespace_capability (this_task k) handle
            then namespace_call env number message payload len k else None"
  have d: "dispatch env number handle message payload len i f k =
      (case ?n of Some result \<Rightarrow> result
        | None \<Rightarrow>
            if number = 1 then sys_ipc_call handle message payload len i f k
            else if number = 2 then sys_ipc_receive handle message payload len k
            else if number = 3 then sys_ipc_reply handle message payload len k
            else if number = 4 then sys_task_exit k
            else (Return (if number = 0 then STATUS_OK else STATUS_INVALID), k))"
    using small by (simp only: dispatch_def if_False de_Morgan_disj simp_thms)
  show thesis
  proof (cases ?n)
    case (Some r)
    then have "dispatch env number handle message payload len i f k = r" unfolding d by (simp only: option.case)
    moreover from Some have "current k = 0 \<and> has_namespace_capability (this_task k) handle
        \<and> namespace_call env number message payload len k = Some r" by (simp split: if_splits)
    ultimately show thesis using namespace by blast
  next
    case None
    have len: "len \<le> IPC_MAX_PAYLOAD" if "number \<in> {1, 2, 3}" using small that by (simp only: not_less) auto
    show thesis
      by (cases "number = 1"; cases "number = 2"; cases "number = 3"; cases "number = 4")
        (use d None len call receive reply exit other in \<open>simp_all only: option.case if_True if_False insert_iff empty_iff simp_thms\<close>)
  qed
qed

lemma enter_call_same [simp]:
  "user_memory (enter_call n k) = user_memory k" "tasks (enter_call n k) = tasks k"
  "current (enter_call n k) = current k" "events (enter_call n k) = events k"
  "drives (mach (enter_call n k)) = drives (mach k)" "ipc_request (enter_call n k) = ipc_request k"
  "ipc_request_payload (enter_call n k) = ipc_request_payload k" "phys (enter_call n k) = phys k"
  by (simp_all add: enter_call_def Let_def log_marker_def write_marker_def)

lemma syscall_confined:
  assumes "ipc_buffers_ok k"
  shows "confined k (snd (quanta_task_syscall env number handle message payload len i f k))"
proof -
  let ?k = "enter_call number k"
  have eq: "confined k k' = confined ?k k'" for k'
    by (simp add: confined_def writes_only_def)
  have ok: "ipc_buffers_ok (enter_call n k)" for n using assms by (simp add: ipc_buffers_ok_def)
  show ?thesis
    unfolding eq quanta_task_syscall_def
    by (cases rule: dispatch_cases [of env number handle message payload len i f ?k])
      (simp_all add: namespace_call_confined confined_calls ipc_receive_confined [OF ok])
qed


section \<open>Runs of the system\<close>

text \<open>
  What can happen after the boot sequence: a system call of the current task, a store of
  the current task into its own pages, and a fault of the current task.
\<close>

inductive kernel_step :: "kernel \<Rightarrow> kernel \<Rightarrow> bool" where
  call: "kernel_step k (snd (quanta_task_syscall env number handle message payload len i f k))"
| store: "in_user_range (this_task k) a \<Longrightarrow> kernel_step k (user_write a [b] k)"
| fault: "kernel_step k (snd (quanta_task_user_fault vector k))"

inductive kernel_run :: "kernel \<Rightarrow> kernel \<Rightarrow> bool" for k0 where
  start: "kernel_run k0 k0"
| step: "kernel_run k0 k \<Longrightarrow> kernel_step k k' \<Longrightarrow> kernel_run k0 k'"

inductive_cases kernel_stepE: "kernel_step k k'"

lemma ipc_buffers_call:
  assumes ok: "ipc_buffers_ok k" and len: "len \<le> IPC_MAX_PAYLOAD"
  shows "ipc_buffers_ok (snd (sys_ipc_call handle message payload len i f k))"
    and "ipc_buffers_ok (snd (sys_ipc_receive handle message payload len k))"
    and "ipc_buffers_ok (snd (sys_ipc_reply handle message payload len k))"
  using ok len
  by (auto simp: ipc_buffers_ok_def sys_ipc_call_def sys_ipc_receive_def sys_ipc_reply_def Let_def
      run_def set_task_def user_read_def replace_front_def user_write_def log_marker_def
      IPC_MAX_PAYLOAD_def word_le_nat_alt)

section \<open>Message buffers, logins and the disk\<close>

definition ipc_state :: "kernel \<Rightarrow> byte list \<times> byte list \<times> u32 \<times> bool \<times> bool" where
  "ipc_state k = (ipc_request k, ipc_request_payload k, ipc_request_length k,
     ipc_request_pending k, ipc_request_received k)"

definition logins :: "kernel \<Rightarrow> nat \<Rightarrow> bool" where
  "logins k t = authenticated (tasks k t)"

definition quiet :: "kernel \<Rightarrow> kernel \<Rightarrow> bool" where
  "quiet k k' \<longleftrightarrow> ipc_state k' = ipc_state k \<and> logins k' = logins k"

lemma ipc_state_same [simp]:
  "ipc_state (user_write p b k) = ipc_state k" "ipc_state (log_marker m k) = ipc_state k"
  "ipc_state (log_event e k) = ipc_state k" "ipc_state (set_task t x k) = ipc_state k"
  "ipc_state (k\<lparr>mach := y\<rparr>) = ipc_state k" "ipc_state (k\<lparr>boot_mount := z\<rparr>) = ipc_state k"
  "ipc_state (snd (run n k)) = ipc_state k"
  by (simp_all add: ipc_state_def user_write_def log_marker_def log_event_def set_task_def run_def)

lemma logins_same [simp]:
  "logins (user_write p b k) = logins k" "logins (log_marker m k) = logins k"
  "logins (log_event e k) = logins k" "logins (k\<lparr>mach := y\<rparr>) = logins k"
  "logins (k\<lparr>boot_mount := z\<rparr>) = logins k" "logins (snd (run n k)) = logins k"
  "logins (set_task t x k) = (logins k)(t := authenticated x)"
  by (auto simp: logins_def user_write_def log_marker_def log_event_def set_task_def run_def fun_eq_iff)

lemma logins_upd [simp]: "(logins k)(t := authenticated (tasks k t)) = logins k"
  by (simp add: logins_def fun_eq_iff)

named_theorems quiet_calls "branches that touch neither the message buffers nor the logins"

lemma quiet_simple [quiet_calls]:
  "quiet k (snd (sys_console_write message len k))" "quiet k (snd (sys_console_read env k))"
  "quiet k (snd (sys_console_clear k))" "quiet k (snd (sys_desktop_draw env message len k))"
  "quiet k (snd (sys_desktop_view env message k))" "quiet k (snd (sys_desktop_present env k))"
  "quiet k (snd (sys_shutdown k))" "quiet k (snd (sys_rtc_read env payload len k))"
  "quiet k (snd (sys_system_info env payload len k))"
  by (simp_all add: quiet_def sys_console_write_def sys_console_read_def sys_console_clear_def
      sys_desktop_draw_def sys_desktop_view_def sys_desktop_present_def sys_shutdown_def
      sys_rtc_read_def sys_system_info_def Let_def)

lemma quiet_files [quiet_calls]:
  "quiet k (snd (sys_fs_read message payload len k))" "quiet k (snd (sys_fs_list message payload len k))"
  "quiet k (snd (sys_fs_stat message payload len k))" "quiet k (snd (sys_fs_mkdir message k))"
  "quiet k (snd (sys_fs_close message k))"
  by (auto simp: quiet_def sys_fs_read_def sys_fs_list_def sys_fs_stat_def sys_fs_mkdir_def
      sys_fs_close_def Let_def split: option.splits prod.splits bool.splits)

lemma quiet_handles [quiet_calls]:
  "quiet k (snd (sys_fs_open message payload len k))"
  "quiet k (snd (sys_fs_read_handle message payload len k))"
  "quiet k (snd (sys_auth_change message len k))"
  by (auto simp: quiet_def sys_fs_open_def sys_fs_read_handle_def sys_auth_change_def Let_def
      split: option.splits prod.splits)

lemma quiet_trans: "quiet k k1 \<Longrightarrow> quiet k1 k2 \<Longrightarrow> quiet k k2"
  by (simp add: quiet_def)

lemma storage_items_quiet: "quiet k (snd (storage_items payload items k))"
proof (induction items arbitrary: k)
  case (Cons i items)
  obtain dev m where dev: "quanta_storage_device_at (of_nat i) (mach k) = (dev, m)" by fastforce
  show ?case
  proof (cases dev)
    case (Some d)
    have "quiet k (write_storage_info (payload + 20 * of_nat i) d (k\<lparr>mach := m\<rparr>))"
      by (simp add: quiet_def write_storage_info_def Let_def)
    with Cons.IH show ?thesis by (auto simp: dev Some intro: quiet_trans)
  qed (simp add: dev quiet_def)
qed (simp add: quiet_def)

lemma quiet_storage_list [quiet_calls]: "quiet k (snd (sys_storage_list payload len k))"
proof -
  have "quiet k (snd (storage_items payload items (k\<lparr>mach := m\<rparr>)))" for items m
    using storage_items_quiet [of "k\<lparr>mach := m\<rparr>" payload items] by (simp add: quiet_def)
  moreover have "quiet k (k\<lparr>mach := m\<rparr>)" for m by (simp add: quiet_def)
  ultimately show ?thesis
    by (auto simp: sys_storage_list_def Let_def split: prod.splits) (metis snd_conv)+
qed

text \<open>A login needs the password; only \<^verbatim>\<open>AUTH_VERIFY\<close> gives one.\<close>

lemma auth_verify_login:
  assumes "logins (snd (sys_auth_verify message payload len k)) \<noteq> logins k"
  shows "fst (quanta_account_verify (user_read k message (unat len) @ [0]) len (mach k))"
    and "logins (snd (sys_auth_verify message payload len k)) = (logins k)(current k := True)"
  using assms by (auto simp: sys_auth_verify_def Let_def split: if_splits prod.splits)

lemma namespace_call_login:
  assumes "namespace_call env number message payload len k = Some r" "logins (snd r) t" "\<not> logins k t"
  shows "number = 14 \<and> t = current k \<and>
    fst (quanta_account_verify (user_read k message (unat len) @ [0]) len (mach k))"
proof -
  have quiet: "\<not> quiet k (snd r)" using assms(2,3) by (auto simp: quiet_def)
  have logout: "\<not> logins (snd (sys_session_logout k)) t"
    using assms(3) by (auto simp: sys_session_logout_def)
  from assms(1) have "(number, r) \<in> set [(14, sys_auth_verify message payload len k), (13, sys_session_logout k)]"
    unfolding namespace_call_def by (rule map_of_SomeD [THEN rev_mp]) (use quiet quiet_calls in auto)
  then have v: "number = 14" "r = sys_auth_verify message payload len k" using assms(2) logout by auto
  then have "logins (snd (sys_auth_verify message payload len k)) \<noteq> logins k" using assms(2,3) by auto
  from auth_verify_login [OF this] v assms(2,3) show ?thesis by (auto split: if_splits)
qed

lemma namespace_call_ipc_state:
  assumes "namespace_call env number message payload len k = Some r"
  shows "ipc_state (snd r) = ipc_state k"
proof -
  have "ipc_state (snd (sys_auth_verify message payload len k)) = ipc_state k"
    by (auto simp: sys_auth_verify_def Let_def split: prod.splits)
  moreover have "ipc_state (snd (sys_session_logout k)) = ipc_state k"
    by (simp add: sys_session_logout_def)
  moreover have "quiet k k' \<Longrightarrow> ipc_state k' = ipc_state k" for k' by (simp add: quiet_def)
  ultimately show ?thesis
    using assms unfolding namespace_call_def by (elim map_of_SomeD [THEN rev_mp]) (auto simp: quiet_calls)
qed

lemma ipc_buffers_cong: "ipc_state k' = ipc_state k \<Longrightarrow> ipc_buffers_ok k' = ipc_buffers_ok k"
  by (simp add: ipc_buffers_ok_def ipc_state_def)

lemma syscall_ipc_buffers:
  assumes "ipc_buffers_ok k"
  shows "ipc_buffers_ok (snd (quanta_task_syscall env number handle message payload len i f k))"
proof -
  let ?k = "enter_call number k"
  have ok: "ipc_buffers_ok ?k" using assms by (simp add: ipc_buffers_ok_def)
  have exit: "ipc_buffers_ok (snd (sys_task_exit ?k))"
    using ok by (simp add: ipc_buffers_ok_def sys_task_exit_def Let_def run_def set_task_def log_marker_def)
  show ?thesis
    unfolding quanta_task_syscall_def
  proof (cases rule: dispatch_cases [of env number handle message payload len i f ?k])
    case (namespace r)
    then show "ipc_buffers_ok (snd (dispatch env number handle message payload len i f ?k))"
      using ok ipc_buffers_cong [OF namespace_call_ipc_state] by simp
  qed (use ok exit ipc_buffers_call [OF ok] in simp_all)
qed

lemma run_same [simp]:
  "user_memory (snd (run n k)) = user_memory k" "tasks (snd (run n k)) = tasks k"
  "mach (snd (run n k)) = mach k" "boot_mount (snd (run n k)) = boot_mount k"
  "events (snd (run n k)) = events k" "current (snd (run n k)) = n"
  by (simp_all add: run_def)

lemma log_drives [simp]: "drives (mach (log_marker m k)) = drives (mach k)"
  by (simp add: log_marker_def write_marker_def)

lemma fault_same:
  "user_memory (snd (quanta_task_user_fault v k)) = user_memory k"
  "ipc_state (snd (quanta_task_user_fault v k)) = ipc_state k"
  "logins (snd (quanta_task_user_fault v k)) = logins k"
  "drives (mach (snd (quanta_task_user_fault v k))) = drives (mach k)"
  "authority (tasks (snd (quanta_task_user_fault v k)) t) = authority (tasks k t)"
  by (simp_all add: quanta_task_user_fault_def Let_def)

lemma fault_confined: "confined k (snd (quanta_task_user_fault v k))"
  by (simp add: confined_def writes_only_def fault_same)

lemma store_confined:
  assumes "in_user_range (this_task k) a"
  shows "confined k (user_write a [b] k)"
  using assms by (auto simp: confined_def writes_only_def user_write_def split: if_splits)

lemma step_confined: "kernel_step k k' \<Longrightarrow> ipc_buffers_ok k \<Longrightarrow> confined k k'"
  by (erule kernel_stepE) (simp_all only: syscall_confined fault_confined store_confined)

lemma step_ipc_buffers: "kernel_step k k' \<Longrightarrow> ipc_buffers_ok k \<Longrightarrow> ipc_buffers_ok k'"
  by (erule kernel_stepE)
    (simp_all only: syscall_ipc_buffers ipc_buffers_cong [OF fault_same(2)] ipc_buffers_cong [OF ipc_state_same(1)])

lemma run_invariant:
  assumes "kernel_run k0 k" "ipc_buffers_ok k0"
  shows "ipc_buffers_ok k" and "authority (tasks k t) = authority (tasks k0 t)"
    and "\<not> in_user_range (tasks k0 t) a \<Longrightarrow> user_memory k t a = user_memory k0 t a"
  using assms
proof (induction rule: kernel_run.induct)
  case (step k k')
  { case 1 then show ?case using step by (blast intro: step_ipc_buffers) }
  { case 2 then show ?case using step step_confined [OF step.hyps(2)] by (simp add: confined_def) }
  { case 3
    have "in_user_range (tasks k t) a = in_user_range (tasks k0 t) a"
      by (rule in_user_range_cong) (use step 3 in blast)
    then show ?case using step 3 step_confined [OF step.hyps(2)]
      unfolding confined_def writes_only_def by metis }
qed simp_all

section \<open>The message path\<close>

text \<open>No task holds an endpoint capability.\<close>

definition no_endpoints :: "kernel \<Rightarrow> bool" where
  "no_endpoints k \<longleftrightarrow> (\<forall>t. \<forall>c\<in>set (capabilities (tasks k t)). cap_kind c \<noteq> CAP_ENDPOINT)"

lemma no_endpoints_has: "no_endpoints k \<Longrightarrow> \<not> has_endpoint_capability (tasks k t) handle rights"
  by (auto simp: no_endpoints_def has_endpoint_capability_def list_ex_iff)

lemma ipc_refused:
  assumes "no_endpoints k"
  shows "sys_ipc_call handle message payload len i f k = (Return STATUS_DENIED, k)"
    and "sys_ipc_receive handle message payload len k = (Return STATUS_STATE, k)"
    and "sys_ipc_reply handle message payload len k = (Return STATUS_STATE, k)"
  using no_endpoints_has [OF assms]
  by (simp_all add: sys_ipc_call_def sys_ipc_receive_def sys_ipc_reply_def)

lemma run_no_endpoints:
  assumes "kernel_run k0 k" "ipc_buffers_ok k0" "no_endpoints k0"
  shows "no_endpoints k"
  using assms(3) run_invariant(2) [OF assms(1,2)] by (simp add: no_endpoints_def authority_def)

lemma namespace_call_numbers:
  "namespace_call env number message payload len k = Some r \<Longrightarrow> number \<notin> {0, 1, 2, 3, 4}"
  unfolding namespace_call_def by (drule map_of_SomeD) auto

lemma syscall_ipc_refused:
  assumes "no_endpoints k" "number \<in> {1, 2, 3}"
  obtains status where "status \<in> {STATUS_DENIED, STATUS_STATE, STATUS_LIMIT}"
    "quanta_task_syscall env number handle message payload len i f k = (Return status, enter_call number k)"
proof -
  have none: "no_endpoints (enter_call number k)" using assms(1) by (simp add: no_endpoints_def)
  have "\<exists>status\<in>{STATUS_DENIED, STATUS_STATE, STATUS_LIMIT}.
      quanta_task_syscall env number handle message payload len i f k = (Return status, enter_call number k)"
    unfolding quanta_task_syscall_def
  proof (cases rule: dispatch_cases [of env number handle message payload len i f "enter_call number k"])
    case (namespace r)
    with namespace_call_numbers [OF namespace(3)] assms(2) show "\<exists>status\<in>{STATUS_DENIED, STATUS_STATE, STATUS_LIMIT}.
      dispatch env number handle message payload len i f (enter_call number k) = (Return status, enter_call number k)" by auto
  qed (use assms(2) ipc_refused [OF none] in auto)
  then show thesis using that by blast
qed

end
