(* ===== verification/Kernel_Properties.thy ===== *)
theory Kernel_Properties
  imports Syscall_Safety
begin

text \<open>
  Properties of the system calls as a whole: the range check, the confinement of every call and of
  every run, the message path, the authority over the disk and over logins, the directory call down
  to the disk, capabilities, and file handles.
\<close>

unbundle bit_operations_syntax

section \<open>A running system\<close>

text \<open>A kernel after boot with one code page in every task, for the concrete instances.\<close>

definition demo_task :: "task_capability list \<Rightarrow> quanta_task" where
  "demo_task caps = \<lparr>root = 0, code_pages = [], stack = 0, ip = 0x400000, sp = 0x7fffffffeff8, return_ip = 0,
     return_flags = 0, code_page_count = 1, state = TASK_RUNNABLE, endpoint = 1, authenticated = False,
     capabilities = caps, files = replicate 16 \<lparr>file_active = False, file_flags = 0, file_offset = 0, file_path = [0]\<rparr>\<rparr>"

definition demo_environment :: environment where
  "demo_environment = \<lparr>console_char = - 1, draw_accepted = (\<lambda>_. True), view_accepted = (\<lambda>_. True),
     present_accepted = True, clock = [26, 1, 1, 0, 0, 0], display_size = (1024, 768)\<rparr>"

definition demo_capability :: task_capability where
  "demo_capability = \<lparr>cap_kind = CAP_NAMESPACE, cap_resource = 0, cap_handle = 1, cap_rights = 3\<rparr>"

definition demo_kernel :: kernel where
  "demo_kernel = \<lparr>mach = demo_volume, boot_mount = initial_mount, phys = demo_frames,
     tasks = (\<lambda>t. demo_task (if t = 0 then [demo_capability] else [])), current = 0, user_memory = (\<lambda>_ _. 0),
     ipc_request = replicate 56 0, ipc_reply = replicate 56 0, ipc_request_payload = replicate 64 0,
     ipc_reply_payload = replicate 64 0, ipc_request_length = 0, ipc_reply_length = 0,
     ipc_request_pending = False, ipc_request_received = False, events = []\<rparr>"

lemma demo_ipc_buffers: "ipc_buffers_ok demo_kernel"
  by (simp add: ipc_buffers_ok_def demo_kernel_def)

lemma demo_no_endpoints: "no_endpoints demo_kernel"
  by (simp add: no_endpoints_def demo_kernel_def demo_task_def demo_capability_def)

lemma user_range_valid_exact_aux:
  "user_range_valid task address len \<longleftrightarrow>
     (if len = 0 then address \<noteq> 0
      else unat address + unat len < 2 ^ 64 \<and>
        (USER_STACK_BASE \<le> address \<and> unat address + unat len \<le> unat USER_STACK_END \<or>
         USER_CODE_BASE \<le> address \<and>
           unat address + unat len \<le> unat (USER_CODE_BASE + ucast (code_page_count task) * 0x1000)))"
proof (cases "len = 0")
  case False
  have "unat (- 1 - len) = 2 ^ 64 - 1 - unat len"
    using unat_sub [of len "- 1"] by (simp add: unsigned_minus_1_eq_mask mask_eq_exp_minus_1)
  then have wrap: "\<not> address > - 1 - len \<longleftrightarrow> unat address + unat len < 2 ^ 64"
    using unat_less_pow [of len] by (simp add: not_less word_le_nat_alt) arith
  show ?thesis
  proof (cases "unat address + unat len < 2 ^ 64")
    case True
    then have "unat (address + len) = unat address + unat len" by (simp add: unat_word_ariths)
    with True wrap \<open>len \<noteq> 0\<close> show ?thesis
      by (simp add: user_range_valid_def Let_def word_le_nat_alt)
  next
    case no: False
    with wrap \<open>len \<noteq> 0\<close> show ?thesis by (simp add: user_range_valid_def)
  qed
qed (simp add: user_range_valid_def)

section \<open>Properties\<close>

text \<open>The range check of the system calls accepts an empty buffer at any address but 0, and
  any other buffer exactly when it ends without wrapping inside the two stack pages or inside the
  code pages of the task.\<close>

theorem user_range_valid_exact:
  "user_range_valid task address len \<longleftrightarrow>
     (if len = 0 then address \<noteq> 0
      else unat address + unat len < 2 ^ 64 \<and>
        (USER_STACK_BASE \<le> address \<and> unat address + unat len \<le> unat USER_STACK_END \<or>
         USER_CODE_BASE \<le> address \<and>
           unat address + unat len \<le> unat (USER_CODE_BASE + ucast (code_page_count task) * 0x1000)))"
  by (rule user_range_valid_exact_aux)





text \<open>C35: As long as no task holds an endpoint capability when the run starts, which is how the
  boot sequence leaves the system, the three message calls are refused for ever: they return an error
  and change nothing but the lookup of the mount.\<close>

theorem ipc_never_available:
  assumes "kernel_run k0 k" "ipc_buffers_ok k0" "no_endpoints k0" "number \<in> {1, 2, 3}"
  shows "\<exists>status\<in>{STATUS_DENIED, STATUS_STATE, STATUS_LIMIT}.
    quanta_task_syscall env number handle message payload len i f k = (Return status, enter_call number k)"
proof -
  have "no_endpoints k" by (rule run_no_endpoints [OF assms(1-3)])
  from this assms(4) show ?thesis by (rule syscall_ipc_refused) blast
qed

theorem ipc_never_available_witness:
  "\<exists>status\<in>{STATUS_DENIED, STATUS_STATE, STATUS_LIMIT}.
    quanta_task_syscall demo_environment 1 1 0x400000 0x400100 8 0 0 demo_kernel = (Return status, enter_call 1 demo_kernel)"
  by (rule ipc_never_available [OF kernel_run.start demo_ipc_buffers demo_no_endpoints]) simp

section \<open>Who writes the disk\<close>

named_theorems disk_calls "branches that leave every drive as it is"

lemma drives_same [simp]:
  "drives (write_marker m s) = drives s" 
  "mach (user_write p b k) = mach k" "mach (set_task t x k) = mach k"
  by (simp_all add: write_marker_def)

lemma mach_log [simp]: "mach (log_marker m k) = write_marker m (mach k)"
  by (simp add: log_marker_def)

lemma counts_only_drives: "counts_only s s' \<Longrightarrow> drives s' = drives s"
  by (auto simp: counts_only_def)

lemma disk_simple [disk_calls]:
  "drives (mach (snd (sys_console_write message len k))) = drives (mach k)"
  "drives (mach (snd (sys_console_read env k))) = drives (mach k)"
  "drives (mach (snd (sys_console_clear k))) = drives (mach k)"
  "drives (mach (snd (sys_desktop_draw env message len k))) = drives (mach k)"
  "drives (mach (snd (sys_desktop_view env message k))) = drives (mach k)"
  "drives (mach (snd (sys_desktop_present env k))) = drives (mach k)"
  "drives (mach (snd (sys_shutdown k))) = drives (mach k)"
  "drives (mach (snd (sys_rtc_read env payload len k))) = drives (mach k)"
  "drives (mach (snd (sys_system_info env payload len k))) = drives (mach k)"
  "drives (mach (snd (sys_session_logout k))) = drives (mach k)"
  "drives (mach (snd (sys_task_exit k))) = drives (mach k)"
  by (simp_all add: sys_console_write_def sys_console_read_def sys_console_clear_def
      sys_desktop_draw_def sys_desktop_view_def sys_desktop_present_def sys_shutdown_def
      sys_rtc_read_def sys_system_info_def sys_session_logout_def sys_task_exit_def Let_def)

lemma disk_files [disk_calls]:
  "drives (mach (snd (sys_fs_read message payload len k))) = drives (mach k)"
  "drives (mach (snd (sys_fs_list message payload len k))) = drives (mach k)"
  "drives (mach (snd (sys_fs_stat message payload len k))) = drives (mach k)"
  "drives (mach (snd (sys_fs_close message k))) = drives (mach k)"
  "drives (mach (snd (sys_fs_read_handle message payload len k))) = drives (mach k)"
  "drives (mach (snd (sys_auth_verify message payload len k))) = drives (mach k)"
  by (auto simp: sys_fs_read_def sys_fs_list_def sys_fs_stat_def sys_fs_close_def sys_fs_read_handle_def
      sys_auth_verify_def Let_def split: option.splits prod.splits)

lemma storage_items_drives: "drives (mach (snd (storage_items payload items k))) = drives (mach k)"
proof (induction items arbitrary: k)
  case (Cons i items)
  obtain dev m where dev: "quanta_storage_device_at (of_nat i) (mach k) = (dev, m)" by fastforce
  then have "drives m = drives (mach k)"
    using counts_only_drives device_at_list [of "of_nat i" "mach k"] by (metis snd_conv)
  then show ?case using Cons.IH by (cases dev) (auto simp: dev write_storage_info_def Let_def)
qed simp

lemma disk_storage_list [disk_calls]:
  "drives (mach (snd (sys_storage_list payload len k))) = drives (mach k)"
  using counts_only_drives [OF device_count_counts] 
  by (auto simp: sys_storage_list_def Let_def split: prod.splits)
    (metis snd_conv storage_items_drives kernel.select_convs(1) kernel.surjective kernel.update_convs(1))+

lemma disk_ipc [disk_calls]:
  "drives (mach (snd (sys_ipc_call handle message payload len i f k))) = drives (mach k)"
  "drives (mach (snd (sys_ipc_receive handle message payload len k))) = drives (mach k)"
  "drives (mach (snd (sys_ipc_reply handle message payload len k))) = drives (mach k)"
  by (simp_all add: sys_ipc_call_def sys_ipc_receive_def sys_ipc_reply_def Let_def)

lemma namespace_call_disk:
  assumes "namespace_call env number message payload len k = Some r" "number \<notin> {15, 22, 27}"
  shows "drives (mach (snd r)) = drives (mach k)"
  using assms unfolding namespace_call_def by (elim map_of_SomeD [THEN rev_mp]) (auto simp: disk_calls)

lemma login_calls:
  "logins (snd (sys_ipc_call handle message payload len i f k)) = logins k"
  "logins (snd (sys_ipc_receive handle message payload len k)) = logins k"
  "logins (snd (sys_ipc_reply handle message payload len k)) = logins k"
  "logins (snd (sys_task_exit k)) = logins k"
  by (simp_all add: sys_ipc_call_def sys_ipc_receive_def sys_ipc_reply_def sys_task_exit_def Let_def
      logins_def fun_eq_iff)

lemma enter_read:
  "user_read (enter_call n k) a m = user_read k a m"
  "number = 14 \<Longrightarrow> mach (enter_call number k) = mach k"
  by (simp_all add: user_read_def enter_call_def Let_def)

text \<open>C29: The drives change in a system call only if task 0 makes it with a capability for the
  name space and it opens, makes a directory, or changes the password.\<close>

theorem disk_written_only_by_owner:
  "drives (mach (snd (quanta_task_syscall env number handle message payload len i f k))) = drives (mach k) \<or>
   current k = 0 \<and> has_namespace_capability (this_task k) handle \<and> number \<in> {15, 22, 27}"
proof -
  let ?k = "enter_call number k"
  have "drives (mach (snd (dispatch env number handle message payload len i f ?k))) = drives (mach ?k) \<or>
     current k = 0 \<and> has_namespace_capability (this_task k) handle \<and> number \<in> {15, 22, 27}"
  proof (cases rule: dispatch_cases [of env number handle message payload len i f ?k])
    case (namespace r)
    then show ?thesis using namespace_call_disk [OF namespace(3)] by auto
  qed (simp_all add: disk_calls)
  then show ?thesis by (simp add: quanta_task_syscall_def)
qed

text \<open>C30: A system call makes a task authenticated only if that task is the caller, the call is
  \<^verbatim>\<open>AUTH_VERIFY\<close> through a name-space capability of task 0, and the password it passes is accepted by
  the account records.\<close>

theorem login_needs_password:
  "{t. logins (snd (quanta_task_syscall env number handle message payload len i f k)) t} \<subseteq>
   {t. logins k t} \<union> {t. t = 0 \<and> current k = 0 \<and> number = 14 \<and> has_namespace_capability (this_task k) handle \<and>
      fst (quanta_account_verify (user_read k message (unat len) @ [0]) len (mach k))}"
proof
  fix t assume "t \<in> {t. logins (snd (quanta_task_syscall env number handle message payload len i f k)) t}"
  then have t: "logins (snd (dispatch env number handle message payload len i f (enter_call number k))) t"
    by (simp add: quanta_task_syscall_def)
  let ?k = "enter_call number k"
  have same: "logins ?k = logins k" by (simp add: logins_def fun_eq_iff)
  show "t \<in> {t. logins k t} \<union> {t. t = 0 \<and> current k = 0 \<and> number = 14 \<and> has_namespace_capability (this_task k) handle \<and>
      fst (quanta_account_verify (user_read k message (unat len) @ [0]) len (mach k))}"
  proof (cases "logins k t")
    case new: False
    from t have "number = 14 \<and> t = current k \<and> current k = 0 \<and> has_namespace_capability (this_task k) handle
        \<and> fst (quanta_account_verify (user_read ?k message (unat len) @ [0]) len (mach ?k))"
    proof (cases rule: dispatch_cases [of env number handle message payload len i f ?k])
      case (namespace r)
      then have "logins (snd r) t" "\<not> logins ?k t" using t new same by auto
      from namespace_call_login [OF namespace(3) this]
      have "number = 14" "t = current ?k" "fst (quanta_account_verify (user_read ?k message (unat len) @ [0]) len (mach ?k))"
        by blast+
      then show ?thesis using namespace(1,2) by simp
    qed (use t new same in \<open>auto simp: login_calls\<close>)
    then show ?thesis by (auto simp: enter_read)
  qed simp
qed

section \<open>Paths that pass the system call's check\<close>

lemma drop_cstr:
  assumes "i < length (cstr p)"
  shows "drop i (cstr p) = cat p i # drop (Suc i) (cstr p)" "cat p i \<noteq> 0"
  using assms cat_cstr_less [OF assms] cat_less_cstr_nonzero [OF assms]
  by (simp_all add: Cons_nth_drop_Suc [symmetric] cat_def split: if_splits)

lemma all_nat_split: "(\<forall>i. P i) \<longleftrightarrow> P 0 \<and> (\<forall>i. P (Suc i))"
  by (metis not0_implies_Suc)

lemma clean_rest_Cons:
  "clean_rest (c # r) \<longleftrightarrow> c \<notin> {47, 92, 58} \<and> clean_rest r \<and> \<not> (c = 62 \<and> r \<noteq> [] \<and> hd r = 62)"
proof -
  have "(\<forall>i. Suc i < length (c # r) \<longrightarrow> \<not> ((c # r) ! i = 62 \<and> (c # r) ! Suc i = 62)) \<longleftrightarrow>
      (\<forall>i. Suc i < length r \<longrightarrow> \<not> (r ! i = 62 \<and> r ! Suc i = 62)) \<and> \<not> (c = 62 \<and> r \<noteq> [] \<and> hd r = 62)"
    by (subst all_nat_split) (cases r; auto)
  then show ?thesis unfolding clean_rest_def by auto
qed

lemma path_chars_valid_clean:
  "path_chars_valid index previous path \<Longrightarrow> index \<le> length (cstr path) \<Longrightarrow>
     clean_rest (drop index (cstr path)) \<and> \<not> (cat path index = 62 \<and> previous \<in> {0, 62}) \<and> length (cstr path) < 96"
proof (induction index previous path rule: path_chars_valid.induct)
  case (1 index previous path)
  let ?c = "cat path index"
  have lim: "index < 96" and next': "?c = 0 \<or> ?c \<notin> {47, 92, 58} \<and> \<not> (?c = 62 \<and> previous \<in> {0, 62})
      \<and> path_chars_valid (index + 1) ?c path"
    using "1.prems"(1) by (subst (asm) path_chars_valid.simps; auto simp: QUANTA_PATH_MAX_def Let_def split: if_splits)+
  show ?case
  proof (cases "index = length (cstr path)")
    case True
    then show ?thesis using lim cat_cstr_length [of path] by (simp add: clean_rest_def)
  next
    case False
    then have less: "index < length (cstr path)" using "1.prems"(2) by simp
    note d = drop_cstr [OF this]
    have ih: "clean_rest (drop (index + 1) (cstr path)) \<and> \<not> (cat path (index + 1) = 62 \<and> ?c \<in> {0, 62}) \<and> length (cstr path) < 96"
      by (rule "1.IH" [OF _ refl]) (use next' d(2) lim less in \<open>auto simp: QUANTA_PATH_MAX_def\<close>)
    have "drop (Suc index) (cstr path) \<noteq> [] \<Longrightarrow> hd (drop (Suc index) (cstr path)) = cat path (Suc index)"
      using drop_cstr(1) [of "Suc index" path] by (cases "Suc index < length (cstr path)") auto
    then show ?thesis using ih next' d by (auto simp: clean_rest_Cons)
  qed
qed

lemma clean_of_valid:
  assumes "filesystem_path_valid m path"
  shows "known_drive path \<and> clean_rest (path_rest path) \<and> length (cstr path) < 96"
proof -
  obtain device where dev: "mt_device m = Some device"
    using assms by (auto simp: filesystem_path_valid_def split: option.splits)
  define drive where "drive = (if device_name device ! 0 = of_char CHR ''l'' then str ''live'' else str ''prime'')"
  then have drive: "drive = str ''live'' \<or> drive = str ''prime''" by simp
  have chars: "list_all (\<lambda>index. cat path index = drive ! index) [0..<length drive]"
    "cat path (length drive) = 58" "path_chars_valid (length drive + 1) 0 path"
    using assms unfolding filesystem_path_valid_def dev option.case Let_def drive_def [symmetric]
    by (simp_all split: if_splits)
  have c: "i < length drive \<Longrightarrow> cat path i = drive ! i" for i using chars(1) by (auto simp: list_all_iff)
  have nz: "0 \<notin> set drive" "58 \<notin> set drive" using drive by (auto simp: str_def)
  have pre: "\<exists>r. path = drive @ 58 # r"
  proof (intro exI)
    have "length drive < length path" using chars(2) by (auto simp: cat_def split: if_splits)
    then show "path = drive @ 58 # drop (length drive + 1) path"
      using c chars(2) by (intro nth_equalityI) (auto simp: cat_def nth_append nth_Cons' split: if_splits)
  qed
  then obtain r where "path = drive @ 58 # r" ..
  then have cs: "cstr path = drive @ 58 # cstr r" using nz(1) by (simp add: cstr_append)
  have "takeWhile (\<lambda>c. c \<noteq> 58) (drive @ 58 # cstr r) = drive" using nz(2) by (subst takeWhile_append2) auto
  then have d: "drive_end path = length drive" by (simp add: drive_end_def cs)
  from path_chars_valid_clean [OF chars(3)] cs
  have "clean_rest (drop (length drive + 1) (cstr path))" "length (cstr path) < 96" by simp_all
  with d drive cs show ?thesis by (auto simp: path_rest_def known_drive_def)
qed

text \<open>A path that passes the check of the system calls has one of the drive names the file
  system knows, is shorter than the limit, and is clean: no foreign separator, no doubled one. So it
  satisfies what the creation of nodes relies on.\<close>

theorem valid_path_is_clean:
  assumes "filesystem_path_valid m path"
  shows "known_drive path \<and> clean_rest (path_rest path) \<and> length (cstr path) < 96"
  by (rule clean_of_valid [OF assms])

definition demo_mount :: quanta_mount where
  "demo_mount = \<lparr>mt_device = Some (Disk 0), mt_provider = Some Qfs2_Provider, mt_size_bytes = 0,
     mt_kind = FILESYSTEM_QFS2, mt_flags = QUANTA_MOUNT_BOOT\<rparr>"

lemma demo_path_valid: "filesystem_path_valid demo_mount (str ''prime:a'' @ replicate n 0)"
  by (simp add: filesystem_path_valid_def demo_mount_def device_name_def str_def Let_def path_chars_valid.simps
      QUANTA_PATH_MAX_def cat_def)

theorem valid_path_is_clean_witness:
  "known_drive (str ''prime:a'' @ replicate 3 0) \<and> clean_rest (path_rest (str ''prime:a'' @ replicate 3 0))
    \<and> length (cstr (str ''prime:a'' @ replicate 3 0)) < 96"
  by (rule valid_path_is_clean [OF demo_path_valid])

section \<open>The directory call\<close>

lemma boot_read_marker: "boot_read (write_marker m s) = boot_read s"
  by (simp add: fun_eq_iff boot_read_eq write_marker_def ata_read_def ata_accepts_def memory_storage_read_def)

lemma qfs2_marker [simp]:
  "load_super (write_marker m s) = load_super s"
  "read_metadata super offset n (write_marker m s) = read_metadata super offset n s"
  "read_inode super number (write_marker m s) = read_inode super number s"
  by (simp_all add: load_super_def read_metadata_def read_inode_def boot_read_marker)

lemma find_child_marker [simp]: "find_child super parent name (write_marker m s) = find_child super parent name s"
proof -
  have "find_child_from super parent name index n (write_marker m s) = find_child_from super parent name index n s" for index n
    by (induction n arbitrary: index) (simp_all add: find_child_from_matches split: option.split)
  then show ?thesis by (simp add: find_child_def)
qed

lemma find_path_marker [simp]: "find_path super path (write_marker m s) = find_path super path s"
proof -
  have "walk_names super (write_marker m s) current names = walk_names super s current names" for current names
    by (induction names arbitrary: current) (auto split: bind_split)
  then have "walk_names super (write_marker m s) = walk_names super s" by (intro ext)
  then show ?thesis by (simp add: find_path_walk)
qed

lemma created_marker [simp]: "created super path kind number s (write_marker m s') = created super path kind number s s'"
  by (simp add: created_def)


text \<open>The demonstration kernel with a path in the memory of task 0.\<close>

definition demo_caller :: "byte list \<Rightarrow> kernel" where
  "demo_caller path = demo_kernel\<lparr>boot_mount := demo_mount,
     user_memory := (\<lambda>_ a. cat path (unat (a - 0x400000)))\<rparr>"

lemma demo_caller_path:
  assumes "length path \<le> 96"
  shows "path_at (demo_caller path) 0x400000 = path @ replicate (96 - length path) 0"
proof (rule nth_equalityI)
  fix i assume "i < length (path_at (demo_caller path) 0x400000)"
  then have "i < 96" by (simp add: path_at_def user_read_def QUANTA_PATH_MAX_def)
  then show "path_at (demo_caller path) 0x400000 ! i = (path @ replicate (96 - length path) 0) ! i"
    by (auto simp: path_at_def user_read_def QUANTA_PATH_MAX_def demo_caller_def unat_of_nat cat_def nth_append)
qed (use assms in \<open>simp add: path_at_def user_read_def QUANTA_PATH_MAX_def\<close>)

lemma demo_caller_state [simp]:
  "mach (demo_caller path) = demo_volume" "boot_mount (demo_caller path) = demo_mount"
  "tasks (demo_caller path) = tasks demo_kernel" "current (demo_caller path) = 0"
  by (simp_all add: demo_caller_def demo_kernel_def)

lemma demo_range: "len \<noteq> 0 \<Longrightarrow> len \<le> 0x100 \<Longrightarrow> user_range_valid (tasks demo_kernel 0) 0x400000 len"
  by (simp add: user_range_valid_exact_aux demo_kernel_def demo_task_def USER_STACK_BASE_def
        USER_STACK_END_def USER_CODE_BASE_def word_le_nat_alt)

lemma demo_split_padded: "split_path (str ''prime:a'' @ replicate n 0) = Some (str ''prime:'', str ''a'')"
proof -
  have "cstr (str ''prime:a'' @ replicate n 0) = cstr (str ''prime:a'')"
    by (cases n) (simp_all add: str_def)
  then have "split_path (str ''prime:a'' @ replicate n 0) = split_path (str ''prime:a'')"
    unfolding split_path_def drive_end_def by (simp only:)
  then show ?thesis by (simp add: demo_split)
qed

lemma demo_mkdir: "\<exists>k'. sys_fs_mkdir 0x400000 (demo_caller (str ''prime:a'')) = (Return STATUS_OK, k')"
proof -
  let ?p = "str ''prime:a'' @ replicate 89 0"
  have "room_for demo_super ?p demo_volume"
    using demo_room by (simp add: room_for_def demo_split_padded demo_split)
  moreover have "clean_rest (path_rest ?p)" using clean_of_valid [OF demo_path_valid] by simp
  ultimately obtain m where "create_node ?p QFS2_DIRECTORY demo_volume = (True, m)"
    using create_node_succeeds [OF demo_volume_ok demo_volume_sound demo_load_super demo_layout _ demo_readable] by blast
  moreover have "filesystem_path_valid demo_mount ?p" by (rule demo_path_valid)
  moreover have "mt_flags demo_mount AND QUANTA_MOUNT_READ_ONLY = 0" "mt_kind demo_mount = FILESYSTEM_QFS2"
    by (simp_all add: demo_mount_def QUANTA_MOUNT_READ_ONLY_def QUANTA_MOUNT_BOOT_def)
  ultimately show ?thesis
    by (simp add: sys_fs_mkdir_def demo_caller_path demo_range quanta_qfs2_mkdir_def)
qed


section \<open>Capabilities\<close>

text \<open>Granting a capability of another kind than an endpoint to a task with free slots returns a handle
  that, as long as the task's handles count its slots, was unused; revoking that handle restores the
  task.\<close>

theorem grant_then_revoke:
  assumes "kind \<notin> {CAP_NONE, CAP_ENDPOINT}" "length (capabilities task) < 8"
    "\<forall>c\<in>set (capabilities task). unat (cap_handle c) \<le> length (capabilities task)"
    "unat (endpoint task) \<le> length (capabilities task)"
  shows "\<exists>handle task'. quanta_task_grant kind resource task = (STATUS_OK, Some handle, task')
    \<and> handle \<notin> cap_handle ` set (capabilities task)
    \<and> quanta_task_revoke handle task' = (STATUS_OK, task)"
proof -
  let ?n = "length (capabilities task)" and ?cs = "capabilities task"
  let ?h = "of_nat ?n + 1 :: u64"
  have h: "unat ?h = Suc ?n"
  proof -
    have "?h = of_nat (Suc ?n)" by simp
    then have "unat ?h = Suc ?n mod 2 ^ 64" by (simp only: unat_of_nat) simp
    then show ?thesis using assms(2) by simp
  qed
  then have nz: "?h \<noteq> 0" by auto
  have fresh: "?h \<notin> cap_handle ` set ?cs" using assms(3) h by force
  have ep: "endpoint task \<noteq> ?h" using assms(4) h by auto
  have index: "capability_index ?h (cs @ [c]) = Some (length cs)"
    if "cap_handle c = ?h" "?h \<notin> cap_handle ` set cs" for cs c
    using that by (induction cs) auto
  show ?thesis
    using assms(1,2) nz fresh ep
    by (simp add: quanta_task_grant_def quanta_task_revoke_def Let_def index)
qed

theorem grant_then_revoke_witness:
  "\<exists>handle task'. quanta_task_grant CAP_IRQ 7 (demo_task [demo_capability]) = (STATUS_OK, Some handle, task')
    \<and> handle \<notin> cap_handle ` set (capabilities (demo_task [demo_capability]))
    \<and> quanta_task_revoke handle task' = (STATUS_OK, demo_task [demo_capability])"
  by (rule grant_then_revoke) (simp_all add: demo_task_def demo_capability_def)

text \<open>Handles are reused while they are live: after two grants to an empty task, revoking the first
  and granting again gives the new capability the handle of the second one, so revoking that handle
  removes only the older of the two.\<close>

theorem handle_reused_while_live:
  "let task = base\<lparr>capabilities := [], endpoint := 0\<rparr>;
       (s1, h1, task1) = quanta_task_grant CAP_MMIO r1 task;
       (s2, h2, task2) = quanta_task_grant CAP_IRQ r2 task1;
       (s3, task3) = quanta_task_revoke (the h1) task2;
       (s4, h4, task4) = quanta_task_grant CAP_DMA r3 task3;
       (s5, task5) = quanta_task_revoke (the h4) task4
   in s1 = STATUS_OK \<and> s2 = STATUS_OK \<and> s3 = STATUS_OK \<and> s4 = STATUS_OK \<and> s5 = STATUS_OK \<and>
      h4 = h2 \<and> map cap_resource (capabilities task4) = [r2, r3] \<and> map cap_resource (capabilities task5) = [r3]"
  by (simp add: quanta_task_grant_def quanta_task_revoke_def Let_def)

section \<open>Built-in files\<close>

text \<open>The built-in files and directories are unreachable: no path that passes the check of the
  system calls, which demands a drive name, is one of theirs, so the branches that fall back to them
  never find anything.\<close>

theorem builtin_files_unreachable:
  assumes "filesystem_path_valid m path"
  shows "quanta_ramfs_read path = None \<and> quanta_ramfs_list path = None"
proof -
  have "58 \<in> set (cstr path)"
  proof (rule ccontr)
    assume "58 \<notin> set (cstr path)"
    then have "\<forall>c\<in>set (cstr path). c \<noteq> 58" by blast
    then have "takeWhile (\<lambda>c. c \<noteq> 58) (cstr path) = cstr path" by (simp only: takeWhile_eq_all_conv)
    then have "drive_end path = length (cstr path)" by (simp only: drive_end_def)
    with clean_of_valid [OF assms] show False by (simp add: known_drive_def)
  qed
  then have neq: "cstr path \<noteq> b" if "58 \<notin> set b" for b using that by auto
  have texts: "58 \<notin> set (cstr (str t))" if "t \<in> {''/etc/motd'', ''/etc/os-release'', ''/home/quanta/readme'',
      ''/bin/session'', ''/bin/echo'', ''/bin/cat'', ''/'', ''/etc'', ''/home/quanta'', ''/bin''}" for t
    using that by (auto simp: str_def)
  show ?thesis
    using neq texts by (simp add: quanta_ramfs_read_def quanta_ramfs_list_def ramfs_entries_def)
qed

theorem builtin_files_unreachable_witness:
  "quanta_ramfs_read (str ''prime:a'' @ replicate 3 0) = None \<and> quanta_ramfs_list (str ''prime:a'' @ replicate 3 0) = None"
  by (rule builtin_files_unreachable [OF demo_path_valid])

section \<open>File handles\<close>

lemma free_file_slot_spec:
  "free_file_slot fs \<le> length fs \<and> (\<forall>i<free_file_slot fs. file_active (fs ! i)) \<and>
   (free_file_slot fs < length fs \<longrightarrow> \<not> file_active (fs ! free_file_slot fs))"
proof (induction fs)
  case (Cons f fs)
  have "i < Suc (free_file_slot fs) \<Longrightarrow> file_active f \<Longrightarrow> file_active ((f # fs) ! i)" for i
    using Cons by (cases i) auto
  then show ?case using Cons by auto
qed simp

lemma copy_path_from_cstr:
  "copy_path_from index input = (True, p) \<Longrightarrow> index \<le> length (cstr input) \<Longrightarrow> p = drop index (cstr input) @ [0]"
proof (induction index input arbitrary: p rule: copy_path_from.induct)
  case (1 index input)
  show ?case
  proof (cases "index = length (cstr input)")
    case True
    then have "cat input index = 0" using cat_cstr_length by simp
    with "1.prems"(1) True show ?thesis by (subst (asm) copy_path_from.simps) (simp split: if_splits)
  next
    case False
    then have less: "index < length (cstr input)" using "1.prems"(2) by simp
    note d = drop_cstr [OF less]
    obtain ok rest where r: "copy_path_from (index + 1) input = (ok, rest)" by fastforce
    have "index + 1 < QUANTA_PATH_MAX" "ok" "p = cat input index # rest"
      using "1.prems"(1) d(2) r by (subst (asm) copy_path_from.simps; auto split: if_splits)+
    with "1.IH" [of rest] d less r show ?thesis by simp
  qed
qed

text \<open>Opening a file reports success only with a handle that was free, that afterwards names an
  active file at offset 0 whose path is the caller's string, and that is written where the caller
  asked; the other handles are as before, and closing the handle frees it again.\<close>

theorem open_gives_fresh_handle:
  assumes "length (files (this_task k)) = 16" "sys_fs_open message payload len k = (Return STATUS_OK, k')"
  shows "\<exists>handle. file_for_handle (this_task k) handle = None \<and>
    file_for_handle (this_task k') handle = Some (unat handle - 1) \<and>
    file_offset (files (this_task k') ! (unat handle - 1)) = 0 \<and>
    file_path (files (this_task k') ! (unat handle - 1)) = cstr (path_at k message) @ [0] \<and>
    (\<exists>k1. k' = user_write payload (le64 handle) k1) \<and>
    file_for_handle (this_task (snd (sys_fs_close handle k'))) handle = None"
proof -
  have status: "Return STATUS_INVALID \<noteq> Return STATUS_OK" "Return STATUS_LIMIT \<noteq> Return STATUS_OK"
    by (simp_all add: STATUS_INVALID_def STATUS_LIMIT_def STATUS_OK_def)
  let ?fs = "files (this_task k)" and ?slot = "free_file_slot (files (this_task k))"
  obtain m path where slot: "?slot \<noteq> 16" and copied: "copy_path (path_at k message) = (True, path)"
    and k': "k' = user_write payload (le64 (of_nat ?slot + 1)) (set_this ((this_task k)\<lparr>files := ?fs[?slot :=
      \<lparr>file_active = True, file_flags = ucast len, file_offset = 0, file_path = path\<rparr>]\<rparr>) (k\<lparr>mach := m\<rparr>))"
    using assms(2) status
    by (auto simp: sys_fs_open_def Let_def path_at_def user_read_def split: if_splits option.splits prod.splits)
  have s: "?slot < 16" "\<not> file_active (?fs ! ?slot)" using free_file_slot_spec [of ?fs] assms(1) slot by auto
  have h: "unat (of_nat ?slot + 1 :: u64) = Suc ?slot"
  proof -
    have "(of_nat ?slot + 1 :: u64) = of_nat (Suc ?slot)" by simp
    then have "unat (of_nat ?slot + 1 :: u64) = Suc ?slot mod 2 ^ 64" by (simp only: unat_of_nat) simp
    then show ?thesis using s(1) by simp
  qed
  then have range: "(of_nat ?slot + 1 :: u64) \<noteq> 0" "\<not> (of_nat ?slot + 1 :: u64) > 16"
    using s(1) by (auto simp: word_less_nat_alt)
  have path: "path = cstr (path_at k message) @ [0]"
    using copy_path_from_cstr [of 0 "path_at k message" path] copied by (simp add: copy_path_def)
  show ?thesis
  proof (intro exI [of _ "of_nat ?slot + 1"] conjI)
    show "file_for_handle (this_task k) (of_nat ?slot + 1) = None"
      using s h range by (simp add: file_for_handle_def)
    show f: "file_for_handle (this_task k') (of_nat ?slot + 1) = Some (unat (of_nat ?slot + 1 :: u64) - 1)"
      using s h range assms(1) by (simp add: file_for_handle_def k')
    show "file_for_handle (this_task (snd (sys_fs_close (of_nat ?slot + 1) k'))) (of_nat ?slot + 1) = None"
      using f h s(1) assms(1) range by (simp add: sys_fs_close_def) (simp add: file_for_handle_def k')
  qed (use s h assms(1) path k' in \<open>auto simp: k'\<close>)
qed

lemma demo_root_stat: "\<exists>st. quanta_qfs2_stat (str ''prime:'' @ replicate n 0) demo_volume = Some st"
proof -
  have "cstr (str ''prime:'' @ replicate n 0) = cstr (str ''prime:'')" by (cases n) (simp_all add: str_def)
  then have "find_path demo_super (str ''prime:'' @ replicate n 0) demo_volume = Some 1"
    using demo_find_root unfolding find_path_def drive_end_def by (simp only:)
  then show ?thesis by (simp add: quanta_qfs2_stat_def demo_load_super demo_inode_root)
qed

lemma demo_open: "\<exists>k'. sys_fs_open 0x400000 0x400000 1 (demo_caller (str ''prime:'')) = (Return STATUS_OK, k')"
proof -
  let ?p = "str ''prime:'' @ replicate 90 0"
  obtain st where st: "quanta_qfs2_stat ?p demo_volume = Some st" using demo_root_stat by blast
  have valid: "filesystem_path_valid demo_mount ?p"
    by (simp add: filesystem_path_valid_def demo_mount_def device_name_def str_def Let_def path_chars_valid.simps
      QUANTA_PATH_MAX_def cat_def)
  have "copy_path ?p = (True, str ''prime:'' @ [0])"
    by (simp add: copy_path_def copy_path_from.simps QUANTA_PATH_MAX_def cat_def str_def)
  moreover have "mt_provider demo_mount = Some Qfs2_Provider" by (simp add: demo_mount_def)
  moreover have "free_file_slot (files (tasks demo_kernel 0)) = 0"
    by (simp add: demo_kernel_def demo_task_def numeral_eq_Suc)
  moreover have "path_at (demo_caller (str ''prime:'')\<lparr>mach := m\<rparr>) 0x400000 = ?p" for m
    using demo_caller_path [of "str ''prime:''"] by (simp add: path_at_def user_read_def)
  ultimately show ?thesis using st valid
    by (simp add: sys_fs_open_def demo_caller_path demo_range open_stat_def OPEN_DIRECTORY_def Let_def)
qed

theorem open_gives_fresh_handle_witness:
  "\<exists>k' handle. file_for_handle (tasks demo_kernel 0) handle = None \<and>
    file_for_handle (this_task k') handle = Some (unat handle - 1) \<and>
    file_for_handle (this_task (snd (sys_fs_close handle k'))) handle = None"
proof -
  obtain k' where call: "sys_fs_open 0x400000 0x400000 1 (demo_caller (str ''prime:'')) = (Return STATUS_OK, k')"
    using demo_open by blast
  have "length (files (this_task (demo_caller (str ''prime:'')))) = 16" by (simp add: demo_kernel_def demo_task_def)
  from open_gives_fresh_handle [OF this call] show ?thesis by auto
qed

end
