(* ===== verification/Framebuffer.thy ===== *)
theory Framebuffer
  imports Prelude
begin

text \<open>
  The drawing half of \<^verbatim>\<open>kernel/arch/x86_64/tables.c\<close>: the back buffer, the primitives that
  write into it, the command list of \<^verbatim>\<open>quanta_arch_desktop_draw\<close>, and the copy to the screen.
  Both buffers are maps from byte offsets, so a write outside the buffer is a change of the map
  like any other.  The icon atlas and the wallpaper are files the build generates: they are the
  record \<open>assets\<close>.  The display adapter answers through \<open>adapter\<close>: \<open>settle\<close> gives the contents of
  its register file after a write, \<open>retrace_seen\<close> whether the retrace came in time.

  \<open>drawn d d'\<close> is the contract of every drawing operation: what it changes of the back buffer
  lies in the dirty rectangle it leaves behind, which is on the screen and only grows.
\<close>

unbundle bit_operations_syntax

section \<open>State\<close>

record assets =
  icon_atlas :: "byte list"
  wallpaper :: "byte list"

record adapter =
  settle :: "(u16 \<Rightarrow> u16) \<Rightarrow> u16 \<Rightarrow> u16"
  retrace_seen :: bool

type_synonym buffer = "u64 \<Rightarrow> byte"

record display =
  framebuffer_mapped :: bool
  scanout_mapped :: bool
  framebuffer :: buffer
  framebuffer_scanout :: buffer
  framebuffer_bytes :: u64
  framebuffer_width :: u32
  framebuffer_height :: u32
  framebuffer_pitch :: u32
  framebuffer_bytes_per_pixel :: byte
  framebuffer_format :: byte
  bga_registers :: "u16 \<Rightarrow> u16"
  bga_page_flip :: bool
  bga_front_y :: u32
  bga_flip_reported :: bool
  framebuffer_dirty :: bool
  dirty_left :: u32
  dirty_top :: u32
  dirty_right :: u32
  dirty_bottom :: u32
  unsynced_present_reported :: bool
  framebuffer_font :: "byte list"
  framebuffer_workspace_visible :: bool
  framebuffer_bytes_written :: u64
  terminal_cells :: "byte list"
  serial :: "byte list"

record draw_command =
  dc_operation :: u32
  dc_x :: u32
  dc_y :: u32
  dc_width :: u32
  dc_height :: u32
  dc_color :: u32
  dc_text_length :: u32
  dc_text :: "byte list"

definition FORMAT_BGRX8888 :: byte where [geometry]: "FORMAT_BGRX8888 = 1"
definition FORMAT_BGR888 :: byte where [geometry]: "FORMAT_BGR888 = 2"
definition FORMAT_RGBX8888 :: byte where [geometry]: "FORMAT_RGBX8888 = 3"
definition ICON_SIZE :: u32 where [geometry]: "ICON_SIZE = 24"
definition ICON_FILE :: u32 where [geometry]: "ICON_FILE = 7"
definition DRAW_MAX_COMMANDS :: u32 where [geometry]: "DRAW_MAX_COMMANDS = 32"

definition DRAW_RECT :: u32 where "DRAW_RECT = 1"
definition DRAW_TEXT :: u32 where "DRAW_TEXT = 2"
definition DRAW_TERMINAL_PROMPT :: u32 where "DRAW_TERMINAL_PROMPT = 3"
definition DRAW_WALLPAPER :: u32 where "DRAW_WALLPAPER = 4"
definition DRAW_ICON :: u32 where "DRAW_ICON = 5"
definition DRAW_ROUNDED_RECT :: u32 where "DRAW_ROUNDED_RECT = 6"

definition FRAMEBUFFER_BACKGROUND :: u32 where "FRAMEBUFFER_BACKGROUND = 0x00131a21"
definition FRAMEBUFFER_FOREGROUND :: u32 where "FRAMEBUFFER_FOREGROUND = 0x00e8edf2"
definition FRAMEBUFFER_TERMINAL_BACKGROUND :: u32 where "FRAMEBUFFER_TERMINAL_BACKGROUND = 0x0017202e"
definition FRAMEBUFFER_TERMINAL_X :: u32 where "FRAMEBUFFER_TERMINAL_X = 40"
definition FRAMEBUFFER_TERMINAL_Y :: u32 where "FRAMEBUFFER_TERMINAL_Y = 280"
definition FRAMEBUFFER_PROMPT_CYAN :: u32 where "FRAMEBUFFER_PROMPT_CYAN = 0x0000a9df"
definition FRAMEBUFFER_PROMPT_BLUE :: u32 where "FRAMEBUFFER_PROMPT_BLUE = 0x00005bd8"
definition FRAMEBUFFER_PROMPT_GREEN :: u32 where "FRAMEBUFFER_PROMPT_GREEN = 0x0000c5a8"
definition FRAMEBUFFER_PANEL_WIDTH :: u32 where "FRAMEBUFFER_PANEL_WIDTH = 72"

section \<open>Pixels\<close>

text \<open>\<^verbatim>\<open>(uint64_t)y * framebuffer_pitch + (uint64_t)x * framebuffer_bytes_per_pixel\<close>\<close>

definition pixel_at :: "display \<Rightarrow> u32 \<Rightarrow> u32 \<Rightarrow> u64" where
  "pixel_at d x y = ucast y * ucast (framebuffer_pitch d) + ucast x * ucast (framebuffer_bytes_per_pixel d)"

definition red_index :: "display \<Rightarrow> u64" where
  "red_index d = (if framebuffer_format d = FORMAT_RGBX8888 then 0 else 2)"

definition blue_index :: "display \<Rightarrow> u64" where
  "blue_index d = (if framebuffer_format d = FORMAT_RGBX8888 then 2 else 0)"

definition pad_pixel :: "display \<Rightarrow> u64 \<Rightarrow> buffer \<Rightarrow> buffer" where
  "pad_pixel d p m = (if framebuffer_bytes_per_pixel d = 4 then m(p + 3 := 0) else m)"

definition blend :: "u32 \<Rightarrow> u32 \<Rightarrow> byte \<Rightarrow> byte" where
  "blend component alpha old = ucast ((component * alpha + ucast old * (255 - alpha)) div 255)"

definition framebuffer_mark_dirty :: "u32 \<Rightarrow> u32 \<Rightarrow> u32 \<Rightarrow> u32 \<Rightarrow> display \<Rightarrow> display" where
  "framebuffer_mark_dirty left ytop width height d =
     (if width = 0 \<or> height = 0 \<or> left \<ge> framebuffer_width d \<or> ytop \<ge> framebuffer_height d then d
      else
       (let width = (if width > framebuffer_width d - left then framebuffer_width d - left else width);
            height = (if height > framebuffer_height d - ytop then framebuffer_height d - ytop else height)
        in if \<not> framebuffer_dirty d
           then d\<lparr>dirty_left := left, dirty_top := ytop, dirty_right := left + width,
                  dirty_bottom := ytop + height, framebuffer_dirty := True\<rparr>
           else d\<lparr>dirty_left := (if left < dirty_left d then left else dirty_left d),
                  dirty_top := (if ytop < dirty_top d then ytop else dirty_top d),
                  dirty_right := (if left + width > dirty_right d then left + width else dirty_right d),
                  dirty_bottom := (if ytop + height > dirty_bottom d then ytop + height else dirty_bottom d)\<rparr>))"

section \<open>Rectangles\<close>

definition fill_pixel :: "display \<Rightarrow> u32 \<Rightarrow> u32 \<Rightarrow> u64 \<Rightarrow> buffer \<Rightarrow> buffer" where
  "fill_pixel d color alpha pixel m =
     (let red = pixel + red_index d; blue = pixel + blue_index d in
      pad_pixel d pixel
       (if alpha = 255
        then m(red := ucast (drop_bit 16 color), pixel + 1 := ucast (drop_bit 8 color), blue := ucast color)
        else
         (let m1 = m(red := blend (drop_bit 16 color AND 0xff) alpha (m red));
              m2 = m1(pixel + 1 := blend (drop_bit 8 color AND 0xff) alpha (m1 (pixel + 1)))
          in m2(blue := blend (color AND 0xff) alpha (m2 blue)))))"

definition fill_alpha :: "u32 \<Rightarrow> u32" where
  "fill_alpha color = (if drop_bit 24 color = 0 then 255 else drop_bit 24 color)"

text \<open>The routine repeats the body of \<^verbatim>\<open>framebuffer_mark_dirty\<close> in line, for a rectangle it has
  clipped already; an empty rectangle still marks its corner.\<close>

definition mark_clipped :: "u32 \<Rightarrow> u32 \<Rightarrow> u32 \<Rightarrow> u32 \<Rightarrow> display \<Rightarrow> display" where
  "mark_clipped left ytop width height d =
     (if \<not> framebuffer_dirty d
      then d\<lparr>dirty_left := left, dirty_top := ytop, dirty_right := left + width,
             dirty_bottom := ytop + height, framebuffer_dirty := True\<rparr>
      else d\<lparr>dirty_left := (if left < dirty_left d then left else dirty_left d),
             dirty_top := (if ytop < dirty_top d then ytop else dirty_top d),
             dirty_right := (if left + width > dirty_right d then left + width else dirty_right d),
             dirty_bottom := (if ytop + height > dirty_bottom d then ytop + height else dirty_bottom d)\<rparr>)"

definition clip_width :: "display \<Rightarrow> u32 \<Rightarrow> u32 \<Rightarrow> u32" where
  "clip_width d left width = (if width > framebuffer_width d - left then framebuffer_width d - left else width)"

definition clip_height :: "display \<Rightarrow> u32 \<Rightarrow> u32 \<Rightarrow> u32" where
  "clip_height d ytop height = (if height > framebuffer_height d - ytop then framebuffer_height d - ytop else height)"

definition count_bytes :: "u32 \<Rightarrow> u32 \<Rightarrow> display \<Rightarrow> display" where
  "count_bytes width height d = d\<lparr>framebuffer_bytes_written := framebuffer_bytes_written d +
     ucast width * ucast height * ucast (framebuffer_bytes_per_pixel d)\<rparr>"

definition framebuffer_fill_rect :: "u32 \<Rightarrow> u32 \<Rightarrow> u32 \<Rightarrow> u32 \<Rightarrow> u32 \<Rightarrow> display \<Rightarrow> display" where
  "framebuffer_fill_rect left ytop width height color d =
     (if left \<ge> framebuffer_width d \<or> ytop \<ge> framebuffer_height d then d
      else
       (let alpha = fill_alpha color;
            width = clip_width d left width;
            height = clip_height d ytop height;
            d1 = mark_clipped left ytop width height d
        in count_bytes width height (d1\<lparr>framebuffer :=
             foldl (\<lambda>m row.
               foldl (\<lambda>m column.
                 fill_pixel d color alpha
                   (pixel_at d left (ytop + of_nat row) + of_nat column * ucast (framebuffer_bytes_per_pixel d)) m)
                 m [0..<unat width])
               (framebuffer d1) [0..<unat height]\<rparr>)))"

text \<open>The inset of one row of a rounded rectangle.  The squares are signed 32-bit products in the
  code; the words wrap where that overflows, which needs a radius above 32767.\<close>

definition edge_y :: "u32 \<Rightarrow> u32 \<Rightarrow> u32 \<Rightarrow> u32" where
  "edge_y height radius row =
     (if row < radius then radius - row - 1
      else if row \<ge> height - radius then row - (height - radius) else 0)"

definition row_inset :: "u32 \<Rightarrow> u32 \<Rightarrow> u32" where
  "row_inset radius dy =
     (if dy = 0 then 0
      else case List.find (\<lambda>candidate. sint ((radius - of_nat candidate) * (radius - of_nat candidate) + dy * dy)
               \<le> sint (radius * radius)) [0..<Suc (unat radius)] of
          None \<Rightarrow> 0
        | Some candidate \<Rightarrow> of_nat candidate)"

definition framebuffer_fill_rounded_rect :: "u32 \<Rightarrow> u32 \<Rightarrow> u32 \<Rightarrow> u32 \<Rightarrow> u32 \<Rightarrow> u32 \<Rightarrow> display \<Rightarrow> display" where
  "framebuffer_fill_rounded_rect left ytop width height radius color d =
     (if width = 0 \<or> height = 0 \<or> radius = 0 \<or> radius > width div 2 \<or> radius > height div 2 then d
      else foldl (\<lambda>d row.
        let inset = row_inset radius (edge_y height radius (of_nat row)) in
        framebuffer_fill_rect (left + inset) (ytop + of_nat row) (width - inset * 2) 1 color d)
        d [0..<unat height])"

section \<open>Icons and wallpaper\<close>

definition icon_pixel :: "display \<Rightarrow> byte list \<Rightarrow> nat \<Rightarrow> u64 \<Rightarrow> buffer \<Rightarrow> buffer" where
  "icon_pixel d atlas source destination m =
     (let alpha = ucast (atlas ! (source + 3)) :: u32 in
      if alpha = 0 then m
      else
       (let red = blend 0xdc alpha (m (destination + red_index d));
            green = blend 0xee alpha (m (destination + 1));
            blue = blend 0xff alpha (m (destination + blue_index d));
            rgbx = framebuffer_format d = FORMAT_RGBX8888
        in m(destination := (if rgbx then red else blue), destination + 1 := green,
             destination + 2 := (if rgbx then blue else red))))"

definition icon_bytes :: nat where [geometry]: "icon_bytes = 24 * 24 * 4"

definition framebuffer_draw_icon :: "assets \<Rightarrow> u32 \<Rightarrow> u32 \<Rightarrow> u32 \<Rightarrow> display \<Rightarrow> display" where
  "framebuffer_draw_icon files left ytop icon_id d =
     (if icon_id > ICON_FILE \<or> length (icon_atlas files) \<noteq> icon_bytes * 8 \<or>
        left \<ge> framebuffer_width d \<or> ytop \<ge> framebuffer_height d then d
      else
       (let width = (if framebuffer_width d - left < ICON_SIZE then framebuffer_width d - left else ICON_SIZE);
            height = (if framebuffer_height d - ytop < ICON_SIZE then framebuffer_height d - ytop else ICON_SIZE);
            d1 = framebuffer_mark_dirty left ytop width height d;
            source = unat icon_id * icon_bytes
        in d1\<lparr>framebuffer :=
             foldl (\<lambda>m y.
               foldl (\<lambda>m x.
                 icon_pixel d (icon_atlas files) (source + (y * unat width + x) * 4)
                   (pixel_at d left (ytop + of_nat y) + of_nat x * ucast (framebuffer_bytes_per_pixel d)) m)
                 m [0..<unat width])
               (framebuffer d1) [0..<unat height]\<rparr>))"

definition wallpaper_pixel :: "display \<Rightarrow> byte list \<Rightarrow> nat \<Rightarrow> u64 \<Rightarrow> buffer \<Rightarrow> buffer" where
  "wallpaper_pixel d pal source pixel m =
     (let rgbx = framebuffer_format d = FORMAT_RGBX8888 in
      pad_pixel d pixel
        (m(pixel := (if rgbx then pal ! source else pal ! (source + 2)), pixel + 1 := pal ! (source + 1),
           pixel + 2 := (if rgbx then pal ! (source + 2) else pal ! source))))"

definition framebuffer_draw_wallpaper :: "assets \<Rightarrow> u32 \<Rightarrow> u32 \<Rightarrow> u32 \<Rightarrow> u32 \<Rightarrow> display \<Rightarrow> display" where
  "framebuffer_draw_wallpaper files left0 ytop0 width0 height0 d =
     (if length (wallpaper files) \<noteq> 512 * 288 + 256 * 4 then d
      else
       (let whole = (width0 = 0 \<or> height0 = 0);
            left = (if whole then 0 else left0);
            ytop = (if whole then 0 else ytop0);
            width = (if whole then framebuffer_width d else width0);
            height = (if whole then framebuffer_height d else height0)
        in if left \<ge> framebuffer_width d \<or> ytop \<ge> framebuffer_height d then d
        else
       (let width = clip_width d left width;
            height = clip_height d ytop height;
            d1 = framebuffer_mark_dirty left ytop width height d;
            picture = wallpaper files
        in count_bytes width height (d1\<lparr>framebuffer :=
             foldl (\<lambda>m y.
               let source_y = unat y * 288 div unat (framebuffer_height d) in
               foldl (\<lambda>m x.
                 let source_x = unat x * 512 div unat (framebuffer_width d);
                     source = 512 * 288 + unat (picture ! (source_y * 512 + source_x)) * 4
                 in wallpaper_pixel d picture source (pixel_at d x y) m)
                 m (map (\<lambda>i. left + of_nat i) [0..<unat width]))
               (framebuffer d1) (map (\<lambda>i. ytop + of_nat i) [0..<unat height])\<rparr>))))"

section \<open>Text\<close>

definition glyph_pixel :: "display \<Rightarrow> u32 \<Rightarrow> u64 \<Rightarrow> buffer \<Rightarrow> buffer" where
  "glyph_pixel d color pixel m =
     pad_pixel d pixel (m(pixel := ucast color, pixel + 1 := ucast (drop_bit 8 color),
       pixel + 2 := ucast (drop_bit 16 color)))"

text \<open>One line of pixels of a glyph; \<^verbatim>\<open>0xffffffff\<close> as background leaves the pixel alone.\<close>

definition glyph_line :: "display \<Rightarrow> byte \<Rightarrow> u32 \<Rightarrow> u32 \<Rightarrow> nat \<Rightarrow> u64 \<Rightarrow> buffer \<Rightarrow> buffer" where
  "glyph_line d bits foreground background scale pixel m =
     foldl (\<lambda>m column.
       let foreground_pixel = (bits AND drop_bit column 0x80 \<noteq> 0);
           color = (if foreground_pixel then foreground else background)
       in foldl (\<lambda>m repeat_x.
            if foreground_pixel \<or> background \<noteq> 0xffffffff
            then glyph_pixel d color
              (pixel + of_nat (column * scale + repeat_x) * ucast (framebuffer_bytes_per_pixel d)) m
            else m) m [0..<scale])
       m [0..<8]"

definition framebuffer_draw_glyph_color :: "u32 \<Rightarrow> u32 \<Rightarrow> byte \<Rightarrow> u32 \<Rightarrow> u32 \<Rightarrow> u32 \<Rightarrow> display \<Rightarrow> display" where
  "framebuffer_draw_glyph_color left ytop character foreground background scale d =
     (if scale = 0 \<or> scale > 8 \<or> left + 8 * scale > framebuffer_width d \<or>
        ytop + 16 * scale > framebuffer_height d then d
      else
       (let d1 = framebuffer_mark_dirty left ytop (8 * scale) (16 * scale) d
        in d1\<lparr>framebuffer :=
             foldl (\<lambda>m row.
               let bits = framebuffer_font d ! (unat character * 16 + row) in
               foldl (\<lambda>m repeat_y.
                 glyph_line d bits foreground background (unat scale)
                   (pixel_at d left (ytop + of_nat row * scale + of_nat repeat_y)) m)
                 m [0..<unat scale])
               (framebuffer d1) [0..<16],
             framebuffer_bytes_written := framebuffer_bytes_written d1 +
               8 * 16 * ucast scale * ucast scale * ucast (framebuffer_bytes_per_pixel d)\<rparr>))"

definition framebuffer_draw_glyph :: "u32 \<Rightarrow> u32 \<Rightarrow> byte \<Rightarrow> display \<Rightarrow> display" where
  "framebuffer_draw_glyph left ytop character =
     framebuffer_draw_glyph_color left ytop character FRAMEBUFFER_FOREGROUND FRAMEBUFFER_BACKGROUND 1"

fun draw_text_from :: "u32 \<Rightarrow> u32 \<Rightarrow> u32 \<Rightarrow> u32 \<Rightarrow> u32 \<Rightarrow> byte list \<Rightarrow> display \<Rightarrow> display" where
  "draw_text_from left ytop color scale index [] d = d"
| "draw_text_from left ytop color scale index (c # rest) d =
     (if c \<noteq> 0 \<and> left + (index + 1) * 8 * scale \<le> framebuffer_width d
      then draw_text_from left ytop color scale (index + 1) rest
        (framebuffer_draw_glyph_color (left + index * 8 * scale) ytop c color 0xffffffff scale d)
      else d)"

definition framebuffer_draw_text :: "u32 \<Rightarrow> u32 \<Rightarrow> byte list \<Rightarrow> u32 \<Rightarrow> u32 \<Rightarrow> display \<Rightarrow> display" where
  "framebuffer_draw_text left ytop text color scale d =
     (if scale = 0 then d else draw_text_from left ytop color scale 0 text d)"

text \<open>The loop \<^verbatim>\<open>for (index = 0; text[index]; ++index)\<close> over a literal.\<close>

definition draw_literal :: "u32 \<Rightarrow> u32 \<Rightarrow> byte list \<Rightarrow> display \<Rightarrow> display" where
  "draw_literal left ytop text d =
     foldl (\<lambda>d index. framebuffer_draw_glyph (left + of_nat index * 8) ytop (text ! index) d) d [0..<length text]"

section \<open>The prompt of a terminal\<close>

definition prompt_dollar :: "draw_command \<Rightarrow> nat option" where
  "prompt_dollar command = List.find (\<lambda>i. dc_text command ! i = 36) [0..<unat (dc_text_length command)]"

text \<open>The prompt up to the dollar, the bracket, the input behind the dollar, and the cursor; the caller
  has chosen the scale and the corner.\<close>

definition draw_prompt_at :: "u32 \<Rightarrow> u32 \<Rightarrow> u32 \<Rightarrow> draw_command \<Rightarrow> display \<Rightarrow> display" where
  "draw_prompt_at scale x y command d =
     (let len = unat (dc_text_length command);
          stop = (case prompt_dollar command of None \<Rightarrow> len | Some i \<Rightarrow> i);
          d1 = foldl (\<lambda>d i. framebuffer_draw_glyph_color (x + of_nat i * 8 * scale) y (dc_text command ! i)
                 FRAMEBUFFER_PROMPT_CYAN FRAMEBUFFER_TERMINAL_BACKGROUND scale d) d [0..<stop];
          cursor = (if stop = 0 then len else stop);
          prompt_y = y + 16 * scale + 20;
          bracket_x = (if x > 72 then x - 72 else 12);
          bracket_height = 16 * scale + 16;
          d2 = framebuffer_draw_glyph_color (x - 24) (prompt_y + 8) 36 FRAMEBUFFER_PROMPT_BLUE
                 FRAMEBUFFER_TERMINAL_BACKGROUND scale
            (framebuffer_fill_rect bracket_x (prompt_y + bracket_height - 4) 64 4 FRAMEBUFFER_PROMPT_GREEN
            (framebuffer_fill_rect bracket_x prompt_y 64 4 FRAMEBUFFER_PROMPT_GREEN
            (framebuffer_fill_rect bracket_x prompt_y 4 bracket_height FRAMEBUFFER_PROMPT_GREEN d1)));
          input_y = prompt_y + 8;
          d3 = foldl (\<lambda>d i. framebuffer_draw_glyph_color
                   (x + 16 * scale + of_nat (i - (cursor + 1)) * (8 * scale)) input_y (dc_text command ! i)
                   FRAMEBUFFER_FOREGROUND FRAMEBUFFER_TERMINAL_BACKGROUND scale d) d2 [cursor + 1..<len];
          cursor_left = x + 16 * scale + of_nat (len - (cursor + 1)) * (8 * scale) + 8;
          cursor_width = 6 * scale;
          cursor_height = 16 * scale
      in framebuffer_fill_rect (cursor_left + cursor_width - 2) input_y 2 cursor_height FRAMEBUFFER_FOREGROUND
        (framebuffer_fill_rect cursor_left input_y 2 cursor_height FRAMEBUFFER_FOREGROUND
        (framebuffer_fill_rect cursor_left (input_y + cursor_height - 2) cursor_width 2 FRAMEBUFFER_FOREGROUND
        (framebuffer_fill_rect cursor_left input_y cursor_width 2 FRAMEBUFFER_FOREGROUND d3))))"

definition framebuffer_draw_terminal_prompt :: "draw_command \<Rightarrow> display \<Rightarrow> display" where
  "framebuffer_draw_terminal_prompt command d =
     (let fw = framebuffer_width d; fh = framebuffer_height d;
          scale0 = fw div 360;
          scale1 = (if scale0 < 2 then 2 else scale0);
          scale = (if scale1 > 6 then 6 else scale1)
      in draw_prompt_at scale (fw * 13 div 100) (fh div 5) command
        (framebuffer_fill_rect 0 (fh * 54 div 100) 10 12 FRAMEBUFFER_TERMINAL_BACKGROUND
        (framebuffer_fill_rect 0 0 10 fh 0x000477cb
        (framebuffer_fill_rect 0 0 fw fh FRAMEBUFFER_TERMINAL_BACKGROUND d))))"

section \<open>Command lists\<close>

text \<open>\<open>None\<close> is the \<^verbatim>\<open>return -1\<close> in the loop.\<close>

definition draw_text_command :: "draw_command \<Rightarrow> display \<Rightarrow> display" where
  "draw_text_command c d =
     (let scale = (if dc_height c = 0 then 1 else dc_height c)
      in foldl (\<lambda>d character. framebuffer_draw_glyph_color (dc_x c + of_nat character * 8 * scale) (dc_y c)
           (dc_text c ! character) (dc_color c) 0xffffffff scale d) d [0..<unat (dc_text_length c)])"

definition desktop_draw_one :: "assets \<Rightarrow> draw_command \<Rightarrow> display \<Rightarrow> display option" where
  "desktop_draw_one files c d =
     (if dc_operation c = DRAW_RECT then
        Some (framebuffer_fill_rect (dc_x c) (dc_y c) (dc_width c) (dc_height c) (dc_color c) d)
      else if dc_operation c = DRAW_ROUNDED_RECT then
        Some (framebuffer_fill_rounded_rect (dc_x c) (dc_y c) (dc_width c) (dc_height c) (dc_text_length c) (dc_color c) d)
      else if dc_operation c = DRAW_TEXT then
        (if dc_text_length c > 128 then None else Some (draw_text_command c d))
      else if dc_operation c = DRAW_TERMINAL_PROMPT then
        (if dc_text_length c > 128 then None else Some (framebuffer_draw_terminal_prompt c d))
      else if dc_operation c = DRAW_WALLPAPER then
        Some (framebuffer_draw_wallpaper files (dc_x c) (dc_y c) (dc_width c) (dc_height c) d)
      else if dc_operation c = DRAW_ICON then
        Some (framebuffer_draw_icon files (dc_x c) (dc_y c) (dc_color c) d)
      else None)"

fun desktop_draw_all :: "assets \<Rightarrow> draw_command list \<Rightarrow> display \<Rightarrow> bool \<times> display" where
  "desktop_draw_all files [] d = (True, d)"
| "desktop_draw_all files (c # cs) d =
     (case desktop_draw_one files c d of
        None \<Rightarrow> (False, d)
      | Some d1 \<Rightarrow> desktop_draw_all files cs d1)"

definition quanta_arch_desktop_draw :: "assets \<Rightarrow> draw_command list \<Rightarrow> display \<Rightarrow> bool \<times> display" where
  "quanta_arch_desktop_draw files commands d =
     (if \<not> framebuffer_mapped d \<or> length commands = 0 \<or> length commands > unat DRAW_MAX_COMMANDS
      then (False, d) else desktop_draw_all files commands d)"

section \<open>Presenting\<close>

text \<open>Every marker ends in a newline, which the names here leave out.\<close>

definition serial_write_marker :: "string \<Rightarrow> display \<Rightarrow> display" where
  "serial_write_marker marker d = d\<lparr>serial := serial d @ str marker @ [10]\<rparr>"

definition framebuffer_copy :: "buffer \<Rightarrow> u64 \<Rightarrow> u64 \<Rightarrow> nat \<Rightarrow> buffer \<Rightarrow> buffer" where
  "framebuffer_copy source source_offset destination_offset bytes m =
     foldl (\<lambda>m i. m(destination_offset + of_nat i := source (source_offset + of_nat i))) m [0..<bytes]"

definition framebuffer_copy_dirty :: "display \<Rightarrow> u32 \<Rightarrow> buffer" where
  "framebuffer_copy_dirty d destination_y =
     (let bpp = ucast (framebuffer_bytes_per_pixel d) :: u64;
          row_bytes = ucast (dirty_right d - dirty_left d) * bpp;
          x_offset = ucast (dirty_left d) * bpp;
          pitch = ucast (framebuffer_pitch d)
      in foldl (\<lambda>m row.
           framebuffer_copy (framebuffer d) (ucast row * pitch + x_offset)
             (ucast (destination_y + row) * pitch + x_offset) (unat row_bytes) m)
         (framebuffer_scanout d)
         (map (\<lambda>i. dirty_top d + of_nat i) [0..<unat (dirty_bottom d) - unat (dirty_top d)]))"

definition bga_write :: "adapter \<Rightarrow> u16 \<Rightarrow> u16 \<Rightarrow> display \<Rightarrow> display" where
  "bga_write hw index v d = d\<lparr>bga_registers := settle hw ((bga_registers d)(index := v))\<rparr>"

definition presented :: "display \<Rightarrow> display" where
  "presented d = d\<lparr>framebuffer_workspace_visible := True, framebuffer_dirty := False\<rparr>"

definition quanta_arch_desktop_present :: "adapter \<Rightarrow> display \<Rightarrow> bool \<times> display" where
  "quanta_arch_desktop_present hw d =
     (if \<not> framebuffer_mapped d \<or> \<not> scanout_mapped d \<or> framebuffer_bytes d = 0 then (False, d)
      else if \<not> framebuffer_dirty d then (True, d)
      else if bga_page_flip d then
       (let back_y = (if bga_front_y d = 0 then framebuffer_height d else 0);
            d1 = d\<lparr>framebuffer_scanout := framebuffer_copy_dirty d back_y\<rparr>
        in if \<not> retrace_seen hw then (False, serial_write_marker ''QUANTA_BGA_RETRACE_TIMEOUT'' d1)
           else
            (let d2 = bga_write hw 9 (ucast back_y) d1
             in if ucast (bga_registers d2 9) \<noteq> back_y then (False, d2)
                else
                 (let d3 = d2\<lparr>framebuffer_scanout := framebuffer_copy_dirty d2 (bga_front_y d2)\<rparr>;
                      d4 = d3\<lparr>bga_front_y := back_y\<rparr>;
                      d5 = (if bga_flip_reported d4 then d4
                            else (serial_write_marker ''QUANTA_BGA_PAGE_FLIP'' d4)\<lparr>bga_flip_reported := True\<rparr>)
                  in (True, presented d5))))
      else
       (let d1 = d\<lparr>framebuffer_scanout := framebuffer_copy_dirty d 0\<rparr>;
            d2 = (if unsynced_present_reported d1 then d1
                  else (serial_write_marker ''QUANTA_DISPLAY_PRESENT_UNSYNCED'' d1)\<lparr>unsynced_present_reported := True\<rparr>)
        in (True, presented d2)))"

section \<open>The contract of drawing\<close>

text \<open>The bytes of the pixels with \<open>l \<le> x < r\<close> and \<open>t \<le> y < b\<close>.\<close>

definition pixel_byte :: "display \<Rightarrow> nat \<Rightarrow> nat \<Rightarrow> nat \<Rightarrow> u64" where
  "pixel_byte d x y k = of_nat (y * unat (framebuffer_pitch d) + x * unat (framebuffer_bytes_per_pixel d) + k)"

definition area :: "display \<Rightarrow> nat \<Rightarrow> nat \<Rightarrow> nat \<Rightarrow> nat \<Rightarrow> u64 set" where
  "area d l t r b = {a. \<exists>x y k. l \<le> x \<and> x < r \<and> t \<le> y \<and> y < b \<and> k < unat (framebuffer_bytes_per_pixel d)
     \<and> a = pixel_byte d x y k}"

definition dirty_area :: "display \<Rightarrow> u64 set" where
  "dirty_area d = (if framebuffer_dirty d
     then area d (unat (dirty_left d)) (unat (dirty_top d)) (unat (dirty_right d)) (unat (dirty_bottom d)) else {})"

definition screen :: "display \<Rightarrow> u64 set" where
  "screen d = area d 0 0 (unat (framebuffer_width d)) (unat (framebuffer_height d))"

text \<open>What \<^verbatim>\<open>quanta_arch_display_initialize\<close> establishes.\<close>

definition display_ok :: "display \<Rightarrow> bool" where
  "display_ok d \<longleftrightarrow>
     (framebuffer_bytes_per_pixel d = 3 \<or> framebuffer_bytes_per_pixel d = 4) \<and>
     640 \<le> unat (framebuffer_width d) \<and> unat (framebuffer_width d) \<le> 4096 \<and>
     480 \<le> unat (framebuffer_height d) \<and> unat (framebuffer_height d) \<le> 2160 \<and>
     unat (framebuffer_width d) * unat (framebuffer_bytes_per_pixel d) \<le> unat (framebuffer_pitch d) \<and>
     unat (framebuffer_pitch d) * unat (framebuffer_height d) \<le> unat (framebuffer_bytes d) \<and>
     unat (framebuffer_bytes d) \<le> 0x1000000 \<and>
     (framebuffer_dirty d \<longrightarrow>
        dirty_left d \<le> dirty_right d \<and> dirty_right d \<le> framebuffer_width d \<and>
        dirty_top d \<le> dirty_bottom d \<and> dirty_bottom d \<le> framebuffer_height d)"

definition geometry_of :: "display \<Rightarrow> _" where
  "geometry_of d = (framebuffer_mapped d, scanout_mapped d, framebuffer_scanout d, framebuffer_bytes d,
     framebuffer_width d, framebuffer_height d, framebuffer_pitch d, framebuffer_bytes_per_pixel d,
     framebuffer_format d, bga_registers d, bga_page_flip d, bga_front_y d, framebuffer_font d)"

definition drawn :: "display \<Rightarrow> display \<Rightarrow> bool" where
  "drawn d d' \<longleftrightarrow>
     (display_ok d \<longrightarrow> geometry_of d' = geometry_of d \<and> display_ok d' \<and> dirty_area d \<subseteq> dirty_area d' \<and>
        (\<forall>a. a \<notin> dirty_area d' \<longrightarrow> framebuffer d' a = framebuffer d a))"

named_theorems drawing "operations that keep the contract of drawing"

lemma drawn_refl [drawing]: "drawn d d"
  by (simp add: drawn_def)

lemma drawn_trans: "drawn d d1 \<Longrightarrow> drawn d1 d2 \<Longrightarrow> drawn d d2"
  unfolding drawn_def by (intro impI) (metis subset_iff)

lemma drawn_foldl: "(\<And>d x. x \<in> set xs \<Longrightarrow> drawn d (f d x)) \<Longrightarrow> drawn d (foldl f d xs)"
proof (induction xs arbitrary: d)
  case (Cons x xs)
  have "drawn d (f d x)" using Cons.prems by simp
  moreover have "drawn (f d x) (foldl f (f d x) xs)" using Cons by simp
  ultimately show ?case using drawn_trans by simp
qed (simp add: drawn_refl)

lemma area_cong: "framebuffer_pitch d' = framebuffer_pitch d \<Longrightarrow>
    framebuffer_bytes_per_pixel d' = framebuffer_bytes_per_pixel d \<Longrightarrow> area d' = area d"
  by (simp add: area_def pixel_byte_def fun_eq_iff)

lemma areaI:
  assumes "l \<le> x" "x < r" "t \<le> y" "y < b" "k < unat (framebuffer_bytes_per_pixel d)"
  shows "pixel_byte d x y k \<in> area d l t r b"
  using assms unfolding area_def by blast

lemma areaE:
  assumes "a \<in> area d l t r b"
  obtains x y k where "l \<le> x" "x < r" "t \<le> y" "y < b" "k < unat (framebuffer_bytes_per_pixel d)"
    "a = pixel_byte d x y k"
  using assms unfolding area_def by blast

lemma area_mono: "l' \<le> l \<Longrightarrow> t' \<le> t \<Longrightarrow> r \<le> r' \<Longrightarrow> b \<le> b' \<Longrightarrow> area d l t r b \<subseteq> area d l' t' r' b'"
  by (auto elim!: areaE intro!: areaI)

text \<open>Everything on the screen lies in the buffer.\<close>

lemma pixel_inside:
  assumes "display_ok d" "x < unat (framebuffer_width d)" "y < unat (framebuffer_height d)"
    "k < unat (framebuffer_bytes_per_pixel d)"
  shows "y * unat (framebuffer_pitch d) + x * unat (framebuffer_bytes_per_pixel d) + k < unat (framebuffer_bytes d)"
proof -
  let ?p = "unat (framebuffer_pitch d)" and ?n = "unat (framebuffer_bytes_per_pixel d)"
  have "Suc x * ?n \<le> unat (framebuffer_width d) * ?n" using assms(2) by (intro mult_le_mono1) simp
  then have "x * ?n + k < ?p" using assms(1,4) by (simp add: display_ok_def)
  moreover have "Suc y * ?p \<le> unat (framebuffer_height d) * ?p" using assms(3) by (intro mult_le_mono1) simp
  moreover have "unat (framebuffer_height d) * ?p \<le> unat (framebuffer_bytes d)"
    using assms(1) by (simp add: display_ok_def mult.commute)
  ultimately show ?thesis by simp
qed

lemma unat_pixel_byte:
  assumes "display_ok d" "x < unat (framebuffer_width d)" "y < unat (framebuffer_height d)"
    "k < unat (framebuffer_bytes_per_pixel d)"
  shows "unat (pixel_byte d x y k) = y * unat (framebuffer_pitch d) + x * unat (framebuffer_bytes_per_pixel d) + k"
proof -
  have "unat (framebuffer_bytes d) \<le> 0x1000000" using assms(1) by (simp add: display_ok_def)
  with pixel_inside [OF assms] show ?thesis by (simp only: pixel_byte_def unat_of_nat) simp
qed

lemma screen_inside: "display_ok d \<Longrightarrow> a \<in> screen d \<Longrightarrow> a < framebuffer_bytes d"
  by (auto simp add: screen_def area_def word_less_nat_alt unat_pixel_byte intro: pixel_inside)

lemma dirty_on_screen: "display_ok d \<Longrightarrow> dirty_area d \<subseteq> screen d"
proof (cases "framebuffer_dirty d")
  case True
  assume "display_ok d"
  with True have "unat (dirty_right d) \<le> unat (framebuffer_width d)" "unat (dirty_bottom d) \<le> unat (framebuffer_height d)"
    by (simp_all add: display_ok_def word_le_nat_alt)
  with True show ?thesis by (simp add: dirty_area_def screen_def area_mono)
qed (simp add: dirty_area_def)


lemma ucast_of_nat_word: "(ucast w :: 'b::len word) = of_nat (unat (w :: 'a::len word))"
  by simp

lemma unat_plus_le:
  assumes "unat (a :: u32) + n \<le> N" "N < 2 ^ 32"
  shows "unat (a + of_nat n) = unat a + n"
proof -
  have "n < 2 ^ 32" using assms by linarith
  then have "unat (of_nat n :: u32) = n" by (simp add: unat_of_nat)
  then show ?thesis using assms by (simp add: unat_word_ariths)
qed

lemma pixel_byte_eq:
  assumes "unat ytop + row \<le> N" "N < 2 ^ 32"
  shows "pixel_at d left (ytop + of_nat row) + of_nat column * ucast (framebuffer_bytes_per_pixel d) + of_nat k =
    pixel_byte d (unat left + column) (unat ytop + row) k"
proof -
  have "(ucast (ytop + of_nat row) :: u64) = of_nat (unat ytop + row)"
    using unat_plus_le [OF assms] by (simp only: ucast_of_nat_word)
  then show ?thesis
    by (simp only: pixel_at_def pixel_byte_def ucast_of_nat_word of_nat_add of_nat_mult) (simp add: algebra_simps)
qed

text \<open>Writing one pixel changes its bytes only.\<close>

definition pixel_only :: "display \<Rightarrow> u64 \<Rightarrow> (buffer \<Rightarrow> buffer) \<Rightarrow> bool" where
  "pixel_only d p f \<longleftrightarrow> (\<forall>m a. f m a \<noteq> m a \<longrightarrow> (\<exists>k<unat (framebuffer_bytes_per_pixel d). a = p + of_nat k))"

lemma pixel_onlyI:
  assumes "display_ok d" "\<And>m a. a \<noteq> p \<Longrightarrow> a \<noteq> p + 1 \<Longrightarrow> a \<noteq> p + 2 \<Longrightarrow>
    framebuffer_bytes_per_pixel d = 4 \<longrightarrow> a \<noteq> p + 3 \<Longrightarrow> f m a = m a"
  shows "pixel_only d p f"
  unfolding pixel_only_def
proof (intro allI impI)
  fix m a assume n: "f m a \<noteq> m a"
  let ?n = "unat (framebuffer_bytes_per_pixel d)"
  have b: "3 \<le> ?n" "framebuffer_bytes_per_pixel d = 4 \<Longrightarrow> ?n = 4" using assms(1) by (auto simp: display_ok_def)
  from assms(2) [of a m] n consider "a = p" | "a = p + 1" | "a = p + 2" | "framebuffer_bytes_per_pixel d = 4" "a = p + 3"
    by blast
  then show "\<exists>k<?n. a = p + of_nat k"
  proof cases
    case 1 then show ?thesis using b by (intro exI [of _ 0]) simp
  next
    case 2 then show ?thesis using b by (intro exI [of _ 1]) simp
  next
    case 3 then show ?thesis using b by (intro exI [of _ 2]) simp
  next
    case 4 then show ?thesis using b by (intro exI [of _ 3]) simp
  qed
qed

lemma fill_pixel_only: "display_ok d \<Longrightarrow> pixel_only d p (fill_pixel d color alpha p)"
  by (rule pixel_onlyI) (auto simp: fill_pixel_def pad_pixel_def red_index_def blue_index_def Let_def)

lemma icon_pixel_only: "display_ok d \<Longrightarrow> pixel_only d p (icon_pixel d atlas source p)"
  by (rule pixel_onlyI) (auto simp: icon_pixel_def Let_def)

lemma wallpaper_pixel_only: "display_ok d \<Longrightarrow> pixel_only d p (wallpaper_pixel d pal source p)"
  by (rule pixel_onlyI) (auto simp: wallpaper_pixel_def pad_pixel_def Let_def)

lemma glyph_pixel_only: "display_ok d \<Longrightarrow> pixel_only d p (glyph_pixel d color p)"
  by (rule pixel_onlyI) (auto simp: glyph_pixel_def pad_pixel_def)

text \<open>A buffer operation that stays inside a set of bytes.\<close>

definition within :: "u64 set \<Rightarrow> (buffer \<Rightarrow> buffer) \<Rightarrow> bool" where
  "within A f \<longleftrightarrow> (\<forall>m a. a \<notin> A \<longrightarrow> f m a = m a)"

lemma within_foldl:
  assumes "\<And>x. x \<in> set xs \<Longrightarrow> within A (\<lambda>m. f m x)"
  shows "within A (\<lambda>m. foldl f m xs)"
  using assms
proof (induction xs)
  case (Cons x xs)
  have "within A (\<lambda>m. f m x)" "within A (\<lambda>m. foldl f m xs)" using Cons by simp_all
  then show ?case by (simp add: within_def)
qed (simp add: within_def)

lemma within_pixel:
  assumes "pixel_only d (pixel_at d left (ytop + of_nat row) + of_nat column * ucast (framebuffer_bytes_per_pixel d)) f"
    "unat ytop + row < b" "unat left + column < r" "l \<le> unat left" "t \<le> unat ytop" "b \<le> 2 ^ 16"
  shows "within (area d l t r b) f"
  unfolding within_def
proof (intro allI impI, rule ccontr)
  fix m a assume a: "a \<notin> area d l t r b" "f m a \<noteq> m a"
  then obtain k where k: "k < unat (framebuffer_bytes_per_pixel d)"
    "a = pixel_at d left (ytop + of_nat row) + of_nat column * ucast (framebuffer_bytes_per_pixel d) + of_nat k"
    using assms(1) unfolding pixel_only_def by blast
  have "a = pixel_byte d (unat left + column) (unat ytop + row) k"
    unfolding k(2) by (rule pixel_byte_eq [of _ _ "2 ^ 16"]) (use assms in simp_all)
  then show False using a(1) k(1) assms areaI by (metis trans_le_add1)
qed

text \<open>Marking.\<close>

lemma mark_dirty_clipped:
  "framebuffer_mark_dirty left ytop width height d =
     (if width = 0 \<or> height = 0 \<or> left \<ge> framebuffer_width d \<or> ytop \<ge> framebuffer_height d then d
      else mark_clipped left ytop (clip_width d left width) (clip_height d ytop height) d)"
  by (simp add: framebuffer_mark_dirty_def mark_clipped_def clip_width_def clip_height_def Let_def)

lemma clip_bounds:
  assumes "left < framebuffer_width d"
  shows "unat left + unat (clip_width d left width) \<le> unat (framebuffer_width d)"
  using assms by (auto simp: clip_width_def unat_sub word_le_nat_alt word_less_nat_alt not_less)

lemma clip_height_bounds:
  assumes "ytop < framebuffer_height d"
  shows "unat ytop + unat (clip_height d ytop height) \<le> unat (framebuffer_height d)"
  using assms by (auto simp: clip_height_def unat_sub word_le_nat_alt word_less_nat_alt not_less)

lemma mark_clipped_fields [simp]:
  "geometry_of (mark_clipped left ytop width height d) = geometry_of d"
  "framebuffer (mark_clipped left ytop width height d) = framebuffer d"
  "framebuffer_dirty (mark_clipped left ytop width height d)"
  by (simp_all add: mark_clipped_def geometry_of_def)

lemma geometry_cong:
  assumes "geometry_of d' = geometry_of d"
  shows "area d' = area d" "framebuffer_width d' = framebuffer_width d" "framebuffer_height d' = framebuffer_height d"
    "framebuffer_bytes d' = framebuffer_bytes d" "screen d' = screen d"
proof -
  have "framebuffer_pitch d' = framebuffer_pitch d"
    "framebuffer_bytes_per_pixel d' = framebuffer_bytes_per_pixel d"
    and w: "framebuffer_width d' = framebuffer_width d" "framebuffer_height d' = framebuffer_height d"
    and b: "framebuffer_bytes d' = framebuffer_bytes d"
    using assms by (simp_all add: geometry_of_def)
  from area_cong [OF this(1,2)] show "area d' = area d" .
  then show "screen d' = screen d" by (simp only: screen_def w)
qed (use assms in \<open>simp_all add: geometry_of_def\<close>)

lemma unat_sum_bound:
  assumes "unat (a :: u32) + unat b \<le> N" "N < 2 ^ 32"
  shows "unat (a + b) = unat a + unat b"
  using unat_plus_le [of a "unat b" N] assms by simp

lemma unat_min_if: "unat (if a < b then a else (b :: u32)) = min (unat a) (unat b)"
  by (simp add: min_def word_less_nat_alt)

lemma unat_max_if: "unat (if a > b then a else (b :: u32)) = max (unat a) (unat b)"
  by (simp add: max_def word_less_nat_alt)

lemma mark_clipped_ok:
  assumes ok: "display_ok d" and x: "unat left + unat width \<le> unat (framebuffer_width d)"
    and y: "unat ytop + unat height \<le> unat (framebuffer_height d)"
  defines "d1 \<equiv> mark_clipped left ytop width height d"
  shows "display_ok d1" "dirty_area d \<subseteq> dirty_area d1"
    "area d (unat left) (unat ytop) (unat left + unat width) (unat ytop + unat height) \<subseteq> dirty_area d1"
proof -
  have w: "unat (left + width) = unat left + unat width"
    using ok x by (intro unat_sum_bound [of _ _ 4096]) (simp_all add: display_ok_def)
  have h: "unat (ytop + height) = unat ytop + unat height"
    using ok y by (intro unat_sum_bound [of _ _ 4096]) (simp_all add: display_ok_def)
  have g: "geometry_of d1 = geometry_of d" and fd: "framebuffer_dirty d1" by (simp_all add: d1_def)
  have box: "unat (dirty_left d1) = (if framebuffer_dirty d then min (unat left) (unat (dirty_left d)) else unat left)"
    "unat (dirty_top d1) = (if framebuffer_dirty d then min (unat ytop) (unat (dirty_top d)) else unat ytop)"
    "unat (dirty_right d1) = (if framebuffer_dirty d then max (unat left + unat width) (unat (dirty_right d)) else unat left + unat width)"
    "unat (dirty_bottom d1) = (if framebuffer_dirty d then max (unat ytop + unat height) (unat (dirty_bottom d)) else unat ytop + unat height)"
    by (simp_all add: d1_def mark_clipped_def unat_min_if unat_max_if w h)
  have ord: "framebuffer_dirty d \<Longrightarrow> unat (dirty_left d) \<le> unat (dirty_right d)"
    "framebuffer_dirty d \<Longrightarrow> unat (dirty_right d) \<le> unat (framebuffer_width d)"
    "framebuffer_dirty d \<Longrightarrow> unat (dirty_top d) \<le> unat (dirty_bottom d)"
    "framebuffer_dirty d \<Longrightarrow> unat (dirty_bottom d) \<le> unat (framebuffer_height d)"
    using ok by (simp_all add: display_ok_def word_le_nat_alt)
  have f: "framebuffer_bytes_per_pixel d1 = framebuffer_bytes_per_pixel d" "framebuffer_pitch d1 = framebuffer_pitch d"
    "framebuffer_bytes d1 = framebuffer_bytes d" "framebuffer_width d1 = framebuffer_width d"
    "framebuffer_height d1 = framebuffer_height d"
    using g by (simp_all add: geometry_of_def)
  show "display_ok d1"
    using ok ord x y unfolding display_ok_def word_le_nat_alt f box
    by (cases "framebuffer_dirty d") (simp_all add: min_le_iff_disj le_max_iff_disj)
  have a: "area d1 = area d" by (rule geometry_cong [OF g])
  show "dirty_area d \<subseteq> dirty_area d1"
    unfolding dirty_area_def a box using fd by (simp add: area_mono)
  show "area d (unat left) (unat ytop) (unat left + unat width) (unat ytop + unat height) \<subseteq> dirty_area d1"
    unfolding dirty_area_def a box using fd by (simp add: area_mono)
qed

text \<open>The pattern of every primitive: clip, mark, paint inside the clipped rectangle.\<close>

lemma drawn_paint:
  assumes x: "display_ok d \<Longrightarrow> unat left + unat width \<le> unat (framebuffer_width d)"
    and y: "display_ok d \<Longrightarrow> unat ytop + unat height \<le> unat (framebuffer_height d)"
    and p: "display_ok d \<Longrightarrow>
      within (area d (unat left) (unat ytop) (unat left + unat width) (unat ytop + unat height)) f"
    and d1: "d1 = mark_clipped left ytop width height d"
    and g: "geometry_of d' = geometry_of d1" and fb: "framebuffer d' = f (framebuffer d)"
    and same: "framebuffer_dirty d' = framebuffer_dirty d1" "dirty_left d' = dirty_left d1"
      "dirty_top d' = dirty_top d1" "dirty_right d' = dirty_right d1" "dirty_bottom d' = dirty_bottom d1"
  shows "drawn d d'"
  unfolding drawn_def
proof (intro conjI impI allI)
  assume ok: "display_ok d"
  show "geometry_of d' = geometry_of d" using g d1 by simp
  note m = mark_clipped_ok [OF ok x [OF ok] y [OF ok], folded d1]
  have "framebuffer_width d' = framebuffer_width d1" "framebuffer_height d' = framebuffer_height d1"
    "framebuffer_pitch d' = framebuffer_pitch d1" "framebuffer_bytes d' = framebuffer_bytes d1"
    "framebuffer_bytes_per_pixel d' = framebuffer_bytes_per_pixel d1"
    using g by (simp_all add: geometry_of_def)
  then show "display_ok d'" using m(1) by (simp add: display_ok_def same)
  have da: "dirty_area d' = dirty_area d1" using geometry_cong(1) [OF g] by (simp add: dirty_area_def same)
  show "dirty_area d \<subseteq> dirty_area d'" unfolding da by (rule m(2))
  fix a assume "a \<notin> dirty_area d'"
  then show "framebuffer d' a = framebuffer d a" using p [OF ok] m(3) unfolding da fb within_def by blast
qed

lemma painted_rows:
  assumes ok: "display_ok d" and y: "unat ytop + height \<le> unat (framebuffer_height d)"
    and pix: "\<And>row column. row < height \<Longrightarrow> column < width \<Longrightarrow>
      pixel_only d (pixel_at d left (ytop + of_nat row) + of_nat column * ucast (framebuffer_bytes_per_pixel d))
        (\<lambda>m. f m row column)"
  shows "within (area d (unat left) (unat ytop) (unat left + width) (unat ytop + height))
    (\<lambda>m. foldl (\<lambda>m row. foldl (\<lambda>m column. f m row column) m [0..<width]) m [0..<height])"
proof (intro within_foldl)
  fix row column assume "row \<in> set [0..<height]" "column \<in> set [0..<width]"
  then show "within (area d (unat left) (unat ytop) (unat left + width) (unat ytop + height)) (\<lambda>m. f m row column)"
    using ok y by (intro within_pixel [OF pix]) (simp_all add: display_ok_def)
qed

lemma fill_rect_drawn [drawing]: "drawn d (framebuffer_fill_rect left ytop width height color d)"
proof (cases "left \<ge> framebuffer_width d \<or> ytop \<ge> framebuffer_height d")
  case False
  then have c: "left < framebuffer_width d" "ytop < framebuffer_height d" by (simp_all add: not_le)
  show ?thesis
  proof (rule drawn_paint [OF clip_bounds [OF c(1)] clip_height_bounds [OF c(2)]], rule painted_rows)
    show "framebuffer (framebuffer_fill_rect left ytop width height color d) = (\<lambda>m.
        foldl (\<lambda>m row. foldl (\<lambda>m column. fill_pixel d color (fill_alpha color)
          (pixel_at d left (ytop + of_nat row) + of_nat column * ucast (framebuffer_bytes_per_pixel d)) m)
          m [0..<unat (clip_width d left width)]) m [0..<unat (clip_height d ytop height)]) (framebuffer d)"
      using False by (simp add: framebuffer_fill_rect_def Let_def count_bytes_def)
  qed (use False in \<open>simp_all add: framebuffer_fill_rect_def Let_def count_bytes_def geometry_of_def fill_pixel_only
      clip_height_bounds [OF c(2)]\<close>)
qed (simp add: framebuffer_fill_rect_def drawn_refl)

lemma drawnI: "(display_ok d \<Longrightarrow> drawn d d') \<Longrightarrow> drawn d d'"
  by (auto simp: drawn_def)

lemma rounded_rect_drawn [drawing]: "drawn d (framebuffer_fill_rounded_rect left ytop width height radius color d)"
  by (simp add: framebuffer_fill_rounded_rect_def Let_def drawn_foldl drawing)

lemma mark_dirty_exact:
  assumes "left < framebuffer_width d" "ytop < framebuffer_height d" "width \<noteq> 0" "height \<noteq> 0"
    "width \<le> framebuffer_width d - left" "height \<le> framebuffer_height d - ytop"
  shows "framebuffer_mark_dirty left ytop width height d = mark_clipped left ytop width height d"
  using assms by (auto simp: mark_dirty_clipped clip_width_def clip_height_def not_less)

lemma room_nat:
  assumes "(left :: u32) < total_width" "width \<le> total_width - left"
  shows "unat left + unat width \<le> unat total_width"
  using assms by (simp add: unat_sub word_le_nat_alt word_less_nat_alt)

lemma draw_icon_drawn [drawing]: "drawn d (framebuffer_draw_icon files left ytop icon_id d)"
proof (cases "icon_id > ICON_FILE \<or> length (icon_atlas files) \<noteq> icon_bytes * 8 \<or>
    left \<ge> framebuffer_width d \<or> ytop \<ge> framebuffer_height d")
  case False
  then have c: "left < framebuffer_width d" "ytop < framebuffer_height d" by (simp_all add: not_le)
  define width where "width = (if framebuffer_width d - left < ICON_SIZE then framebuffer_width d - left else ICON_SIZE)"
  define height where "height = (if framebuffer_height d - ytop < ICON_SIZE then framebuffer_height d - ytop else ICON_SIZE)"
  have w: "width \<noteq> 0" "width \<le> framebuffer_width d - left" "height \<noteq> 0" "height \<le> framebuffer_height d - ytop"
    using c by (auto simp: width_def height_def ICON_SIZE_def)
  have m: "framebuffer_mark_dirty left ytop width height d = mark_clipped left ytop width height d"
    by (rule mark_dirty_exact [OF c w(1,3,2,4)])
  show ?thesis
  proof (rule drawn_paint [OF room_nat [OF c(1) w(2)] room_nat [OF c(2) w(4)]], rule painted_rows)
    show "framebuffer (framebuffer_draw_icon files left ytop icon_id d) = (\<lambda>m.
        foldl (\<lambda>m y. foldl (\<lambda>m x. icon_pixel d (icon_atlas files) (unat icon_id * icon_bytes + (y * unat width + x) * 4)
            (pixel_at d left (ytop + of_nat y) + of_nat x * ucast (framebuffer_bytes_per_pixel d)) m)
          m [0..<unat width]) m [0..<unat height]) (framebuffer d)"
      using False m unfolding framebuffer_draw_icon_def width_def height_def Let_def by simp
    show "unat ytop + unat height \<le> unat (framebuffer_height d)" by (rule room_nat [OF c(2) w(4)])
  qed (use False m in \<open>simp_all add: framebuffer_draw_icon_def Let_def geometry_of_def icon_pixel_only
      flip: width_def height_def\<close>)
qed (auto simp add: framebuffer_draw_icon_def drawn_refl)

lemma pixel_at_column:
  assumes "unat left + column \<le> N" "N < 2 ^ 32"
  shows "pixel_at d (left + of_nat column) y = pixel_at d left y + of_nat column * ucast (framebuffer_bytes_per_pixel d)"
proof -
  have "(ucast (left + of_nat column) :: u64) = of_nat (unat left + column)"
    using unat_plus_le [OF assms] by (simp only: ucast_of_nat_word)
  then show ?thesis by (simp only: pixel_at_def ucast_of_nat_word of_nat_add) (simp add: algebra_simps)
qed

lemma nested_index:
  assumes "i < k" "j < n"
  shows "i * n + j < k * (n :: nat)"
proof -
  have "Suc i * n \<le> k * n" using assms(1) by (intro mult_le_mono1) simp
  then have "n + i * n \<le> k * n" by (simp only: mult_Suc)
  then show ?thesis using assms(2) by linarith
qed

text \<open>A glyph whose corner is not within 256 of the end of the coordinates.\<close>

lemma glyph_line_within:
  assumes "display_ok d" "unat ytop + row < b" "unat left + 8 * scale \<le> r" "l \<le> unat left" "t \<le> unat ytop" "b \<le> 2 ^ 16"
  shows "within (area d l t r b) (glyph_line d bits foreground background scale (pixel_at d left (ytop + of_nat row)))"
  unfolding glyph_line_def Let_def
proof (intro within_foldl)
  fix column repeat_x assume r: "column \<in> set [0..<8]" "repeat_x \<in> set [0..<scale]"
  then have "column * scale + repeat_x < 8 * scale" by (intro nested_index) simp_all
  with assms show "within (area d l t r b) (\<lambda>m. if bits AND drop_bit column 0x80 \<noteq> 0 \<or> background \<noteq> 0xffffffff
      then glyph_pixel d (if bits AND drop_bit column 0x80 \<noteq> 0 then foreground else background)
        (pixel_at d left (ytop + of_nat row) + of_nat (column * scale + repeat_x) * ucast (framebuffer_bytes_per_pixel d)) m
      else m)"
    using within_pixel [OF glyph_pixel_only [OF assms(1)], where left = left and ytop = ytop
        and row = row and column = "column * scale + repeat_x" and b = b and r = r and l = l and t = t]
    by (auto simp: within_def simp del: of_nat_add of_nat_mult)
qed

lemma scaled_nat:
  assumes "(scale :: u32) \<le> 8"
  shows "unat (8 * scale) = 8 * unat scale" "unat (16 * scale) = 16 * unat scale"
  using assms by (simp_all add: word_le_nat_alt unat_word_ariths)

lemma glyph_drawn [drawing]:
  assumes "left \<le> 0xffffff00" "ytop \<le> 0xffffff00"
  shows "drawn d (framebuffer_draw_glyph_color left ytop character foreground background scale d)"
proof (cases "scale = 0 \<or> scale > 8 \<or> left + 8 * scale > framebuffer_width d \<or> ytop + 16 * scale > framebuffer_height d")
  case False
  then have s: "scale \<noteq> 0" "scale \<le> 8" and g: "left + 8 * scale \<le> framebuffer_width d" "ytop + 16 * scale \<le> framebuffer_height d"
    by (simp_all add: not_less)
  note n = scaled_nat [OF s(2)]
  have s8: "unat scale \<le> 8" "0 < unat scale" using s by (simp_all add: word_le_nat_alt unat_gt_0)
  have "unat left + unat (8 * scale) \<le> 0xffffff00 + 64" "unat ytop + unat (16 * scale) \<le> 0xffffff00 + 128"
    using assms s8 n by (simp_all add: word_le_nat_alt)
  then have nn: "unat (left + 8 * scale) = unat left + 8 * unat scale" "unat (ytop + 16 * scale) = unat ytop + 16 * unat scale"
    unfolding n [symmetric] by (auto intro!: unat_sum_bound)
  have room: "unat left + 8 * unat scale \<le> unat (framebuffer_width d)" "unat ytop + 16 * unat scale \<le> unat (framebuffer_height d)"
    using g nn by (simp_all add: word_le_nat_alt)
  then have c: "left < framebuffer_width d" "ytop < framebuffer_height d" using s8 by (simp_all add: word_less_nat_alt)
  have "8 * scale \<le> framebuffer_width d - left" "16 * scale \<le> framebuffer_height d - ytop"
    using room c n by (simp_all add: word_le_nat_alt unat_sub word_less_nat_alt)
  moreover have "8 * scale \<noteq> 0" "16 * scale \<noteq> 0" using n s8 by (metis mult_is_0 neq0_conv unat_0 zero_neq_numeral)+
  ultimately have m: "framebuffer_mark_dirty left ytop (8 * scale) (16 * scale) d = mark_clipped left ytop (8 * scale) (16 * scale) d"
    using c by (intro mark_dirty_exact)
  let ?f = "\<lambda>m. foldl (\<lambda>m row. foldl (\<lambda>m repeat_y.
      glyph_line d (framebuffer_font d ! (unat character * 16 + row)) foreground background (unat scale)
        (pixel_at d left (ytop + of_nat row * scale + of_nat repeat_y)) m) m [0..<unat scale]) m [0..<16]"
  show ?thesis
  proof (rule drawn_paint [where f = ?f and width = "8 * scale" and height = "16 * scale"])
    assume ok: "display_ok d"
    show "within (area d (unat left) (unat ytop) (unat left + unat (8 * scale)) (unat ytop + unat (16 * scale))) ?f"
    proof (intro within_foldl)
      fix row repeat_y assume r: "row \<in> set [0..<16]" "repeat_y \<in> set [0..<unat scale]"
      have e: "of_nat row * scale + of_nat repeat_y = (of_nat (row * unat scale + repeat_y) :: u32)" by simp
      have lt: "row * unat scale + repeat_y < 16 * unat scale" using r by (intro nested_index) simp_all
      have "unat (framebuffer_height d) \<le> 2160" using ok by (simp add: display_ok_def)
      with lt room have "within (area d (unat left) (unat ytop) (unat left + unat (8 * scale)) (unat ytop + unat (16 * scale)))
          (glyph_line d (framebuffer_font d ! (unat character * 16 + row)) foreground background (unat scale)
            (pixel_at d left (ytop + of_nat (row * unat scale + repeat_y))))"
        unfolding n by (intro glyph_line_within [OF ok]) simp_all
      then show "within (area d (unat left) (unat ytop) (unat left + unat (8 * scale)) (unat ytop + unat (16 * scale)))
          (\<lambda>m. glyph_line d (framebuffer_font d ! (unat character * 16 + row)) foreground background (unat scale)
            (pixel_at d left (ytop + of_nat row * scale + of_nat repeat_y)) m)"
        unfolding e [symmetric] by (simp add: add.assoc)
    qed
  qed (use False m room n in \<open>simp_all add: framebuffer_draw_glyph_color_def Let_def geometry_of_def\<close>)
qed (auto simp add: framebuffer_draw_glyph_color_def drawn_refl)

lemma draw_wallpaper_drawn [drawing]: "drawn d (framebuffer_draw_wallpaper files left0 ytop0 width0 height0 d)"
proof (rule drawnI)
  assume ok: "display_ok d"
  define whole where "whole = (width0 = 0 \<or> height0 = 0)"
  define left where "left = (if whole then 0 else left0)"
  define ytop where "ytop = (if whole then 0 else ytop0)"
  define width where "width = clip_width d left (if whole then framebuffer_width d else width0)"
  define height where "height = clip_height d ytop (if whole then framebuffer_height d else height0)"
  note defs = whole_def left_def ytop_def width_def height_def
  show "drawn d (framebuffer_draw_wallpaper files left0 ytop0 width0 height0 d)"
  proof (cases "length (wallpaper files) \<noteq> 512 * 288 + 256 * 4 \<or> left \<ge> framebuffer_width d \<or> ytop \<ge> framebuffer_height d")
    case True
    then have "framebuffer_draw_wallpaper files left0 ytop0 width0 height0 d = d"
      unfolding framebuffer_draw_wallpaper_def defs Let_def by auto
    then show ?thesis by (simp add: drawn_refl)
  next
    case False
    then have c: "left < framebuffer_width d" "ytop < framebuffer_height d" by (simp_all add: not_le)
    have big: "framebuffer_width d \<noteq> 0" "framebuffer_height d \<noteq> 0" using ok by (auto simp: display_ok_def)
    have w: "width \<noteq> 0" "height \<noteq> 0" "width \<le> framebuffer_width d - left" "height \<le> framebuffer_height d - ytop"
      using c big by (auto simp: width_def height_def clip_width_def clip_height_def whole_def not_less)
    have m: "framebuffer_mark_dirty left ytop width height d = mark_clipped left ytop width height d"
      using c w by (intro mark_dirty_exact)
    note room = room_nat [OF c(1) w(3)] room_nat [OF c(2) w(4)]
    let ?pix = "\<lambda>y x m. wallpaper_pixel d (wallpaper files)
       (512 * 288 + unat (wallpaper files ! (unat y * 288 div unat (framebuffer_height d) * 512 +
          unat x * 512 div unat (framebuffer_width d))) * 4) (pixel_at d x y) m"
    let ?f = "\<lambda>m. foldl (\<lambda>m y. foldl (\<lambda>m x. ?pix y x m) m (map (\<lambda>i. left + of_nat i) [0..<unat width]))
        m (map (\<lambda>i. ytop + of_nat i) [0..<unat height])"
    have e: "framebuffer_draw_wallpaper files left0 ytop0 width0 height0 d =
        count_bytes width height ((mark_clipped left ytop width height d)\<lparr>framebuffer := ?f (framebuffer d)\<rparr>)"
      using False m unfolding framebuffer_draw_wallpaper_def defs Let_def by simp
    show ?thesis
    proof (rule drawn_paint [where f = ?f, OF room _ refl])
      show "within (area d (unat left) (unat ytop) (unat left + unat width) (unat ytop + unat height)) ?f"
      proof (intro within_foldl, unfold set_map, elim imageE)
        fix y x row column assume r: "y = ytop + of_nat row" "row \<in> set [0..<unat height]"
          "x = left + of_nat column" "column \<in> set [0..<unat width]"
        have "unat left + column \<le> 4096" using r room ok by (simp add: display_ok_def)
        then have p: "pixel_at d x y = pixel_at d left (ytop + of_nat row) + of_nat column * ucast (framebuffer_bytes_per_pixel d)"
          unfolding r(1,3) by (rule pixel_at_column) simp
        show "within (area d (unat left) (unat ytop) (unat left + unat width) (unat ytop + unat height)) (\<lambda>m. ?pix y x m)"
          unfolding p by (rule within_pixel [where row = row and column = column, OF wallpaper_pixel_only [OF ok]])
            (use r(2,4) room ok in \<open>simp_all add: display_ok_def\<close>)
      qed
    qed (simp_all add: e count_bytes_def geometry_of_def)
  qed
qed

lemma glyph_drawn_small:
  assumes "scale \<le> 8 \<Longrightarrow> unat left \<le> 0xffffff00" "scale \<le> 8 \<Longrightarrow> unat ytop \<le> 0xffffff00"
  shows "drawn d (framebuffer_draw_glyph_color left ytop character foreground background scale d)"
proof (cases "scale \<le> 8")
  case True
  with assms show ?thesis by (intro glyph_drawn) (simp_all add: word_le_nat_alt)
qed (simp add: framebuffer_draw_glyph_color_def drawn_refl not_le)

text \<open>Upper bounds of sums and products, which hold whether or not they wrap.\<close>

lemma unat_add_upper: "unat (a :: u32) \<le> m \<Longrightarrow> unat b \<le> n \<Longrightarrow> unat (a + b) \<le> m + n"
  using mod_less_eq_dividend [of "unat a + unat b" "2 ^ 32"] by (simp add: unat_word_ariths)

lemma unat_mult_upper: "unat (a :: u32) \<le> m \<Longrightarrow> unat b \<le> n \<Longrightarrow> unat (a * b) \<le> m * n"
  using mod_less_eq_dividend [of "unat a * unat b" "2 ^ 32"] mult_le_mono [of "unat a" m "unat b" n]
  by (simp add: unat_word_ariths)

lemma unat_of_nat_upper: "n \<le> m \<Longrightarrow> unat (of_nat n :: u32) \<le> m"
  by (simp only: unat_of_nat) (metis le_trans mod_less_eq_dividend)

lemma draw_text_from_drawn:
  "unat left \<le> 0x10000 \<Longrightarrow> unat ytop \<le> 0x10000 \<Longrightarrow> unat index + length chars \<le> 0x10000 \<Longrightarrow>
    drawn d (draw_text_from left ytop color scale index chars d)"
proof (induction chars arbitrary: index d)
  case (Cons c rest)
  have "unat (index + 1) \<le> Suc (unat index)" using unat_add_upper [of index "unat index" 1 1] by simp
  with Cons.prems have n: "unat (index + 1) + length rest \<le> 0x10000" by simp
  have "drawn d (framebuffer_draw_glyph_color (left + index * 8 * scale) ytop c color 0xffffffff scale d)"
  proof (rule glyph_drawn_small)
    assume "scale \<le> 8"
    then have "unat scale \<le> 8" by (simp add: word_le_nat_alt)
    then have "unat (left + index * 8 * scale) \<le> 0x10000 + 0x10000 * 8 * 8"
      using Cons.prems by (intro unat_add_upper unat_mult_upper) simp_all
    then show "unat (left + index * 8 * scale) \<le> 0xffffff00" by simp
  qed (use Cons.prems in simp)
  with Cons.IH [OF Cons.prems(1,2) n] show ?case by (auto intro: drawn_trans drawn_refl)
qed (simp add: drawn_refl)

lemma draw_text_drawn:
  "unat left \<le> 0x10000 \<Longrightarrow> unat ytop \<le> 0x10000 \<Longrightarrow> length text \<le> 0x10000 \<Longrightarrow>
    drawn d (framebuffer_draw_text left ytop text color scale d)"
  by (simp add: framebuffer_draw_text_def drawn_refl draw_text_from_drawn)

lemma draw_literal_drawn:
  assumes "unat left \<le> 0x10000" "unat ytop \<le> 0x10000" "length text \<le> 0x1000"
  shows "drawn d (draw_literal left ytop text d)"
  unfolding draw_literal_def framebuffer_draw_glyph_def
proof (rule drawn_foldl, rule glyph_drawn_small)
  fix index assume "index \<in> set [0..<length text]"
  then have "unat (left + of_nat index * 8) \<le> 0x10000 + 0x1000 * 8"
    using assms by (intro unat_add_upper unat_mult_upper unat_of_nat_upper) simp_all
  then show "unat (left + of_nat index * 8) \<le> 0xffffff00" by simp
qed (use assms in simp)

text \<open>Drawing after drawing.\<close>

lemma fill_rect_after: "drawn d e \<Longrightarrow> drawn d (framebuffer_fill_rect left ytop width height color e)"
  by (rule drawn_trans [OF _ fill_rect_drawn])

lemma glyph_after:
  "drawn d e \<Longrightarrow> (scale \<le> 8 \<Longrightarrow> unat left \<le> 0xffffff00) \<Longrightarrow> (scale \<le> 8 \<Longrightarrow> unat ytop \<le> 0xffffff00) \<Longrightarrow>
    drawn d (framebuffer_draw_glyph_color left ytop character foreground background scale e)"
  by (rule drawn_trans [OF _ glyph_drawn_small])

lemma foldl_after: "drawn d e \<Longrightarrow> (\<And>d x. x \<in> set xs \<Longrightarrow> drawn d (f d x)) \<Longrightarrow> drawn d (foldl f e xs)"
  by (rule drawn_trans [OF _ drawn_foldl])

lemmas drawing_after = fill_rect_after glyph_after foldl_after drawn_trans [OF _ draw_text_drawn]
  drawn_trans [OF _ draw_literal_drawn]

lemma prompt_at_drawn:
  assumes s: "scale \<le> 6" and x: "unat x \<le> 0x1000" "24 \<le> x" and y: "unat y \<le> 0x1000"
    and len: "unat (dc_text_length command) \<le> 128"
  shows "drawn d (draw_prompt_at scale x y command d)"
proof -
  have s6: "unat scale \<le> 6" using s by (simp add: word_le_nat_alt)
  have stop: "(case prompt_dollar command of None \<Rightarrow> unat (dc_text_length command) | Some i \<Rightarrow> i) \<le> 128"
    using len by (auto simp: prompt_dollar_def find_Some_iff split: option.split)
  have col: "unat (x + of_nat i * 8 * scale) \<le> 0xffffff00" if "i < 128" for i
  proof -
    have "unat (x + of_nat i * 8 * scale) \<le> 0x1000 + 128 * 8 * 6"
      using that x(1) s6 by (intro unat_add_upper unat_mult_upper unat_of_nat_upper) simp_all
    then show ?thesis by simp
  qed
  have py: "unat (y + 16 * scale + 20 + 8) \<le> 0xffffff00"
  proof -
    have "unat (y + 16 * scale + 20 + 8) \<le> 0x1000 + 16 * 6 + 20 + 8"
      using y s6 by (intro unat_add_upper unat_mult_upper) simp_all
    then show ?thesis by simp
  qed
  have inp: "unat (x + 16 * scale + of_nat i * (8 * scale)) \<le> 0xffffff00" if "i < 128" for i
  proof -
    have "unat (x + 16 * scale + of_nat i * (8 * scale)) \<le> 0x1000 + 16 * 6 + 128 * (8 * 6)"
      using that x(1) s6 by (intro unat_add_upper unat_mult_upper unat_of_nat_upper) simp_all
    then show ?thesis by simp
  qed
  have dollar: "unat (x - 24) \<le> 0xffffff00" using x by (simp add: unat_sub)
  have top_y: "unat y \<le> 0xffffff00" using y by simp
  show ?thesis
    unfolding draw_prompt_at_def Let_def
    by (intro fill_rect_after foldl_after glyph_after drawn_refl glyph_drawn_small;
        rule py dollar top_y col inp; use len stop in \<open>simp add: less_imp_diff_less\<close>)
qed

lemma terminal_prompt_drawn:
  assumes "unat (dc_text_length command) \<le> 128"
  shows "drawn d (framebuffer_draw_terminal_prompt command d)"
proof (rule drawnI)
  assume ok: "display_ok d"
  let ?w = "framebuffer_width d" and ?h = "framebuffer_height d"
  have wh: "640 \<le> unat ?w" "unat ?w \<le> 4096" "unat ?h \<le> 2160" using ok by (simp_all add: display_ok_def)
  then have "unat (?w * 13) = unat ?w * 13" by (simp add: unat_word_ariths)
  then have x: "unat (?w * 13 div 100) = unat ?w * 13 div 100" by (simp add: unat_div)
  show "drawn d (framebuffer_draw_terminal_prompt command d)"
    unfolding framebuffer_draw_terminal_prompt_def Let_def
  proof (rule drawn_trans [OF _ prompt_at_drawn])
    show "unat (?w * 13 div 100) \<le> 0x1000" "24 \<le> ?w * 13 div 100"
      using wh x by (simp_all add: word_le_nat_alt)
    show "unat (?h div 5) \<le> 0x1000" using wh by (simp add: unat_div)
  qed (auto intro!: drawing_after drawn_refl assms simp: not_less)
qed

text \<open>The text commands are the ones the client's coordinates reach unclipped.\<close>

definition text_in_range :: "draw_command \<Rightarrow> bool" where
  "text_in_range c \<longleftrightarrow> dc_operation c \<noteq> DRAW_TEXT \<or> dc_x c \<le> 0x7fffffff \<and> dc_y c \<le> 0x7fffffff"

lemma text_command_drawn:
  assumes "dc_x c \<le> 0x7fffffff" "dc_y c \<le> 0x7fffffff" "unat (dc_text_length c) \<le> 128"
  shows "drawn d (draw_text_command c d)"
  unfolding draw_text_command_def Let_def
proof (rule drawn_foldl, rule glyph_drawn_small)
  fix i assume i: "i \<in> set [0..<unat (dc_text_length c)]"
  let ?s = "if dc_height c = 0 then 1 else dc_height c"
  assume "?s \<le> 8"
  then have "unat ?s \<le> 8" by (simp add: word_le_nat_alt split: if_splits)
  then have "unat (dc_x c + of_nat i * 8 * ?s) \<le> 0x7fffffff + 128 * 8 * 8"
    using assms i by (intro unat_add_upper unat_mult_upper unat_of_nat_upper) (simp_all add: word_le_nat_alt)
  then show "unat (dc_x c + of_nat i * 8 * ?s) \<le> 0xffffff00" by linarith
qed (use assms in \<open>simp add: word_le_nat_alt\<close>)

lemma desktop_draw_one_drawn:
  assumes "desktop_draw_one files c d = Some d'" "text_in_range c"
  shows "drawn d d'"
  using assms
  by (auto simp: desktop_draw_one_def text_in_range_def word_le_nat_alt not_less drawing
      intro: text_command_drawn terminal_prompt_drawn split: if_splits)

lemma desktop_draw_all_drawn:
  "\<forall>c\<in>set cs. text_in_range c \<Longrightarrow> drawn d (snd (desktop_draw_all files cs d))"
proof (induction cs arbitrary: d)
  case (Cons c cs)
  then show ?case
    by (auto simp: drawn_refl intro: drawn_trans [OF desktop_draw_one_drawn] split: option.split)
qed (simp add: drawn_refl)

lemma desktop_draw_drawn:
  "\<forall>c\<in>set cs. text_in_range c \<Longrightarrow> drawn d (snd (quanta_arch_desktop_draw files cs d))"
  by (simp add: quanta_arch_desktop_draw_def desktop_draw_all_drawn drawn_refl)

end
