(* ===== verification/Presenting.thy ===== *)
theory Presenting
  imports Framebuffer
begin

text \<open>
  From the back buffer to the screen: \<^verbatim>\<open>quanta_arch_desktop_present\<close> copies the dirty rectangle to
  the page or the two pages of the adapter.  \<open>in_sync\<close> is the invariant of the pages; with the
  contract \<open>drawn\<close> of the drawing operations it gives the properties of a drawn and presented
  command list.
\<close>

unbundle bit_operations_syntax

section \<open>Presenting\<close>

lemma foldl_update:
  assumes "\<And>i. i \<in> set xs \<Longrightarrow> h i = s (g i)"
  shows "foldl (\<lambda>m i. m(g i := h i)) m xs = (\<lambda>b. if b \<in> g ` set xs then s b else m b)"
  using assms
proof (induction xs arbitrary: m)
  case (Cons x xs)
  have "foldl (\<lambda>m i. m(g i := h i)) (m(g x := h x)) xs =
      (\<lambda>b. if b \<in> g ` set xs then s b else (m(g x := h x)) b)" by (rule Cons.IH) (simp add: Cons.prems)
  moreover have "h x = s (g x)" by (rule Cons.prems) simp
  ultimately show ?case unfolding foldl_Cons by (intro ext) (simp only:, auto)
qed simp

lemma foldl_overlay:
  assumes "\<And>m x. x \<in> set xs \<Longrightarrow> f m x = (\<lambda>b. if b \<in> R x then s b else m b)"
  shows "foldl f m xs = (\<lambda>b. if \<exists>x\<in>set xs. b \<in> R x then s b else m b)"
  using assms
proof (induction xs arbitrary: m)
  case (Cons x xs)
  have "foldl f (f m x) xs = (\<lambda>b. if \<exists>x\<in>set xs. b \<in> R x then s b else f m x b)"
    by (rule Cons.IH) (simp add: Cons.prems)
  moreover have "f m x = (\<lambda>b. if b \<in> R x then s b else m b)" by (rule Cons.prems) simp
  ultimately show ?case unfolding foldl_Cons by (intro ext) (simp only:, auto)
qed simp

definition page_offset :: "display \<Rightarrow> u32 \<Rightarrow> u64" where
  "page_offset d y = ucast y * ucast (framebuffer_pitch d)"

lemma dirty_bytes:
  assumes ok: "display_ok d" and dirty: "framebuffer_dirty d"
  shows "a \<in> dirty_area d \<longleftrightarrow> (\<exists>y\<in>{unat (dirty_top d)..<unat (dirty_bottom d)}.
      \<exists>j<(unat (dirty_right d) - unat (dirty_left d)) * unat (framebuffer_bytes_per_pixel d).
      a = of_nat (y * unat (framebuffer_pitch d) + unat (dirty_left d) * unat (framebuffer_bytes_per_pixel d) + j))"
    (is "_ \<longleftrightarrow> (\<exists>y\<in>_. \<exists>j<(?r - ?l) * ?n. a = of_nat (y * ?p + ?l * ?n + j))")
proof
  have n: "0 < ?n" using ok by (auto simp: display_ok_def)
  assume "a \<in> dirty_area d"
  then obtain x y k where xy: "?l \<le> x" "x < ?r" "unat (dirty_top d) \<le> y" "y < unat (dirty_bottom d)" "k < ?n"
    and a: "a = pixel_byte d x y k" using dirty by (auto simp: dirty_area_def elim: areaE)
  have "(x - ?l) * ?n + k < (?r - ?l) * ?n" using xy by (intro nested_index) simp_all
  moreover have "?l * ?n + ((x - ?l) * ?n + k) = (?l + (x - ?l)) * ?n + k" by (simp only: distrib_right add.assoc)
  then have "?l * ?n + ((x - ?l) * ?n + k) = x * ?n + k" using xy(1) by simp
  then have "a = of_nat (y * ?p + ?l * ?n + ((x - ?l) * ?n + k))" unfolding a pixel_byte_def by (simp only: add.assoc)
  ultimately show "\<exists>y\<in>{unat (dirty_top d)..<unat (dirty_bottom d)}. \<exists>j<(?r - ?l) * ?n. a = of_nat (y * ?p + ?l * ?n + j)"
    using xy(3,4) by (intro bexI [of _ y]) auto
next
  have n: "0 < ?n" using ok by (auto simp: display_ok_def)
  assume "\<exists>y\<in>{unat (dirty_top d)..<unat (dirty_bottom d)}. \<exists>j<(?r - ?l) * ?n. a = of_nat (y * ?p + ?l * ?n + j)"
  then obtain y j where y: "unat (dirty_top d) \<le> y" "y < unat (dirty_bottom d)" and j: "j < (?r - ?l) * ?n"
    and a: "a = of_nat (y * ?p + ?l * ?n + j)" by auto
  have q: "j div ?n < ?r - ?l" using j n by (simp add: less_mult_imp_div_less)
  have "?l * ?n + j = (?l + j div ?n) * ?n + j mod ?n" by (simp add: algebra_simps)
  then have "a = pixel_byte d (?l + j div ?n) y (j mod ?n)" unfolding a pixel_byte_def by (simp only: add.assoc)
  then show "a \<in> dirty_area d" using dirty y q n by (simp add: dirty_area_def) (intro areaI, simp_all)
qed

lemma copy_dirty_spec:
  assumes ok: "display_ok d" and dirty: "framebuffer_dirty d" and page: "unat y0 \<le> 2160"
  shows "framebuffer_copy_dirty d y0 = (\<lambda>b. if b - page_offset d y0 \<in> dirty_area d
    then framebuffer d (b - page_offset d y0) else framebuffer_scanout d b)"
proof -
  let ?n = "unat (framebuffer_bytes_per_pixel d)" and ?l = "unat (dirty_left d)" and ?r = "unat (dirty_right d)"
    and ?p = "unat (framebuffer_pitch d)" and ?t = "unat (dirty_top d)" and ?b = "unat (dirty_bottom d)"
  let ?bpp = "ucast (framebuffer_bytes_per_pixel d) :: u64"
  have bounds: "dirty_left d \<le> dirty_right d" "?r \<le> 4096" "?b \<le> 2160" "?n \<le> 4"
    using ok dirty by (auto simp: display_ok_def word_le_nat_alt)
  have bytes: "unat (ucast (dirty_right d - dirty_left d) * ?bpp) = (?r - ?l) * ?n"
  proof -
    have w: "unat (dirty_right d - dirty_left d) = ?r - ?l" using bounds(1) by (simp add: unat_sub)
    have "(?r - ?l) * ?n \<le> 4096 * 4" using bounds by (intro mult_le_mono) simp_all
    moreover have "ucast (dirty_right d - dirty_left d) * ?bpp = of_nat ((?r - ?l) * ?n)"
      by (simp only: ucast_of_nat_word w of_nat_mult)
    ultimately show ?thesis by (simp only: unat_of_nat) simp
  qed
  define R where "R row = {of_nat ((unat row - 0) * ?p + ?l * ?n + j) + page_offset d y0 |j. j < (?r - ?l) * ?n}" for row :: u32
  have row: "framebuffer_copy (framebuffer d) (ucast row * ucast (framebuffer_pitch d) + ucast (dirty_left d) * ?bpp)
        (ucast (y0 + row) * ucast (framebuffer_pitch d) + ucast (dirty_left d) * ?bpp)
        (unat (ucast (dirty_right d - dirty_left d) * ?bpp)) m =
      (\<lambda>b. if b \<in> R row then framebuffer d (b - page_offset d y0) else m b)"
    if "row \<in> set (map (\<lambda>i. dirty_top d + of_nat i) [0..<?b - ?t])" for m row
  proof -
    from that obtain i where i: "row = dirty_top d + of_nat i" "i \<in> set [0..<?b - ?t]" unfolding set_map by (rule imageE)
    then have lt: "i < ?b - ?t" by simp
    have "unat row = ?t + i" unfolding i(1) by (rule unat_plus_le [of _ _ 2160]) (use lt bounds in simp_all)
    then have "unat y0 + unat row \<le> 4320" using lt bounds page \<open>unat row = ?t + i\<close> by simp
    then have "unat (y0 + row) = unat y0 + unat row" by (rule unat_sum_bound) simp
    then have "(ucast (y0 + row) :: u64) = ucast y0 + ucast row" by (simp only: ucast_of_nat_word of_nat_add)
    then have src: "ucast (y0 + row) * ucast (framebuffer_pitch d) + ucast (dirty_left d) * ?bpp =
        (ucast row * ucast (framebuffer_pitch d) + ucast (dirty_left d) * ?bpp) + page_offset d y0"
      by (simp add: page_offset_def algebra_simps)
    have so: "ucast row * ucast (framebuffer_pitch d) + ucast (dirty_left d) * ?bpp = of_nat (unat row * ?p + ?l * ?n)"
      by (simp only: ucast_of_nat_word of_nat_add of_nat_mult)
    show ?thesis
      unfolding framebuffer_copy_def bytes src so R_def
      by (subst foldl_update [where s = "\<lambda>b. framebuffer d (b - page_offset d y0)"])
        (auto simp: fun_eq_iff image_iff algebra_simps simp del: of_nat_mult)
  qed
  have rows: "(\<exists>row\<in>set (map (\<lambda>i. dirty_top d + of_nat i) [0..<?b - ?t]). b \<in> R row) \<longleftrightarrow> b - page_offset d y0 \<in> dirty_area d" for b
  proof -
    have un: "unat (dirty_top d + of_nat i) = ?t + i" if "i < ?b - ?t" for i
      by (rule unat_plus_le [of _ _ 2160]) (use that bounds in simp_all)
    have "(\<exists>row\<in>set (map (\<lambda>i. dirty_top d + of_nat i) [0..<?b - ?t]). b \<in> R row) \<longleftrightarrow>
        (\<exists>y\<in>{?t..<?b}. \<exists>j<(?r - ?l) * ?n. b = of_nat (y * ?p + ?l * ?n + j) + page_offset d y0)" (is "?L \<longleftrightarrow> ?Q")
    proof
      assume ?L
      then obtain i j where "i < ?b - ?t" "j < (?r - ?l) * ?n" "b = of_nat ((?t + i) * ?p + ?l * ?n + j) + page_offset d y0"
        using un by (auto simp: R_def simp del: of_nat_add of_nat_mult)
      then show ?Q by (intro bexI [of _ "?t + i"]) auto
    next
      assume ?Q
      then obtain y j where y: "?t \<le> y" "y < ?b" and j: "j < (?r - ?l) * ?n"
        and b: "b = of_nat (y * ?p + ?l * ?n + j) + page_offset d y0" by auto
      have "b \<in> R (dirty_top d + of_nat (y - ?t))"
        using un [of "y - ?t"] y j unfolding R_def b by (intro CollectI exI [of _ j]) simp
      then show ?L using y by (auto intro!: bexI [of _ "y - ?t"])
    qed
    then show ?thesis unfolding dirty_bytes [OF ok dirty] by (simp only: diff_eq_eq)
  qed
  show ?thesis
    unfolding framebuffer_copy_dirty_def Let_def by (subst foldl_overlay [OF row]) (simp_all only: rows)
qed

text \<open>The pages the adapter may show, and the invariant of the presenter: outside the dirty
  rectangle every page shows the back buffer.\<close>

definition pages :: "display \<Rightarrow> u32 set" where
  "pages d = (if bga_page_flip d then {0, framebuffer_height d} else {0})"

definition shows_page :: "display \<Rightarrow> u32 \<Rightarrow> u64 \<Rightarrow> bool" where
  "shows_page d y a \<longleftrightarrow> framebuffer_scanout d (a + page_offset d y) = framebuffer d a"

definition in_sync :: "display \<Rightarrow> bool" where
  "in_sync d \<longleftrightarrow> (\<forall>y\<in>pages d. \<forall>a\<in>screen d. a \<notin> dirty_area d \<longrightarrow> shows_page d y a)
     \<and> (bga_page_flip d \<longrightarrow> bga_front_y d \<in> pages d)"

lemma unat_page_offset:
  assumes "display_ok d" "y \<in> pages d"
  shows "unat (page_offset d y) = unat y * unat (framebuffer_pitch d)"
    "unat y * unat (framebuffer_pitch d) \<le> 0x1000000"
proof -
  have b: "unat y * unat (framebuffer_pitch d) \<le> unat (framebuffer_height d) * unat (framebuffer_pitch d)"
    using assms(2) by (auto simp: pages_def split: if_splits)
  show lim: "unat y * unat (framebuffer_pitch d) \<le> 0x1000000"
  proof -
    have "unat (framebuffer_height d) * unat (framebuffer_pitch d) \<le> unat (framebuffer_bytes d)"
      "unat (framebuffer_bytes d) \<le> 0x1000000" using assms(1) by (simp_all add: display_ok_def mult.commute)
    with b show ?thesis by linarith
  qed
  have "page_offset d y = of_nat (unat y * unat (framebuffer_pitch d))"
    by (simp only: page_offset_def ucast_of_nat_word of_nat_mult)
  then show "unat (page_offset d y) = unat y * unat (framebuffer_pitch d)"
    using lim by (simp only: unat_of_nat) simp
qed

lemma unat_sum64: "unat (a :: u64) + unat b < 18446744073709551616 \<Longrightarrow> unat (a + b) = unat a + unat b"
  by (simp add: unat_word_ariths)

lemma screen_below_page:
  assumes "display_ok d" "a \<in> screen d"
  shows "unat a < unat (framebuffer_height d) * unat (framebuffer_pitch d)"
proof -
  from assms(2) obtain x y k where xy: "x < unat (framebuffer_width d)" "y < unat (framebuffer_height d)"
    "k < unat (framebuffer_bytes_per_pixel d)" "a = pixel_byte d x y k" by (auto simp: screen_def elim: areaE)
  let ?p = "unat (framebuffer_pitch d)" and ?n = "unat (framebuffer_bytes_per_pixel d)"
  have "Suc x * ?n \<le> unat (framebuffer_width d) * ?n" using xy(1) by (intro mult_le_mono1) simp
  then have "x * ?n + k < ?p" using assms(1) xy(3) by (simp add: display_ok_def)
  with xy(2) have "y * ?p + (x * ?n + k) < unat (framebuffer_height d) * ?p" by (rule nested_index)
  then show ?thesis using unat_pixel_byte [OF assms(1) xy(1-3)] xy(4) by simp
qed

lemma page_disjoint:
  assumes ok: "display_ok d" and p: "y \<in> pages d" "y' \<in> pages d" "y \<noteq> y'" and a: "a \<in> screen d"
  shows "a + page_offset d y - page_offset d y' \<notin> screen d"
proof
  let ?h = "unat (framebuffer_height d) * unat (framebuffer_pitch d)"
  assume in_screen: "a + page_offset d y - page_offset d y' \<in> screen d" (is "?b \<in> _")
  note lim = unat_page_offset [OF ok p(1)] unat_page_offset [OF ok p(2)]
    screen_below_page [OF ok a] screen_below_page [OF ok in_screen]
  have "?h \<le> 0x1000000" using ok by (simp add: display_ok_def mult.commute)
  note h = this
  have e: "?b + page_offset d y' = a + page_offset d y" by simp
  have "unat (?b + page_offset d y') = unat ?b + unat (page_offset d y')"
    by (rule unat_sum64) (use lim h in linarith)
  moreover have "unat (a + page_offset d y) = unat a + unat (page_offset d y)"
    by (rule unat_sum64) (use lim h in linarith)
  ultimately have s: "unat ?b + unat (page_offset d y') = unat a + unat (page_offset d y)" using e by simp
  have "unat (page_offset d y) = 0 \<and> unat (page_offset d y') = ?h \<or> unat (page_offset d y) = ?h \<and> unat (page_offset d y') = 0"
    using p lim(1,3) by (auto simp: pages_def split: if_splits)
  then show False using s lim(5,6) by linarith
qed

lemma drawn_in_sync:
  assumes "display_ok d" "drawn d d'" "in_sync d"
  shows "in_sync d'"
proof -
  have g: "geometry_of d' = geometry_of d" and sub: "dirty_area d \<subseteq> dirty_area d'"
    and same: "\<And>a. a \<notin> dirty_area d' \<Longrightarrow> framebuffer d' a = framebuffer d a"
    using assms(1,2) by (auto simp: drawn_def)
  have "pages d' = pages d" "screen d' = screen d" "framebuffer_scanout d' = framebuffer_scanout d"
    "\<And>y. page_offset d' y = page_offset d y" "bga_page_flip d' = bga_page_flip d" "bga_front_y d' = bga_front_y d"
    using g geometry_cong(5) [OF g] by (simp_all add: geometry_of_def pages_def page_offset_def)
  then show ?thesis using assms(3) sub same unfolding in_sync_def shows_page_def by (metis subsetD)
qed

text \<open>One page brought up to date.\<close>

lemma copy_page:
  assumes ok: "display_ok d" and dirty: "framebuffer_dirty d" and y: "y \<in> pages d" and a: "a \<in> screen d"
    and y': "y' \<in> pages d"
  shows "framebuffer_copy_dirty d y (a + page_offset d y') =
    (if y' = y \<and> a \<in> dirty_area d then framebuffer d a else framebuffer_scanout d (a + page_offset d y'))"
proof -
  have h: "unat y \<le> 2160" using y ok by (auto simp: pages_def display_ok_def split: if_splits)
  note spec = copy_dirty_spec [OF ok dirty h]
  show ?thesis
  proof (cases "y' = y")
    case False
    then have "a + page_offset d y' - page_offset d y \<notin> dirty_area d"
      using page_disjoint [OF ok y' y _ a] dirty_on_screen [OF ok] by blast
    with False show ?thesis by (simp add: spec)
  qed (simp add: spec)
qed

lemma present_sync:
  assumes ok: "display_ok d" and sync: "in_sync d" and live: "framebuffer_mapped d" "scanout_mapped d"
    and p: "quanta_arch_desktop_present hw d = (True, d')"
  shows "\<forall>y\<in>pages d. \<forall>a\<in>screen d. shows_page d' y a" "in_sync d'" "framebuffer d' = framebuffer d"
    "display_ok d'" "dirty_area d' = {}" "pages d' = pages d" "screen d' = screen d"
proof -
  have nz: "framebuffer_bytes d \<noteq> 0"
  proof
    assume z: "framebuffer_bytes d = 0"
    have "0 < unat (framebuffer_pitch d)" using ok by (auto simp: display_ok_def)
    then show False using ok z by (auto simp: display_ok_def)
  qed
  have y0: "(0 :: u32) \<in> pages d" by (simp add: pages_def)
  let ?same = "framebuffer d' = framebuffer d \<and> display_ok d' \<and> pages d' = pages d \<and> screen d' = screen d
    \<and> page_offset d' = page_offset d \<and> \<not> framebuffer_dirty d' \<and> bga_page_flip d' = bga_page_flip d"
  have fields: ?same if "d' = presented e" "framebuffer e = framebuffer d"
    "framebuffer_width e = framebuffer_width d" "framebuffer_height e = framebuffer_height d"
    "framebuffer_pitch e = framebuffer_pitch d" "framebuffer_bytes e = framebuffer_bytes d"
    "framebuffer_bytes_per_pixel e = framebuffer_bytes_per_pixel d" "bga_page_flip e = bga_page_flip d" for e
  proof -
    have s: "screen (presented e) = screen d"
      using area_cong [of "presented e" d] that by (simp add: screen_def presented_def)
    show ?thesis using ok that s
      by (simp add: presented_def display_ok_def pages_def page_offset_def fun_eq_iff)
  qed
  have "?same \<and> (\<forall>y\<in>pages d. \<forall>a\<in>screen d. framebuffer_scanout d' (a + page_offset d y) = framebuffer d a)
      \<and> (bga_page_flip d \<longrightarrow> bga_front_y d' \<in> pages d)"
  proof (cases "framebuffer_dirty d")
    case False
    then have "d' = d" using p live nz by (simp add: quanta_arch_desktop_present_def)
    with False ok sync show ?thesis by (simp add: in_sync_def dirty_area_def shows_page_def)
  next
    case dirty: True
    have old: "framebuffer_scanout d (a + page_offset d y) = framebuffer d a"
      if "y \<in> pages d" "a \<in> screen d" "a \<notin> dirty_area d" for y a
      using sync that by (auto simp: in_sync_def shows_page_def)
    show ?thesis
    proof (cases "bga_page_flip d")
      case False
      let ?e = "d\<lparr>framebuffer_scanout := framebuffer_copy_dirty d 0\<rparr>"
      have d': "d' = presented (if unsynced_present_reported ?e then ?e
          else (serial_write_marker ''QUANTA_DISPLAY_PRESENT_UNSYNCED'' ?e)\<lparr>unsynced_present_reported := True\<rparr>)"
        using p live nz dirty False by (simp add: quanta_arch_desktop_present_def Let_def)
      have "framebuffer_scanout d' = framebuffer_copy_dirty d 0"
        by (simp add: d' presented_def serial_write_marker_def)
      then have "\<forall>y\<in>pages d. \<forall>a\<in>screen d. framebuffer_scanout d' (a + page_offset d y) = framebuffer d a"
        using copy_page [OF ok dirty y0] old False by (auto simp: pages_def)
      then show ?thesis using fields [OF d'] False by (simp add: serial_write_marker_def)
    next
      case True
      let ?next = "if bga_front_y d = 0 then framebuffer_height d else 0"
      let ?d1 = "d\<lparr>framebuffer_scanout := framebuffer_copy_dirty d ?next\<rparr>"
      let ?d2 = "bga_write hw 9 (ucast ?next) ?d1"
      let ?d4 = "?d2\<lparr>framebuffer_scanout := framebuffer_copy_dirty ?d2 (bga_front_y d), bga_front_y := ?next\<rparr>"
      have d': "d' = presented (if bga_flip_reported ?d4 then ?d4
          else (serial_write_marker ''QUANTA_BGA_PAGE_FLIP'' ?d4)\<lparr>bga_flip_reported := True\<rparr>)"
        using p live nz dirty True by (simp add: quanta_arch_desktop_present_def Let_def bga_write_def split: if_splits)
      have front: "bga_front_y d \<in> pages d" using sync True by (simp add: in_sync_def)
      have behind: "?next \<in> pages d" using True by (simp add: pages_def)
      have two: "y = bga_front_y d \<or> y = ?next" if "y \<in> pages d" for y
        using that True front by (auto simp: pages_def)
      have ok2: "display_ok ?d2" and dirty2: "framebuffer_dirty ?d2" and pages2: "pages ?d2 = pages d"
        and screen2: "screen ?d2 = screen d" and area2: "dirty_area ?d2 = dirty_area d"
        and off2: "page_offset ?d2 = page_offset d" and fb2: "framebuffer ?d2 = framebuffer d"
        and so2: "framebuffer_scanout ?d2 = framebuffer_copy_dirty d ?next"
        using ok dirty area_cong [of ?d2 d]
        by (simp_all add: bga_write_def display_ok_def pages_def page_offset_def fun_eq_iff screen_def dirty_area_def)
      have "framebuffer_scanout d' = framebuffer_copy_dirty ?d2 (bga_front_y d)"
        by (simp add: d' presented_def serial_write_marker_def)
      moreover have "framebuffer_copy_dirty ?d2 (bga_front_y d) (a + page_offset d y) = framebuffer d a"
        if y: "y \<in> pages d" and a: "a \<in> screen d" for y a
        using copy_page [OF ok2 dirty2, of "bga_front_y d" a y] copy_page [OF ok dirty behind a y] old [OF y a] two [OF y] front y a
        unfolding pages2 screen2 area2 off2 fb2 so2 by auto
      ultimately show ?thesis
        using fields [OF d'] True behind by (simp add: serial_write_marker_def bga_write_def d' presented_def)
    qed
  qed
  then show "\<forall>y\<in>pages d. \<forall>a\<in>screen d. shows_page d' y a" "in_sync d'" "framebuffer d' = framebuffer d"
    "display_ok d'" "dirty_area d' = {}" "pages d' = pages d" "screen d' = screen d"
    by (simp_all add: shows_page_def in_sync_def dirty_area_def)
qed

section \<open>Properties\<close>

definition demo_display :: display where
  "demo_display = \<lparr>framebuffer_mapped = True, scanout_mapped = True, framebuffer = (\<lambda>_. 0),
     framebuffer_scanout = (\<lambda>_. 0), framebuffer_bytes = 1228800, framebuffer_width = 640,
     framebuffer_height = 480, framebuffer_pitch = 2560, framebuffer_bytes_per_pixel = 4,
     framebuffer_format = FORMAT_BGRX8888, bga_registers = (\<lambda>_. 0), bga_page_flip = False, bga_front_y = 0,
     bga_flip_reported = False, framebuffer_dirty = False, dirty_left = 0, dirty_top = 0, dirty_right = 0,
     dirty_bottom = 0, unsynced_present_reported = True, framebuffer_font = replicate 4096 0xff,
     framebuffer_workspace_visible = False, framebuffer_bytes_written = 0,
     terminal_cells = replicate 2000 32, serial = []\<rparr>"

definition demo_adapter :: adapter where
  "demo_adapter = \<lparr>settle = (\<lambda>r. r), retrace_seen = True\<rparr>"

definition demo_command :: "u32 \<Rightarrow> u32 \<Rightarrow> draw_command" where
  "demo_command operation x = \<lparr>dc_operation = operation, dc_x = x, dc_y = 0, dc_width = 2, dc_height = 1,
     dc_color = 0x00e8edf2, dc_text_length = 1, dc_text = 65 # replicate 127 0\<rparr>"

lemma demo_display_ok: "display_ok demo_display" "in_sync demo_display"
  "framebuffer_mapped demo_display" "scanout_mapped demo_display"
  by (simp_all add: display_ok_def demo_display_def in_sync_def shows_page_def)

text \<open>C20: As long as no text command starts in the upper half of the coordinate range, drawing a command
  list, whatever else it holds, changes no byte outside the visible pixels, and those lie inside the
  back buffer.\<close>

theorem drawing_stays_on_screen:
  assumes "display_ok d" "\<forall>c\<in>set cs. text_in_range c"
  shows "{a. framebuffer (snd (quanta_arch_desktop_draw files cs d)) a \<noteq> framebuffer d a} \<subseteq> screen d
    \<and> screen d \<subseteq> {..<framebuffer_bytes d}"
proof
  have "drawn d (snd (quanta_arch_desktop_draw files cs d))" (is "drawn d ?d") by (rule desktop_draw_drawn [OF assms(2)])
  then have "display_ok ?d" "geometry_of ?d = geometry_of d"
    and same: "\<forall>a. a \<notin> dirty_area ?d \<longrightarrow> framebuffer ?d a = framebuffer d a"
    using assms(1) by (simp_all add: drawn_def)
  then have "dirty_area ?d \<subseteq> screen d" using dirty_on_screen [of ?d] geometry_cong(5) by metis
  then show "{a. framebuffer ?d a \<noteq> framebuffer d a} \<subseteq> screen d" using same by blast
  show "screen d \<subseteq> {..<framebuffer_bytes d}" using screen_inside [OF assms(1)] by blast
qed

theorem drawing_stays_on_screen_witness:
  "{a. framebuffer (snd (quanta_arch_desktop_draw \<lparr>icon_atlas = [], wallpaper = []\<rparr>
      [demo_command DRAW_RECT 0xfffffff8, demo_command DRAW_TEXT 8] demo_display)) a \<noteq> framebuffer demo_display a}
    \<subseteq> screen demo_display \<and> screen demo_display \<subseteq> {..<framebuffer_bytes demo_display}"
  by (rule drawing_stays_on_screen [OF demo_display_ok(1)])
    (simp add: text_in_range_def demo_command_def DRAW_RECT_def DRAW_TEXT_def)



section \<open>Text at the end of the coordinate range\<close>

lemma foldl_keeps: "P m \<Longrightarrow> (\<And>m x. x \<in> set xs \<Longrightarrow> P m \<Longrightarrow> P (f m x)) \<Longrightarrow> P (foldl f m xs)"
  by (induction xs arbitrary: m) auto

lemma glyph_pixel_same: "glyph_pixel d color p m p = ucast color"
  by (simp add: glyph_pixel_def pad_pixel_def)

text \<open>A fold in which only one step writes a place leaves there what that step writes.\<close>

lemma foldl_single_writer:
  assumes "distinct xs" "x0 \<in> set xs" "\<And>m. f m x0 p = v" "\<And>x m. x \<in> set xs \<Longrightarrow> x \<noteq> x0 \<Longrightarrow> f m x p = m p"
  shows "foldl f m xs p = v"
proof -
  obtain before after where xs: "xs = before @ x0 # after" using assms(2) by (meson split_list)
  have later: "f m' x p = m' p" if "x \<in> set after" for x m'
  proof (rule assms(4))
    show "x \<in> set xs" using that xs by simp
    show "x \<noteq> x0" using that assms(1) xs by auto
  qed
  have "foldl f m' after p = m' p" for m'
    by (rule foldl_keeps [where P = "\<lambda>m''. m'' p = m' p"]) (simp_all add: later)
  then show ?thesis using assms(3) by (simp add: xs)
qed

text \<open>The pixel of a glyph at a row and a column, and the bytes of different pixels.\<close>

definition glyph_place :: "display \<Rightarrow> u32 \<Rightarrow> u32 \<Rightarrow> nat \<Rightarrow> nat \<Rightarrow> u64" where
  "glyph_place d left ytop row column =
     pixel_at d left (ytop + of_nat row) + of_nat column * ucast (framebuffer_bytes_per_pixel d)"

lemma glyph_place_nat:
  assumes ok: "display_ok d" and y: "unat ytop + 16 \<le> unat (framebuffer_height d)" and "row < 16" "column < 8" "k < 4"
  shows "unat (glyph_place d left ytop row column + of_nat k) =
    (unat ytop + row) * unat (framebuffer_pitch d) + (unat left + column) * unat (framebuffer_bytes_per_pixel d) + k"
proof -
  let ?pitch = "unat (framebuffer_pitch d)" and ?n = "unat (framebuffer_bytes_per_pixel d)"
  have n: "?n \<le> 4" using ok by (auto simp: display_ok_def)
  have h: "unat (framebuffer_height d) \<le> 2160" using ok by (simp add: display_ok_def)
  have pitch: "?pitch \<le> 0x1000000"
  proof -
    have "?pitch * 1 \<le> ?pitch * unat (framebuffer_height d)" using ok by (intro mult_le_mono2) (simp add: display_ok_def)
    also have "\<dots> \<le> unat (framebuffer_bytes d)" using ok by (simp add: display_ok_def)
    also have "\<dots> \<le> 0x1000000" using ok by (simp add: display_ok_def)
    finally show ?thesis by simp
  qed
  have "glyph_place d left ytop row column + of_nat k = pixel_byte d (unat left + column) (unat ytop + row) k"
    unfolding glyph_place_def by (rule pixel_byte_eq [where N = 4000]) (use assms(3) y h in simp_all)
  moreover have "(unat ytop + row) * ?pitch \<le> 2160 * 0x1000000" using assms(3) y h pitch by (intro mult_le_mono) simp_all
  moreover have "(unat left + column) * ?n \<le> (0x100000000 + 8) * 4"
    using assms(4) n unat_less_pow [of left] by (intro mult_le_mono) simp_all
  ultimately show ?thesis using assms(5) by (simp only: pixel_byte_def unat_of_nat) simp
qed

lemma glyph_places_apart:
  assumes ok: "display_ok d" and y: "unat ytop + 16 \<le> unat (framebuffer_height d)"
    and "row < 16" "column < 8" "row' < 16" "column' < 8" "k < unat (framebuffer_bytes_per_pixel d)"
    and eq: "glyph_place d left ytop row' column' + of_nat k = glyph_place d left ytop row column"
  shows "row' = row \<and> column' = column"
proof -
  let ?pitch = "unat (framebuffer_pitch d)" and ?n = "unat (framebuffer_bytes_per_pixel d)"
  have n: "3 \<le> ?n" "?n \<le> 4" using ok by (auto simp: display_ok_def)
  have "640 * 3 \<le> unat (framebuffer_width d) * ?n" using ok n by (intro mult_le_mono) (simp_all add: display_ok_def)
  then have pitch: "1920 \<le> ?pitch" using ok by (simp add: display_ok_def)
  have "(unat ytop + row') * ?pitch + (unat left + column') * ?n + k = (unat ytop + row) * ?pitch + (unat left + column) * ?n"
    using glyph_place_nat [OF ok y assms(5,6), of k left] glyph_place_nat [OF ok y assms(3,4), of 0 left] assms(7) n eq by simp
  then have e: "(column' * ?n + k) + row' * ?pitch = column * ?n + row * ?pitch" by (simp add: algebra_simps)
  have "column' * ?n \<le> 7 * 4" "column * ?n \<le> 7 * 4" using assms n by (intro mult_le_mono; simp)+
  then have small: "column' * ?n + k < ?pitch" "column * ?n < ?pitch" using assms(7) n pitch by linarith+
  have "row' = row" using arg_cong [OF e, of "\<lambda>a. a div ?pitch"] small pitch by simp
  from this e have "column' * ?n + k = column * ?n" by simp
  moreover have "(k + column' * ?n) div ?n = column'" "column * ?n div ?n = column" using assms(7) n by simp_all
  ultimately have "column' = column" by (simp add: add.commute)
  then show ?thesis using \<open>row' = row\<close> by simp
qed

lemma glyph_paints:
  assumes ok: "display_ok d" and y: "unat ytop + 16 \<le> unat (framebuffer_height d)"
    and x: "left + 8 \<le> framebuffer_width d" and p: "row < 16" "column < 8"
    and font: "framebuffer_font d ! (unat ch * 16 + row) AND drop_bit column 0x80 \<noteq> 0"
  shows "framebuffer (framebuffer_draw_glyph_color left ytop ch color 0xffffffff 1 d) (glyph_place d left ytop row column) = ucast color"
proof -
  let ?p = "glyph_place d left ytop row column"
  let ?line = "\<lambda>m r. glyph_line d (framebuffer_font d ! (unat ch * 16 + r)) color 0xffffffff 1 (pixel_at d left (ytop + of_nat r)) m"
  have h: "unat (framebuffer_height d) \<le> 2160" using ok by (simp add: display_ok_def)
  have "unat (ytop + 16) = unat ytop + 16" using unat_plus_le [of ytop 16 4000] y h by simp
  then have g: "ytop + 16 \<le> framebuffer_height d" using y by (simp add: word_le_nat_alt)
  have pixel: "pixel_at d left (ytop + of_nat r) + of_nat (c * 1 + 0) * ucast (framebuffer_bytes_per_pixel d) = glyph_place d left ytop r c"
    for r c by (simp add: glyph_place_def)
  have other: "glyph_pixel d color (glyph_place d left ytop r c) m ?p = m ?p"
    if "r < 16" "c < 8" "r \<noteq> row \<or> c \<noteq> column" for r c m
    using glyph_pixel_only [OF ok, of "glyph_place d left ytop r c" color] glyph_places_apart [OF ok y p that(1,2)] that(3)
    unfolding pixel_only_def by metis
  have step: "?line m r = foldl (\<lambda>m c. if framebuffer_font d ! (unat ch * 16 + r) AND drop_bit c 0x80 \<noteq> 0
      then glyph_pixel d color (glyph_place d left ytop r c) m else m) m [0..<8]" for m r
    unfolding glyph_line_def Let_def by (rule foldl_cong) (simp_all add: pixel [simplified])
  have row_line: "?line m row ?p = ucast color" for m
    unfolding step by (rule foldl_single_writer [where ?x0.0 = column]) (use p font other in \<open>simp_all add: glyph_pixel_same\<close>)
  have other_line: "?line m r ?p = m ?p" if "r \<in> set [0..<16]" "r \<noteq> row" for m r
    unfolding step by (rule foldl_keeps [where P = "\<lambda>m'. m' ?p = m ?p"]) (use that other in simp_all)
  have "foldl ?line m [0..<16] ?p = ucast color" for m
    by (rule foldl_single_writer [where ?x0.0 = row]) (use p row_line other_line in simp_all)
  moreover have "\<not> framebuffer_width d < left + 8" "\<not> framebuffer_height d < ytop + 16" using x g by (simp_all add: not_less)
  ultimately show ?thesis by (simp add: framebuffer_draw_glyph_color_def framebuffer_mark_dirty_def Let_def)
qed


lemma glyph_place_outside:
  assumes "display_ok d" "unat ytop + 16 \<le> unat (framebuffer_height d)" "row < 16" "column < 8" "0xff000000 \<le> left"
  shows "\<not> glyph_place d left ytop row column < framebuffer_bytes d"
proof -
  have n: "3 \<le> unat (framebuffer_bytes_per_pixel d)" using assms(1) by (auto simp: display_ok_def)
  have "0xff000000 \<le> unat left" using assms(5) by (simp add: word_le_nat_alt)
  then have "0xff000000 * 3 \<le> (unat left + column) * unat (framebuffer_bytes_per_pixel d)" using n by (intro mult_le_mono) simp_all
  then have "0xff000000 * 3 \<le> unat (glyph_place d left ytop row column)" using glyph_place_nat [OF assms(1-4), of 0 left] by simp
  then show ?thesis using assms(1) by (simp add: word_less_nat_alt display_ok_def)
qed

text \<open>A text whose left edge is 8 below the end of the 32-bit range passes the test of the glyph routine, which
  adds the width of the glyph to it and wraps: its first glyph is written far behind the back buffer.\<close>

lemma text_escapes:
  assumes ok: "display_ok d" and y: "unat (dc_y c) + 16 \<le> unat (framebuffer_height d)" and p: "row < 16" "column < 8"
    and c: "dc_x c = 0xfffffff8" "dc_height c = 0" "0 < unat (dc_text_length c)" "unat (dc_text_length c) \<le> 128"
    and font: "framebuffer_font d ! (unat (dc_text c ! 0) * 16 + row) AND drop_bit column 0x80 \<noteq> 0"
  shows "framebuffer (draw_text_command c d) (glyph_place d 0xfffffff8 (dc_y c) row column) = ucast (dc_color c)"
proof -
  let ?p = "glyph_place d 0xfffffff8 (dc_y c) row column"
  let ?glyph = "\<lambda>d n. framebuffer_draw_glyph_color (dc_x c + of_nat n * 8 * 1) (dc_y c) (dc_text c ! n) (dc_color c) 0xffffffff 1 d"
  let ?d = "framebuffer_draw_glyph_color 0xfffffff8 (dc_y c) (dc_text c ! 0) (dc_color c) 0xffffffff 1 d"
  have "unat (0x100000000 :: u32) = 0" by simp
  then have zero: "(0x100000000 :: u32) = 0" by (simp only: unat_eq_0)
  moreover have "(0xfffffff8 :: u32) + 8 = 0x100000000" by simp
  ultimately have "(0xfffffff8 :: u32) + 8 = 0" by (simp only:)
  then have wrap: "0xfffffff8 + 8 \<le> framebuffer_width d" by (simp only: word_zero_le)
  have first: "framebuffer ?d ?p = ucast (dc_color c)" by (rule glyph_paints [OF ok y wrap p font])
  have split: "[0..<unat (dc_text_length c)] = 0 # [1..<unat (dc_text_length c)]" using c(3) by (simp add: upt_rec)
  have h: "unat (framebuffer_height d) \<le> 2160" using ok by (simp add: display_ok_def)
  have rest: "drawn e (foldl ?glyph e [1..<unat (dc_text_length c)])" for e
  proof (rule drawn_foldl, rule glyph_drawn_small)
    fix n :: nat assume n: "n \<in> set [1..<unat (dc_text_length c)]"
    then have "0 < n" by simp
    then obtain m where m: "n = Suc m" by (metis gr0_implies_Suc)
    have "dc_x c + of_nat n * 8 * 1 = of_nat (8 * m)" unfolding c m by simp
    then show "unat (dc_x c + of_nat n * 8 * 1) \<le> 0xffffff00" using n c(4) m by (simp only: unat_of_nat) simp
    show "unat (dc_y c) \<le> 0xffffff00" using y h by simp
  qed
  have out: "?p \<notin> screen e" if "framebuffer_bytes e = framebuffer_bytes d" "display_ok e" for e
    using glyph_place_outside [OF ok y p, of "0xfffffff8"] screen_inside [OF that(2)] that(1) by auto
  have "0xfffffff8 \<ge> framebuffer_width d" using ok by (simp add: display_ok_def word_le_nat_alt)
  then have mark: "framebuffer_mark_dirty 0xfffffff8 (dc_y c) w h d = d" for w h by (simp add: framebuffer_mark_dirty_def)
  have same: "geometry_of ?d = geometry_of d" "display_ok ?d"
    using ok by (simp_all add: framebuffer_draw_glyph_color_def mark Let_def geometry_of_def display_ok_def)
  let ?e = "foldl ?glyph ?d [1..<unat (dc_text_length c)]"
  have after: "geometry_of ?e = geometry_of ?d" "display_ok ?e" "\<And>a. a \<notin> dirty_area ?e \<Longrightarrow> framebuffer ?e a = framebuffer ?d a"
    using rest [of ?d] same(2) by (simp_all add: drawn_def)
  have "?p \<notin> screen ?e" by (rule out) (use after same in \<open>simp_all add: geometry_of_def\<close>)
  then have "?p \<notin> dirty_area ?e" using dirty_on_screen [OF after(2)] by (rule contra_subsetD [rotated])
  then have "framebuffer ?e ?p = ucast (dc_color c)" by (rule after(3) [THEN trans]) (rule first)
  moreover have "draw_text_command c d = ?e" unfolding draw_text_command_def Let_def split using c by simp
  ultimately show ?thesis by simp
qed

end
