(* ===== verification/Console.thy ===== *)
theory Console
  imports Presenting
begin

text \<open>
  The text console of \<^verbatim>\<open>kernel/arch/x86_64/tables.c\<close> on the VGA cells and, when there is one, on the
  framebuffer; the boot splash and the two fixed desktop views.  The console proper is a grid of 25
  lines of 80 cells that scrolls; \<open>roll\<close> is what it promises, an endless roll of paper of which the
  grid shows the last 25 lines.  The hardware cursor of the VGA card, which changes no state the
  program reads, is left out here; \<open>Ports\<close> has it.
\<close>

unbundle bit_operations_syntax

section \<open>Fixed pictures\<close>

definition framebuffer_draw_char :: "byte \<Rightarrow> byte \<Rightarrow> byte \<Rightarrow> display \<Rightarrow> display" where
  "framebuffer_draw_char x y character d =
     framebuffer_draw_glyph (FRAMEBUFFER_TERMINAL_X + ucast x * 8) (FRAMEBUFFER_TERMINAL_Y + ucast y * 16) character d"

definition item_names :: "byte list list" where
  "item_names = [str ''Home'', str ''Files'', str ''Settings'', str ''Terminal'']"

text \<open>The column of names on the left, with one of them highlighted.\<close>

definition draw_items :: "nat \<Rightarrow> display \<Rightarrow> display" where
  "draw_items selected d =
     foldl (\<lambda>d item.
       let y = 64 + of_nat item * 44;
           d1 = (if item = selected
                 then framebuffer_fill_rect 6 (y - 5) (FRAMEBUFFER_PANEL_WIDTH - 12) 36 0x00334250 d else d)
       in draw_literal 12 y (item_names ! item) d1) d [0..<4]"

definition framebuffer_draw_terminal_frame :: "display \<Rightarrow> display" where
  "framebuffer_draw_terminal_frame d =
     (let fw = framebuffer_width d; fh = framebuffer_height d;
          d1 = framebuffer_fill_rect 0 0 fw fh FRAMEBUFFER_BACKGROUND d;
          d2 = framebuffer_fill_rect 0 0 FRAMEBUFFER_PANEL_WIDTH fh 0x00151d26 d1;
          d3 = framebuffer_fill_rect FRAMEBUFFER_PANEL_WIDTH 0 (fw - FRAMEBUFFER_PANEL_WIDTH) 32 0x00334250 d2;
          d4 = draw_literal (FRAMEBUFFER_PANEL_WIDTH + 12) 8 (str ''Quanta Workspace / Terminal'') d3;
          d5 = draw_items 3 d4
      in framebuffer_fill_rect (FRAMEBUFFER_TERMINAL_X - 8) (FRAMEBUFFER_TERMINAL_Y - 8)
           (80 * 8 + 16) (25 * 16 + 16) 0x00131a21 d5)"

text \<open>\<^verbatim>\<open>desktop_selection\<close> is never assigned in the kernel: it is 0.\<close>

definition framebuffer_show_workspace :: "display \<Rightarrow> display" where
  "framebuffer_show_workspace d =
     (let fw = framebuffer_width d; fh = framebuffer_height d;
          d1 = framebuffer_fill_rect 0 0 fw fh 0x002a4658 d;
          d2 = framebuffer_fill_rect 0 0 FRAMEBUFFER_PANEL_WIDTH fh 0x00151d26 d1;
          d3 = framebuffer_fill_rect FRAMEBUFFER_PANEL_WIDTH 0 (fw - FRAMEBUFFER_PANEL_WIDTH) 32 0x00334250 d2;
          d4 = framebuffer_fill_rect (FRAMEBUFFER_PANEL_WIDTH + 12) 44 (fw - FRAMEBUFFER_PANEL_WIDTH - 24) (fh - 68)
                 0x00131a21 d3;
          d5 = draw_literal (FRAMEBUFFER_PANEL_WIDTH + 12) 8 (str ''QUANTA WORKSPACE'') d4;
          d6 = draw_items 0 d5;
          d7 = draw_literal (FRAMEBUFFER_PANEL_WIDTH + 24) 72 (str ''Use Up/Down and Enter'') d6;
          d8 = draw_literal (FRAMEBUFFER_PANEL_WIDTH + 24) 104 (str ''Alt+F1: Terminal'') d7
      in count_bytes fw fh (d8\<lparr>framebuffer_workspace_visible := True\<rparr>))"

definition framebuffer_show_terminal :: "display \<Rightarrow> display" where
  "framebuffer_show_terminal d =
     foldl (\<lambda>d row. foldl (\<lambda>d column.
         let character = terminal_cells d ! (row * 80 + column)
         in if character \<noteq> 32 then framebuffer_draw_char (of_nat column) (of_nat row) character d else d)
         d [0..<80])
       (framebuffer_draw_terminal_frame (d\<lparr>framebuffer_workspace_visible := False\<rparr>)) [0..<25]"

definition quanta_arch_desktop_view :: "u32 \<Rightarrow> display \<Rightarrow> bool \<times> display" where
  "quanta_arch_desktop_view view d =
     (if \<not> framebuffer_mapped d then (False, d)
      else if view = 1 then (True, serial_write_marker ''QUANTA_VIEW_TERMINAL'' (framebuffer_show_terminal d))
      else if view = 0 then (True, serial_write_marker ''QUANTA_VIEW_WORKSPACE'' (framebuffer_show_workspace d))
      else (False, d))"

text \<open>Scrolling copies fixed rows of pixels, whatever the size of the screen.\<close>

definition framebuffer_scroll :: "display \<Rightarrow> display" where
  "framebuffer_scroll d =
     (let left = FRAMEBUFFER_TERMINAL_X; ytop = FRAMEBUFFER_TERMINAL_Y;
          width = 80 * 8; height = 25 * 16;
          row_bytes = width * ucast (framebuffer_bytes_per_pixel d) :: u32;
          d1 = mark_clipped left ytop width height (framebuffer_mark_dirty left ytop width height d);
          d2 = d1\<lparr>framebuffer :=
            foldl (\<lambda>m row.
              let destination = pixel_at d left (ytop + of_nat row);
                  source = destination + ucast (framebuffer_pitch d) * 16
              in foldl (\<lambda>m i. m(destination + of_nat i := m (source + of_nat i))) m [0..<unat row_bytes])
              (framebuffer d1) [0..<384]\<rparr>;
          d3 = framebuffer_fill_rect left (ytop + height - 16) width 16 FRAMEBUFFER_BACKGROUND d2
      in d3\<lparr>framebuffer_bytes_written := framebuffer_bytes_written d3 + ucast row_bytes * ucast (height - 16)\<rparr>)"

section \<open>The boot splash\<close>

definition splash_status :: "byte list list" where
  "splash_status = [str ''[ OK ] Kernel initialized (x86_64)'', str ''[ OK ] Memory manager ready'',
     str ''[ OK ] Filesystem driver loaded (QuantaFS)'', str ''[ OK ] Graphics subsystem initialized (VBE/GOP)'',
     str ''[ OK ] Input service initialized (PS/2)'', str ''[ OK ] Launching graphical login manager...'']"

definition splash_ring :: "u32 \<Rightarrow> u32 \<Rightarrow> u32 \<Rightarrow> display \<Rightarrow> u32 \<Rightarrow> display" where
  "splash_ring logo_x logo_y scale d radius =
     framebuffer_fill_rect (logo_x + radius) (logo_y - radius) (2 * scale) (radius * 2) 0x000095ff
     (framebuffer_fill_rect (logo_x - radius) (logo_y - radius) (2 * scale) (radius * 2) 0x000095ff
     (framebuffer_fill_rect (logo_x - radius) (logo_y + radius) (radius * 2) (2 * scale) 0x000095ff
     (framebuffer_fill_rect (logo_x - radius) (logo_y - radius) (radius * 2) (2 * scale) 0x000095ff d)))"

definition splash_at :: "u32 \<Rightarrow> u32 \<Rightarrow> u32 \<Rightarrow> nat \<Rightarrow> display \<Rightarrow> display" where
  "splash_at scale left ytop stage d =
     (let fw = framebuffer_width d; fh = framebuffer_height d;
          width = fw * 3 div 5;
          d1 = framebuffer_fill_rect 0 0 fw fh 0x00030508 d;
          logo_x = fw div 2; logo_y = ytop + 74 * scale;
          d2 = foldl (splash_ring logo_x logo_y scale) d1 [12 * scale, 24 * scale, 36 * scale];
          d3 = framebuffer_fill_rect (logo_x + 8 * scale) (logo_y + 8 * scale) (34 * scale) (6 * scale) 0x000095ff d2;
          d4 = framebuffer_draw_text (logo_x - 32 * 8 * scale) (ytop + 130 * scale) (str ''QuantaOS'') 0x000095ff (2 * scale) d3;
          d5 = framebuffer_draw_text (logo_x - 15 * 8 * scale) (ytop + 166 * scale) (str ''SMALLER / FASTER / YOURS'')
                 0x000ca8ff scale d4;
          d6 = foldl (\<lambda>d index. framebuffer_draw_text left (ytop + 210 * scale + of_nat index * 22 * scale)
                 (splash_status ! index) 0x0000a9ff scale d) d5 [0..<Suc stage];
          progress = (of_nat stage + 1) * width div 6;
          d7 = framebuffer_fill_rect left (ytop + 360 * scale) width (10 * scale) 0x00071c2a d6;
          d8 = framebuffer_fill_rect left (ytop + 360 * scale) progress (10 * scale) 0x000095ff d7;
          d9 = framebuffer_draw_text left (ytop + 382 * scale) (splash_status ! stage) 0x0000a9ff scale d8
      in framebuffer_draw_text (fw - 170 * scale) (fh - 44 * scale) (str ''QuantaOS v1.0.0'') 0x000095ff scale d9)"

definition quanta_arch_boot_splash :: "adapter \<Rightarrow> u32 \<Rightarrow> display \<Rightarrow> display" where
  "quanta_arch_boot_splash hw stage d =
     (if \<not> framebuffer_mapped d \<or> framebuffer_width d < 640 \<or> framebuffer_height d < 480 then d
      else
       (let stage = (if stage \<ge> 6 then 5 else stage);
            scale = (if framebuffer_width d \<ge> 1280 then 2 else 1);
            d1 = splash_at scale (framebuffer_width d div 5) (framebuffer_height d div 12) (unat stage) d
        in snd (quanta_arch_desktop_present hw (d1\<lparr>framebuffer_workspace_visible := True\<rparr>))))"

section \<open>The console\<close>

record console =
  screen_of :: display
  vga :: "u16 list"
  vga_x :: byte
  vga_y :: byte

definition vga_cell :: "byte \<Rightarrow> u16" where
  "vga_cell character = 0x0700 OR ucast character"

definition set_cell :: "nat \<Rightarrow> byte \<Rightarrow> console \<Rightarrow> console" where
  "set_cell i character c = c\<lparr>vga := (vga c)[i := vga_cell character],
     screen_of := (screen_of c)\<lparr>terminal_cells := (terminal_cells (screen_of c))[i := character]\<rparr>\<rparr>"

definition on_terminal :: "console \<Rightarrow> bool" where
  "on_terminal c \<longleftrightarrow> framebuffer_mapped (screen_of c) \<and> \<not> framebuffer_workspace_visible (screen_of c)"

definition vga_scroll :: "console \<Rightarrow> console" where
  "vga_scroll c =
     (let c1 = foldl (\<lambda>c i. set_cell i (terminal_cells (screen_of c) ! (i + 80)) c) c [0..<24 * 80];
          c2 = foldl (\<lambda>c column. set_cell (24 * 80 + column) 32 c) c1 [0..<80];
          c3 = (if on_terminal c2 then c2\<lparr>screen_of := framebuffer_scroll (screen_of c2)\<rparr> else c2)
      in c3\<lparr>vga_y := 24\<rparr>)"

definition put_cell :: "byte \<Rightarrow> console \<Rightarrow> console" where
  "put_cell character c =
     (let c1 = set_cell (unat (vga_y c) * 80 + unat (vga_x c)) character c
      in if on_terminal c1
         then c1\<lparr>screen_of := framebuffer_draw_char (vga_x c1) (vga_y c1) character (screen_of c1)\<rparr> else c1)"

definition vga_put :: "byte \<Rightarrow> console \<Rightarrow> console" where
  "vga_put ch c =
     (let c1 =
       (if ch = 10 then c\<lparr>vga_x := 0, vga_y := vga_y c + 1\<rparr>
        else if ch = 13 then c\<lparr>vga_x := 0\<rparr>
        else if ch = 8 then put_cell 32 (if vga_x c \<noteq> 0 then c\<lparr>vga_x := vga_x c - 1\<rparr> else c)
        else
         (let c2 = put_cell ch c; c3 = c2\<lparr>vga_x := vga_x c2 + 1\<rparr>
          in if vga_x c3 = 80 then c3\<lparr>vga_x := 0, vga_y := vga_y c3 + 1\<rparr> else c3))
      in if vga_y c1 \<ge> 25 then vga_scroll c1 else c1)"

definition serial_write_char :: "byte \<Rightarrow> console \<Rightarrow> console" where
  "serial_write_char ch c = c\<lparr>screen_of := (screen_of c)\<lparr>serial := serial (screen_of c) @ [ch]\<rparr>\<rparr>"

definition quanta_arch_write_marker :: "byte list \<Rightarrow> console \<Rightarrow> console" where
  "quanta_arch_write_marker marker c = foldl (\<lambda>c ch. vga_put ch (serial_write_char ch c)) c (cstr marker)"

definition quanta_arch_console_write :: "byte list \<Rightarrow> u64 \<Rightarrow> console \<Rightarrow> console" where
  "quanta_arch_console_write text len c =
     foldl (\<lambda>c i. vga_put (text ! i) (serial_write_char (text ! i) c)) c [0..<unat len]"

definition quanta_arch_console_clear :: "console \<Rightarrow> console" where
  "quanta_arch_console_clear c =
     (let c1 = foldl (\<lambda>c i. set_cell i 32 c) c [0..<80 * 25];
          c2 = (if framebuffer_mapped (screen_of c1)
                then c1\<lparr>screen_of := framebuffer_draw_terminal_frame (screen_of c1)\<rparr> else c1)
      in c2\<lparr>vga_x := 0, vga_y := 0\<rparr>)"

section \<open>The endless roll\<close>

record roll =
  rows :: "byte list list"
  roll_y :: nat
  roll_x :: nat

definition blank :: "byte list" where
  "blank = replicate 80 32"

definition roll_advance :: "roll \<Rightarrow> roll" where
  "roll_advance r = r\<lparr>roll_y := Suc (roll_y r),
     rows := (if Suc (roll_y r) = length (rows r) then rows r @ [blank] else rows r)\<rparr>"

definition roll_set :: "byte \<Rightarrow> roll \<Rightarrow> roll" where
  "roll_set ch r = r\<lparr>rows := (rows r)[roll_y r := (rows r ! roll_y r)[roll_x r := ch]]\<rparr>"

definition roll_put :: "roll \<Rightarrow> byte \<Rightarrow> roll" where
  "roll_put r ch =
     (if ch = 10 then roll_advance (r\<lparr>roll_x := 0\<rparr>)
      else if ch = 13 then r\<lparr>roll_x := 0\<rparr>
      else if ch = 8 then roll_set 32 (r\<lparr>roll_x := roll_x r - 1\<rparr>)
      else if Suc (roll_x r) = 80 then roll_advance ((roll_set ch r)\<lparr>roll_x := 0\<rparr>)
      else (roll_set ch r)\<lparr>roll_x := Suc (roll_x r)\<rparr>)"

definition shows_roll :: "console \<Rightarrow> roll \<Rightarrow> bool" where
  "shows_roll c r \<longleftrightarrow> 25 \<le> length (rows r) \<and> (\<forall>l\<in>set (rows r). length l = 80) \<and>
     terminal_cells (screen_of c) = concat (drop (length (rows r) - 25) (rows r)) \<and>
     vga c = map vga_cell (terminal_cells (screen_of c)) \<and>
     roll_x r = unat (vga_x c) \<and> roll_x r < 80 \<and>
     roll_y r = length (rows r) - 25 + unat (vga_y c) \<and> unat (vga_y c) < 25"

lemma foldl_hom: "(\<And>c x. x \<in> set xs \<Longrightarrow> h (f c x) = g (h c) x) \<Longrightarrow> h (foldl f c xs) = foldl g (h c) xs"
  by (induction xs arbitrary: c) simp_all

lemma foldl_const: "(\<And>c x. h (f c x) = h c) \<Longrightarrow> h (foldl f c xs) = h c"
  by (induction xs arbitrary: c) simp_all

text \<open>What drawing leaves alone, on any display.\<close>

definition texts :: "display \<Rightarrow> byte list \<times> bool \<times> bool \<times> byte list" where
  "texts d = (terminal_cells d, framebuffer_mapped d, framebuffer_workspace_visible d, serial d)"

lemma texts_fill_rect [simp]: "texts (framebuffer_fill_rect left ytop width height color d) = texts d"
  by (simp add: texts_def framebuffer_fill_rect_def Let_def count_bytes_def mark_clipped_def)

lemma texts_mark [simp]: "texts (framebuffer_mark_dirty left ytop width height d) = texts d"
  "texts (mark_clipped left ytop width height d) = texts d"
  by (simp_all add: texts_def framebuffer_mark_dirty_def Let_def mark_clipped_def)

lemma texts_glyph [simp]: "texts (framebuffer_draw_glyph_color left ytop ch fg bg scale d) = texts d"
  by (simp add: texts_def framebuffer_draw_glyph_color_def Let_def framebuffer_mark_dirty_def)

lemmas texts_foldl = foldl_const [where h = texts]

lemma texts_literal [simp]: "texts (draw_literal left ytop text d) = texts d"
  by (simp add: draw_literal_def texts_foldl framebuffer_draw_glyph_def)

lemma texts_frame [simp]: "texts (framebuffer_draw_terminal_frame d) = texts d"
  by (simp add: framebuffer_draw_terminal_frame_def Let_def draw_items_def texts_foldl)

lemma texts_char [simp]: "texts (framebuffer_draw_char x y ch d) = texts d"
  by (simp add: framebuffer_draw_char_def framebuffer_draw_glyph_def)

lemma texts_update [simp]: "texts (d\<lparr>framebuffer := m\<rparr>) = texts d" "texts (d\<lparr>framebuffer_bytes_written := n\<rparr>) = texts d"
  by (simp_all add: texts_def)

lemma texts_scroll [simp]: "texts (framebuffer_scroll d) = texts d"
  by (simp add: framebuffer_scroll_def Let_def)

lemma texts_eqD:
  assumes "texts d = texts e"
  shows "terminal_cells d = terminal_cells e" "framebuffer_mapped d = framebuffer_mapped e"
    "framebuffer_workspace_visible d = framebuffer_workspace_visible e" "serial d = serial e"
  using assms by (simp_all add: texts_def)

lemmas texts_kept = texts_eqD [OF texts_char] texts_eqD [OF texts_scroll] texts_eqD [OF texts_frame]

lemma set_cell_fields [simp]:
  "terminal_cells (screen_of (set_cell i ch c)) = (terminal_cells (screen_of c))[i := ch]"
  "vga (set_cell i ch c) = (vga c)[i := vga_cell ch]"
  "vga_x (set_cell i ch c) = vga_x c" "vga_y (set_cell i ch c) = vga_y c"
  by (simp_all add: set_cell_def)

lemma put_cell_fields:
  "terminal_cells (screen_of (put_cell ch c)) = (terminal_cells (screen_of c))[unat (vga_y c) * 80 + unat (vga_x c) := ch]"
  "vga (put_cell ch c) = (vga c)[unat (vga_y c) * 80 + unat (vga_x c) := vga_cell ch]"
  "vga_x (put_cell ch c) = vga_x c" "vga_y (put_cell ch c) = vga_y c"
  by (simp_all add: put_cell_def Let_def texts_kept)

section \<open>Scrolling\<close>

lemma shift_left:
  "n + k \<le> length cs \<Longrightarrow> foldl (\<lambda>cs i. cs[i := cs ! (i + k)]) cs [0..<n] = take n (drop k cs) @ drop n cs"
proof (induction n)
  case (Suc n)
  let ?d = "take n (drop k cs) @ drop n cs"
  have l: "length (take n (drop k cs)) = n" using Suc.prems by simp
  have "?d ! (n + k) = cs ! (n + k)" using l Suc.prems by (simp add: nth_append)
  moreover have "drop n cs = cs ! n # drop (Suc n) cs" using Suc.prems by (simp add: Cons_nth_drop_Suc)
  then have "?d[n := v] = take n (drop k cs) @ v # drop (Suc n) cs" for v using l by (simp add: list_update_append)
  moreover have "take (Suc n) (drop k cs) = take n (drop k cs) @ [cs ! (n + k)]"
    using Suc.prems by (simp add: take_Suc_conv_app_nth add.commute)
  ultimately show ?case using Suc by simp
qed simp

lemma fill_end:
  "n + m \<le> length cs \<Longrightarrow> foldl (\<lambda>cs i. cs[n + i := v]) cs [0..<m] = take n cs @ replicate m v @ drop (n + m) cs"
proof (induction m)
  case (Suc m)
  let ?d = "take n cs @ replicate m v @ drop (n + m) cs"
  have "drop (n + m) cs = cs ! (n + m) # drop (Suc (n + m)) cs" using Suc.prems by (simp add: Cons_nth_drop_Suc)
  then have "?d[n + m := v] = take n cs @ replicate m v @ v # drop (Suc (n + m)) cs"
    using Suc.prems by (simp add: list_update_append)
  then show ?case using Suc by (simp add: replicate_append_same)
qed simp

lemma scroll_fields:
  assumes "length (terminal_cells (screen_of c)) = 2000" "vga c = map vga_cell (terminal_cells (screen_of c))"
  shows "terminal_cells (screen_of (vga_scroll c)) = drop 80 (terminal_cells (screen_of c)) @ blank"
    "vga (vga_scroll c) = map vga_cell (terminal_cells (screen_of (vga_scroll c)))"
    "vga_x (vga_scroll c) = vga_x c" "vga_y (vga_scroll c) = 24"
proof -
  let ?s1 = "\<lambda>c i. set_cell i (terminal_cells (screen_of c) ! (i + 80)) c" and ?s2 = "\<lambda>c column. set_cell (24 * 80 + column) 32 c"
  let ?c1 = "foldl ?s1 c [0..<24 * 80]" and ?c2 = "foldl ?s2 (foldl ?s1 c [0..<24 * 80]) [0..<80]"
  let ?cells = "\<lambda>c. terminal_cells (screen_of c)"
  have "?cells ?c1 = foldl (\<lambda>cs i. cs[i := cs ! (i + 80)]) (?cells c) [0..<24 * 80]" by (rule foldl_hom) simp
  then have c1: "?cells ?c1 = drop 80 (?cells c) @ drop 1920 (?cells c)"
    using assms(1) by (simp add: shift_left)
  have "?cells ?c2 = foldl (\<lambda>cs i. cs[24 * 80 + i := 32]) (?cells ?c1) [0..<80]" by (rule foldl_hom) simp
  then have c2: "?cells ?c2 = drop 80 (?cells c) @ blank"
    unfolding c1 by (subst (asm) fill_end) (simp_all add: assms(1) blank_def)
  have mirror: "vga (foldl f c xs) = map vga_cell (?cells (foldl f c xs))"
    if "vga c = map vga_cell (?cells c)" "\<And>c i. vga c = map vga_cell (?cells c) \<Longrightarrow> vga (f c i) = map vga_cell (?cells (f c i))"
    for f :: "console \<Rightarrow> nat \<Rightarrow> console" and c xs using that by (induction xs arbitrary: c) simp_all
  have "vga ?c1 = map vga_cell (?cells ?c1)" by (rule mirror [OF assms(2)]) (simp add: map_update)
  then have v: "vga ?c2 = map vga_cell (?cells ?c2)" by (rule mirror) (simp add: map_update)
  have x: "vga_x ?c2 = vga_x c" by (simp add: foldl_const [where h = vga_x])
  show "?cells (vga_scroll c) = drop 80 (?cells c) @ blank" "vga (vga_scroll c) = map vga_cell (?cells (vga_scroll c))"
    "vga_x (vga_scroll c) = vga_x c" "vga_y (vga_scroll c) = 24"
    using c2 v x by (simp_all add: vga_scroll_def Let_def texts_kept)
qed


section \<open>The console refines the roll\<close>

lemma concat_update:
  assumes "\<forall>l\<in>set ls. length l = n" "y < length ls" "x < n"
  shows "(concat ls)[y * n + x := v] = concat (ls[y := (ls ! y)[x := v]])"
  using assms
proof (induction ls arbitrary: y)
  case (Cons l ls)
  show ?case
  proof (cases y)
    case 0 then show ?thesis using Cons.prems by (simp add: list_update_append)
  next
    case (Suc y')
    have "(l @ concat ls)[Suc y' * n + x := v] = l @ (concat ls)[y' * n + x := v]"
      using Cons.prems(1) by (simp add: list_update_append)
    then show ?thesis using Suc Cons by simp
  qed
qed simp

lemma length_window:
  assumes "shows_roll c r"
  shows "length (terminal_cells (screen_of c)) = 2000"
proof -
  let ?w = "drop (length (rows r) - 25) (rows r)"
  have "\<forall>l\<in>set ?w. length l = 80" "length ?w = 25" using assms by (auto simp: shows_roll_def dest: in_set_dropD)
  then have "length (concat ?w) = 25 * 80"
    by (induction ?w) (simp_all add: length_concat sum_list_triv cong: map_cong)
  then show ?thesis using assms by (simp add: shows_roll_def)
qed

lemma shows_set:
  assumes s: "shows_roll c r" and x: "unat (vga_x c') = roll_x r'" "roll_x r' < 80"
    and same: "rows r' = rows r" "roll_y r' = roll_y r" "screen_of c' = screen_of c" "vga c' = vga c" "vga_y c' = vga_y c"
  shows "shows_roll (put_cell ch c') (roll_set ch r')"
proof -
  let ?k = "length (rows r) - 25" and ?y = "unat (vga_y c)"
  have y: "roll_y r = ?k + ?y" "?y < 25" "25 \<le> length (rows r)" "\<forall>l\<in>set (rows r). length l = 80"
    "terminal_cells (screen_of c) = concat (drop ?k (rows r))" "vga c = map vga_cell (terminal_cells (screen_of c))"
    using s by (simp_all add: shows_roll_def)
  have "\<forall>l\<in>set (drop ?k (rows r)). length l = 80" using y(4) by (auto dest: in_set_dropD)
  then have "(concat (drop ?k (rows r)))[?y * 80 + roll_x r' := ch] =
      concat ((drop ?k (rows r))[?y := (drop ?k (rows r) ! ?y)[roll_x r' := ch]])"
    using y x(2) by (intro concat_update) simp_all
  also have "\<dots> = concat (drop ?k ((rows r)[?k + ?y := (rows r ! (?k + ?y))[roll_x r' := ch]]))"
    using y by (simp add: drop_update_swap)
  finally have cells: "(concat (drop ?k (rows r)))[?y * 80 + roll_x r' := ch] = \<dots>" .
  have "\<forall>l\<in>set (rows (roll_set ch r')). length l = 80"
    using y same by (auto simp: roll_set_def dest!: set_update_subset_insert [THEN subsetD])
  then show ?thesis
    using y cells x same by (simp add: shows_roll_def put_cell_fields roll_set_def flip: map_update)
qed

lemma shows_advance:
  assumes s: "shows_roll c r"
    and same: "screen_of c' = screen_of c" "vga c' = vga c" "vga_x c' = 0" "vga_y c' = vga_y c + 1"
  shows "shows_roll (if vga_y c' \<ge> 25 then vga_scroll c' else c') (roll_advance (r\<lparr>roll_x := 0\<rparr>))"
proof -
  let ?k = "length (rows r) - 25" and ?y = "unat (vga_y c)"
  have y: "roll_y r = ?k + ?y" "?y < 25" "25 \<le> length (rows r)" "\<forall>l\<in>set (rows r). length l = 80"
    "terminal_cells (screen_of c) = concat (drop ?k (rows r))" "vga c = map vga_cell (terminal_cells (screen_of c))"
    using s by (simp_all add: shows_roll_def)
  have u: "unat (vga_y c + 1) = Suc ?y" using y(2) by (simp add: unat_word_ariths)
  show ?thesis
  proof (cases "?y = 24")
    case False
    then have "\<not> 25 \<le> vga_y c'" using y(2) u same by (simp add: word_le_nat_alt)
    moreover have "Suc (roll_y r) \<noteq> length (rows r)" using y False by linarith
    ultimately show ?thesis using y u same False by (simp add: shows_roll_def roll_advance_def)
  next
    case True
    then have scroll: "25 \<le> vga_y c'" using u same by (simp add: word_le_nat_alt)
    have last: "Suc (roll_y r) = length (rows r)" using y True by linarith
    have len: "length (terminal_cells (screen_of c')) = 2000" using length_window [OF s] same by simp
    have "vga c' = map vga_cell (terminal_cells (screen_of c'))" using y same by simp
    note f = scroll_fields [OF len this]
    have "drop ?k (rows r) = rows r ! ?k # drop (Suc ?k) (rows r)" using y(3) by (simp add: Cons_nth_drop_Suc)
    moreover have "length (rows r ! ?k) = 80" using y(3,4) by simp
    ultimately have "drop 80 (concat (drop ?k (rows r))) = concat (drop (Suc ?k) (rows r))" by simp
    then have cells: "drop 80 (terminal_cells (screen_of c')) @ blank = concat (drop (Suc ?k) (rows r @ [blank]))"
      using y(3,5) same by (simp add: Suc_diff_le)
    have "length (rows r @ [blank]) - 25 = Suc ?k" using y(3) by (simp add: Suc_diff_le)
    then show ?thesis
      using scroll f y same cells last True by (simp add: shows_roll_def roll_advance_def blank_def)
  qed
qed

lemma not_scrolled: "shows_roll c r \<Longrightarrow> \<not> vga_y c \<ge> 25"
  by (simp add: shows_roll_def word_le_nat_alt)

lemma shows_put:
  assumes s: "shows_roll c r"
  shows "shows_roll (vga_put ch c) (roll_put r ch)"
proof -
  have x: "roll_x r = unat (vga_x c)" "roll_x r < 80" using s by (simp_all add: shows_roll_def)
  consider "ch = 10" | "ch = 13" | "ch = 8" | "ch \<noteq> 10" "ch \<noteq> 13" "ch \<noteq> 8" by blast
  then show ?thesis
  proof cases
    case 1
    have "shows_roll (if vga_y (c\<lparr>vga_x := 0, vga_y := vga_y c + 1\<rparr>) \<ge> 25
        then vga_scroll (c\<lparr>vga_x := 0, vga_y := vga_y c + 1\<rparr>) else c\<lparr>vga_x := 0, vga_y := vga_y c + 1\<rparr>)
        (roll_advance (r\<lparr>roll_x := 0\<rparr>))" by (rule shows_advance [OF s]) simp_all
    with 1 show ?thesis by (simp add: vga_put_def roll_put_def Let_def)
  next
    case 2
    have "shows_roll (c\<lparr>vga_x := 0\<rparr>) (r\<lparr>roll_x := 0\<rparr>)" using s by (simp add: shows_roll_def)
    with 2 not_scrolled [OF this] show ?thesis by (simp add: vga_put_def roll_put_def)
  next
    case 3
    let ?c = "if vga_x c \<noteq> 0 then c\<lparr>vga_x := vga_x c - 1\<rparr> else c"
    have "unat (vga_x ?c) = roll_x r - 1"
      using x by (simp add: unat_sub word_le_nat_alt unat_gt_0 Suc_leI)
    then have "shows_roll (put_cell 32 ?c) (roll_set 32 (r\<lparr>roll_x := roll_x r - 1\<rparr>))"
      by (intro shows_set [OF s]) (use x in simp_all)
    with 3 not_scrolled [OF this] show ?thesis by (simp add: vga_put_def roll_put_def)
  next
    case 4
    have p: "shows_roll (put_cell ch c) (roll_set ch r)" by (rule shows_set [OF s]) (use x in simp_all)
    have u: "unat (vga_x c + 1) = Suc (roll_x r)" using x by (simp add: unat_word_ariths)
    have f: "vga_x (put_cell ch c) = vga_x c" by (simp add: put_cell_fields)
    show ?thesis
    proof (cases "Suc (roll_x r) = 80")
      case True
      then have e: "vga_x c + 1 = 80" using u by (simp add: word_unat_eq_iff)
      let ?c = "(put_cell ch c)\<lparr>vga_x := 0, vga_y := vga_y (put_cell ch c) + 1\<rparr>"
      have "shows_roll (if vga_y ?c \<ge> 25 then vga_scroll ?c else ?c) (roll_advance ((roll_set ch r)\<lparr>roll_x := 0\<rparr>))"
        by (rule shows_advance [OF p]) simp_all
      with 4 True e f show ?thesis by (simp add: vga_put_def roll_put_def Let_def)
    next
      case False
      then have e: "vga_x c + 1 \<noteq> 80" using u by (auto simp: word_unat_eq_iff)
      have "shows_roll ((put_cell ch c)\<lparr>vga_x := vga_x c + 1\<rparr>) ((roll_set ch r)\<lparr>roll_x := Suc (roll_x r)\<rparr>)"
        using p u x False by (simp add: shows_roll_def roll_set_def)
      with 4 False e f not_scrolled [OF this] show ?thesis by (simp add: vga_put_def roll_put_def Let_def)
    qed
  qed
qed

lemma shows_serial [simp]: "shows_roll (serial_write_char ch c) r = shows_roll c r"
  by (simp add: shows_roll_def serial_write_char_def)

lemma shows_text: "shows_roll c r \<Longrightarrow>
    shows_roll (foldl (\<lambda>c ch. vga_put ch (serial_write_char ch c)) c chars) (foldl roll_put r chars)"
  by (induction chars arbitrary: c r) (simp_all add: shows_put)

lemma console_write_text:
  assumes "unat len \<le> length text"
  shows "quanta_arch_console_write text len c =
    foldl (\<lambda>c ch. vga_put ch (serial_write_char ch c)) c (take (unat len) text)"
proof -
  have "take (unat len) text = map ((!) text) [0..<unat len]" using assms by (auto intro: nth_equalityI)
  then show ?thesis unfolding quanta_arch_console_write_def by (simp only: foldl_map)
qed

text \<open>The console after a clear.\<close>

definition blank_roll :: roll where
  "blank_roll = \<lparr>rows = replicate 25 blank, roll_y = 0, roll_x = 0\<rparr>"

lemma clear_shows:
  assumes "length (terminal_cells (screen_of c)) = 2000" "length (vga c) = 2000"
  shows "shows_roll (quanta_arch_console_clear c) blank_roll"
proof -
  let ?c1 = "foldl (\<lambda>c i. set_cell i 32 c) c [0..<80 * 25]"
  have "terminal_cells (screen_of ?c1) = foldl (\<lambda>cs i. cs[0 + i := 32]) (terminal_cells (screen_of c)) [0..<80 * 25]"
    by (rule foldl_hom) simp
  also have "\<dots> = replicate 2000 32" by (subst fill_end) (simp_all add: assms)
  finally have cells: "terminal_cells (screen_of ?c1) = replicate 2000 32" .
  have "vga ?c1 = foldl (\<lambda>cs i. cs[0 + i := vga_cell 32]) (vga c) [0..<80 * 25]"
    by (rule foldl_hom) simp
  also have "\<dots> = replicate 2000 (vga_cell 32)" by (subst fill_end) (simp_all add: assms)
  finally have v: "vga ?c1 = replicate 2000 (vga_cell 32)" .
  have "concat (replicate 25 blank) = replicate 2000 32"
    by (simp add: blank_def eval_nat_numeral flip: replicate_add)
  then show ?thesis
    using cells v by (simp add: quanta_arch_console_clear_def Let_def shows_roll_def blank_roll_def texts_kept blank_def)
qed

section \<open>The console on the framebuffer\<close>

lemma drawn_same:
  assumes "geometry_of d' = geometry_of d" "framebuffer d' = framebuffer d" "framebuffer_dirty d' = framebuffer_dirty d"
    "dirty_left d' = dirty_left d" "dirty_top d' = dirty_top d" "dirty_right d' = dirty_right d"
    "dirty_bottom d' = dirty_bottom d"
  shows "drawn d d'"
proof -
  have "dirty_area d' = dirty_area d" using geometry_cong(1) [OF assms(1)] assms by (simp add: dirty_area_def)
  moreover have "display_ok d' = display_ok d" using assms by (simp add: display_ok_def geometry_of_def)
  ultimately show ?thesis using assms by (simp add: drawn_def)
qed

lemma drawn_fields [drawing]:
  "drawn d (d\<lparr>terminal_cells := cells\<rparr>)" "drawn d (d\<lparr>serial := s\<rparr>)" "drawn d (d\<lparr>framebuffer_workspace_visible := b\<rparr>)"
  "drawn d (d\<lparr>framebuffer_bytes_written := n\<rparr>)" "drawn d (count_bytes w h d)" "drawn d (serial_write_marker m d)"
  by (rule drawn_same; simp add: geometry_of_def count_bytes_def serial_write_marker_def)+

lemma draw_char_drawn [drawing]: "drawn d (framebuffer_draw_char x y ch d)"
  unfolding framebuffer_draw_char_def framebuffer_draw_glyph_def
proof (rule glyph_drawn_small)
  have b: "unat (ucast b :: u32) \<le> 255" for b :: byte using unat_less_pow [of b] by (simp add: unat_ucast_up)
  have "unat (FRAMEBUFFER_TERMINAL_X + ucast x * 8) \<le> 40 + 255 * 8"
    by (intro unat_add_upper unat_mult_upper b) (simp_all add: FRAMEBUFFER_TERMINAL_X_def)
  then show "unat (FRAMEBUFFER_TERMINAL_X + ucast x * 8) \<le> 0xffffff00" by simp
  have "unat (FRAMEBUFFER_TERMINAL_Y + ucast y * 16) \<le> 280 + 255 * 16"
    by (intro unat_add_upper unat_mult_upper b) (simp_all add: FRAMEBUFFER_TERMINAL_Y_def)
  then show "unat (FRAMEBUFFER_TERMINAL_Y + ucast y * 16) \<le> 0xffffff00" by simp
qed

lemma draw_items_drawn [drawing]: "drawn d (draw_items selected d)"
  unfolding draw_items_def Let_def
proof (rule drawn_foldl)
  fix d :: display and item :: nat assume "item \<in> set [0..<4]"
  then have i: "item < 4" by simp
  have "unat (64 + of_nat item * 44 :: u32) \<le> 64 + 4 * 44"
    by (intro unat_add_upper unat_mult_upper unat_of_nat_upper) (use i in simp_all)
  moreover have "length (item_names ! item) \<le> 0x1000"
    using i by (auto simp: item_names_def less_Suc_eq numeral_eq_Suc length_str)
  ultimately have l: "drawn d' (draw_literal 12 (64 + of_nat item * 44) (item_names ! item) d')" for d'
    by (intro draw_literal_drawn) simp_all
  show "drawn d (draw_literal 12 (64 + of_nat item * 44) (item_names ! item)
      (if item = selected then framebuffer_fill_rect 6 (64 + of_nat item * 44 - 5) (FRAMEBUFFER_PANEL_WIDTH - 12) 36 0x00334250 d
       else d))"
    by (rule drawn_trans [OF _ l]) (simp add: drawing)
qed

lemma literal_after:
  "drawn d e \<Longrightarrow> unat left \<le> 0x10000 \<Longrightarrow> unat ytop \<le> 0x10000 \<Longrightarrow> length text \<le> 0x1000 \<Longrightarrow>
    drawn d (draw_literal left ytop text e)"
  by (rule drawn_trans [OF _ draw_literal_drawn])

lemma text_after:
  "drawn d e \<Longrightarrow> unat left \<le> 0x10000 \<Longrightarrow> unat ytop \<le> 0x10000 \<Longrightarrow> length text \<le> 0x10000 \<Longrightarrow>
    drawn d (framebuffer_draw_text left ytop text color scale e)"
  by (rule drawn_trans [OF _ draw_text_drawn])

lemma terminal_frame_drawn [drawing]: "drawn d (framebuffer_draw_terminal_frame d)"
  unfolding framebuffer_draw_terminal_frame_def Let_def
  by (intro fill_rect_after drawn_trans [OF _ draw_items_drawn] literal_after drawn_refl)
    (simp_all add: FRAMEBUFFER_PANEL_WIDTH_def length_str)

lemma show_workspace_drawn [drawing]: "drawn d (framebuffer_show_workspace d)"
  unfolding framebuffer_show_workspace_def Let_def
  by (intro drawn_trans [OF _ drawn_fields(5)] drawn_trans [OF _ drawn_fields(3)] fill_rect_after
      drawn_trans [OF _ draw_items_drawn] literal_after drawn_refl)
    (simp_all add: FRAMEBUFFER_PANEL_WIDTH_def length_str)

lemma show_terminal_drawn [drawing]: "drawn d (framebuffer_show_terminal d)"
  unfolding framebuffer_show_terminal_def Let_def
  by (intro foldl_after drawn_foldl drawn_trans [OF _ terminal_frame_drawn] drawn_fields) (simp add: drawing)

lemma desktop_view_drawn: "drawn d (snd (quanta_arch_desktop_view view d))"
  by (auto simp: quanta_arch_desktop_view_def drawing intro: drawn_trans [OF _ drawn_fields(6)])

definition holds_terminal :: "display \<Rightarrow> bool" where
  "holds_terminal d \<longleftrightarrow> 680 \<le> unat (framebuffer_width d) \<and> 680 \<le> unat (framebuffer_height d)"

lemma mark_dirty_drawn [drawing]: "drawn d (framebuffer_mark_dirty left ytop width height d)"
proof (cases "width = 0 \<or> height = 0 \<or> left \<ge> framebuffer_width d \<or> ytop \<ge> framebuffer_height d")
  case False
  then have c: "left < framebuffer_width d" "ytop < framebuffer_height d" by (simp_all add: not_le)
  have e: "framebuffer_mark_dirty left ytop width height d =
      mark_clipped left ytop (clip_width d left width) (clip_height d ytop height) d"
    using False by (simp add: mark_dirty_clipped)
  show ?thesis unfolding e
    by (rule drawn_paint [where f = "\<lambda>m. m", OF clip_bounds [OF c(1)] clip_height_bounds [OF c(2)] _ refl])
      (simp_all add: within_def)
qed (auto simp: framebuffer_mark_dirty_def drawn_refl)

lemma within_update: "a \<in> A \<Longrightarrow> within A (\<lambda>m. m(a := f m))"
  by (simp add: within_def)

lemma scroll_drawn:
  assumes fit: "holds_terminal d"
  shows "drawn d (framebuffer_scroll d)"
proof (rule drawnI)
  assume ok0: "display_ok d"
  let ?e = "framebuffer_mark_dirty FRAMEBUFFER_TERMINAL_X FRAMEBUFFER_TERMINAL_Y (80 * 8) (25 * 16) d"
  let ?d1 = "mark_clipped FRAMEBUFFER_TERMINAL_X FRAMEBUFFER_TERMINAL_Y (80 * 8) (25 * 16) ?e"
  let ?p = "\<lambda>row. pixel_at d FRAMEBUFFER_TERMINAL_X (FRAMEBUFFER_TERMINAL_Y + of_nat row)"
  let ?n = "unat (framebuffer_bytes_per_pixel d)"
  let ?bytes = "unat ((80 * 8) * ucast (framebuffer_bytes_per_pixel d) :: u32)"
  let ?f = "\<lambda>m. foldl (\<lambda>m row. foldl (\<lambda>m i. m(?p row + of_nat i := m (?p row + ucast (framebuffer_pitch d) * 16 + of_nat i)))
     m [0..<?bytes]) m [0..<384]"
  have "drawn d ?e" by (rule mark_dirty_drawn)
  then have ok: "display_ok ?e" and g: "geometry_of ?e = geometry_of d" using ok0 by (simp_all add: drawn_def)
  have n: "?n = 3 \<or> ?n = 4" using ok0 by (auto simp: display_ok_def)
  have bytes: "?bytes = 640 * ?n" using n by (auto simp: unat_word_ariths unat_ucast_up)
  have wh: "framebuffer_width ?e = framebuffer_width d" "framebuffer_height ?e = framebuffer_height d"
    and ar: "area ?e = area d" and fb: "framebuffer ?e = framebuffer d"
    using geometry_cong [OF g] by (simp_all add: framebuffer_mark_dirty_def Let_def)
  have u: "unat FRAMEBUFFER_TERMINAL_X = 40" "unat FRAMEBUFFER_TERMINAL_Y = 280" "unat (80 * 8 :: u32) = 640" "unat (25 * 16 :: u32) = 400"
    by (simp_all add: FRAMEBUFFER_TERMINAL_X_def FRAMEBUFFER_TERMINAL_Y_def)
  have copied: "drawn ?e (?d1\<lparr>framebuffer := ?f (framebuffer ?e)\<rparr>)"
  proof (rule drawn_paint [where f = ?f])
    show "within (area ?e (unat FRAMEBUFFER_TERMINAL_X) (unat FRAMEBUFFER_TERMINAL_Y)
        (unat FRAMEBUFFER_TERMINAL_X + unat (80 * 8 :: u32)) (unat FRAMEBUFFER_TERMINAL_Y + unat (25 * 16 :: u32))) ?f"
      unfolding ar u
    proof (intro within_foldl within_update)
      fix row i assume r: "row \<in> set [0..<384]" "i \<in> set [0..<?bytes]"
      have lt: "i < 640 * ?n" using r(2) unfolding bytes by simp
      have "(of_nat i :: u64) = of_nat (i div ?n * ?n + i mod ?n)" by (simp only: div_mult_mod_eq)
      then have "(of_nat i :: u64) = of_nat (i div ?n) * ucast (framebuffer_bytes_per_pixel d) + of_nat (i mod ?n)"
        by (simp only: of_nat_add of_nat_mult ucast_of_nat_word)
      then have "?p row + of_nat i = ?p row + of_nat (i div ?n) * ucast (framebuffer_bytes_per_pixel d) + of_nat (i mod ?n)"
        by (simp only: add.assoc)
      also have "\<dots> = pixel_byte d (40 + i div ?n) (280 + row) (i mod ?n)"
        by (subst pixel_byte_eq [of _ _ 4096]) (use r u in simp_all)
      also have "\<dots> \<in> area d 40 280 (40 + 640) (280 + 400)"
        using r(1) n lt by (intro areaI) (auto simp: less_mult_imp_div_less)
      finally show "?p row + of_nat i \<in> area d 40 280 (40 + 640) (280 + 400)" .
    qed
  qed (use fit in \<open>simp_all add: u wh [simplified] fb holds_terminal_def geometry_of_def\<close>)
  have "drawn d (framebuffer_fill_rect FRAMEBUFFER_TERMINAL_X (FRAMEBUFFER_TERMINAL_Y + 25 * 16 - 16) (80 * 8) 16
      FRAMEBUFFER_BACKGROUND (?d1\<lparr>framebuffer := ?f (framebuffer ?e)\<rparr>))"
    by (intro fill_rect_after drawn_trans [OF \<open>drawn d ?e\<close> copied])
  then have "drawn d ((framebuffer_fill_rect FRAMEBUFFER_TERMINAL_X (FRAMEBUFFER_TERMINAL_Y + 25 * 16 - 16) (80 * 8) 16
      FRAMEBUFFER_BACKGROUND (?d1\<lparr>framebuffer := ?f (framebuffer ?d1)\<rparr>))\<lparr>framebuffer_bytes_written := k\<rparr>)" for k
    by (intro drawn_trans [OF _ drawn_fields(4)]) simp
  then show "drawn d (framebuffer_scroll d)" unfolding framebuffer_scroll_def Let_def .
qed


lemma set_cell_drawn: "drawn (screen_of c) (screen_of (set_cell i ch c))"
  by (simp add: set_cell_def drawing)

lemma set_cells_drawn:
  "(\<And>c x. \<exists>i ch. f c x = set_cell i ch c) \<Longrightarrow> drawn (screen_of c) (screen_of (foldl f c xs))"
proof (induction xs arbitrary: c)
  case (Cons x xs)
  obtain i ch where "f c x = set_cell i ch c" using Cons.prems by blast
  with Cons.IH [OF Cons.prems, of "f c x"] show ?case by (auto intro: drawn_trans set_cell_drawn)
qed (simp add: drawn_refl)

lemma holds_terminal_kept: "display_ok d \<Longrightarrow> drawn d e \<Longrightarrow> holds_terminal d \<Longrightarrow> holds_terminal e"
  by (auto simp: drawn_def geometry_of_def holds_terminal_def)

lemma vga_scroll_drawn:
  assumes ok: "display_ok (screen_of c)" and fit: "holds_terminal (screen_of c)"
  shows "drawn (screen_of c) (screen_of (vga_scroll c))"
proof -
  let ?c2 = "foldl (\<lambda>c column. set_cell (24 * 80 + column) 32 c)
    (foldl (\<lambda>c i. set_cell i (terminal_cells (screen_of c) ! (i + 80)) c) c [0..<24 * 80]) [0..<80]"
  have d: "drawn (screen_of c) (screen_of ?c2)"
    by (rule drawn_trans [OF set_cells_drawn set_cells_drawn]) blast+
  from holds_terminal_kept [OF ok d fit] have "drawn (screen_of ?c2) (framebuffer_scroll (screen_of ?c2))"
    by (rule scroll_drawn)
  with d have "drawn (screen_of c) (framebuffer_scroll (screen_of ?c2))" by (rule drawn_trans)
  with d show ?thesis by (simp add: vga_scroll_def Let_def)
qed

lemma put_cell_drawn: "drawn (screen_of c) (screen_of (put_cell ch c))"
  by (auto simp: put_cell_def Let_def intro: set_cell_drawn drawn_trans [OF set_cell_drawn draw_char_drawn])

lemma vga_put_drawn:
  assumes ok: "display_ok (screen_of c)" and fit: "holds_terminal (screen_of c)"
  shows "drawn (screen_of c) (screen_of (vga_put ch c))"
proof -
  have scroll: "drawn (screen_of c) (screen_of (if vga_y c1 \<ge> 25 then vga_scroll c1 else c1))"
    if d: "drawn (screen_of c) (screen_of c1)" for c1
  proof -
    have "display_ok (screen_of c1)" using d ok by (simp add: drawn_def)
    from drawn_trans [OF d vga_scroll_drawn [OF this holds_terminal_kept [OF ok d fit]]] d show ?thesis by simp
  qed
  show ?thesis
    unfolding vga_put_def Let_def
    by (rule scroll) (auto simp: put_cell_drawn drawn_refl intro: put_cell_drawn [of "c\<lparr>vga_x := vga_x c - 1\<rparr>", simplified])
qed

lemma put_text_drawn:
  "display_ok (screen_of c) \<Longrightarrow> holds_terminal (screen_of c) \<Longrightarrow>
    drawn (screen_of c) (screen_of (foldl (\<lambda>c x. vga_put (f x) (serial_write_char (f x) c)) c xs))"
proof (induction xs arbitrary: c)
  case (Cons x xs)
  let ?s = "serial_write_char (f x) c"
  have s: "drawn (screen_of c) (screen_of ?s)" by (simp add: serial_write_char_def drawing)
  have "display_ok (screen_of ?s)" using s Cons.prems(1) by (simp add: drawn_def)
  from drawn_trans [OF s vga_put_drawn [OF this holds_terminal_kept [OF Cons.prems(1) s Cons.prems(2)]]]
  have d: "drawn (screen_of c) (screen_of (vga_put (f x) ?s))" .
  have "display_ok (screen_of (vga_put (f x) ?s))" using d Cons.prems(1) by (simp add: drawn_def)
  from drawn_trans [OF d Cons.IH [OF this holds_terminal_kept [OF Cons.prems(1) d Cons.prems(2)]]]
  show ?case by simp
qed (simp add: drawn_refl)

lemma console_write_drawn:
  "display_ok (screen_of c) \<Longrightarrow> holds_terminal (screen_of c) \<Longrightarrow>
    drawn (screen_of c) (screen_of (quanta_arch_console_write text len c))"
  unfolding quanta_arch_console_write_def by (rule put_text_drawn)

lemma console_clear_drawn: "drawn (screen_of c) (screen_of (quanta_arch_console_clear c))"
proof -
  have "drawn (screen_of c) (screen_of (foldl (\<lambda>c i. set_cell i 32 c) c [0..<80 * 25]))"
    by (rule set_cells_drawn) blast
  then show ?thesis by (auto simp: quanta_arch_console_clear_def Let_def intro: drawn_trans terminal_frame_drawn)
qed

lemma drawn_changes:
  assumes "display_ok d" "drawn d e"
  shows "{a. framebuffer e a \<noteq> framebuffer d a} \<subseteq> screen d"
proof -
  have "display_ok e" "geometry_of e = geometry_of d" "\<forall>a. a \<notin> dirty_area e \<longrightarrow> framebuffer e a = framebuffer d a"
    using assms by (simp_all add: drawn_def)
  then show ?thesis using dirty_on_screen [of e] geometry_cong(5) [of e d] by blast
qed

section \<open>Properties\<close>

text \<open>C24: Whatever is written to the console, its 25 lines are the last 25 lines of the endless roll on which
  the same text has been put, with the cursor in the same place, and the VGA cells are those lines.\<close>

theorem console_refines_roll:
  assumes "shows_roll c r" "unat len \<le> length text"
  shows "shows_roll (quanta_arch_console_write text len c) (foldl roll_put r (take (unat len) text))"
  unfolding console_write_text [OF assms(2)] by (rule shows_text [OF assms(1)])

definition demo_console :: console where
  "demo_console = \<lparr>screen_of = demo_display, vga = replicate 2000 0, vga_x = 7, vga_y = 3\<rparr>"

lemma demo_console_clear: "shows_roll (quanta_arch_console_clear demo_console) blank_roll"
  by (rule clear_shows) (simp_all add: demo_console_def demo_display_def)

theorem console_refines_roll_witness:
  "shows_roll (quanta_arch_console_write (str ''ab'') 2 (quanta_arch_console_clear demo_console))
    (roll_put (roll_put blank_roll 97) 98)"
  using console_refines_roll [OF demo_console_clear, of 2 "str ''ab''"] by (simp add: str_def)

text \<open>On a screen of at least 680 by 680 pixels, writing to the console, clearing it and switching the
  fixed views change no byte of the back buffer outside the visible pixels.\<close>

theorem console_stays_on_screen:
  assumes "display_ok (screen_of c)" "holds_terminal (screen_of c)"
  shows "{a. framebuffer (screen_of (quanta_arch_console_write text len c)) a \<noteq> framebuffer (screen_of c) a}
      \<subseteq> screen (screen_of c)
    \<and> {a. framebuffer (screen_of (quanta_arch_console_clear c)) a \<noteq> framebuffer (screen_of c) a} \<subseteq> screen (screen_of c)
    \<and> {a. framebuffer (snd (quanta_arch_desktop_view view (screen_of c))) a \<noteq> framebuffer (screen_of c) a}
      \<subseteq> screen (screen_of c)"
  using drawn_changes [OF assms(1) console_write_drawn [OF assms]] drawn_changes [OF assms(1) console_clear_drawn]
    drawn_changes [OF assms(1) desktop_view_drawn] by blast

definition large_display :: display where
  "large_display = demo_display\<lparr>framebuffer_bytes := 3145728, framebuffer_width := 1024, framebuffer_height := 768,
     framebuffer_pitch := 4096\<rparr>"

theorem console_stays_on_screen_witness:
  "{a. framebuffer (screen_of (quanta_arch_console_write (str ''x'') 1 (demo_console\<lparr>screen_of := large_display\<rparr>))) a
      \<noteq> framebuffer (screen_of (demo_console\<lparr>screen_of := large_display\<rparr>)) a}
      \<subseteq> screen (screen_of (demo_console\<lparr>screen_of := large_display\<rparr>))
    \<and> {a. framebuffer (screen_of (quanta_arch_console_clear (demo_console\<lparr>screen_of := large_display\<rparr>))) a
      \<noteq> framebuffer (screen_of (demo_console\<lparr>screen_of := large_display\<rparr>)) a}
      \<subseteq> screen (screen_of (demo_console\<lparr>screen_of := large_display\<rparr>))
    \<and> {a. framebuffer (snd (quanta_arch_desktop_view 1 (screen_of (demo_console\<lparr>screen_of := large_display\<rparr>)))) a
      \<noteq> framebuffer (screen_of (demo_console\<lparr>screen_of := large_display\<rparr>)) a}
      \<subseteq> screen (screen_of (demo_console\<lparr>screen_of := large_display\<rparr>))"
  by (rule console_stays_on_screen) (simp_all add: large_display_def demo_display_def display_ok_def holds_terminal_def)

end
