(* ===== verification/Devices.thy ===== *)
theory Devices
  imports Prelude
begin

text \<open>
  Input, clock and processor tables of \<^verbatim>\<open>kernel/arch/x86_64/tables.c\<close>: the PS/2 keyboard and mouse, the
  CMOS clock, the descriptor tables, the exception report and the registers of the system-call entry.
  The keyboard controller is a queue of bytes, each tagged with the device it comes from; its status
  port shows whether there is one and whether it is the mouse's, its data port takes it off, and the
  next byte is there at once.  The serial port is a queue of received bytes.
\<close>

unbundle bit_operations_syntax

section \<open>Keyboard and mouse\<close>

record input_state =
  controller :: "(bool \<times> byte) list"
  serial_input :: "byte list"
  shift_down :: bool
  alt_down :: bool
  mouse_packet :: "byte list"
  mouse_packet_index :: nat
  mouse_buttons :: byte
  mouse_ready :: bool
  mouse_x :: u32
  mouse_y :: u32
  pointer_width :: u32
  pointer_height :: u32

definition KEY_ALT_F1 :: int where "KEY_ALT_F1 = 0x10001"
definition KEY_ALT_F2 :: int where "KEY_ALT_F2 = 0x10002"
definition KEY_UP :: int where "KEY_UP = 0x10003"
definition KEY_DOWN :: int where "KEY_DOWN = 0x10004"
definition KEY_MOUSE :: u32 where "KEY_MOUSE = 0x20000000"

definition MOUSE_EVENT :: "u32 \<Rightarrow> u32 \<Rightarrow> byte \<Rightarrow> u32" where
  "MOUSE_EVENT x y buttons =
     KEY_MOUSE OR push_bit 24 (ucast buttons AND 7) OR push_bit 12 (y AND 0xfff) OR (x AND 0xfff)"

definition MOUSE_EVENT_X :: "u32 \<Rightarrow> u32" where
  "MOUSE_EVENT_X event = event AND 0xfff"

definition MOUSE_EVENT_Y :: "u32 \<Rightarrow> u32" where
  "MOUSE_EVENT_Y event = drop_bit 12 event AND 0xfff"

definition MOUSE_EVENT_BUTTONS :: "u32 \<Rightarrow> u32" where
  "MOUSE_EVENT_BUTTONS event = drop_bit 24 event AND 7"

text \<open>One axis of a movement, with \<^verbatim>\<open>int32_t\<close> arithmetic.\<close>

definition clamp_axis :: "u32 \<Rightarrow> u32 \<Rightarrow> u32" where
  "clamp_axis limit next =
     (let next = (if sint next < 0 then 0 else next)
      in if limit \<noteq> 0 \<and> next \<ge> limit then limit - 1 else next)"

definition mouse_packet_event :: "input_state \<Rightarrow> int \<times> input_state" where
  "mouse_packet_event s =
     (let flags = mouse_packet s ! 0;
          buttons = flags AND 7;
          changed = (buttons \<noteq> mouse_buttons s);
          s1 = s\<lparr>mouse_buttons := buttons\<rparr>;
          next_x = clamp_axis (pointer_width s) (mouse_x s + scast (mouse_packet s ! 1));
          next_y = clamp_axis (pointer_height s) (mouse_y s - scast (mouse_packet s ! 2));
          moved = (flags AND 0xc0 = 0);
          s2 = (if moved then s1\<lparr>mouse_x := next_x, mouse_y := next_y\<rparr> else s1)
      in if changed \<or> moved \<and> (next_x \<noteq> mouse_x s \<or> next_y \<noteq> mouse_y s)
         then (sint (MOUSE_EVENT (mouse_x s2) (mouse_y s2) (mouse_buttons s2)), s2) else (- 1, s2))"

definition ps2_mouse_read_event :: "input_state \<Rightarrow> int \<times> input_state" where
  "ps2_mouse_read_event s =
     (case controller s of
        (True, value) # rest \<Rightarrow>
         (let s1 = s\<lparr>controller := rest\<rparr> in
          if \<not> mouse_ready s1 then (- 1, s1)
          else if mouse_packet_index s1 = 0 \<and> value AND 8 = 0 then (- 1, s1)
          else
           (let s2 = s1\<lparr>mouse_packet := (mouse_packet s1)[mouse_packet_index s1 := value],
                        mouse_packet_index := mouse_packet_index s1 + 1\<rparr>
            in if mouse_packet_index s2 < 3 then (- 1, s2)
               else mouse_packet_event (s2\<lparr>mouse_packet_index := 0\<rparr>)))
      | _ \<Rightarrow> (- 1, s))"

definition keys_normal :: "byte list" where
  "keys_normal = [0, 27, 49, 50, 51, 52, 53, 54, 55, 56, 57, 48, 45, 61, 8, 9, 113, 119, 101, 114, 116, 121, 117,
     105, 111, 112, 91, 93, 10, 0, 97, 115, 100, 102, 103, 104, 106, 107, 108, 59, 39, 96, 0, 92, 122, 120, 99,
     118, 98, 110, 109, 44, 46, 47, 0, 42, 0, 32, 0]"

definition keys_shifted :: "byte list" where
  "keys_shifted = [0, 27, 33, 64, 35, 36, 37, 94, 38, 42, 40, 41, 95, 43, 8, 9, 81, 87, 69, 82, 84, 89, 85, 73,
     79, 80, 123, 125, 10, 0, 65, 83, 68, 70, 71, 72, 74, 75, 76, 58, 34, 126, 0, 124, 90, 88, 67, 86, 66, 78,
     77, 60, 62, 63, 0, 42, 0, 32, 0]"

definition keycode :: "bool \<Rightarrow> byte \<Rightarrow> int" where
  "keycode shifted code =
     (if code \<ge> 58 then - 1 else uint ((if shifted then keys_shifted else keys_normal) ! unat code))"

definition quanta_arch_serial_read_char :: "input_state \<Rightarrow> int \<times> input_state" where
  "quanta_arch_serial_read_char s =
     (case serial_input s of [] \<Rightarrow> (- 1, s) | c # rest \<Rightarrow> (uint c, s\<lparr>serial_input := rest\<rparr>))"

definition quanta_arch_console_read_char :: "input_state \<Rightarrow> int \<times> input_state" where
  "quanta_arch_console_read_char s =
     (case ps2_mouse_read_event s of (mouse_event, s1) \<Rightarrow>
        if mouse_event \<ge> 0 then (mouse_event, s1)
        else case controller s1 of
          [] \<Rightarrow> quanta_arch_serial_read_char s1
        | (_, code) # rest \<Rightarrow>
           (let s2 = s1\<lparr>controller := rest\<rparr> in
            if code = 0x2a \<or> code = 0x36 then (- 1, s2\<lparr>shift_down := True\<rparr>)
            else if code = 0xaa \<or> code = 0xb6 then (- 1, s2\<lparr>shift_down := False\<rparr>)
            else if code = 0x38 then (- 1, s2\<lparr>alt_down := True\<rparr>)
            else if code = 0xb8 then (- 1, s2\<lparr>alt_down := False\<rparr>)
            else if code AND 0x80 = 0 \<and> alt_down s2 \<and> code = 0x3b then (KEY_ALT_F1, s2)
            else if code AND 0x80 = 0 \<and> alt_down s2 \<and> code = 0x3c then (KEY_ALT_F2, s2)
            else if code AND 0x80 = 0 \<and> code = 0x48 then (KEY_UP, s2)
            else if code AND 0x80 = 0 \<and> code = 0x50 then (KEY_DOWN, s2)
            else if code AND 0x80 = 0 then (keycode (shift_down s2) code, s2)
            else quanta_arch_serial_read_char s2))"

section \<open>The clock\<close>

definition bcd :: "byte \<Rightarrow> byte" where
  "bcd v = (v AND 15) + drop_bit 4 v * 10"

text \<open>The registers of the CMOS clock as a function; the result is in the order of the parameters, year first.\<close>

definition quanta_arch_read_rtc :: "(byte \<Rightarrow> byte) \<Rightarrow> byte list" where
  "quanta_arch_read_rtc cmos =
     (let status = cmos 0x0b; second = cmos 0; minute = cmos 2; h0 = cmos 4; day = cmos 7; month = cmos 8;
          year = cmos 9;
          decimal = (status AND 4 \<noteq> 0);
          h1 = (if decimal then h0 else bcd (h0 AND 0x7f) OR (h0 AND 0x80));
          h2 = (if status AND 2 = 0 \<and> h1 AND 0x80 \<noteq> 0
                then of_nat ((unat (h1 AND 0x7f) + 12) mod 24) else h1)
      in (if decimal then [year, month, day, h2 AND 0x7f, minute, second]
          else [bcd year, bcd month, bcd day, h2 AND 0x7f, bcd minute, bcd second]))"

section \<open>Descriptor tables\<close>

record idt_gate =
  offset_low :: u16
  selector :: u16
  ist :: byte
  attributes :: byte
  offset_middle :: u16
  offset_high :: u32
  reserved :: u32

type_synonym idt = "nat \<Rightarrow> idt_gate"

definition set_gate :: "nat \<Rightarrow> u64 \<Rightarrow> byte \<Rightarrow> idt \<Rightarrow> idt" where
  "set_gate vector address attribute_bits idt = idt(vector :=
     \<lparr>offset_low = ucast address, selector = 0x08, ist = 0, attributes = attribute_bits,
      offset_middle = ucast (drop_bit 16 address), offset_high = ucast (drop_bit 32 address), reserved = 0\<rparr>)"

definition SIZEOF_TSS :: u64 where [geometry]: "SIZEOF_TSS = 104"

definition gdt_entries :: "u64 \<Rightarrow> u64 list" where
  "gdt_entries tss_address =
     [0, 0x00af9a000000ffff, 0x00af92000000ffff, 0x00aff2000000ffff, 0x00affa000000ffff,
      0x0000890000000000 OR push_bit 16 (tss_address AND 0xffffff) OR push_bit 32 (tss_address AND 0xff000000)
        OR (SIZEOF_TSS - 1),
      drop_bit 32 tss_address]"

text \<open>The interrupt table as \<^verbatim>\<open>quanta_arch_initialize\<close> leaves it, from a table without gates.\<close>

definition initial_idt :: idt where
  "initial_idt = (\<lambda>_. \<lparr>offset_low = 0, selector = 0, ist = 0, attributes = 0, offset_middle = 0, offset_high = 0,
     reserved = 0\<rparr>)"

definition idt_entries :: "u64 \<Rightarrow> u64 \<Rightarrow> (nat \<Rightarrow> u64) \<Rightarrow> idt" where
  "idt_entries int80_stub timer_stub exception_stubs =
     foldl (\<lambda>idt vector. set_gate vector (exception_stubs vector) 0x8e idt)
       (set_gate 0x20 timer_stub 0x8e (set_gate 0x80 int80_stub 0xee initial_idt)) [0..<32]"

text \<open>The port writes that set up the interrupt controllers and the timer, in order.\<close>

definition pic_pit_writes :: "(u16 \<times> byte) list" where
  "pic_pit_writes =
     (let divisor = 1193182 div 100 :: u32
      in [(0x21, 0xff), (0xa1, 0xff), (0x20, 0x11), (0x80, 0), (0xa0, 0x11), (0x80, 0), (0x21, 0x20), (0x80, 0),
          (0xa1, 0x28), (0x80, 0), (0x21, 0x04), (0x80, 0), (0xa1, 0x02), (0x80, 0), (0x21, 0x01), (0x80, 0),
          (0xa1, 0x01), (0x80, 0), (0x21, 0xfe), (0xa1, 0xff), (0x43, 0x36), (0x40, ucast divisor),
          (0x40, ucast (drop_bit 8 divisor))])"

text \<open>The model-specific registers of the system-call entry.\<close>

definition STAR :: u64 where
  "STAR = push_bit 32 0x08 OR push_bit 48 0x13"

definition syscall_msrs :: "u64 \<Rightarrow> u64 \<Rightarrow> u64 \<Rightarrow> (u32 \<times> u64) list" where
  "syscall_msrs efer entry state_address =
     [(0xc0000080, efer OR 1), (0xc0000081, STAR), (0xc0000082, entry), (0xc0000084, push_bit 9 1),
      (0xc0000101, 0), (0xc0000102, state_address)]"

section \<open>Exceptions\<close>

datatype exception_outcome = User_Fault u64 | Halted "byte list"

definition hex_digits :: "u64 \<Rightarrow> byte list" where
  "hex_digits v = map (\<lambda>i.
     let digit = ucast (drop_bit (60 - 4 * i) v AND 0x0f) :: byte
     in if digit < 10 then 48 + digit else 65 + digit - 10) [0..<16]"

definition quanta_arch_exception_dispatch :: "u64 \<Rightarrow> u64 \<Rightarrow> u64 \<Rightarrow> exception_outcome" where
  "quanta_arch_exception_dispatch vector error_code code_segment =
     (if code_segment AND 3 = 3 then User_Fault vector
      else Halted (str ''KERNEL_EXCEPTION_'' @ hex_digits vector @ [95] @ hex_digits error_code @ [10]))"

section \<open>Mouse events\<close>

lemma masks: "(0xfff :: u32) = mask 12" "(7 :: u32) = mask 3" "(0x20000000 :: u32) = push_bit 29 1"
  by (simp_all add: mask_eq_exp_minus_1 push_bit_eq_mult)

lemma and_4095:
  assumes "x < (4096 :: u32)"
  shows "x AND 0xfff = x"
proof -
  have "unat (x AND 0xfff) = unat x AND 0xfff" by (simp add: unsigned_and_eq)
  also have "\<dots> = take_bit 12 (unat x)" by (simp add: take_bit_eq_mask mask_eq_exp_minus_1)
  also have "\<dots> = unat x" using assms by (simp add: take_bit_nat_eq_self_iff word_less_nat_alt)
  finally show ?thesis by (simp only: word_unat_eq_iff)
qed

lemmas bits_only = bit_and_iff bit_or_iff bit_push_bit_iff bit_drop_bit_eq bit_mask_iff bit_1_iff o_apply
  possible_bit_word

lemma event_fields:
  "MOUSE_EVENT_X (MOUSE_EVENT x y b) = x AND 0xfff"
  "MOUSE_EVENT_Y (MOUSE_EVENT x y b) = y AND 0xfff"
  "MOUSE_EVENT_BUTTONS (MOUSE_EVENT x y b) = ucast b AND 7"
  unfolding MOUSE_EVENT_X_def MOUSE_EVENT_Y_def MOUSE_EVENT_BUTTONS_def MOUSE_EVENT_def KEY_MOUSE_def masks
  by (rule bit_word_eqI; simp only: bits_only; auto)+

lemma event_positive: "0 \<le> sint (MOUSE_EVENT x y b)"
proof -
  have "\<not> bit (MOUSE_EVENT x y b) 31"
    unfolding MOUSE_EVENT_def KEY_MOUSE_def masks by (simp only: bits_only) auto
  then show ?thesis using bit_last_iff [of "MOUSE_EVENT x y b"] by simp
qed

lemma clamp_less:
  assumes "limit \<noteq> 0"
  shows "clamp_axis limit next < limit"
proof -
  have "limit - 1 < limit" using assms by (simp add: word_less_nat_alt unat_minus_one unat_gt_0)
  then show ?thesis using assms by (auto simp: clamp_axis_def Let_def not_le word_gt_0)
qed


definition pointer_ok :: "input_state \<Rightarrow> bool" where
  "pointer_ok s \<longleftrightarrow> mouse_x s < pointer_width s \<and> mouse_y s < pointer_height s \<and>
     pointer_width s \<le> 4096 \<and> pointer_height s \<le> 4096"

lemma packet_event_cases:
  assumes "mouse_packet_event s = (e, s')" "pointer_ok s"
  shows "pointer_ok s' \<and> unat (mouse_buttons s') \<le> 7 \<and>
    (e = - 1 \<or> e = sint (MOUSE_EVENT (mouse_x s') (mouse_y s') (mouse_buttons s')))"
proof -
  have nz: "pointer_width s \<noteq> 0" "pointer_height s \<noteq> 0" using assms(2) by (auto simp: pointer_ok_def)
  have b: "unat (mouse_packet s ! 0 AND 7) \<le> 7" using word_and_le1 [of "mouse_packet s ! 0" 7] by (simp add: word_le_nat_alt)
  show ?thesis
    using assms b clamp_less [OF nz(1)] clamp_less [OF nz(2)]
    by (auto simp: mouse_packet_event_def Let_def pointer_ok_def split: if_splits)
qed


lemma and_7:
  assumes "unat (x :: u32) \<le> 7"
  shows "x AND 7 = x"
proof -
  have "unat (x AND 7) = unat x AND 7" by (simp add: unsigned_and_eq)
  also have "\<dots> = take_bit 3 (unat x)" by (simp add: take_bit_eq_mask mask_eq_exp_minus_1)
  also have "\<dots> = unat x" using assms by (simp add: take_bit_nat_eq_self_iff)
  finally show ?thesis by (simp only: word_unat_eq_iff)
qed

definition demo_input :: "(bool \<times> byte) list \<Rightarrow> input_state" where
  "demo_input bytes = \<lparr>controller = bytes, serial_input = [], shift_down = False, alt_down = False,
     mouse_packet = [0, 0, 0], mouse_packet_index = 0, mouse_buttons = 0, mouse_ready = True, mouse_x = 100,
     mouse_y = 100, pointer_width = 1024, pointer_height = 768\<rparr>"

text \<open>C40: Every event the mouse delivers is non-negative and is decoded by the client's macros to the position
  and the buttons the driver holds, with the pointer on the screen.\<close>

theorem mouse_event_roundtrip:
  assumes "pointer_ok s" "ps2_mouse_read_event s = (e, s')" "e \<noteq> - 1"
  shows "0 \<le> e \<and> MOUSE_EVENT_X (word_of_int e) = mouse_x s' \<and> MOUSE_EVENT_Y (word_of_int e) = mouse_y s' \<and>
    MOUSE_EVENT_BUTTONS (word_of_int e) = ucast (mouse_buttons s') \<and> pointer_ok s'"
proof -
  obtain s0 where s0: "mouse_packet_event s0 = (e, s')" "pointer_ok s0"
    using assms by (auto simp: ps2_mouse_read_event_def Let_def pointer_ok_def split: list.splits prod.splits bool.splits if_splits)
  from packet_event_cases [OF s0] assms(3)
  have p: "pointer_ok s'" "unat (mouse_buttons s') \<le> 7" and e: "e = sint (MOUSE_EVENT (mouse_x s') (mouse_y s') (mouse_buttons s'))"
    by auto
  have w: "word_of_int e = MOUSE_EVENT (mouse_x s') (mouse_y s') (mouse_buttons s')" by (simp add: e)
  have "mouse_x s' < 4096" "mouse_y s' < 4096" using p(1) by (auto simp: pointer_ok_def)
  moreover have "unat (ucast (mouse_buttons s') :: u32) \<le> 7" using p(2) by (simp add: unat_ucast_up)
  ultimately show ?thesis using p(1) event_positive by (simp add: w event_fields and_4095 and_7 e)
qed

theorem mouse_event_roundtrip_witness:
  "let e = fst (ps2_mouse_read_event ((demo_input [(True, 5)])\<lparr>mouse_packet := [9, 3, 0], mouse_packet_index := 2\<rparr>));
     s' = snd (ps2_mouse_read_event ((demo_input [(True, 5)])\<lparr>mouse_packet := [9, 3, 0], mouse_packet_index := 2\<rparr>))
   in 0 \<le> e \<and> MOUSE_EVENT_X (word_of_int e) = mouse_x s' \<and> MOUSE_EVENT_Y (word_of_int e) = mouse_y s' \<and>
    MOUSE_EVENT_BUTTONS (word_of_int e) = ucast (mouse_buttons s') \<and> pointer_ok s'"
  unfolding Let_def
proof (rule mouse_event_roundtrip [OF _ prod.collapse [symmetric]])
  let ?s = "(demo_input [(True, 5)])\<lparr>mouse_packet := [9, 3, 0], mouse_packet_index := 2\<rparr>"
  show "pointer_ok ?s" by (simp add: pointer_ok_def demo_input_def)
  have "fst (ps2_mouse_read_event ?s) = sint (MOUSE_EVENT 103 95 1)"
    by (simp add: ps2_mouse_read_event_def mouse_packet_event_def demo_input_def Let_def clamp_axis_def)
  then show "fst (ps2_mouse_read_event ?s) \<noteq> - 1" using event_positive [of 103 95 1] by linarith
qed

text \<open>A byte of the mouse that arrives while the driver handles the byte before it is taken for a key:
  the keyboard half of the read does not look at the origin of the byte, so a movement of 30 to the right
  types an \<^verbatim>\<open>a\<close> and the packet stays incomplete.\<close>

theorem mouse_byte_taken_for_key:
  assumes "controller s = (True, flags) # (True, 0x1e) # rest" "mouse_ready s" "mouse_packet_index s = 0"
    "flags AND 8 \<noteq> 0" "\<not> shift_down s"
  shows "fst (quanta_arch_console_read_char s) = 97 \<and>
    controller (snd (quanta_arch_console_read_char s)) = rest \<and>
    mouse_packet_index (snd (quanta_arch_console_read_char s)) = 1"
  using assms by (simp add: quanta_arch_console_read_char_def ps2_mouse_read_event_def keycode_def keys_normal_def)

theorem mouse_byte_taken_for_key_witness:
  "fst (quanta_arch_console_read_char (demo_input [(True, 8), (True, 0x1e), (True, 0)])) = 97 \<and>
    controller (snd (quanta_arch_console_read_char (demo_input [(True, 8), (True, 0x1e), (True, 0)]))) = [(True, 0)] \<and>
    mouse_packet_index (snd (quanta_arch_console_read_char (demo_input [(True, 8), (True, 0x1e), (True, 0)]))) = 1"
proof (rule mouse_byte_taken_for_key)
  show "(8 :: byte) AND 8 \<noteq> 0" by code_simp
qed (simp_all add: demo_input_def)

section \<open>The clock\<close>

definition to_bcd :: "nat \<Rightarrow> byte" where
  "to_bcd n = of_nat (n div 10 * 16 + n mod 10)"

text \<open>The hour as the chip stores it in its 12-hour mode: 12, 1, ..., 11 with bit 7 for the afternoon.\<close>

definition twelve_hour :: "nat \<Rightarrow> byte" where
  "twelve_hour h = (if h < 12 then 0 else 0x80) OR to_bcd (if h mod 12 = 0 then 12 else h mod 12)"

lemma bcd_decodes: "n < 100 \<Longrightarrow> bcd (to_bcd n) = of_nat n"
proof -
  have "\<forall>n\<in>set [0..<100]. bcd (to_bcd n) = of_nat n" by code_simp
  then show "n < 100 \<Longrightarrow> bcd (to_bcd n) = of_nat n" by simp
qed


definition hour_of :: "byte \<Rightarrow> byte" where
  "hour_of h0 = (let h1 = bcd (h0 AND 0x7f) OR (h0 AND 0x80)
     in (if h1 AND 0x80 \<noteq> 0 then of_nat ((unat (h1 AND 0x7f) + 12) mod 24) else h1) AND 0x7f)"

lemma twelve_hour_read: "h < 24 \<Longrightarrow> hour_of (twelve_hour h) = of_nat (if h = 0 then 12 else if h = 12 then 0 else h)"
proof -
  have "\<forall>h\<in>set [0..<24]. hour_of (twelve_hour h) = of_nat (if h = 0 then 12 else if h = 12 then 0 else h)" by code_simp
  then show "h < 24 \<Longrightarrow> hour_of (twelve_hour h) = of_nat (if h = 0 then 12 else if h = 12 then 0 else h)"
    unfolding set_upt by (meson atLeastLessThan_iff le0)
qed

lemma bcd_hour: "h < 24 \<Longrightarrow> (bcd (to_bcd h AND 0x7f) OR (to_bcd h AND 0x80)) AND 0x7f = of_nat h"
proof -
  have "\<forall>h\<in>set [0..<24]. (bcd (to_bcd h AND 0x7f) OR (to_bcd h AND 0x80)) AND 0x7f = (of_nat h :: byte)" by code_simp
  then show "h < 24 \<Longrightarrow> (bcd (to_bcd h AND 0x7f) OR (to_bcd h AND 0x80)) AND 0x7f = of_nat h"
    unfolding set_upt by (meson atLeastLessThan_iff le0)
qed

text \<open>The clock of a chip in its 24-hour BCD mode reads back as the date and time the chip holds.  In its
  12-hour mode the hours 1 to 11 of either half of the day come out right, but midnight is reported as 12
  and noon as 0: the conversion adds 12 to every afternoon hour, the twelfth included, and nothing to
  the twelfth hour of the morning.\<close>

theorem clock_reads_back:
  assumes "cmos 0 = to_bcd second" "cmos 2 = to_bcd minute" "cmos 7 = to_bcd day" "cmos 8 = to_bcd month"
    "cmos 9 = to_bcd year" "second < 100" "minute < 100" "day < 100" "month < 100" "year < 100" "hour < 24"
    "cmos 0x0b AND 4 = 0" "cmos 4 = (if cmos 0x0b AND 2 \<noteq> 0 then to_bcd hour else twelve_hour hour)"
  shows "quanta_arch_read_rtc cmos = map of_nat [year, month, day,
    (if cmos 0x0b AND 2 \<noteq> 0 then hour else if hour = 0 then 12 else if hour = 12 then 0 else hour), minute, second]"
proof (cases "cmos 0x0b AND 2 = 0")
  case True
  then have "quanta_arch_read_rtc cmos = [bcd (cmos 9), bcd (cmos 8), bcd (cmos 7), hour_of (cmos 4), bcd (cmos 2), bcd (cmos 0)]"
    using assms(12) by (simp add: quanta_arch_read_rtc_def hour_of_def Let_def)
  then show ?thesis using True assms twelve_hour_read [OF assms(11)] by (simp add: bcd_decodes)
next
  case False
  then show ?thesis
    using assms bcd_hour [OF assms(11)] by (simp add: quanta_arch_read_rtc_def Let_def bcd_decodes)
qed

theorem clock_reads_back_witness:
  "quanta_arch_read_rtc ((\<lambda>_. 0)(0 := to_bcd 30, 2 := to_bcd 15, 4 := twelve_hour 12, 7 := to_bcd 24, 8 := to_bcd 12,
      9 := to_bcd 26)) = map of_nat [26, 12, 24, 0, 15, 30]"
  using clock_reads_back [of "(\<lambda>_. 0)(0 := to_bcd 30, 2 := to_bcd 15, 4 := twelve_hour 12, 7 := to_bcd 24,
      8 := to_bcd 12, 9 := to_bcd 26)" 30 15 24 12 26 12] by simp

section \<open>Descriptor tables\<close>

definition gate_target :: "idt_gate \<Rightarrow> u64" where
  "gate_target g = ucast (offset_low g) OR push_bit 16 (ucast (offset_middle g)) OR push_bit 32 (ucast (offset_high g))"

text \<open>A present gate that ring 3 may use for a software interrupt.\<close>

definition user_gate :: "idt_gate \<Rightarrow> bool" where
  "user_gate g \<longleftrightarrow> attributes g AND 0x80 \<noteq> 0 \<and> attributes g AND 0x60 = 0x60"

lemma split_address:
  "(ucast (ucast address :: u16) :: u64) OR push_bit 16 (ucast (ucast (drop_bit 16 address) :: u16)) OR
    push_bit 32 (ucast (ucast (drop_bit 32 address) :: u32)) = address"
proof (rule bit_word_eqI)
  fix n
  show "bit ((ucast (ucast address :: u16) :: u64) OR push_bit 16 (ucast (ucast (drop_bit 16 address) :: u16)) OR
    push_bit 32 (ucast (ucast (drop_bit 32 address) :: u32))) n = bit address n" if "n < LENGTH(64)"
    using that by (cases "n < 32") (auto simp: bit_simps)
qed

lemma gate_target_set: "gate_target (set_gate v address a idt v) = address"
  by (simp add: gate_target_def set_gate_def split_address)

lemma set_gate_other: "u \<noteq> v \<Longrightarrow> set_gate v address a idt u = idt u"
  by (simp add: set_gate_def)

lemma exception_gates:
  "foldl (\<lambda>idt vector. set_gate vector (stubs vector) 0x8e idt) idt [0..<n] v =
     (if v < n then set_gate v (stubs v) 0x8e idt v else idt v)"
  by (induction n) (auto simp: set_gate_def less_Suc_eq)

text \<open>After initialisation every exception, the timer and the system-call interrupt lead to their
  handlers, no other vector has a gate, and the only gate a user program may call is the one of the
  system calls.\<close>

theorem gates_lead_to_handlers:
  "(\<forall>v. gate_target (idt_entries int80 timer stubs v) =
      (if v < 32 then stubs v else if v = 0x20 then timer else if v = 0x80 then int80 else 0)) \<and>
   {v. user_gate (idt_entries int80 timer stubs v)} = {0x80} \<and>
   {v. attributes (idt_entries int80 timer stubs v) AND 0x80 \<noteq> 0} = {0..<33} \<union> {0x80}"
proof -
  have e: "idt_entries int80 timer stubs v =
     (if v < 32 then set_gate v (stubs v) 0x8e initial_idt v
      else if v = 0x20 then set_gate v timer 0x8e initial_idt v
      else if v = 0x80 then set_gate v int80 0xee initial_idt v else initial_idt v)" for v
    unfolding idt_entries_def by (subst exception_gates) (auto simp: set_gate_def)
  have zero: "gate_target (initial_idt v) = 0" "attributes (initial_idt v) = 0" for v
    by (simp_all add: gate_target_def initial_idt_def)
  have a: "attributes (set_gate v address b idt v) = b" for v address b idt by (simp add: set_gate_def)
  have bits: "(0x8e :: byte) AND 0x80 \<noteq> 0" "(0xee :: byte) AND 0x80 \<noteq> 0" "(0x8e :: byte) AND 0x60 \<noteq> 0x60"
    "(0xee :: byte) AND 0x60 = 0x60" by code_simp+
  show ?thesis
    by (auto simp: e gate_target_set zero a user_gate_def bits split: if_splits)
qed

text \<open>The access byte of a descriptor, and the selectors that \<^verbatim>\<open>syscall\<close> and \<^verbatim>\<open>sysret\<close> derive from STAR.\<close>

definition access_byte :: "u64 \<Rightarrow> byte" where
  "access_byte descriptor = ucast (drop_bit 40 descriptor)"

lemma star_selectors:
  "let kernel_code = ucast (drop_bit 32 STAR) :: u16; kernel_data = kernel_code + 8;
       user_data = (ucast (drop_bit 48 STAR) :: u16) + 8; user_code = (ucast (drop_bit 48 STAR) :: u16) + 16;
       entry = (\<lambda>s. access_byte (gdt_entries tss ! unat (drop_bit 3 s)))
   in entry kernel_code = 0x9a \<and> entry kernel_data = 0x92 \<and> entry user_code = 0xfa \<and> entry user_data = 0xf2 \<and>
      user_code AND 3 = 3 \<and> user_data AND 3 = 3"
proof -
  have s: "drop_bit 32 STAR = 0x130008" "drop_bit 48 STAR = 0x13" by (code_simp, code_simp)
  have i: "unat (drop_bit 3 (0x08 :: u16)) = 1" "unat (drop_bit 3 (0x10 :: u16)) = 2" "unat (drop_bit 3 (0x1b :: u16)) = 3"
    "unat (drop_bit 3 (0x23 :: u16)) = 4" "(0x1b :: u16) AND 3 = 3" "(0x23 :: u16) AND 3 = 3"
    "(ucast (0x130008 :: u64) :: u16) = 8" "(ucast (0x13 :: u64) :: u16) = 0x13" by code_simp+
  have acc: "access_byte 0x00af9a000000ffff = 0x9a" "access_byte 0x00af92000000ffff = 0x92"
    "access_byte 0x00affa000000ffff = 0xfa" "access_byte 0x00aff2000000ffff = 0xf2" by code_simp+
  show ?thesis unfolding Let_def s using i acc by (simp add: gdt_entries_def nth_Cons')
qed

end
