(* ===== verification/Shell.thy ===== *)
theory Shell
  imports Mount Devices
begin

text \<open>
  The built-in shell of \<^verbatim>\<open>kernel/core/shell.c\<close>: its line buffer, the login automaton and its commands.
  What it prints is a list of outputs; the clock and the built-in files are the ones of the kernel.
  \<open>feed\<close> is one turn of the endless loop of \<^verbatim>\<open>quanta_shell_run\<close>.
\<close>

datatype shell_state = SHELL_LOGIN | SHELL_PASSWORD | SHELL_SESSION

datatype shell_output = Put "byte list" | Clear_Console

record shell =
  line :: "byte list"
  line_length :: nat
  current_state :: shell_state
  logged_in :: bool
  printed :: "shell_output list"
  shut_down :: bool

definition LINE_MAX :: nat where [geometry]: "LINE_MAX = 96"

definition put :: "byte list \<Rightarrow> shell \<Rightarrow> shell" where
  "put text s = s\<lparr>printed := printed s @ [Put text]\<rparr>"

definition put_line :: "string \<Rightarrow> shell \<Rightarrow> shell" where
  "put_line text = put (str text @ [10])"

definition reset_line :: "shell \<Rightarrow> shell" where
  "reset_line s = s\<lparr>line_length := 0, line := (line s)[0 := 0]\<rparr>"

definition prompt_session :: "shell \<Rightarrow> shell" where "prompt_session = put (str ''quanta> '')"
definition prompt_login :: "shell \<Rightarrow> shell" where "prompt_login = put (str ''login: '')"
definition prompt_password :: "shell \<Rightarrow> shell" where "prompt_password = put (str ''Password: '')"

definition clear_console :: "shell \<Rightarrow> shell" where
  "clear_console s = s\<lparr>printed := printed s @ [Clear_Console]\<rparr>"

definition terminate_line :: "shell \<Rightarrow> shell" where
  "terminate_line s = s\<lparr>line := (line s)[line_length s := 0]\<rparr>"

definition execute_login :: "shell \<Rightarrow> shell" where
  "execute_login s0 =
     (let s = terminate_line s0 in
      if text_equal (line s) (str ''quanta'')
      then reset_line (prompt_password (put [10] (s\<lparr>current_state := SHELL_PASSWORD\<rparr>)))
      else reset_line (prompt_login (put (10 # str ''login failed'' @ [10]) s)))"

definition execute_password :: "shell \<Rightarrow> shell" where
  "execute_password s0 =
     (let s = terminate_line s0 in
      if text_equal (line s) (str ''quanta'')
      then reset_line (prompt_session (put (10 # str ''QUANTA_LOGIN_READY'' @ [10])
             (s\<lparr>logged_in := True, current_state := SHELL_SESSION\<rparr>)))
      else reset_line (prompt_login ((put (10 # str ''login failed'' @ [10]) s)\<lparr>current_state := SHELL_LOGIN\<rparr>)))"

text \<open>Two decimal digits.\<close>

definition two_digits :: "byte \<Rightarrow> byte list" where
  "two_digits v = [48 + v div 10, 48 + v mod 10]"

definition date_stamp :: "byte list \<Rightarrow> byte list" where
  "date_stamp clock = str ''20'' @ two_digits (clock ! 0) @ str ''-'' @ two_digits (clock ! 1) @ str ''-'' @
     two_digits (clock ! 2) @ str '' '' @ two_digits (clock ! 3) @ str '':'' @ two_digits (clock ! 4) @
     str '':'' @ two_digits (clock ! 5) @ str '' UTC'' @ [10]"

definition print_driver_status :: "shell \<Rightarrow> shell" where
  "print_driver_status = put (str ''vga: online'' @ [10] @ str ''ps2: online'' @ [10] @ str ''serial: online'' @ [10] @
     str ''rtc: online'' @ [10] @ str ''shutdown: supported'' @ [10])"

definition print_printf_demo :: "shell \<Rightarrow> shell" where
  "print_printf_demo = put_line ''printf demo: 42=42 hello=hello''"

definition session_command :: "(byte \<Rightarrow> byte) \<Rightarrow> shell \<Rightarrow> shell" where
  "session_command cmos s =
     (let is = (\<lambda>name. text_equal (line s) (str name)); begins = (\<lambda>name. starts_with (line s) (str name)) in
      if is ''help'' then put_line ''help whoami pwd ls cat echo printf uname ps mem date drivers clear passwd exit shutdown'' s
      else if is ''whoami'' then put_line ''quanta'' s
      else if is ''pwd'' then put_line ''/home/quanta'' s
      else if is ''ls'' \<or> is ''ls /'' \<or> begins ''ls '' then
        (case quanta_ramfs_list (if is ''ls'' then str ''/home/quanta'' else drop 3 (line s)) of
           Some listing \<Rightarrow> put listing s | None \<Rightarrow> put_line ''ls: not found'' s)
      else if begins ''cat '' then
        (case quanta_ramfs_read (drop 4 (line s)) of
           Some contents \<Rightarrow> put contents s | None \<Rightarrow> put_line ''cat: not found'' s)
      else if begins ''echo '' then put [10] (put (cstr (drop 5 (line s))) s)
      else if is ''echo'' then put [10] s
      else if is ''printf'' then print_printf_demo s
      else if is ''uname'' then put_line ''QuantaOs x86_64 single-user'' s
      else if is ''ps'' then put (str ''PID STATE NAME'' @ [10] @ str ''1 running shell'' @ [10] @ str ''2 ready console'' @ [10]) s
      else if is ''mem'' then put_line ''memory: bootstrap frame allocator active'' s
      else if is ''date'' then put (date_stamp (quanta_arch_read_rtc cmos)) s
      else if is ''drivers'' then print_driver_status s
      else if is ''clear'' then prompt_session (clear_console s)
      else if is ''passwd'' then put_line ''passwd: password update not yet persisted'' s
      else if is ''exit'' then
        prompt_login (put (10 # str ''QuantaOs'' @ [10])
          (clear_console (s\<lparr>logged_in := False, current_state := SHELL_LOGIN\<rparr>)))
      else if is ''shutdown'' then (put_line ''QUANTA_SHUTDOWN'' s)\<lparr>shut_down := True\<rparr>
      else if line_length s \<noteq> 0 then put_line ''command not found'' s
      else s)"

text \<open>\<^verbatim>\<open>quanta_arch_shutdown\<close> does not return.\<close>

definition execute_session :: "(byte \<Rightarrow> byte) \<Rightarrow> shell \<Rightarrow> shell" where
  "execute_session cmos s =
     (let s1 = session_command cmos (terminate_line s) in
      if shut_down s1 then s1
      else if logged_in s1 \<and> current_state s1 = SHELL_SESSION then prompt_session (reset_line s1)
      else reset_line s1)"

definition execute :: "(byte \<Rightarrow> byte) \<Rightarrow> shell \<Rightarrow> shell" where
  "execute cmos s =
     (case current_state s of
        SHELL_LOGIN \<Rightarrow> execute_login s
      | SHELL_PASSWORD \<Rightarrow> execute_password s
      | SHELL_SESSION \<Rightarrow> execute_session cmos s)"

definition feed :: "(byte \<Rightarrow> byte) \<Rightarrow> shell \<Rightarrow> int \<Rightarrow> shell" where
  "feed cmos s input =
     (if shut_down s \<or> input < 0 then s
      else if input = 13 \<or> input = 10 then execute cmos (put [10] s)
      else if (input = 8 \<or> input = 127) \<and> line_length s \<noteq> 0
      then put [8, 32, 8] (s\<lparr>line_length := line_length s - 1\<rparr>)
      else if 32 \<le> input \<and> input < 127 \<and> line_length s + 1 < LINE_MAX
      then (let s1 = s\<lparr>line := (line s)[line_length s := word_of_int input], line_length := line_length s + 1\<rparr>
            in if current_state s1 = SHELL_PASSWORD then put (str ''*'') s1 else put [word_of_int input] s1)
      else s)"

definition shell_start :: shell where
  "shell_start = prompt_login (put (10 # str ''QuantaOs'' @ [10])
     \<lparr>line = replicate LINE_MAX 0, line_length = 0, current_state = SHELL_LOGIN, logged_in = False, printed = [],
      shut_down = False\<rparr>)"

definition quanta_shell_run :: "(byte \<Rightarrow> byte) \<Rightarrow> int list \<Rightarrow> shell" where
  "quanta_shell_run cmos inputs = foldl (feed cmos) shell_start inputs"

section \<open>The line buffer and the login\<close>

named_theorems shell_commands "commands of the session that keep the line and leave the session only by logging out"

lemma put_same [simp]:
  "line (put t s) = line s" "line_length (put t s) = line_length s" "current_state (put t s) = current_state s"
  "logged_in (put t s) = logged_in s" "shut_down (put t s) = shut_down s"
  by (simp_all add: put_def)

lemma prompts_same [simp]:
  "line (put_line t s) = line s" "line_length (put_line t s) = line_length s"
  "current_state (put_line t s) = current_state s" "logged_in (put_line t s) = logged_in s"
  "shut_down (put_line t s) = shut_down s"
  by (simp_all add: put_line_def)

lemmas prompts = prompt_session_def prompt_login_def prompt_password_def print_driver_status_def print_printf_demo_def
  clear_console_def

text \<open>The characters typed since the line was last reset.\<close>

definition typed :: "shell \<Rightarrow> byte list" where
  "typed s = take (line_length s) (line s)"

definition shell_ok :: "shell \<Rightarrow> bool" where
  "shell_ok s \<longleftrightarrow> length (line s) = LINE_MAX \<and> line_length s < LINE_MAX \<and> (\<forall>c\<in>set (typed s). 32 \<le> c \<and> c < 127) \<and>
     (logged_in s \<longleftrightarrow> current_state s = SHELL_SESSION)"

text \<open>What a command may do to the shell: keep the line, and keep the login or drop it.\<close>

definition keeps_line :: "shell \<Rightarrow> shell \<Rightarrow> bool" where
  "keeps_line s t \<longleftrightarrow> line t = line s \<and> line_length t = line_length s \<and>
     (logged_in t = logged_in s \<and> current_state t = current_state s \<or> \<not> logged_in t \<and> current_state t = SHELL_LOGIN)"

lemma keeps_line_outputs [shell_commands]:
  "keeps_line s s" "keeps_line s (put a s)" "keeps_line s (put b (put a s))" "keeps_line s (put_line c s)"
  "keeps_line s (print_driver_status s)" "keeps_line s (print_printf_demo s)"
  "keeps_line s (prompt_session (clear_console s))"
  "keeps_line s ((put_line c s)\<lparr>shut_down := True\<rparr>)"
  "keeps_line s (prompt_login (put a (clear_console (s\<lparr>logged_in := False, current_state := SHELL_LOGIN\<rparr>))))"
  by (simp_all add: keeps_line_def prompts)

lemma keeps_line_branches [shell_commands]:
  "keeps_line s a \<Longrightarrow> keeps_line s b \<Longrightarrow> keeps_line s (if c then a else b)"
  "(\<And>v. keeps_line s (f v)) \<Longrightarrow> keeps_line s b \<Longrightarrow> keeps_line s (case x of Some v \<Rightarrow> f v | None \<Rightarrow> b)"
  by (auto split: option.split)

lemma session_command_keeps_line: "keeps_line s (session_command cmos s)"
  unfolding session_command_def Let_def by (intro shell_commands)

lemma terminated_cstr:
  assumes "shell_ok s"
  shows "cstr (line (terminate_line s)) = typed s"
proof -
  have l: "line_length s < length (line s)" and nz: "0 \<notin> set (typed s)" using assms by (auto simp: shell_ok_def)
  have "(line s)[line_length s := 0] = typed s @ 0 # drop (Suc (line_length s)) (line s)"
    using l by (simp add: typed_def upd_conv_take_nth_drop)
  then show ?thesis using cstr_append_zero [OF nz] by (simp add: terminate_line_def)
qed

lemma typed_reset [simp]: "typed (reset_line s) = []"
  by (simp add: typed_def reset_line_def)

lemma typed_put [simp]: "typed (put a s) = typed s" "typed (put_line b s) = typed s"
  by (simp_all add: typed_def)

lemma shell_ok_put [simp]: "shell_ok (put a s) \<longleftrightarrow> shell_ok s"
  by (simp add: shell_ok_def)

lemma terminated:
  assumes "shell_ok s"
  shows "length (line (terminate_line s)) = LINE_MAX" "line_length (terminate_line s) = line_length s"
    "logged_in (terminate_line s) = logged_in s" "current_state (terminate_line s) = current_state s"
    "shut_down (terminate_line s) = shut_down s" "typed (terminate_line s) = typed s"
    "shell_ok (terminate_line s)"
  using assms by (simp_all add: shell_ok_def terminate_line_def typed_def)

lemma reset_ok:
  "length (line e) = LINE_MAX \<Longrightarrow> (logged_in e \<longleftrightarrow> current_state e = SHELL_SESSION) \<Longrightarrow> shell_ok (reset_line e)"
  by (simp add: shell_ok_def reset_line_def typed_def LINE_MAX_def)

lemma keeps_line_ok: "shell_ok s \<Longrightarrow> keeps_line s t \<Longrightarrow> shell_ok t"
  by (auto simp: shell_ok_def keeps_line_def typed_def)

lemma execute_session_ok:
  assumes "shell_ok s"
  shows "shell_ok (execute_session cmos s)"
proof -
  let ?t = "session_command cmos (terminate_line s)"
  have ok: "shell_ok ?t" by (rule keeps_line_ok [OF terminated(7) [OF assms] session_command_keeps_line])
  then have "shell_ok (reset_line ?t)" by (intro reset_ok) (simp_all add: shell_ok_def)
  then show ?thesis using ok by (simp add: execute_session_def Let_def prompt_session_def)
qed

lemma login_ok:
  assumes "shell_ok s" "current_state s \<noteq> SHELL_SESSION"
  shows "shell_ok (execute_login s)" "shell_ok (execute_password s)"
proof -
  have out: "\<not> logged_in s" using assms by (simp add: shell_ok_def)
  show "shell_ok (execute_login s)"
    unfolding execute_login_def Let_def using assms out terminated [OF assms(1)]
    by (auto intro!: reset_ok simp: prompts)
  show "shell_ok (execute_password s)"
    unfolding execute_password_def Let_def using assms out terminated [OF assms(1)]
    by (auto intro!: reset_ok simp: prompts)
qed

lemma execute_ok: "shell_ok s \<Longrightarrow> shell_ok (execute cmos s)"
  by (simp add: execute_def execute_session_ok login_ok split: shell_state.split)

lemma typed_char:
  assumes "shell_ok s" "line_length s + 1 < LINE_MAX" "32 \<le> c" "c < (127 :: byte)"
  shows "shell_ok (s\<lparr>line := (line s)[line_length s := c], line_length := line_length s + 1\<rparr>)"
proof -
  have "take (line_length s + 1) ((line s)[line_length s := c]) = typed s @ [c]"
    using assms by (simp add: shell_ok_def typed_def take_Suc_conv_app_nth)
  then show ?thesis using assms by (auto simp: shell_ok_def typed_def)
qed

lemma erased_char:
  assumes "shell_ok s"
  shows "shell_ok (s\<lparr>line_length := line_length s - 1\<rparr>)"
proof -
  have "set (take (line_length s - 1) (line s)) \<subseteq> set (typed s)" by (simp add: typed_def set_take_subset_set_take)
  then show ?thesis using assms by (auto simp: shell_ok_def typed_def)
qed

lemma printable_byte:
  assumes "32 \<le> i" "i < (127 :: int)"
  shows "32 \<le> (word_of_int i :: byte)" "(word_of_int i :: byte) < 127"
  using assms by (simp_all add: word_le_def word_less_def uint_word_of_int)

lemma feed_ok:
  assumes "shell_ok s"
  shows "shell_ok (feed cmos s input)"
proof -
  have chars: "shell_ok (s\<lparr>line := (line s)[line_length s := word_of_int input], line_length := line_length s + 1\<rparr>)"
    if "32 \<le> input" "input < 127" "line_length s + 1 < LINE_MAX"
    using typed_char [OF assms that(3) printable_byte [OF that(1, 2)]] .
  show ?thesis
    unfolding feed_def Let_def
    using assms execute_ok [of "put [10] s" cmos] erased_char [OF assms] chars
    by (simp only: shell_ok_put split: if_split) simp
qed

lemma run_snoc: "quanta_shell_run cmos (inputs @ [input]) = feed cmos (quanta_shell_run cmos inputs) input"
  by (simp add: quanta_shell_run_def)

lemma run_ok: "shell_ok (quanta_shell_run cmos inputs)"
proof (induction inputs rule: rev_induct)
  case Nil
  then show ?case
    by (simp add: quanta_shell_run_def shell_start_def shell_ok_def typed_def prompts LINE_MAX_def)
next
  case (snoc input inputs)
  then show ?case by (simp add: run_snoc feed_ok)
qed

text \<open>C26: Whatever is typed, the line buffer of the shell never overflows: it keeps its 96 bytes, at most 95 of them
  are characters, all of them printable, so there is always room for the terminating zero; and the flag that says that a
  user is logged in agrees with the state of the login automaton.\<close>

theorem shell_line_bounded:
  "length (line (quanta_shell_run cmos inputs)) = 96 \<and> line_length (quanta_shell_run cmos inputs) < 96 \<and>
   (\<forall>i<line_length (quanta_shell_run cmos inputs).
      32 \<le> line (quanta_shell_run cmos inputs) ! i \<and> line (quanta_shell_run cmos inputs) ! i < 127) \<and>
   (logged_in (quanta_shell_run cmos inputs) \<longleftrightarrow> current_state (quanta_shell_run cmos inputs) = SHELL_SESSION)"
proof -
  let ?s = "quanta_shell_run cmos inputs"
  have ok: "shell_ok ?s" by (rule run_ok)
  have "line ?s ! i \<in> set (typed ?s)" if "i < line_length ?s" for i
    using ok that by (auto simp: shell_ok_def typed_def in_set_conv_nth intro!: exI [of _ i])
  then show ?thesis using ok by (auto simp: shell_ok_def LINE_MAX_def)
qed

theorem shell_line_bounded_witness:
  "line_length (quanta_shell_run (\<lambda>_. 0) (map int [113, 117, 97])) < 96"
  using shell_line_bounded [of "\<lambda>_. 0" "map int [113, 117, 97]"] by blast

lemma execute_session_state:
  "current_state (execute_session cmos s) = current_state (session_command cmos (terminate_line s))"
  unfolding execute_session_def Let_def
  by (cases "shut_down (session_command cmos (terminate_line s))") (simp_all add: prompt_session_def reset_line_def)

lemma quanta_typed:
  assumes "shell_ok s"
  shows "text_equal (line (terminate_line s)) (str ''quanta'') \<longleftrightarrow> typed s = str ''quanta''"
proof -
  have "cstr (str ''quanta'') = str ''quanta''" by (rule cstr_id) (simp add: str_def)
  then show ?thesis using terminated_cstr [OF assms] by simp
qed

text \<open>The automaton of the login moves forward one prompt at a time, each time on a line that is exactly
  ''quanta'', and never into a session otherwise: every other change of its state falls back to the login prompt.\<close>

theorem shell_login_steps:
  assumes "s = quanta_shell_run cmos inputs" "t = quanta_shell_run cmos (inputs @ [input])"
    "current_state t \<noteq> current_state s"
  shows "(input = 13 \<or> input = 10) \<and> (current_state t = SHELL_LOGIN \<or> typed s = str ''quanta'' \<and>
     (current_state s = SHELL_LOGIN \<and> current_state t = SHELL_PASSWORD \<or>
      current_state s = SHELL_PASSWORD \<and> current_state t = SHELL_SESSION))"
proof -
  have ok: "shell_ok (put [10] s)" using run_ok assms(1) by simp
  have t: "t = feed cmos s input" using assms(1, 2) run_snoc by simp
  have entered: "input = 13 \<or> input = 10" "t = execute cmos (put [10] s)"
    using t assms(3) by (auto simp: feed_def Let_def split: if_splits)
  have "current_state (session_command cmos e) \<in> {current_state e, SHELL_LOGIN}" for e
    using session_command_keeps_line [of e cmos] by (auto simp: keeps_line_def)
  then have session: "current_state (execute_session cmos (put [10] s)) \<in> {current_state s, SHELL_LOGIN}"
    using terminated(4) [OF ok] by (metis execute_session_state put_same(3))
  show ?thesis
  proof (cases "current_state s")
    case SHELL_LOGIN
    then show ?thesis using entered assms(3) quanta_typed [OF ok] terminated(4) [OF ok]
      by (simp add: execute_def execute_login_def prompts reset_line_def Let_def split: if_splits)
  next
    case SHELL_PASSWORD
    then show ?thesis using entered assms(3) quanta_typed [OF ok] terminated(4) [OF ok]
      by (simp add: execute_def execute_password_def prompts reset_line_def Let_def split: if_splits)
  next
    case SHELL_SESSION
    then show ?thesis using entered assms(3) session by (simp add: execute_def)
  qed
qed

theorem shell_login_steps_witness:
  "current_state (quanta_shell_run (\<lambda>_. 0) (map (int \<circ> unat) (str ''quanta'') @ [13])) = SHELL_PASSWORD \<and>
   typed (quanta_shell_run (\<lambda>_. 0) (map (int \<circ> unat) (str ''quanta''))) = str ''quanta''"
proof -
  let ?i = "map (int \<circ> unat) (str ''quanta'')"
  have s: "current_state (quanta_shell_run (\<lambda>_. 0) ?i) = SHELL_LOGIN" by code_simp
  have t: "current_state (quanta_shell_run (\<lambda>_. 0) (?i @ [13])) = SHELL_PASSWORD" by code_simp
  show ?thesis using shell_login_steps [OF refl refl, of "\<lambda>_. 0" ?i 13] s t by simp
qed

end
