(* ===== verification/Session_Paths.thy ===== *)
theory Session_Paths
  imports Mount Task
begin

text \<open>
  The text routines of \<^verbatim>\<open>userspace/session.c\<close>: numbers, command lines and the resolution of paths against the
  working directory.  A string is the list of its bytes; reading behind its end gives the terminating zero
  (\<open>cat\<close>), and an output buffer is the string that ends up in it.
\<close>

definition PATH_SIZE :: nat where [geometry]: "PATH_SIZE = 96"
definition MAX_PARTS :: nat where [geometry]: "MAX_PARTS = 8"
definition PART_SIZE :: nat where [geometry]: "PART_SIZE = 24"

section \<open>Numbers\<close>

text \<open>The digits in the order the loop produces them, the last one first.\<close>

function digits_from :: "u64 \<Rightarrow> byte list" where
  "digits_from value =
     (let digit = ucast (48 + value mod 10); rest = value div 10
      in if rest = 0 then [digit] else digit # digits_from rest)"
  by auto
termination
proof (relation "measure unat", goal_cases)
  case (2 v digit rest)
  then have "unat rest \<noteq> 0" by (simp add: unat_eq_0)
  then show ?case using 2 by (simp add: unat_div)
qed simp

declare digits_from.simps [simp del]

definition decimal :: "u64 \<Rightarrow> byte list" where
  "decimal value = rev (digits_from value)"

section \<open>Command lines\<close>

text \<open>The name, cut off with a failure when it does not fit, and the arguments behind it.\<close>

definition skip_spaces :: "byte list \<Rightarrow> byte list" where
  "skip_spaces line = dropWhile (\<lambda>c. c = 32) line"

definition split_command :: "byte list \<Rightarrow> nat \<Rightarrow> (byte list \<times> byte list) option" where
  "split_command line name_size =
     (let line1 = skip_spaces line;
          name = takeWhile (\<lambda>c. c \<noteq> 0 \<and> c \<noteq> 32) line1;
          args = skip_spaces (drop (length name) line1)
      in if length name + 1 > name_size then None else if name = [] then None else Some (name, args))"

definition trim_line :: "byte list \<Rightarrow> byte list" where
  "trim_line line = rev (dropWhile (\<lambda>c. c = 32) (rev (cstr line)))"

section \<open>Paths\<close>

definition forbidden :: "byte \<Rightarrow> bool" where
  "forbidden c \<longleftrightarrow> c = 47 \<or> c = 92 \<or> c = 58"

definition take_part :: "byte list \<Rightarrow> byte list" where
  "take_part text = takeWhile (\<lambda>c. c \<noteq> 0 \<and> c \<noteq> 62) text"

definition skip_part :: "byte list \<Rightarrow> byte list" where
  "skip_part text =
     (let rest = drop (length (take_part text)) text in if cat rest 0 = 62 then drop 1 rest else rest)"

text \<open>One component: stay, climb or descend.\<close>

definition enter_part :: "byte list \<Rightarrow> byte list list \<Rightarrow> byte list list option" where
  "enter_part part parts =
     (if list_ex forbidden part then None
      else if part = str ''.'' then Some parts
      else if part = str ''..'' then Some (butlast parts)
      else if part \<noteq> [] then
        (if length parts \<ge> MAX_PARTS \<or> length part \<ge> PART_SIZE then None else Some (parts @ [part]))
      else Some parts)"

lemma take_part_le: "length (take_part input) \<le> length input"
  by (simp add: take_part_def length_takeWhile_le)

lemma skip_part_shorter:
  assumes "cat input 0 \<noteq> 0"
  shows "length (skip_part input) < length input"
proof -
  obtain c rest where t: "input = c # rest" using assms by (cases input) auto
  show ?thesis
  proof (cases "c = 62")
    case True
    then show ?thesis by (simp add: t skip_part_def take_part_def)
  next
    case False
    then have "take_part input \<noteq> []" using assms by (simp add: t take_part_def)
    then have "length (drop (length (take_part input)) input) < length input" by (simp add: t)
    then show ?thesis by (auto simp: skip_part_def Let_def)
  qed
qed

function path_add_components :: "byte list \<Rightarrow> byte list list \<Rightarrow> byte list list option" where
  "path_add_components text parts =
     (if cat text 0 = 0 then Some parts
      else case enter_part (take_part text) parts of
             None \<Rightarrow> None
           | Some parts1 \<Rightarrow> path_add_components (skip_part text) parts1)"
  by auto
termination
  by (relation "measure (\<lambda>(text, parts). length text)") (auto simp: skip_part_shorter)

declare path_add_components.simps [simp del]

text \<open>One character into the output buffer, which keeps a byte for the terminating zero.\<close>

definition push_char :: "byte list \<Rightarrow> byte \<Rightarrow> byte list option" where
  "push_char out c = (if length out + 1 \<ge> PATH_SIZE then None else Some (out @ [c]))"

fun push_text :: "byte list \<Rightarrow> byte list \<Rightarrow> byte list option" where
  "push_text [] out = Some out"
| "push_text (c # cs) out = Option.bind (push_char out c) (push_text cs)"

fun push_parts :: "bool \<Rightarrow> byte list list \<Rightarrow> byte list \<Rightarrow> byte list option" where
  "push_parts first [] out = Some out"
| "push_parts first (part # parts) out =
     Option.bind (push_text (if first then part else 62 # part) out) (push_parts False parts)"

definition scan_drive :: "byte list \<Rightarrow> byte list" where
  "scan_drive input = takeWhile (\<lambda>c. c \<noteq> 0 \<and> c \<noteq> 58 \<and> c \<noteq> 62) input"

definition build_path :: "byte list \<Rightarrow> byte list list \<Rightarrow> byte list option" where
  "build_path active_drive parts =
     Option.bind (push_char (take (PATH_SIZE - 1) active_drive) 58) (push_parts True parts)"

text \<open>The components of the working directory, behind its drive.\<close>

definition cwd_parts :: "byte list \<Rightarrow> byte list list option" where
  "cwd_parts cwd =
     (let rest = dropWhile (\<lambda>c. c \<noteq> 0 \<and> c \<noteq> 58) cwd
      in if cat rest 0 \<noteq> 58 then None else path_add_components (drop 1 rest) [])"

text \<open>The components a path stands for: of the drive it names, or behind the working directory.\<close>

definition resolve_parts :: "byte list \<Rightarrow> byte list \<Rightarrow> byte list \<Rightarrow> byte list list option" where
  "resolve_parts cwd active_drive input =
     (let drive = scan_drive input; behind = drop (length drive) input
      in if 47 \<in> set drive then None
         else if cat behind 0 = 58 then
           (if drive = [] \<or> length drive \<ge> 8 then None
            else if (drive \<noteq> str ''prime'' \<and> drive \<noteq> str ''live'') \<or> drive \<noteq> active_drive then None
            else path_add_components (drop 1 behind) [])
         else if cat input 0 = 47 \<or> cat input 0 = 92 \<or> cat input 1 = 58 then None
         else Option.bind (cwd_parts cwd) (path_add_components input))"

definition path_resolve :: "byte list \<Rightarrow> byte list \<Rightarrow> byte list \<Rightarrow> byte list option" where
  "path_resolve cwd active_drive input =
     Option.bind (resolve_parts cwd active_drive (skip_spaces input)) (build_path active_drive)"

definition reset_home_cwd :: "byte list \<Rightarrow> byte list" where
  "reset_home_cwd active_drive =
     (let drive = take (PATH_SIZE - 1) active_drive @ [58]
      in drive @ take (PATH_SIZE - 1 - length drive) (str ''home>quanta''))"

definition set_cwd_text :: "byte list \<Rightarrow> byte list" where
  "set_cwd_text path = take (PATH_SIZE - 1) (cstr path)"

text \<open>The last \<open>>\<close> of a path; the code takes 0 for none.\<close>

definition last_separator :: "byte list \<Rightarrow> nat" where
  "last_separator path = foldl (\<lambda>parent i. if path ! i = 62 then i else parent) 0 [0..<length path]"

section \<open>Resolution\<close>

text \<open>The components a resolved path is made of.\<close>

definition good_part :: "byte list \<Rightarrow> bool" where
  "good_part part \<longleftrightarrow> part \<noteq> [] \<and> length part < PART_SIZE \<and> set part \<inter> {0, 47, 92, 58, 62} = {} \<and>
     part \<noteq> str ''.'' \<and> part \<noteq> str ''..''"

definition good_parts :: "byte list list \<Rightarrow> bool" where
  "good_parts parts \<longleftrightarrow> list_all good_part parts \<and> length parts \<le> MAX_PARTS"

fun join_parts :: "byte list list \<Rightarrow> byte list" where
  "join_parts [] = []"
| "join_parts [part] = part"
| "join_parts (part # parts) = part @ 62 # join_parts parts"

lemma join_Cons: "join_parts (part # parts) = part @ (if parts = [] then [] else 62 # join_parts parts)"
  by (cases parts) simp_all

lemma take_part_chars: "set (take_part s) \<inter> {0, 62} = {}"
  by (auto simp: take_part_def dest: set_takeWhileD)

lemma take_part_end:
  assumes "set a \<inter> {0, 62} = {}"
  shows "take_part (a @ 62 # b) = a" "take_part a = a" "skip_part (a @ 62 # b) = b" "skip_part a = []"
proof -
  have w: "takeWhile (\<lambda>c. c \<noteq> 0 \<and> c \<noteq> 62) a = a" using assms by (auto simp: takeWhile_eq_all_conv)
  have "takeWhile (\<lambda>c. c \<noteq> 0 \<and> c \<noteq> 62) (a @ 62 # b) = a" using assms by (subst takeWhile_append2) auto
  then show "take_part (a @ 62 # b) = a" "take_part a = a" "skip_part (a @ 62 # b) = b" "skip_part a = []"
    by (simp_all add: take_part_def skip_part_def Let_def w)
qed

lemma skip_part_append:
  assumes "0 \<notin> set a" "62 \<in> set a"
  shows "take_part (a @ s) = take_part a" "skip_part (a @ s) = skip_part a @ s" "0 \<notin> set (skip_part a)"
proof -
  obtain x y where a: "a = x @ 62 # y" "62 \<notin> set x" using split_list_first [OF assms(2)] by blast
  then have x: "set x \<inter> {0, 62} = {}" using assms(1) by auto
  show "take_part (a @ s) = take_part a" "skip_part (a @ s) = skip_part a @ s" "0 \<notin> set (skip_part a)"
    using take_part_end(1,3) [OF x, of "y @ s"] take_part_end(1,3) [OF x, of y] a assms(1) by simp_all
qed

lemma enter_part_keeps:
  assumes "enter_part part parts = Some parts1" "good_parts parts" "set part \<inter> {0, 62} = {}"
  shows "good_parts parts1"
proof -
  have "good_parts (butlast parts)" using assms(2) by (auto simp: good_parts_def list_all_iff dest: in_set_butlastD)
  moreover have "good_parts (parts @ [part])"
    if "\<not> list_ex forbidden part" "part \<noteq> str ''.''" "part \<noteq> str ''..''" "part \<noteq> []"
      "\<not> (length parts \<ge> MAX_PARTS \<or> length part \<ge> PART_SIZE)"
  proof -
    have "set part \<inter> {0, 47, 92, 58, 62} = {}" using that(1) assms(3) by (auto simp: list_ex_iff forbidden_def)
    then have "good_part part" using that by (simp add: good_part_def)
    then show ?thesis using assms(2) that(5) by (simp add: good_parts_def)
  qed
  ultimately show ?thesis using assms(1,2) by (simp add: enter_part_def split: if_splits)
qed

lemma path_add_keeps:
  "path_add_components s parts = Some parts1 \<Longrightarrow> good_parts parts \<Longrightarrow> good_parts parts1"
proof (induction s parts rule: path_add_components.induct)
  case (1 s parts)
  show ?case
  proof (cases "cat s 0 = 0")
    case True
    then show ?thesis using "1.prems" by (simp add: path_add_components.simps)
  next
    case False
    then obtain parts2 where e: "enter_part (take_part s) parts = Some parts2"
      "path_add_components (skip_part s) parts2 = Some parts1"
      using "1.prems"(1) by (subst (asm) path_add_components.simps) (auto split: option.splits)
    show ?thesis
      using "1.IH" [OF False e enter_part_keeps [OF e(1) "1.prems"(2) take_part_chars]] .
  qed
qed

lemma enter_good_part:
  assumes "good_part part" "length parts < MAX_PARTS"
  shows "enter_part part parts = Some (parts @ [part])"
proof -
  have "\<not> list_ex forbidden part" using assms(1) by (auto simp: good_part_def list_ex_iff forbidden_def)
  then show ?thesis using assms by (simp add: enter_part_def good_part_def)
qed

lemma path_add_part:
  assumes "set part \<inter> {0, 62} = {}" "part \<noteq> []"
  shows "path_add_components part parts = enter_part part parts"
    "path_add_components (part @ 62 # s) parts = Option.bind (enter_part part parts) (path_add_components s)"
proof -
  have c: "cat part 0 \<noteq> 0" "cat (part @ 62 # s) 0 \<noteq> 0" using assms by (cases part; simp)+
  show "path_add_components part parts = enter_part part parts"
    using c by (subst path_add_components.simps)
      (simp add: take_part_end [OF assms(1)] path_add_components.simps [of "[]"] split: option.split)
  show "path_add_components (part @ 62 # s) parts = Option.bind (enter_part part parts) (path_add_components s)"
    using c by (subst path_add_components.simps) (simp add: take_part_end [OF assms(1)] split: option.split)
qed

lemma path_add_join:
  "list_all good_part new \<Longrightarrow> length parts + length new \<le> MAX_PARTS \<Longrightarrow>
     path_add_components (join_parts new) parts = Some (parts @ new)"
proof (induction new arbitrary: parts)
  case Nil
  then show ?case by (simp add: path_add_components.simps)
next
  case (Cons part new)
  have p: "set part \<inter> {0, 62} = {}" "part \<noteq> []" using Cons.prems(1) by (auto simp: good_part_def)
  have e: "enter_part part parts = Some (parts @ [part])" using Cons.prems by (intro enter_good_part) auto
  show ?case
    using Cons.IH [of "parts @ [part]"] Cons.prems by (simp add: join_Cons path_add_part [OF p] e)
qed

lemma path_add_append:
  "0 \<notin> set a \<Longrightarrow>
     path_add_components (a @ 62 # b) parts = Option.bind (path_add_components a parts) (path_add_components b)"
proof (induction a parts rule: path_add_components.induct)
  case (1 a parts)
  have empty: "enter_part [] parts = Some parts" by (simp add: enter_part_def str_def)
  show ?case
  proof (cases "62 \<in> set a")
    case True
    note s = skip_part_append(1,2) [OF "1.prems" True, of "62 # b"] skip_part_append(3) [OF "1.prems" True]
    have c: "cat a 0 \<noteq> 0" "cat (a @ 62 # b) 0 \<noteq> 0" using "1.prems" True by (cases a; auto)+
    show ?thesis
    proof (cases "enter_part (take_part a) parts")
      case None
      then show ?thesis
        using c s by (simp add: path_add_components.simps [of "a @ 62 # b"] path_add_components.simps [of a])
    next
      case (Some parts1)
      then show ?thesis
        using c s "1.IH" [OF c(1) Some s(3)]
        by (simp add: path_add_components.simps [of "a @ 62 # b"] path_add_components.simps [of a])
    qed
  next
    case False
    then have a: "set a \<inter> {0, 62} = {}" using "1.prems" by auto
    show ?thesis
    proof (cases "a = []")
      case True
      then show ?thesis
        using take_part_end(1,3) [of "[]" b]
        by (simp add: path_add_components.simps [of "62 # b"] path_add_components.simps [of "[]"] empty)
    next
      case False
      then show ?thesis by (simp add: path_add_part [OF a])
    qed
  qed
qed

lemma push_text_iff:
  "push_text s out = (if s = [] \<or> length out + length s < PATH_SIZE then Some (out @ s) else None)"
  by (induction s arbitrary: out) (auto simp: push_char_def)

lemma push_parts_iff:
  "push_parts first parts out = Some p \<longleftrightarrow>
     p = out @ (if first \<or> parts = [] then join_parts parts else 62 # join_parts parts) \<and>
     (length p < PATH_SIZE \<or> p = out)"
proof (induction parts arbitrary: first out)
  case Nil
  then show ?case by auto
next
  case (Cons part parts)
  show ?case by (auto simp: push_text_iff Cons join_Cons split: if_splits)
qed

definition known_drive_name :: "byte list \<Rightarrow> bool" where
  "known_drive_name drive \<longleftrightarrow> drive = str ''prime'' \<or> drive = str ''live''"

lemma build_path_iff:
  assumes "known_drive_name drive"
  shows "build_path drive parts = Some p \<longleftrightarrow> p = drive @ 58 # join_parts parts \<and> length p < PATH_SIZE"
proof -
  have "length drive \<le> 5" using assms by (auto simp: known_drive_name_def)
  then show ?thesis by (auto simp: build_path_def push_char_def PATH_SIZE_def push_parts_iff)
qed

text \<open>What a successful resolution returns.\<close>

lemma good_parts_Nil [simp]: "good_parts []"
  by (simp add: good_parts_def)

lemma cwd_parts_good: "cwd_parts cwd = Some parts \<Longrightarrow> good_parts parts"
  by (auto simp: cwd_parts_def Let_def split: if_splits intro: path_add_keeps)

lemma resolve_parts_good: "resolve_parts cwd drive input = Some parts \<Longrightarrow> good_parts parts"
  unfolding resolve_parts_def Let_def
  by (auto simp: bind_eq_Some_conv simp del: One_nat_def split: if_splits intro: path_add_keeps dest: cwd_parts_good)

lemma path_resolve_Some:
  assumes "known_drive_name drive" "path_resolve cwd drive input = Some p"
  obtains parts where "good_parts parts" "p = drive @ 58 # join_parts parts" "length p < PATH_SIZE"
proof -
  obtain parts where "good_parts parts" "build_path drive parts = Some p"
    using assms(2) resolve_parts_good unfolding path_resolve_def bind_eq_Some_conv by blast
  then show ?thesis using build_path_iff [OF assms(1)] that by blast
qed

lemma drive_chars:
  assumes "known_drive_name drive"
  shows "set drive \<inter> {0, 32, 47, 58, 62} = {}" "length drive < 8" "drive \<noteq> []"
  using assms by (auto simp: known_drive_name_def str_def)

lemma drive_scan:
  assumes "known_drive_name drive"
  shows "skip_spaces (drive @ 58 # s) = drive @ 58 # s" "scan_drive (drive @ 58 # s) = drive"
    "dropWhile (\<lambda>c. c \<noteq> 0 \<and> c \<noteq> 58) (drive @ 58 # s) = 58 # s"
proof -
  note d = drive_chars [OF assms]
  show "skip_spaces (drive @ 58 # s) = drive @ 58 # s" using d by (cases drive) (auto simp: skip_spaces_def)
  show "scan_drive (drive @ 58 # s) = drive" using d(1) unfolding scan_drive_def by (subst takeWhile_append2) auto
  show "dropWhile (\<lambda>c. c \<noteq> 0 \<and> c \<noteq> 58) (drive @ 58 # s) = 58 # s"
    using d(1) by (subst dropWhile_append2) auto
qed

lemma cwd_parts_resolved:
  assumes "known_drive_name drive" "good_parts parts"
  shows "cwd_parts (drive @ 58 # join_parts parts) = Some parts"
  using path_add_join [of parts "[]"] assms(2)
  by (simp add: cwd_parts_def drive_scan(3) [OF assms(1)] good_parts_def)

lemma path_resolve_resolved:
  assumes "known_drive_name drive" "good_parts parts" "length (drive @ 58 # join_parts parts) < PATH_SIZE"
  shows "path_resolve cwd drive (drive @ 58 # join_parts parts) = Some (drive @ 58 # join_parts parts)"
proof -
  note d = drive_chars [OF assms(1)]
  have "path_add_components (join_parts parts) [] = Some parts"
    using path_add_join [of parts "[]"] assms(2) by (simp add: good_parts_def)
  moreover have "build_path drive parts = Some (drive @ 58 # join_parts parts)"
    using build_path_iff [OF assms(1)] assms(3) by blast
  moreover have "47 \<notin> set drive" using d(1) by auto
  moreover have "drive = str ''prime'' \<or> drive = str ''live''" using assms(1) by (simp add: known_drive_name_def)
  ultimately show ?thesis
    using d(2,3) by (auto simp: path_resolve_def resolve_parts_def Let_def drive_scan [OF assms(1)])
qed

text \<open>The characters the kernel's path check accepts behind the drive, with the previous character.\<close>

fun accepted_chars :: "byte \<Rightarrow> byte list \<Rightarrow> bool" where
  "accepted_chars previous [] = True"
| "accepted_chars previous (c # cs) =
     (c \<notin> {0, 47, 92, 58} \<and> \<not> (c = 62 \<and> (previous = 0 \<or> previous = 62)) \<and> accepted_chars c cs)"

lemma accepted_chars_valid:
  "accepted_chars previous cs \<Longrightarrow> length pre + length cs < QUANTA_PATH_MAX \<Longrightarrow>
     path_chars_valid (length pre) previous (pre @ cs)"
proof (induction cs arbitrary: pre previous)
  case Nil
  then show ?case by (subst path_chars_valid.simps) (simp add: cat_def)
next
  case (Cons c cs)
  have "path_chars_valid (length (pre @ [c])) c ((pre @ [c]) @ cs)"
    by (rule Cons.IH) (use Cons.prems in auto)
  then show ?case using Cons.prems by (subst path_chars_valid.simps) (simp add: cat_def Let_def)
qed

lemma accepted_append:
  "part \<noteq> [] \<Longrightarrow> set part \<inter> {0, 47, 92, 58, 62} = {} \<Longrightarrow>
     accepted_chars previous (part @ s) \<longleftrightarrow> accepted_chars (last part) s"
proof (induction part arbitrary: previous)
  case (Cons c part)
  then show ?case by (cases part) auto
qed simp

lemma accepted_parts: "list_all good_part parts \<Longrightarrow> accepted_chars previous (join_parts parts)"
proof (induction parts arbitrary: previous)
  case (Cons part parts)
  then have p: "part \<noteq> []" "set part \<inter> {0, 47, 92, 58, 62} = {}" by (simp_all add: good_part_def)
  have "last part \<in> set part" using p(1) by simp
  then have "last part \<notin> {0, 62}" using p(2) by blast
  then show ?case using Cons by (simp add: join_Cons accepted_append [OF p])
qed simp

lemma resolved_path_valid:
  assumes "known_drive_name drive" "good_parts parts" "length (drive @ 58 # join_parts parts) < PATH_SIZE"
    "mt_device m = Some device"
    "drive = (if device_name device ! 0 = of_char CHR ''l'' then str ''live'' else str ''prime'')"
  shows "filesystem_path_valid m (drive @ 58 # join_parts parts)"
proof -
  have "path_chars_valid (length (drive @ [58])) 0 ((drive @ [58]) @ join_parts parts)"
    using assms(2,3) by (intro accepted_chars_valid accepted_parts)
      (auto simp: good_parts_def PATH_SIZE_def QUANTA_PATH_MAX_def)
  then show ?thesis
    using assms(5) by (simp add: filesystem_path_valid_def assms(4) Let_def list_all_iff cat_def nth_append)
qed

text \<open>C23: Every path the session resolves is canonical: resolving it again, from any working directory,
  gives it back; it fits the path buffers; and when the session's drive is the one that is mounted it passes
  the path check of the kernel's file system calls.\<close>

theorem resolved_path_canonical:
  assumes "known_drive_name drive" "path_resolve cwd drive input = Some p"
  shows "path_resolve cwd' drive p = Some p \<and> length p < QUANTA_PATH_MAX \<and> 0 \<notin> set p \<and>
    (mt_device m = Some device \<and>
     drive = (if device_name device ! 0 = of_char CHR ''l'' then str ''live'' else str ''prime'') \<longrightarrow>
     filesystem_path_valid m p)"
proof -
  obtain parts where p: "good_parts parts" "p = drive @ 58 # join_parts parts" "length p < PATH_SIZE"
    using path_resolve_Some [OF assms] .
  have "0 \<notin> set (join_parts ps)" if "list_all good_part ps" for ps
    using that by (induction ps) (auto simp: join_Cons good_part_def)
  then have "0 \<notin> set p" using p(1,2) drive_chars(1) [OF assms(1)] by (auto simp: good_parts_def)
  moreover have "path_resolve cwd' drive p = Some p"
    using path_resolve_resolved [OF assms(1) p(1)] p(2,3) by simp
  ultimately show ?thesis
    using resolved_path_valid [OF assms(1) p(1), of m device] p(2,3) by (simp only: PATH_SIZE_def QUANTA_PATH_MAX_def) blast
qed

lemma demo_resolve:
  "path_resolve (str ''prime:home>quanta'') (str ''prime'') (str ''docs>.>new'') = Some (str ''prime:home>quanta>docs>new'')"
  by code_simp

theorem resolved_path_canonical_witness:
  "path_resolve (str ''prime:'') (str ''prime'') (str ''prime:home>quanta>docs>new'') = Some (str ''prime:home>quanta>docs>new'')"
proof -
  have "known_drive_name (str ''prime'')" by (simp add: known_drive_name_def)
  from resolved_path_canonical [OF this demo_resolve] show ?thesis by blast
qed

lemma scan_drive_append:
  assumes "0 \<notin> set a"
  shows "scan_drive (a @ 62 # b) = scan_drive a"
    "drop (length (scan_drive a)) (a @ 62 # b) = drop (length (scan_drive a)) a @ 62 # b"
proof -
  show "scan_drive (a @ 62 # b) = scan_drive a"
    using assms by (induction a) (auto simp: scan_drive_def)
  show "drop (length (scan_drive a)) (a @ 62 # b) = drop (length (scan_drive a)) a @ 62 # b"
    by (simp add: scan_drive_def length_takeWhile_le)
qed

lemma resolve_parts_append:
  assumes "0 \<notin> set a" "58 \<notin> set b" "resolve_parts cwd drive a = Some parts"
  shows "resolve_parts cwd drive (a @ 62 # b) = path_add_components b parts"
proof -
  define d where "d = scan_drive a"
  define behind where "behind = drop (length d) a"
  note scan = scan_drive_append [OF assms(1), folded d_def, folded behind_def]
  have behind0: "0 \<notin> set behind" using assms(1) by (auto simp: behind_def dest: in_set_dropD)
  note goal = resolve_parts_def Let_def scan
  note given = assms(3) [unfolded resolve_parts_def Let_def, folded d_def, folded behind_def]
  show ?thesis
  proof (cases "cat behind 0 = 58")
    case True
    then obtain r where b: "behind = 58 # r" by (cases behind) auto
    have "path_add_components r [] = Some parts" "47 \<notin> set d" "d \<noteq> []" "length d < 8"
      "d = str ''prime'' \<or> d = str ''live''" "d = drive"
      using given by (auto simp: b split: if_splits)
    then show ?thesis
      using path_add_append [of r b "[]"] behind0 unfolding goal by (auto simp: b)
  next
    case False
    then have first: "cat (behind @ 62 # b) 0 \<noteq> 58" by (cases behind) auto
    have some: "Option.bind (cwd_parts cwd) (path_add_components a) = Some parts" "47 \<notin> set d"
      "cat a 0 \<noteq> 47" "cat a 0 \<noteq> 92" "cat a 1 \<noteq> 58"
      using given False by (simp_all split: if_splits)
    have "cat b 0 \<noteq> 58" using assms(2) by (cases b) auto
    then have "cat (a @ 62 # b) 0 \<noteq> 47" "cat (a @ 62 # b) 0 \<noteq> 92" "cat (a @ 62 # b) 1 \<noteq> 58"
      using some(3-5) by (cases a; cases "tl a"; auto)+
    moreover have "Option.bind (cwd_parts cwd) (path_add_components (a @ 62 # b)) = path_add_components b parts"
      using some(1) by (auto simp: bind_eq_Some_conv path_add_append [OF assms(1)])
    ultimately show ?thesis
      using first some(2) unfolding goal by simp
  qed
qed

text \<open>Entering a directory and resolving a path from there is the same as resolving the two joined by
  a separator, so \<^verbatim>\<open>cd\<close> composes.\<close>

theorem path_resolve_composes:
  assumes "known_drive_name drive" "path_resolve cwd drive a = Some q" "path_resolve q drive b = Some p"
    "0 \<notin> set a" "58 \<notin> set b" "cat b 0 \<noteq> 32"
  shows "path_resolve cwd drive (a @ 62 # b) = Some p"
proof -
  obtain parts where q: "good_parts parts" "q = drive @ 58 # join_parts parts" using path_resolve_Some [OF assms(1,2)] .
  have b: "skip_spaces b = b" using assms(6) by (cases b) (auto simp: skip_spaces_def)
  have char: "cat s i \<noteq> 58" if "58 \<notin> set s" for s i
    using that by (auto simp: cat_def) (metis nth_mem)
  have "58 \<notin> set (drop (length (scan_drive b)) b)" using assms(5) by (auto dest: in_set_dropD)
  then have "resolve_parts q drive b \<in> {None, path_add_components b parts}"
    using char [OF assms(5)]
    by (auto simp: resolve_parts_def Let_def char q(2) cwd_parts_resolved [OF assms(1) q(1)] split: if_splits)
  then have built: "Option.bind (path_add_components b parts) (build_path drive) = Some p"
    using assms(3) by (auto simp: path_resolve_def b)
  define a1 where "a1 = skip_spaces a"
  have a1: "0 \<notin> set a1" "skip_spaces (a @ 62 # b) = a1 @ 62 # b"
    using assms(4) by (auto simp: a1_def skip_spaces_def dropWhile_append dest: set_dropWhileD)
  have "resolve_parts cwd drive a1 = Some parts"
  proof -
    obtain parts1 where r: "resolve_parts cwd drive a1 = Some parts1" "build_path drive parts1 = Some q"
      using assms(2) by (auto simp: path_resolve_def bind_eq_Some_conv a1_def)
    have "q = drive @ 58 # join_parts parts1" using r(2) build_path_iff [OF assms(1), of parts1 q] by simp
    then have "cwd_parts q = Some parts1"
      using cwd_parts_resolved [OF assms(1) resolve_parts_good [OF r(1)]] by simp
    then show ?thesis using r(1) cwd_parts_resolved [OF assms(1) q(1)] q(2) by simp
  qed
  then have "resolve_parts cwd drive (a1 @ 62 # b) = path_add_components b parts"
    by (rule resolve_parts_append [OF a1(1) assms(5)])
  then show ?thesis using built by (simp add: path_resolve_def a1(2))
qed

theorem path_resolve_composes_witness:
  "path_resolve (str ''prime:home>quanta'') (str ''prime'') (str ''docs>.>new'' @ 62 # str ''..>old'')
    = Some (str ''prime:home>quanta>docs>old'')"
proof (rule path_resolve_composes [OF _ demo_resolve])
  show "path_resolve (str ''prime:home>quanta>docs>new'') (str ''prime'') (str ''..>old'')
    = Some (str ''prime:home>quanta>docs>old'')" by code_simp
qed (simp_all add: known_drive_name_def str_def)

section \<open>Numbers and command lines\<close>

definition decimal_value :: "byte list \<Rightarrow> nat" where
  "decimal_value digits = foldl (\<lambda>v c. 10 * v + (unat c - 48)) 0 digits"

lemma decimal_value_snoc: "decimal_value (ds @ [c]) = 10 * decimal_value ds + (unat c - 48)"
  by (simp add: decimal_value_def)

lemma last_digit:
  fixes v :: u64
  shows "unat (ucast (48 + v mod 10) :: byte) = 48 + unat v mod 10"
proof -
  have "unat (48 + v mod 10) = (48 + unat v mod 10) mod 2 ^ 64" by (simp add: unat_word_ariths unat_mod)
  also have "\<dots> = 48 + unat v mod 10" by (rule mod_less) (simp add: less_trans [of _ 100])
  finally show ?thesis by (simp add: unsigned_ucast_eq take_bit_eq_mod)
qed

definition digits_ok :: "u64 \<Rightarrow> byte list \<Rightarrow> bool" where
  "digits_ok v ds \<longleftrightarrow> decimal_value (rev ds) = unat v \<and> (\<forall>c\<in>set ds. 48 \<le> c \<and> c \<le> 57) \<and>
     ds \<noteq> [] \<and> (v \<noteq> 0 \<longrightarrow> last ds \<noteq> 48) \<and> (\<forall>n. 0 < n \<longrightarrow> unat v < 10 ^ n \<longrightarrow> length ds \<le> n)"

lemma digits_from_ok: "digits_ok v (digits_from v)"
proof (induction v rule: digits_from.induct)
  case (1 v)
  let ?digit = "ucast (48 + v mod 10) :: byte"
  note d = last_digit [of v]
  have c: "48 \<le> ?digit" "?digit \<le> 57" by (simp_all only: word_le_nat_alt d) simp_all
  have q: "unat (v div 10) = unat v div 10" by (simp add: unat_div)
  show ?case
  proof (cases "v div 10 = 0")
    case True
    then have small: "unat v < 10" using q by (simp add: div_eq_0_iff)
    have f: "digits_from v = [?digit]" using True by (subst digits_from.simps) (simp add: Let_def)
    have "?digit \<noteq> 48" if "v \<noteq> 0"
    proof
      assume "?digit = 48"
      then have "48 + unat v mod 10 = unat (48 :: byte)" using d by simp
      then show False using small that by (simp add: unat_eq_0)
    qed
    then show ?thesis using small c d unfolding f digits_ok_def by (simp add: decimal_value_def)
  next
    case False
    have f: "digits_from v = ?digit # digits_from (v div 10)" using False by (subst digits_from.simps) (simp add: Let_def)
    have ih: "digits_ok (v div 10) (digits_from (v div 10))" using 1 False by blast
    have len: "length (digits_from (v div 10)) + 1 \<le> n" if n: "0 < n" "unat v < 10 ^ n" for n
    proof -
      have "n \<noteq> 1" using n False q by (auto simp: unat_eq_0 div_eq_0_iff [symmetric])
      moreover have "unat (v div 10) < 10 ^ (n - 1)"
        using n q by (cases n) (auto simp: less_mult_imp_div_less ac_simps)
      moreover have "0 < n - 1" using n(1) calculation(1) by simp
      ultimately have "length (digits_from (v div 10)) \<le> n - 1" using ih unfolding digits_ok_def by blast
      then show ?thesis using n(1) by simp
    qed
    show ?thesis using ih c d q len False unfolding f digits_ok_def by (simp add: decimal_value_snoc)
  qed
qed

text \<open>The decimal text of a 64-bit number is read back as that number, consists of digits only, has no
  superfluous leading zero, and has at most 20 characters, so that with the terminating zero it fits both the
  scratch array of the conversion and every buffer it is written to.\<close>

theorem decimal_reads_back:
  "decimal_value (decimal v) = unat v \<and> (\<forall>c\<in>set (decimal v). 48 \<le> c \<and> c \<le> 57) \<and>
   0 < length (decimal v) \<and> length (decimal v) \<le> 20 \<and> (v \<noteq> 0 \<longrightarrow> hd (decimal v) \<noteq> 48)"
proof -
  have "unat v < 10 ^ 20" using unat_less_pow [of v] by simp
  then show ?thesis
    using digits_from_ok [of v] by (simp add: digits_ok_def decimal_def hd_rev)
qed

theorem decimal_reads_back_witness:
  "decimal_value (decimal 1234) = unat (1234 :: u64) \<and> length (decimal 1234) \<le> 20"
  using decimal_reads_back [of 1234] by blast

end
