(* ===== verification/Session_State.thy ===== *)
theory Session_State
  imports Session_Paths Presenting Devices
begin

text \<open>
  The state of the session program \<^verbatim>\<open>userspace/session.c\<close>, its system calls, its queue of drawing
  commands and the text of its terminal window.  A system call is a value of \<open>syscall\<close>; the operating system
  is a function from the calls made so far, the newest last, to the result and to the bytes it stores in the
  output buffer.  Strings are byte lists as in the text routines.
\<close>

unbundle bit_operations_syntax

text \<open>The statements of a routine, one after the other.\<close>

fun chain :: "('s \<Rightarrow> 's) list \<Rightarrow> 's \<Rightarrow> 's" where
  "chain [] s = s"
| "chain (f # fs) s = chain fs (f s)"

section \<open>System calls\<close>

datatype syscall =
    Sys_Console_Write "byte list"
  | Sys_Console_Clear
  | Sys_Desktop_Draw "draw_command list"
  | Sys_Desktop_Present
  | Sys_Fs_List "byte list"
  | Sys_Fs_Read "byte list"
  | Sys_Fs_Stat "byte list"
  | Sys_Fs_Mkdir "byte list"
  | Sys_Fs_Open "byte list" u64
  | Sys_Fs_Close u64
  | Sys_Auth_Verify "byte list"
  | Sys_Auth_Change "byte list"
  | Sys_System_Info
  | Sys_Storage_List
  | Sys_Rtc_Read
  | Sys_Session_Logout
  | Sys_Shutdown

type_synonym os = "syscall list \<Rightarrow> int \<times> byte list"

section \<open>State\<close>

datatype view = VIEW_WORKSPACE | VIEW_SETTINGS | VIEW_FILES | VIEW_TERMINAL | VIEW_PREVIEW

text \<open>\<open>dragging\<close> is 0, 1 while the window moves and 2 while its size changes.\<close>

record desktop_window =
  win_x :: u32
  win_y :: u32
  win_width :: u32
  win_height :: u32
  win_open :: bool
  win_minimized :: bool
  win_focused :: bool
  win_dragging :: nat
  win_drag_x :: u32
  win_drag_y :: u32
  win_maximized :: bool
  restore_x :: u32
  restore_y :: u32
  restore_width :: u32
  restore_height :: u32

record session =
  calls :: "syscall list"
  logged_in_user :: "byte list"
  active_drive :: "byte list"
  cwd :: "byte list"
  screen_width :: u32
  screen_height :: u32
  draw_commands :: "draw_command list"
  draw_command_count :: nat
  desktop_view :: view
  desktop_selection :: u32
  explorer_selection :: u32
  explorer_listing :: "byte list"
  explorer_cached_path :: "byte list"
  explorer_listing_valid :: bool
  explorer_listing_count :: u32
  explorer_list_view :: bool
  theme_dark :: bool
  pointer_x :: u32
  pointer_y :: u32
  pointer_buttons :: u32
  terminal_x :: u32
  terminal_y :: u32
  terminal_width :: u32
  terminal_height :: u32
  terminal_open :: bool
  terminal_minimized :: bool
  terminal_focused :: bool
  terminal_started :: bool
  terminal_dragging :: bool
  terminal_resizing :: bool
  terminal_drag_x :: u32
  terminal_drag_y :: u32
  terminal_resize_x :: u32
  terminal_resize_y :: u32
  terminal_resize_width :: u32
  terminal_resize_height :: u32
  files_window :: desktop_window
  settings_window :: desktop_window
  terminal_lines :: "byte list list"
  terminal_line :: nat
  terminal_column :: nat

definition empty_command :: draw_command where
  "empty_command = \<lparr>dc_operation = 0, dc_x = 0, dc_y = 0, dc_width = 0, dc_height = 0, dc_color = 0,
     dc_text_length = 0, dc_text = replicate 128 0\<rparr>"

definition closed_window :: "u32 \<Rightarrow> u32 \<Rightarrow> u32 \<Rightarrow> u32 \<Rightarrow> desktop_window" where
  "closed_window x y width height = \<lparr>win_x = x, win_y = y, win_width = width, win_height = height, win_open = False,
     win_minimized = False, win_focused = False, win_dragging = 0, win_drag_x = 0, win_drag_y = 0,
     win_maximized = False, restore_x = 0, restore_y = 0, restore_width = 0, restore_height = 0\<rparr>"

definition session_start :: session where
  "session_start = \<lparr>calls = [], logged_in_user = str ''quanta'', active_drive = str ''prime'',
     cwd = str ''prime:home>quanta'', screen_width = 1024, screen_height = 768,
     draw_commands = replicate 32 empty_command, draw_command_count = 0, desktop_view = VIEW_WORKSPACE,
     desktop_selection = 0, explorer_selection = 0, explorer_listing = replicate 256 0, explorer_cached_path = [],
     explorer_listing_valid = False, explorer_listing_count = 0, explorer_list_view = False, theme_dark = True,
     pointer_x = 512, pointer_y = 384, pointer_buttons = 0, terminal_x = 150, terminal_y = 105,
     terminal_width = 700, terminal_height = 500, terminal_open = False, terminal_minimized = False,
     terminal_focused = False, terminal_started = False, terminal_dragging = False, terminal_resizing = False,
     terminal_drag_x = 0, terminal_drag_y = 0, terminal_resize_x = 0, terminal_resize_y = 0,
     terminal_resize_width = 0, terminal_resize_height = 0, files_window = closed_window 0 0 0 0,
     settings_window = closed_window 360 150 520 360, terminal_lines = replicate 18 (replicate 81 0),
     terminal_line = 0, terminal_column = 0\<rparr>"

definition call :: "os \<Rightarrow> syscall \<Rightarrow> session \<Rightarrow> (int \<times> byte list) \<times> session" where
  "call os c s = (os (calls s @ [c]), s\<lparr>calls := calls s @ [c]\<rparr>)"

text \<open>A call whose result the program ignores.\<close>

definition tell :: "syscall \<Rightarrow> session \<Rightarrow> session" where
  "tell c s = s\<lparr>calls := calls s @ [c]\<rparr>"

text \<open>The bytes a call stores at the start of an output buffer.\<close>

definition fill_buffer :: "byte list \<Rightarrow> byte list \<Rightarrow> byte list" where
  "fill_buffer stored buffer = take (length buffer) (stored @ drop (length stored) buffer)"

section \<open>The text of the terminal\<close>

definition TERMINAL_ROWS :: nat where [geometry]: "TERMINAL_ROWS = 18"
definition TERMINAL_COLUMNS :: nat where [geometry]: "TERMINAL_COLUMNS = 80"

definition terminal_advance_line :: "session \<Rightarrow> session" where
  "terminal_advance_line s =
     (if terminal_line s + 1 < TERMINAL_ROWS then s\<lparr>terminal_line := terminal_line s + 1, terminal_column := 0\<rparr>
      else s\<lparr>terminal_lines := foldl (\<lambda>rows row. rows[row := rows ! (row + 1)]) (terminal_lines s) [0..<17],
             terminal_column := 0\<rparr>)"

definition terminal_set :: "byte \<Rightarrow> session \<Rightarrow> session" where
  "terminal_set c s = s\<lparr>terminal_lines := (terminal_lines s)
     [terminal_line s := (terminal_lines s ! terminal_line s)[terminal_column s := c]]\<rparr>"

definition capture_char :: "byte \<Rightarrow> session \<Rightarrow> session" where
  "capture_char c s =
     (if c = 10 then terminal_advance_line s
      else if c = 13 then s\<lparr>terminal_column := 0\<rparr>
      else if c = 8 then
        (if terminal_column s \<noteq> 0 then terminal_set 32 (s\<lparr>terminal_column := terminal_column s - 1\<rparr>) else s)
      else if 32 \<le> c \<and> c < 127 then
        (let s1 = terminal_set c s; s2 = s1\<lparr>terminal_column := terminal_column s1 + 1\<rparr>
         in if terminal_column s2 \<ge> TERMINAL_COLUMNS then terminal_advance_line s2 else s2)
      else s)"

definition terminal_capture :: "byte list \<Rightarrow> session \<Rightarrow> session" where
  "terminal_capture chars s = terminal_set 0 (fold capture_char (cstr chars) s)"

definition write_text :: "byte list \<Rightarrow> session \<Rightarrow> session" where
  "write_text chars = chain [tell (Sys_Console_Write (take 256 (cstr chars))), terminal_capture chars]"

section \<open>Drawing commands\<close>

definition draw_flush :: "session \<Rightarrow> session" where
  "draw_flush s =
     (if draw_command_count s \<noteq> 0
      then (tell (Sys_Desktop_Draw (take (draw_command_count s) (draw_commands s))) s)\<lparr>draw_command_count := 0\<rparr>
      else s)"

definition draw_begin :: "u32 \<Rightarrow> session \<Rightarrow> session" where
  "draw_begin operation s0 =
     (let s = (if draw_command_count s0 = 32 then draw_flush s0 else s0); n = draw_command_count s
      in s\<lparr>draw_commands := (draw_commands s)[n := (draw_commands s ! n)\<lparr>dc_operation := operation, dc_x := 0,
             dc_y := 0, dc_width := 0, dc_height := 0, dc_color := 0, dc_text_length := 0\<rparr>],
           draw_command_count := n + 1\<rparr>)"

text \<open>What the caller of \<^verbatim>\<open>draw_begin\<close> does to the command it gets.\<close>

definition edit_command :: "(draw_command \<Rightarrow> draw_command) \<Rightarrow> session \<Rightarrow> session" where
  "edit_command f s =
     (let n = draw_command_count s - 1 in s\<lparr>draw_commands := (draw_commands s)[n := f (draw_commands s ! n)]\<rparr>)"

definition draw_rect :: "u32 \<Rightarrow> u32 \<Rightarrow> u32 \<Rightarrow> u32 \<Rightarrow> u32 \<Rightarrow> session \<Rightarrow> session" where
  "draw_rect x y width height color =
     chain [draw_begin DRAW_RECT,
     edit_command (\<lambda>c. c\<lparr>dc_x := x, dc_y := y, dc_width := width, dc_height := height, dc_color := color\<rparr>)]"

definition draw_rounded_rect :: "u32 \<Rightarrow> u32 \<Rightarrow> u32 \<Rightarrow> u32 \<Rightarrow> u32 \<Rightarrow> u32 \<Rightarrow> session \<Rightarrow> session" where
  "draw_rounded_rect x y width height radius color =
     chain [draw_begin DRAW_ROUNDED_RECT,
     edit_command (\<lambda>c. c\<lparr>dc_x := x, dc_y := y, dc_width := width, dc_height := height, dc_text_length := radius,
       dc_color := color\<rparr>)]"

definition draw_icon :: "u32 \<Rightarrow> u32 \<Rightarrow> u32 \<Rightarrow> session \<Rightarrow> session" where
  "draw_icon x y icon_id =
     chain [draw_begin DRAW_ICON, edit_command (\<lambda>c. c\<lparr>dc_x := x, dc_y := y, dc_color := icon_id\<rparr>)]"

definition draw_text :: "u32 \<Rightarrow> u32 \<Rightarrow> byte list \<Rightarrow> u32 \<Rightarrow> session \<Rightarrow> session" where
  "draw_text x y chars color =
     (let shown = take 128 (cstr chars)
      in chain [draw_begin DRAW_TEXT,
         edit_command (\<lambda>c. c\<lparr>dc_x := x, dc_y := y, dc_color := color, dc_text_length := of_nat (length shown),
           dc_text := shown @ drop (length shown) (dc_text c)\<rparr>)])"

definition draw_present :: "session \<Rightarrow> session" where
  "draw_present = chain [draw_flush, tell Sys_Desktop_Present]"

definition draw_cursor :: "session \<Rightarrow> session" where
  "draw_cursor =
     fold (\<lambda>row s.
       let width = (if row < 8 then of_nat row + 2 else 10)
       in draw_rect (pointer_x s + width) (pointer_y s + of_nat row) 1 1 0xff101820
            (draw_rect (pointer_x s) (pointer_y s + of_nat row) width 1 0xffe8f4ff s)) [0..<12]"

end
