(* ===== verification/Session_Explorer.thy ===== *)
theory Session_Explorer
  imports Session_State
begin

text \<open>
  What the session asks the operating system and how it reads the answers (\<^verbatim>\<open>userspace/session.c\<close>): the
  system information, file attributes, and the listing of the working directory that the file window keeps.
  The listing stands in a buffer of 256 bytes; reading it stops at its first zero.
\<close>

section \<open>Answers\<close>

text \<open>The 24 bytes of \<^verbatim>\<open>struct quanta_system_info\<close>, and the fields the session reads.\<close>

definition system_info :: "os \<Rightarrow> session \<Rightarrow> byte list option \<times> session" where
  "system_info os s =
     (let ((result, stored), s1) = call os Sys_System_Info s
      in (if result = 0 then Some (fill_buffer stored (replicate 24 0)) else None, s1))"

definition info_size_bytes :: "byte list \<Rightarrow> u64" where "info_size_bytes info = u64_at info 0"
definition info_read_only :: "byte list \<Rightarrow> bool" where "info_read_only info \<longleftrightarrow> u32_at info 8 \<noteq> 0"
definition info_filesystem_kind :: "byte list \<Rightarrow> u32" where "info_filesystem_kind info = u32_at info 12"
definition info_display_width :: "byte list \<Rightarrow> u32" where "info_display_width info = u32_at info 16"
definition info_display_height :: "byte list \<Rightarrow> u32" where "info_display_height info = u32_at info 20"

text \<open>The type field of the file attributes when the call succeeds.\<close>

definition file_stat :: "os \<Rightarrow> byte list \<Rightarrow> session \<Rightarrow> u32 option \<times> session" where
  "file_stat os path s =
     (let ((result, stored), s1) = call os (Sys_Fs_Stat path) s
      in (if result = 0 then Some (u32_at (fill_buffer stored (replicate 48 0)) 36) else None, s1))"

definition FILE_DIRECTORY :: u32 where [geometry]: "FILE_DIRECTORY = 2"

definition select_boot_drive :: "os \<Rightarrow> session \<Rightarrow> session" where
  "select_boot_drive os s =
     (let (info, s1) = system_info os s;
          name = (case info of Some i \<Rightarrow> if info_read_only i then str ''live'' else str ''prime'' | None \<Rightarrow> str ''prime'')
      in s1\<lparr>active_drive := name\<rparr>)"

definition refresh_screen_size :: "os \<Rightarrow> session \<Rightarrow> session" where
  "refresh_screen_size os s =
     (let (info, s1) = system_info os s
      in case info of
           Some i \<Rightarrow>
             if info_display_width i \<noteq> 0 \<and> info_display_height i \<noteq> 0
             then s1\<lparr>screen_width := info_display_width i, screen_height := info_display_height i\<rparr> else s1
         | None \<Rightarrow> s1)"

section \<open>The working directory\<close>

definition set_cwd :: "byte list \<Rightarrow> session \<Rightarrow> session" where
  "set_cwd path s = s\<lparr>cwd := set_cwd_text path, explorer_listing_valid := False\<rparr>"

definition reset_home :: "session \<Rightarrow> session" where
  "reset_home s = s\<lparr>cwd := reset_home_cwd (active_drive s)\<rparr>"

section \<open>The listing\<close>

text \<open>The names between blanks and line ends.\<close>

definition separator :: "byte \<Rightarrow> bool" where
  "separator c \<longleftrightarrow> c = 32 \<or> c = 10"

function listing_names :: "byte list \<Rightarrow> byte list list" where
  "listing_names listing =
     (let chars = dropWhile separator listing; name = takeWhile (\<lambda>c. \<not> separator c) chars
      in if chars = [] then [] else name # listing_names (drop (length name) chars))"
  by auto
termination
proof (relation "measure length", goal_cases)
  case (2 listing chars name)
  then have "chars \<noteq> []" by blast
  then obtain c cs where c: "chars = c # cs" by (meson neq_Nil_conv)
  then have "\<not> separator c" using 2(1) hd_dropWhile [of separator listing] by auto
  then have "0 < length name" using 2(2) c by simp
  moreover have "length chars \<le> length listing" using 2(1) by (simp add: length_dropWhile_le)
  ultimately show ?case using c by (simp del: length_greater_0_conv)
qed simp

declare listing_names.simps [simp del]

definition explorer_refresh :: "os \<Rightarrow> session \<Rightarrow> session" where
  "explorer_refresh os s =
     (if explorer_listing_valid s \<and> explorer_cached_path s = cwd s then s
      else let ((result, stored), s1) = call os (Sys_Fs_List (cwd s)) s;
               listing = fill_buffer stored (explorer_listing s1)
           in if result < 0
              then s1\<lparr>explorer_listing := listing[0 := 0], explorer_listing_count := 0, explorer_listing_valid := False\<rparr>
              else s1\<lparr>explorer_listing := listing, explorer_cached_path := take (PATH_SIZE - 1) (cwd s1),
                     explorer_listing_count := of_nat (length (listing_names (cstr listing))),
                     explorer_listing_valid := True\<rparr>)"

text \<open>The name of an entry, when there is one and it fits; the result of the code is its number plus one.\<close>

definition explorer_entry :: "os \<Rightarrow> u32 \<Rightarrow> nat \<Rightarrow> session \<Rightarrow> byte list option \<times> session" where
  "explorer_entry os requested capacity s =
     (let s1 = explorer_refresh os s; names = listing_names (cstr (explorer_listing s1)); n = unat requested
      in if \<not> explorer_listing_valid s1 then (None, s1)
         else if n < length names \<and> length (names ! n) + 1 \<le> capacity then (Some (names ! n), s1) else (None, s1))"

definition explorer_count :: "os \<Rightarrow> session \<Rightarrow> u32 \<times> session" where
  "explorer_count os s =
     (let s1 = explorer_refresh os s in (if explorer_listing_valid s1 then explorer_listing_count s1 else 0, s1))"

definition NAME_SIZE :: nat where [geometry]: "NAME_SIZE = 49"

text \<open>The path of an entry: the working directory, a separator unless the drive ends it, and the name.\<close>

definition entry_path :: "byte list \<Rightarrow> byte list \<Rightarrow> nat \<Rightarrow> byte list option" where
  "entry_path cwd_text name capacity =
     (if length cwd_text + 1 \<ge> capacity then None
      else let path = (if cwd_text \<noteq> [] \<and> last cwd_text \<noteq> 58 then cwd_text @ [62] else cwd_text)
           in if name \<noteq> [] \<and> length path + length name \<ge> capacity then None else Some (path @ name))"

definition explorer_entry_path :: "os \<Rightarrow> u32 \<Rightarrow> nat \<Rightarrow> session \<Rightarrow> byte list option \<times> session" where
  "explorer_entry_path os requested capacity s =
     (let (name, s1) = explorer_entry os requested NAME_SIZE s
      in case name of None \<Rightarrow> (None, s1) | Some name \<Rightarrow> (entry_path (cwd s1) name capacity, s1))"

text \<open>The path that opening an entry builds: what does not fit is cut off, except the separator.\<close>

definition open_path :: "byte list \<Rightarrow> byte list \<Rightarrow> byte list" where
  "open_path cwd_text name =
     (let path = take (PATH_SIZE - 1) cwd_text;
          path1 = (if path \<noteq> [] \<and> last path \<noteq> 58 then path @ [62] else path)
      in path1 @ take (PATH_SIZE - 1 - length path1) name)"

text \<open>The working directory with its last component cut off, as the file window does it.\<close>

definition parent_cut :: "byte list \<Rightarrow> byte list option" where
  "parent_cut path = (let parent = last_separator path in if parent \<noteq> 0 then Some (take parent path) else None)"

end
