(* ===== verification/Session_Windows.thy ===== *)
theory Session_Windows
  imports Session_Explorer
begin

text \<open>
  The pictures of \<^verbatim>\<open>userspace/session.c\<close>: windows, panel, dock, file grid, settings, terminal and login
  screen, each as the sequence of drawing commands the code queues.
\<close>

section \<open>Frames, panel and dock\<close>

definition ICON_FILES :: u32 where "ICON_FILES = 0"
definition ICON_SETTINGS :: u32 where "ICON_SETTINGS = 1"
definition ICON_TERMINAL :: u32 where "ICON_TERMINAL = 2"
definition ICON_MENU :: u32 where "ICON_MENU = 3"
definition ICON_WIFI :: u32 where "ICON_WIFI = 4"
definition ICON_SPEAKER :: u32 where "ICON_SPEAKER = 5"
definition ICON_BATTERY :: u32 where "ICON_BATTERY = 6"

definition desktop_foreground :: "session \<Rightarrow> u32" where
  "desktop_foreground s = (if theme_dark s then 0x00e8edf2 else 0x00192733)"

definition draw_window_frame :: "byte list \<Rightarrow> desktop_window \<Rightarrow> session \<Rightarrow> session" where
  "draw_window_frame title w =
     (let x = win_x w; y = win_y w; width = win_width w; height = win_height w;
          title_color = (if win_focused w then 0xd51a2b3e else 0xd51b2837)
      in chain [draw_rounded_rect (x + 7) (y + 9) width height 11 0x80405061,
         draw_rounded_rect x y width height 10 0xe60d1724,
         draw_rounded_rect (x + 1) (y + 1) (width - 2) 36 9 title_color,
         draw_rect (x + 1) (y + 19) (width - 2) 18 title_color,
         draw_rounded_rect (x + 1) (y + 34) (width - 2) (height - 35) 9 0xc5121e2b,
         draw_rect (x + 1) (y + 42) (width - 2) (height - 51) 0xc5121e2b,
         draw_text (x + 14) (y + 10) title 0x00e8f4ff,
         draw_text (x + width - 74) (y + 10) (str ''-'') 0x00dce9f6,
         draw_text (x + width - 49) (y + 10) (str ''[]'') 0x00dce9f6,
         draw_text (x + width - 22) (y + 10) (str ''x'') 0x00dce9f6])"

definition dock_width :: "session \<Rightarrow> u32" where
  "dock_width s = (let width = screen_width s * 67 div 1000 in if width < 64 then 64 else width)"

definition dock_items :: "(byte list \<times> u32) list" where
  "dock_items = [(str ''Settings'', ICON_SETTINGS), (str ''Files'', ICON_FILES), (str ''Terminal'', ICON_TERMINAL)]"

definition draw_dock_item :: "nat \<Rightarrow> session \<Rightarrow> session" where
  "draw_dock_item item s =
     (let y = 56 + of_nat item * 88; icon_x = (dock_width s - ICON_SIZE) div 2;
          s1 = (if of_nat item = desktop_selection s
                then draw_rounded_rect 4 (y - 4) (dock_width s - 8) 70 9 0x90405b76 s else s)
      in draw_text 2 (y + 32) (fst (dock_items ! item)) 0x00dce9f6
           (draw_icon icon_x y (snd (dock_items ! item)) s1))"

definition draw_panel_and_dock :: "session \<Rightarrow> session" where
  "draw_panel_and_dock s =
     (let dock = dock_width s; status_x = (if screen_width s > 180 then screen_width s - 126 else dock)
      in chain [draw_rect 0 0 (screen_width s) 36 0xd6102030,
          draw_rect 0 36 dock (screen_height s - 36) 0xd6102030,
          draw_text 12 10 (cwd s) 0x00e5edf6,
          draw_icon status_x 6 ICON_WIFI,
          draw_icon (status_x + 28) 6 ICON_SPEAKER,
          draw_icon (status_x + 56) 6 ICON_BATTERY,
          draw_text (status_x + 86) 10 (str ''12:34'') 0x00e5edf6,
          fold draw_dock_item [0..<3],
          draw_icon ((dock - ICON_SIZE) div 2) (screen_height s - 54) ICON_MENU,
          draw_rounded_rect (dock div 2 - 9) (screen_height s - 20) 18 3 1 0xff168de0] s)"

section \<open>The file window\<close>

definition draw_files_toolbar :: "session \<Rightarrow> session" where
  "draw_files_toolbar s =
     (let w = files_window s; x = win_x w; y = win_y w; width = win_width w; toolbar_y = y + 40;
          address_width = width * 36 div 100; search_x = x + 84 + address_width;
          search_width = (if width > address_width + 210 then width - address_width - 210 else 64)
      in chain [draw_icon (x + 12) (y + 5) ICON_FILES,
          draw_text (x + 42) (y + 10) (str ''Files'') 0x00edf6ff,
          draw_text (x + width - 82) (y + 10) (str ''_'') 0x00d8e5f1,
          draw_text (x + width - 54) (y + 10) (str ''[]'') 0x00d8e5f1,
          draw_text (x + width - 25) (y + 10) (str ''x'') 0x00d8e5f1,
          draw_rounded_rect (x + 10) toolbar_y 28 28 7 0x9032445c,
          draw_text (x + 19) (toolbar_y + 6) (str ''<'') 0x00dce9f6,
          draw_rounded_rect (x + 42) toolbar_y 28 28 7 0x9032445c,
          draw_text (x + 51) (toolbar_y + 6) (str ''>'') 0x00dce9f6,
          draw_rounded_rect (x + 78) toolbar_y address_width 28 8 0x9032445c,
          draw_text (x + 91) (toolbar_y + 6) (str ''Home'') 0x00dce9f6,
          draw_rounded_rect search_x toolbar_y search_width 28 8 0x9032445c,
          draw_text (search_x + 12) (toolbar_y + 6) (str ''Search in Home...'') 0x008da9c7,
          draw_rounded_rect (x + width - 108) toolbar_y 28 28 7
            (if explorer_list_view s then 0x90405268 else 0x9032445c),
          draw_text (x + width - 101) (toolbar_y + 6) (str ''[]'') 0x00dce9f6,
          draw_rounded_rect (x + width - 76) toolbar_y 28 28 7
            (if explorer_list_view s then 0x9032445c else 0x90405268),
          draw_text (x + width - 69) (toolbar_y + 6) (str ''='') 0x00dce9f6,
          draw_text (x + width - 36) (toolbar_y + 6) (str '':'') 0x00dce9f6] s)"

definition place_names :: "byte list list" where
  "place_names = map str [''Home'', ''Desktop'', ''Documents'', ''Downloads'', ''Music'', ''Pictures'', ''Videos'',
     ''Trash'']"

definition draw_place :: "u32 \<Rightarrow> u32 \<Rightarrow> nat \<Rightarrow> session \<Rightarrow> session" where
  "draw_place sidebar_x sidebar_y place s =
     (let place_y = sidebar_y + 10 + of_nat place * 25;
          s1 = (if place = 0 then draw_rounded_rect (sidebar_x + 5) (place_y - 3) (128 - 10) 22 5 0xc00078d4 s else s)
      in draw_text (sidebar_x + 39) (place_y + 3) (place_names ! place) (if place = 0 then 0x00ffffff else 0x00dce9f6)
           (draw_icon (sidebar_x + 10) (place_y - 2) ICON_FILES s1))"

definition draw_files_sidebar :: "session \<Rightarrow> session" where
  "draw_files_sidebar s =
     (let w = files_window s; sidebar_x = win_x w + 1; sidebar_y = win_y w + 76; device_y = sidebar_y + 220
      in chain [draw_rect sidebar_x sidebar_y 128 (win_height w - 77) 0xe6101d2c,
          fold (draw_place sidebar_x sidebar_y) [0..<8],
          draw_rect (sidebar_x + 10) device_y (128 - 20) 1 0x70445a72,
          draw_text (sidebar_x + 12) (device_y + 10) (str ''Devices'') 0x008da9c7,
          draw_icon (sidebar_x + 10) (device_y + 31) ICON_FILES,
          draw_text (sidebar_x + 39) (device_y + 36) (str ''Local Disk'') 0x00dce9f6] s)"

text \<open>The icon of an entry: that of a file when its attributes say it is not a directory.\<close>

definition entry_icon :: "os \<Rightarrow> u32 \<Rightarrow> session \<Rightarrow> u32 \<times> session" where
  "entry_icon os entry s =
     (let (path, s1) = explorer_entry_path os entry PATH_SIZE s
      in case path of None \<Rightarrow> (ICON_FILES, s1)
         | Some path \<Rightarrow>
             (let (type, s2) = file_stat os path s1
              in (case type of Some t \<Rightarrow> if t \<noteq> FILE_DIRECTORY then ICON_FILE else ICON_FILES
                  | None \<Rightarrow> ICON_FILES, s2)))"

definition draw_entry :: "u32 \<Rightarrow> u32 \<Rightarrow> u32 \<Rightarrow> byte list \<Rightarrow> u32 \<Rightarrow> session \<Rightarrow> session" where
  "draw_entry entry item_x item_y name icon s =
     (if explorer_list_view s then
        (let s1 = (if entry = explorer_selection s
                   then draw_rounded_rect item_x (item_y - 3) (win_width (files_window s) - 154) 28 5 0x80406c91 s else s)
         in chain [draw_icon (item_x + 6) item_y icon, draw_text (item_x + 38) (item_y + 4) name 0x00e5edf6] s1)
      else
        (let s1 = (if entry = explorer_selection s
                   then draw_rounded_rect (item_x + 10) (item_y - 5) 72 78 7 0x70406c91 s else s)
         in chain [draw_rounded_rect (item_x + 19) item_y 52 48 8 (if icon = ICON_FILES then 0xff168de0 else 0xd0344b68),
             draw_icon (item_x + 33) (item_y + 12) icon,
             draw_text (item_x + 8) (item_y + 56) name 0x00e5edf6] s1))"

definition grid_columns :: "session \<Rightarrow> u32" where
  "grid_columns s = (let columns = (win_width (files_window s) - 150) div 112 in if columns = 0 then 1 else columns)"

fun draw_entries :: "os \<Rightarrow> u32 list \<Rightarrow> session \<Rightarrow> session" where
  "draw_entries os [] s = s"
| "draw_entries os (entry # entries) s =
     (let (name, s1) = explorer_entry os entry NAME_SIZE s
      in case name of None \<Rightarrow> s1
         | Some name \<Rightarrow>
             (let w = files_window s1; columns = grid_columns s1; column = entry mod columns; row = entry div columns;
                  item_x = win_x w + 142 + column * 112;
                  item_y = win_y w + 86 + row * (if explorer_list_view s1 then 34 else 88);
                  (icon, s2) = entry_icon os entry s1
              in draw_entries os entries (draw_entry entry item_x item_y name icon s2)))"

definition draw_files_window :: "os \<Rightarrow> session \<Rightarrow> session" where
  "draw_files_window os s =
     (let w = files_window s;
          s1 = chain [draw_window_frame (str ''Files'') w, draw_files_toolbar, draw_files_sidebar] s;
          (info, s2) = system_info os s1;
          s3 = (case info of Some i \<Rightarrow>
                  if info_read_only i
                  then draw_text (win_x w + 145) (win_y w + 78) (str ''LIVE VOLUME / READ ONLY'') 0x009eb7d0 s2 else s2
                | None \<Rightarrow> s2);
          (count, s4) = explorer_count os s3;
          s5 = (if explorer_selection s4 \<ge> count \<and> count \<noteq> 0 then s4\<lparr>explorer_selection := count - 1\<rparr> else s4)
      in draw_entries os (map of_nat [0..<min (unat count) 24]) s5)"

section \<open>Settings and terminal\<close>

definition draw_settings_window :: "os \<Rightarrow> session \<Rightarrow> session" where
  "draw_settings_window os s =
     (let w = settings_window s; x = win_x w; y = win_y w; foreground = desktop_foreground s;
          s1 = chain [draw_window_frame (str ''Settings'') w,
                draw_text (x + 20) (y + 58) (str ''Appearance'') foreground,
                draw_text (x + 20) (y + 90)
                  (if theme_dark s then str ''Theme: Dark (Enter toggles)'' else str ''Theme: Light (Enter toggles)'') foreground] s;
          (info, s2) = system_info os s1;
          s3 = (case info of Some i \<Rightarrow>
                  chain [draw_text (x + 20) (y + 138)
                     (if info_read_only i then str ''Boot volume: read-only'' else str ''Boot volume: writable'') foreground,
                   draw_text (x + 20) (y + 170) (str ''Only the boot volume is mounted'') foreground] s2
                | None \<Rightarrow> s2)
      in draw_text (x + 20) (y + 218) (str ''Enter toggles appearance'') foreground s3)"

text \<open>The row of the terminal text shown at a row of the window, or none.\<close>

definition source_row :: "session \<Rightarrow> nat \<Rightarrow> nat" where
  "source_row s row =
     (let first_screen_row = 18 - (terminal_line s + 1)
      in if terminal_line s \<ge> 17 then (terminal_line s + 1 + row) mod 18
         else if row < first_screen_row then 18 else row - first_screen_row)"

definition row_text :: "session \<Rightarrow> nat \<Rightarrow> byte list" where
  "row_text s row =
     (if source_row s row = 18 then replicate 80 32 else take 80 (terminal_lines s ! source_row s row))"

definition starts_with_prompt :: "byte list \<Rightarrow> byte list \<Rightarrow> bool" where
  "starts_with_prompt chars cwd_text \<longleftrightarrow>
     cwd_text \<noteq> [] \<and> take (length cwd_text) chars = cwd_text \<and> cat chars (length cwd_text) = 62"

definition draw_terminal_row :: "nat \<Rightarrow> session \<Rightarrow> session" where
  "draw_terminal_row row s =
     (let y = terminal_y s + 52 + of_nat row * 19; x = terminal_x s + 20; chars = row_text s row;
          n = length (cwd s)
      in if starts_with_prompt chars (cwd s)
         then chain [draw_text x y (cwd s) 0x0000a9df,
               draw_text (x + of_nat n * 8) y (str ''>'') 0x0000c5a8,
               draw_text (x + (of_nat n + 1) * 8) y (drop (n + 1) chars) 0x00e8edf2] s
         else draw_text x y chars 0x00e8edf2 s)"

definition draw_terminal_window :: "session \<Rightarrow> session" where
  "draw_terminal_window s =
     (if \<not> terminal_open s then s
      else let x = terminal_x s; y = terminal_y s; width = terminal_width s; height = terminal_height s;
               title_color = (if terminal_focused s then 0x00234756 else 0x00384d55);
               cursor_x = x + 20 + (of_nat (terminal_column s) + 2) * 8; cursor_y = y + 52 + 2 * 19
           in chain [draw_rect (x + 6) (y + 8) width height 0x00213843,
               draw_rect x y width height 0x000d141a,
               draw_rect x y width 34 title_color,
               draw_text (x + 14) (y + 10) (str ''Terminal  |  '') 0x00e8f4f5,
               draw_text (x + 14 + 16 * 8) (y + 10) (cwd s) 0x00e8f4f5,
               draw_rect (x + width - 48) (y + 8) 14 14 0x00e0ad55,
               draw_rect (x + width - 26) (y + 8) 14 14 0x00db665e,
               draw_rect (x + 10) (y + 44) (width - 20) (height - 54) 0x0017202e,
               fold draw_terminal_row [0..<18],
               (if terminal_focused s
                then chain [draw_rect cursor_x cursor_y 8 2 0x00ffffff,
                     draw_rect cursor_x (cursor_y + 14) 8 2 0x00ffffff,
                     draw_rect cursor_x cursor_y 2 16 0x00ffffff,
                     draw_rect (cursor_x + 6) cursor_y 2 16 0x00ffffff]
                else id),
               draw_rect (x + width - 14) (y + height - 14) 10 10 0x005a8994] s)"

end
