(* ===== verification/Session_Desktop.thy ===== *)
theory Session_Desktop
  imports Session_Windows
begin

text \<open>
  How the session of \<^verbatim>\<open>userspace/session.c\<close> reacts to the pointer and to the keys of the desktop: the
  workspace, launching and opening, moving and resizing windows, the places and entries of the file window.
\<close>

section \<open>The workspace\<close>

definition draw_workspace_pass :: "os \<Rightarrow> bool \<Rightarrow> session \<Rightarrow> session" where
  "draw_workspace_pass os focused =
     chain [(\<lambda>s. let w = files_window s
          in if win_open w \<and> \<not> win_minimized w \<and> win_focused w = focused then draw_files_window os s else s),
     (\<lambda>s. let w = settings_window s
          in if win_open w \<and> \<not> win_minimized w \<and> win_focused w = focused then draw_settings_window os s else s),
     (\<lambda>s. if terminal_open s \<and> \<not> terminal_minimized s \<and> terminal_focused s = focused
          then draw_terminal_window s else s)]"

definition draw_workspace :: "os \<Rightarrow> session \<Rightarrow> session" where
  "draw_workspace os =
     chain [(\<lambda>s. s\<lparr>desktop_view := VIEW_WORKSPACE\<rparr>), draw_begin DRAW_WALLPAPER, draw_panel_and_dock,
     draw_workspace_pass os False, draw_workspace_pass os True, draw_cursor, draw_present]"

definition draw_settings :: "os \<Rightarrow> session \<Rightarrow> session" where
  "draw_settings os s =
     draw_workspace os (s\<lparr>desktop_selection := 0,
       settings_window := (settings_window s)\<lparr>win_open := True, win_minimized := False, win_focused := True\<rparr>,
       terminal_focused := False, desktop_view := VIEW_SETTINGS\<rparr>)"

definition place_files_window :: "session \<Rightarrow> session" where
  "place_files_window s =
     (let width = screen_width s * 489 div 1000; height = screen_height s * 496 div 1000
      in s\<lparr>files_window := (files_window s)\<lparr>win_x := screen_width s * 145 div 1000,
           win_y := screen_height s * 122 div 1000, win_width := (if width < 460 then 460 else width),
           win_height := (if height < 340 then 340 else height), win_open := True, win_minimized := False,
           win_focused := True\<rparr>\<rparr>)"

definition draw_files :: "os \<Rightarrow> session \<Rightarrow> session" where
  "draw_files os =
     chain [refresh_screen_size os, place_files_window,
     (\<lambda>s. s\<lparr>desktop_selection := 1, settings_window := (settings_window s)\<lparr>win_focused := False\<rparr>,
        terminal_focused := False, desktop_view := VIEW_FILES\<rparr>),
     draw_workspace os]"

definition launch_files :: "os \<Rightarrow> session \<Rightarrow> session" where
  "launch_files os =
     chain [reset_home, (\<lambda>s. s\<lparr>explorer_listing_valid := False, explorer_selection := 0\<rparr>), draw_files os,
     tell (Sys_Console_Write (str ''QUANTA_APP_FILES_FOCUSED'' @ [10]))]"

definition prompt :: "session \<Rightarrow> session" where
  "prompt s = write_text (str ''> '') (write_text (cwd s) s)"

definition start_terminal :: "session \<Rightarrow> session" where
  "start_terminal s = (if terminal_started s then s else (prompt s)\<lparr>terminal_started := True\<rparr>)"

definition terminal_focused_marker :: "byte list" where
  "terminal_focused_marker = str ''QUANTA_APP_TERMINAL_FOCUSED'' @ [10]"

definition launch_terminal :: "session \<Rightarrow> session" where
  "launch_terminal =
     chain [(\<lambda>s. s\<lparr>desktop_selection := 2, files_window := (files_window s)\<lparr>win_focused := False\<rparr>,
        settings_window := (settings_window s)\<lparr>win_focused := False\<rparr>, terminal_open := True,
        terminal_minimized := False, terminal_focused := True, desktop_view := VIEW_TERMINAL\<rparr>),
     start_terminal, tell (Sys_Console_Write terminal_focused_marker)]"

section \<open>Opening an entry\<close>

text \<open>The visible characters of a preview, one command each, in at most 14 rows of 68; the character
  at which a full row ends is not drawn.\<close>

fun draw_preview_chars :: "u32 \<Rightarrow> u32 \<Rightarrow> u32 \<Rightarrow> nat \<Rightarrow> nat \<Rightarrow> byte list \<Rightarrow> session \<Rightarrow> session" where
  "draw_preview_chars x y color row column [] s = s"
| "draw_preview_chars x y color row column (c # cs) s =
     (if row \<ge> 14 then s
      else if c = 10 \<or> column = 68 then draw_preview_chars x y color (row + 1) 0 cs s
      else if 32 \<le> c \<and> c < 127
      then draw_preview_chars x y color row (column + 1) cs
             (draw_text (x + of_nat column * 8) (y + of_nat row * 18) [c] color s)
      else draw_preview_chars x y color row column cs s)"

definition draw_file_preview :: "os \<Rightarrow> byte list \<Rightarrow> session \<Rightarrow> session" where
  "draw_file_preview os path s =
     (let ((result, stored), s1) = call os (Sys_Fs_Read path) s;
          content = take (nat result) (fill_buffer stored (replicate 256 0));
          s2 = draw_workspace os (s1\<lparr>desktop_view := VIEW_PREVIEW\<rparr>);
          w = files_window s2; x = win_x w; y = win_y w; foreground = desktop_foreground s2;
          s3 = chain [draw_rect (x + 10) (y + 44) (win_width w - 20) (win_height w - 54) 0x0017202e,
                draw_text (x + 20) (y + 52) path foreground] s2;
          s4 = (if result < 0
                then draw_text (x + 20) (y + 90) (str ''Preview unavailable (binary or too large)'') foreground s3
                else draw_preview_chars (x + 20) (y + 90) foreground 0 0 content s3)
      in chain [draw_text (x + 20) (y + win_height w - 48) (str ''Backspace returns to Files'') foreground,
          draw_present] s4)"

definition explorer_open_selected :: "os \<Rightarrow> session \<Rightarrow> session" where
  "explorer_open_selected os s =
     (let (name, s1) = explorer_entry os (explorer_selection s) NAME_SIZE s
      in case name of None \<Rightarrow> s1
         | Some name \<Rightarrow>
             (let path = open_path (cwd s1) name; (type, s2) = file_stat os path s1
              in case type of None \<Rightarrow> s2
                 | Some t \<Rightarrow>
                     if t = FILE_DIRECTORY then draw_files os ((set_cwd path s2)\<lparr>explorer_selection := 0\<rparr>)
                     else draw_file_preview os path s2))"

section \<open>Windows under the pointer\<close>

definition window_contains :: "desktop_window \<Rightarrow> u32 \<Rightarrow> u32 \<Rightarrow> bool" where
  "window_contains w x y \<longleftrightarrow>
     win_open w \<and> \<not> win_minimized w \<and> x \<ge> win_x w \<and> x < win_x w + win_width w \<and>
     y \<ge> win_y w \<and> y < win_y w + win_height w"

definition maximize_window :: "session \<Rightarrow> desktop_window \<Rightarrow> desktop_window" where
  "maximize_window s w = w\<lparr>restore_x := win_x w, restore_y := win_y w, restore_width := win_width w,
     restore_height := win_height w, win_x := dock_width s, win_y := 36, win_width := screen_width s - dock_width s,
     win_height := screen_height s - 36, win_maximized := True\<rparr>"

definition restore_window :: "desktop_window \<Rightarrow> desktop_window" where
  "restore_window w = w\<lparr>win_x := restore_x w, win_y := restore_y w, win_width := restore_width w,
     win_height := restore_height w, win_maximized := False\<rparr>"

definition window_pointer_down :: "session \<Rightarrow> u32 \<Rightarrow> u32 \<Rightarrow> desktop_window \<Rightarrow> desktop_window" where
  "window_pointer_down s x y w0 =
     (let w = w0\<lparr>win_focused := True\<rparr>; right = win_x w + win_width w
      in if x \<ge> right - 30 \<and> y < win_y w + 34 then w\<lparr>win_open := False, win_focused := False\<rparr>
         else if x \<ge> right - 55 \<and> y < win_y w + 36 then
           (if \<not> win_maximized w then maximize_window s w else restore_window w)
         else if x \<ge> right - 81 \<and> y < win_y w + 36 then w\<lparr>win_minimized := True, win_focused := False\<rparr>
         else if y < win_y w + 36 then
           (let w1 = (if win_maximized w then restore_window w else w)
            in w1\<lparr>win_dragging := 1, win_drag_x := x - win_x w1, win_drag_y := y - win_y w1\<rparr>)
         else if x \<ge> right - 20 \<and> y \<ge> win_y w + win_height w - 20
         then w\<lparr>win_dragging := 2, win_drag_x := x, win_drag_y := y\<rparr>
         else w)"

definition enter_place :: "nat \<Rightarrow> session \<Rightarrow> session" where
  "enter_place place s =
     (let s1 = reset_home s; home = take (PATH_SIZE - 1) (cwd s1);
          path = (if length home + 1 < PATH_SIZE then home @ [62] else home);
          s2 = (if place \<noteq> 0 then s1\<lparr>cwd := path @ take (PATH_SIZE - 1 - length path) (place_names ! place)\<rparr> else s1)
      in s2\<lparr>explorer_selection := 0, explorer_listing_valid := False\<rparr>)"

definition leave_directory :: "session \<Rightarrow> session" where
  "leave_directory s =
     (case parent_cut (cwd s) of
        Some parent \<Rightarrow> s\<lparr>cwd := parent, explorer_listing_valid := False, explorer_selection := 0\<rparr>
      | None \<Rightarrow> s\<lparr>explorer_selection := 0\<rparr>)"

definition pick_entry :: "os \<Rightarrow> u32 \<Rightarrow> u32 \<Rightarrow> session \<Rightarrow> session" where
  "pick_entry os x relative_y s =
     (let columns = grid_columns s; column = (x - win_x (files_window s) - 142) div 112;
          row = (relative_y - 86) div (if explorer_list_view s then 34 else 88); entry = row * columns + column
      in if column \<ge> columns then s
         else let (count, s1) = explorer_count os s
              in if entry \<ge> count then s1
                 else if explorer_selection s1 = entry then explorer_open_selected os s1
                 else s1\<lparr>explorer_selection := entry\<rparr>)"

definition files_pointer_down :: "os \<Rightarrow> u32 \<Rightarrow> u32 \<Rightarrow> session \<Rightarrow> session" where
  "files_pointer_down os x y s =
     (let w = files_window s; relative_y = y - win_y w; right = win_x w + win_width w
      in if relative_y \<ge> 40 \<and> relative_y < 72 then
           (if x \<ge> right - 108 \<and> x < right - 44 then s\<lparr>explorer_list_view := \<not> explorer_list_view s\<rparr>
            else if x < win_x w + 40 \<and> cwd s \<noteq> [] then leave_directory s
            else s)
         else if relative_y \<ge> 86 \<and> x < win_x w + 130 then
           (let place = (relative_y - 86) div 25 in if place < 8 then enter_place (unat place) s else s)
         else if relative_y < 86 \<or> x < win_x w + 136 then s
         else pick_entry os x relative_y s)"

end
