(* ===== verification/Session_Input.thy ===== *)
theory Session_Input
  imports Session_Desktop
begin

text \<open>
  The event handlers of \<^verbatim>\<open>userspace/session.c\<close>: mouse events, the keys of the desktop, the login screen.
\<close>

section \<open>Mouse events\<close>

definition focus_files :: "session \<Rightarrow> session" where
  "focus_files s = s\<lparr>files_window := (files_window s)\<lparr>win_focused := True\<rparr>,
     settings_window := (settings_window s)\<lparr>win_focused := False\<rparr>, terminal_focused := False\<rparr>"

definition focus_settings :: "session \<Rightarrow> session" where
  "focus_settings s = s\<lparr>settings_window := (settings_window s)\<lparr>win_focused := True\<rparr>,
     files_window := (files_window s)\<lparr>win_focused := False\<rparr>, terminal_focused := False\<rparr>"

definition focus_terminal :: "session \<Rightarrow> session" where
  "focus_terminal s = s\<lparr>files_window := (files_window s)\<lparr>win_focused := False\<rparr>,
     settings_window := (settings_window s)\<lparr>win_focused := False\<rparr>, terminal_focused := True\<rparr>"

definition hidden :: "desktop_window \<Rightarrow> bool" where
  "hidden w \<longleftrightarrow> \<not> win_open w \<or> win_minimized w"

definition press_files :: "os \<Rightarrow> session \<Rightarrow> session" where
  "press_files os s0 =
     (let s = (focus_files s0)\<lparr>desktop_view := VIEW_FILES\<rparr>; x = pointer_x s; y = pointer_y s;
          s1 = s\<lparr>files_window := window_pointer_down s x y (files_window s)\<rparr>; w = files_window s1;
          s2 = (if win_open w \<and> \<not> win_minimized w \<and> win_dragging w = 0 then files_pointer_down os x y s1 else s1)
      in if hidden (files_window s2) then s2\<lparr>desktop_view := VIEW_WORKSPACE\<rparr> else s2)"

definition press_settings :: "session \<Rightarrow> session" where
  "press_settings s0 =
     (let s = (focus_settings s0)\<lparr>desktop_view := VIEW_SETTINGS\<rparr>;
          s1 = s\<lparr>settings_window := window_pointer_down s (pointer_x s) (pointer_y s) (settings_window s)\<rparr>
      in if hidden (settings_window s1) then s1\<lparr>desktop_view := VIEW_WORKSPACE\<rparr> else s1)"

definition press_terminal_title :: "session \<Rightarrow> session" where
  "press_terminal_title s0 =
     (let s = focus_terminal s0; right = terminal_x s + terminal_width s
      in if pointer_x s \<ge> right - 30 then s\<lparr>terminal_open := False, terminal_focused := False\<rparr>
         else if pointer_x s \<ge> right - 54
         then s\<lparr>terminal_minimized := True, terminal_focused := False, desktop_view := VIEW_WORKSPACE\<rparr>
         else s\<lparr>terminal_dragging := True, terminal_drag_x := pointer_x s - terminal_x s,
                terminal_drag_y := pointer_y s - terminal_y s\<rparr>)"

definition launch_app :: "os \<Rightarrow> u32 \<Rightarrow> session \<Rightarrow> session" where
  "launch_app os app =
     (if app = 0 then draw_settings os else if app = 1 then launch_files os else launch_terminal)"

definition pointer_press :: "os \<Rightarrow> session \<Rightarrow> session" where
  "pointer_press os s =
     (let x = pointer_x s; y = pointer_y s; shown = terminal_open s \<and> \<not> terminal_minimized s;
          tx = terminal_x s; ty = terminal_y s; tright = tx + terminal_width s; tbottom = ty + terminal_height s
      in if window_contains (files_window s) x y then press_files os s
         else if window_contains (settings_window s) x y then press_settings s
         else if shown \<and> x \<ge> tx \<and> x < tright \<and> y \<ge> ty \<and> y < ty + 34 then press_terminal_title s
         else if shown \<and> x \<ge> tright - 20 \<and> y \<ge> tbottom - 20 \<and> x < tright \<and> y < tbottom
         then s\<lparr>terminal_resizing := True, terminal_resize_x := x, terminal_resize_y := y,
                terminal_resize_width := terminal_width s, terminal_resize_height := terminal_height s\<rparr>
         else if x < dock_width s \<and> y \<ge> 52 \<and> y < 52 + 3 * 88
         then (let app = (y - 52) div 88 in launch_app os app (s\<lparr>desktop_selection := app\<rparr>))
         else if shown \<and> x \<ge> tx \<and> x < tright \<and> y \<ge> ty \<and> y < tbottom
         then s\<lparr>terminal_focused := True, desktop_view := VIEW_TERMINAL\<rparr>
         else s\<lparr>terminal_focused := False, desktop_view := VIEW_WORKSPACE\<rparr>)"

text \<open>A size after the movement of the pointer, kept between the limits, in \<^verbatim>\<open>int32_t\<close> arithmetic.\<close>

definition resized :: "u32 \<Rightarrow> u32 \<Rightarrow> u32 \<Rightarrow> u32 \<Rightarrow> u32 \<Rightarrow> u32" where
  "resized smallest largest old position origin =
     (let new = old + position - origin; raised = (if sint new < sint smallest then smallest else new)
      in if sint raised > sint largest then largest else raised)"

definition move_window :: "u32 \<Rightarrow> u32 \<Rightarrow> desktop_window \<Rightarrow> desktop_window" where
  "move_window x y w = w\<lparr>win_x := x - win_drag_x w, win_y := y - win_drag_y w\<rparr>"

definition resize_window ::
  "u32 \<Rightarrow> u32 \<Rightarrow> u32 \<Rightarrow> u32 \<Rightarrow> u32 \<Rightarrow> u32 \<Rightarrow> desktop_window \<Rightarrow> desktop_window" where
  "resize_window min_width max_width min_height max_height x y w =
     w\<lparr>win_width := resized min_width max_width (win_width w) x (win_drag_x w),
       win_height := resized min_height max_height (win_height w) y (win_drag_y w), win_drag_x := x, win_drag_y := y\<rparr>"

definition pointer_drag :: "session \<Rightarrow> session" where
  "pointer_drag s =
     (let x = pointer_x s; y = pointer_y s
      in if terminal_dragging s then s\<lparr>terminal_x := x - terminal_drag_x s, terminal_y := y - terminal_drag_y s\<rparr>
         else if win_dragging (files_window s) = 1 then s\<lparr>files_window := move_window x y (files_window s)\<rparr>
         else if win_dragging (settings_window s) = 1 then s\<lparr>settings_window := move_window x y (settings_window s)\<rparr>
         else if win_dragging (files_window s) = 2
         then s\<lparr>files_window := resize_window 420 1100 280 700 x y (files_window s)\<rparr>
         else if win_dragging (settings_window s) = 2
         then s\<lparr>settings_window := resize_window 400 1000 260 680 x y (settings_window s)\<rparr>
         else if terminal_resizing s
         then s\<lparr>terminal_width := resized 440 1100 (terminal_resize_width s) x (terminal_resize_x s),
                terminal_height := resized 280 680 (terminal_resize_height s) y (terminal_resize_y s)\<rparr>
         else s)"

definition pointer_release :: "session \<Rightarrow> session" where
  "pointer_release s = s\<lparr>terminal_dragging := False, terminal_resizing := False,
     files_window := (files_window s)\<lparr>win_dragging := 0\<rparr>, settings_window := (settings_window s)\<lparr>win_dragging := 0\<rparr>\<rparr>"

text \<open>Is the old place of the pointer over a window?\<close>

definition pointer_over :: "u32 \<Rightarrow> u32 \<Rightarrow> u32 \<Rightarrow> u32 \<Rightarrow> u32 \<Rightarrow> u32 \<Rightarrow> bool" where
  "pointer_over old_x old_y x y width height \<longleftrightarrow>
     old_x + 14 > x \<and> old_x < x + width \<and> old_y + 14 > y \<and> old_y < y + height"

definition redraw_pointer :: "os \<Rightarrow> u32 \<Rightarrow> u32 \<Rightarrow> session \<Rightarrow> session" where
  "redraw_pointer os old_x old_y =
     chain [draw_begin DRAW_WALLPAPER,
     edit_command (\<lambda>c. c\<lparr>dc_x := old_x, dc_y := old_y, dc_width := 14, dc_height := 14\<rparr>),
     (\<lambda>s. let edge = screen_width s * 67 div 1000
          in if old_x < edge \<or> pointer_x s < edge \<or> old_y < 36 \<or> pointer_y s < 36 then draw_panel_and_dock s else s),
     (\<lambda>s. let w = files_window s
          in if win_open w \<and> \<not> win_minimized w \<and> pointer_over old_x old_y (win_x w) (win_y w) (win_width w) (win_height w)
             then draw_files_window os s else s),
     (\<lambda>s. let w = settings_window s
          in if win_open w \<and> \<not> win_minimized w \<and> pointer_over old_x old_y (win_x w) (win_y w) (win_width w) (win_height w)
             then draw_settings_window os s else s),
     (\<lambda>s. if terminal_open s \<and> \<not> terminal_minimized s \<and>
             pointer_over old_x old_y (terminal_x s) (terminal_y s) (terminal_width s) (terminal_height s)
          then draw_terminal_window s else s),
     draw_cursor, draw_present]"

definition point :: "int \<Rightarrow> session \<Rightarrow> session" where
  "point event s = s\<lparr>pointer_x := MOUSE_EVENT_X (word_of_int event), pointer_y := MOUSE_EVENT_Y (word_of_int event),
     pointer_buttons := MOUSE_EVENT_BUTTONS (word_of_int event)\<rparr>"

definition desktop_mouse_event :: "os \<Rightarrow> int \<Rightarrow> session \<Rightarrow> session" where
  "desktop_mouse_event os event s0 =
     (let old_buttons = pointer_buttons s0; s = point event s0;
          s1 = (if pointer_buttons s AND 1 \<noteq> 0 then
                  pointer_drag (if \<not> terminal_dragging s \<and> \<not> terminal_resizing s \<and> old_buttons AND 1 = 0
                                then pointer_press os s else s)
                else pointer_release s)
      in if old_buttons \<noteq> pointer_buttons s1 \<or> terminal_dragging s1 \<or> terminal_resizing s1
         then draw_workspace os s1
         else redraw_pointer os (pointer_x s0) (pointer_y s0) s1)"

section \<open>Keys of the desktop\<close>

definition go_up_by_key :: "session \<Rightarrow> session" where
  "go_up_by_key s =
     s\<lparr>cwd := (case parent_cut (cwd s) of Some parent \<Rightarrow> parent
                | None \<Rightarrow> if length (cwd s) > 6 then take 5 (cwd s) else cwd s), explorer_selection := 0\<rparr>"

definition enter_key :: "int \<Rightarrow> bool" where "enter_key input \<longleftrightarrow> input = 13 \<or> input = 10"
definition back_key :: "int \<Rightarrow> bool" where "back_key input \<longleftrightarrow> input = 27 \<or> input = 8 \<or> input = 127"

definition desktop_dispatch :: "os \<Rightarrow> int \<Rightarrow> session \<Rightarrow> session" where
  "desktop_dispatch os input s =
     (case desktop_view s of
        VIEW_WORKSPACE \<Rightarrow>
          if input = KEY_UP then
            draw_workspace os (if desktop_selection s \<noteq> 0 then s\<lparr>desktop_selection := desktop_selection s - 1\<rparr> else s)
          else if input = KEY_DOWN then
            draw_workspace os (if desktop_selection s < 2 then s\<lparr>desktop_selection := desktop_selection s + 1\<rparr> else s)
          else if enter_key input then launch_app os (desktop_selection s) s
          else if input = 102 \<or> input = 70 then launch_files os s
          else if input = 115 \<or> input = 83 then draw_settings os s
          else s
      | VIEW_SETTINGS \<Rightarrow>
          if enter_key input then draw_settings os (s\<lparr>theme_dark := \<not> theme_dark s\<rparr>)
          else if back_key input then draw_workspace os s
          else s
      | VIEW_FILES \<Rightarrow>
          if input = KEY_UP then
            draw_files os (if explorer_selection s \<noteq> 0 then s\<lparr>explorer_selection := explorer_selection s - 1\<rparr> else s)
          else if input = KEY_DOWN then
            (let (count, s1) = explorer_count os s
             in draw_files os (if explorer_selection s1 + 1 < count
                               then s1\<lparr>explorer_selection := explorer_selection s1 + 1\<rparr> else s1))
          else if enter_key input then explorer_open_selected os s
          else if back_key input then draw_files os (go_up_by_key s)
          else s
      | VIEW_PREVIEW \<Rightarrow> if back_key input then draw_files os s else s
      | VIEW_TERMINAL \<Rightarrow> s)"

section \<open>The login screen\<close>

record login_form =
  username :: "byte list"
  password :: "byte list"
  focus :: nat
  failed :: bool
  previous_buttons :: u32

definition login_form_start :: login_form where
  "login_form_start = \<lparr>username = [], password = [], focus = 0, failed = False, previous_buttons = 0\<rparr>"

definition field_width :: "session \<Rightarrow> u32" where
  "field_width s =
     (let width = screen_width s * 38 div 100; raised = (if width < 300 then 300 else width)
      in if raised > 440 then 440 else raised)"

definition field_x :: "session \<Rightarrow> u32" where "field_x s = (screen_width s - field_width s) div 2"
definition title_y :: "session \<Rightarrow> u32" where "title_y s = screen_height s div 2 - 130"

definition draw_login_screen :: "login_form \<Rightarrow> bool \<Rightarrow> bool \<Rightarrow> session \<Rightarrow> session" where
  "draw_login_screen form has_failed draw_background s =
     (let x = field_x s; width = field_width s; ytitle = title_y s; username_y = ytitle + 104; password_y = ytitle + 174;
          button_y = ytitle + 246; middle = screen_width s div 2; masked = replicate (length (password form)) 42;
          background =
            (if draw_background
             then chain [draw_begin DRAW_WALLPAPER,
                  draw_rect 0 0 (screen_width s) (screen_height s) 0x95071322,
                  draw_text (middle - 32) ytitle (str ''QuantaOS'') 0x00f1f7ff,
                  draw_text (middle - 88) (ytitle + 30) (str ''Welcome back, Quanta'') 0x00b8cce0,
                  draw_text x (username_y - 20) (str ''Account'') 0x00c5d7e8,
                  draw_text x (password_y - 20) (str ''Password'') 0x00c5d7e8]
             else id)
      in chain [background,
          draw_rounded_rect x username_y width 42 10 (if focus form = 0 then 0xe02a4058 else 0xc0213144),
          draw_text (x + 16) (username_y + 13) (if username form \<noteq> [] then username form else str ''quanta'')
            (if username form \<noteq> [] then 0x00e8f4ff else 0x006f9abe),
          draw_rounded_rect x password_y width 42 10
            (if has_failed then 0xd4553640 else if focus form = 1 then 0xe02a4058 else 0xc0213144),
          draw_text (x + 16) (password_y + 13) (if masked \<noteq> [] then masked else str ''Enter your password'')
            (if masked \<noteq> [] then 0x00e8f4ff else 0x006f9abe),
          draw_rounded_rect x button_y width 42 10 0xff168de0,
          draw_text (middle - 28) (button_y + 13) (str ''Sign in'') 0x00ffffff,
          (if has_failed then draw_text x (button_y + 54) (str ''Incorrect password. Try again.'') 0x00ffaaaa else id),
          draw_cursor, draw_present] s)"

definition USERNAME_SIZE :: nat where [geometry]: "USERNAME_SIZE = 32"
definition PASSWORD_SIZE :: nat where [geometry]: "PASSWORD_SIZE = 65"

text \<open>A mouse event on the login screen: the form, and whether the button is pressed.\<close>

definition login_mouse :: "int \<Rightarrow> login_form \<Rightarrow> session \<Rightarrow> bool \<times> login_form \<times> session" where
  "login_mouse event form s0 =
     (let s = point event s0; x = pointer_x s; y = pointer_y s;
          pressed = (pointer_buttons s AND 1 \<noteq> 0 \<and> previous_buttons form AND 1 = 0);
          inside = (\<lambda>ytop. x \<ge> field_x s \<and> x < field_x s + field_width s \<and> y \<ge> ytop \<and> y < ytop + 42);
          username_y = title_y s + 104; password_y = title_y s + 174; button_y = title_y s + 246;
          new_focus = (if pressed \<and> inside username_y then 0
                       else if pressed \<and> inside password_y then 1 else focus form);
          submit = (pressed \<and> \<not> inside username_y \<and> \<not> inside password_y \<and> inside button_y)
      in (submit, form\<lparr>focus := new_focus, previous_buttons := pointer_buttons s, failed := False\<rparr>, s))"

definition erase_in_form :: "login_form \<Rightarrow> login_form" where
  "erase_in_form form =
     (if focus form = 0 then form\<lparr>username := butlast (username form), failed := False\<rparr>
      else form\<lparr>password := butlast (password form), failed := False\<rparr>)"

definition type_in_form :: "byte \<Rightarrow> login_form \<Rightarrow> login_form" where
  "type_in_form c form =
     (if focus form = 0 \<and> length (username form) + 1 < USERNAME_SIZE
      then form\<lparr>username := username form @ [c], failed := False\<rparr>
      else if focus form = 1 \<and> length (password form) + 1 < PASSWORD_SIZE
      then form\<lparr>password := password form @ [c], failed := False\<rparr>
      else form\<lparr>failed := False\<rparr>)"

text \<open>What the session does once the password is accepted.\<close>

definition enter_session :: "os \<Rightarrow> byte list \<Rightarrow> session \<Rightarrow> session" where
  "enter_session os name =
     chain [(\<lambda>s. s\<lparr>logged_in_user := take 31 name\<rparr>), select_boot_drive os, reset_home,
     (\<lambda>s. s\<lparr>explorer_listing_valid := False\<rparr>), tell Sys_Console_Clear,
     (\<lambda>s. s\<lparr>terminal_lines := replicate 18 (replicate 81 0), terminal_line := 0, terminal_column := 0\<rparr>),
     tell Sys_Console_Clear, tell (Sys_Console_Write (str ''QUANTA_LOGIN_READY'' @ [10]))]"

text \<open>The Enter key: whether the login is over, the form and the state.\<close>

definition login_enter :: "os \<Rightarrow> login_form \<Rightarrow> session \<Rightarrow> bool \<times> login_form \<times> session" where
  "login_enter os form s =
     (if focus form = 0
      then (let form1 = form\<lparr>focus := 1\<rparr> in (False, form1, draw_login_screen form1 (failed form1) False s))
      else let (accepted, s1) =
             (if username form = str ''quanta''
              then (let ((result, stored), s1) = call os (Sys_Auth_Verify (password form)) s in (result = 0, s1))
              else (False, s))
           in if accepted then (True, form, enter_session os (username form) s1)
              else (let form1 = form\<lparr>failed := True, password := []\<rparr>
                    in (False, form1, draw_login_screen form1 True False s1)))"

definition login_key :: "os \<Rightarrow> int \<Rightarrow> login_form \<Rightarrow> session \<Rightarrow> bool \<times> login_form \<times> session" where
  "login_key os input form s =
     (if enter_key input then login_enter os form s
      else let form1 =
             (if input = 9 then form\<lparr>focus := (if focus form = 0 then 1 else 0)\<rparr>
              else if input = 8 \<or> input = 127 then erase_in_form form
              else if 32 \<le> input \<and> input < 127 then type_in_form (word_of_int input) form
              else form)
           in (False, form1, draw_login_screen form1 (failed form1) False s))"

definition mouse_input :: "int \<Rightarrow> bool" where
  "mouse_input input \<longleftrightarrow> (word_of_int input :: u32) AND KEY_MOUSE \<noteq> 0"

definition login_step :: "os \<Rightarrow> int \<Rightarrow> login_form \<Rightarrow> session \<Rightarrow> bool \<times> login_form \<times> session" where
  "login_step os input form s =
     (if input < 0 then (False, form, s)
      else if mouse_input input then
        (let (submit, form1, s1) = login_mouse input form s
         in if submit then login_enter os form1 s1
            else (False, form1, draw_login_screen form1 False True s1))
      else login_key os input form s)"

text \<open>The login reads input until it succeeds: what is left of the input, or nothing when it waits for more.\<close>

fun login_loop :: "os \<Rightarrow> int list \<Rightarrow> login_form \<Rightarrow> session \<Rightarrow> int list option \<times> session" where
  "login_loop os [] form s = (None, s)"
| "login_loop os (input # inputs) form s =
     (let (over, form1, s1) = login_step os input form s
      in if over then (Some inputs, s1) else login_loop os inputs form1 s1)"

definition login :: "os \<Rightarrow> int list \<Rightarrow> session \<Rightarrow> int list option \<times> session" where
  "login os inputs s =
     (let s1 = chain [refresh_screen_size os, draw_login_screen login_form_start False True,
                tell (Sys_Console_Write (str ''QUANTA_LOGIN_SCREEN_READY'' @ [10]))] s
      in login_loop os inputs login_form_start s1)"

end
