(* ===== verification/Session.thy ===== *)
theory Session
  imports Session_Input
begin

text \<open>
  The command interpreter and the main loop of \<^verbatim>\<open>userspace/session.c\<close>.  The keys and mouse events arrive as
  a list of numbers, the answers of \<^verbatim>\<open>read_char\<close>; a routine that reads returns what is left of it, and nothing
  when it waits for input that does not come.
\<close>

section \<open>Reading a line\<close>

definition say :: "string \<Rightarrow> session \<Rightarrow> session" where "say t = write_text (str t)"
definition say_line :: "string \<Rightarrow> session \<Rightarrow> session" where "say_line t = write_text (str t @ [10])"

fun read_line :: "nat \<Rightarrow> bool \<Rightarrow> byte list \<Rightarrow> int list \<Rightarrow> session \<Rightarrow> (byte list \<times> int list) option \<times> session" where
  "read_line capacity echo typed_text [] s = (None, s)"
| "read_line capacity echo typed_text (input # inputs) s =
     (if input < 0 then read_line capacity echo typed_text inputs s
      else if enter_key input then (Some (typed_text, inputs), write_text [10] s)
      else if (input = 8 \<or> input = 127) \<and> typed_text \<noteq> []
      then read_line capacity echo (butlast typed_text) inputs (if echo then write_text [8, 32, 8] s else s)
      else if 32 \<le> input \<and> input < 127 \<and> length typed_text + 1 < capacity
      then read_line capacity echo (typed_text @ [word_of_int input]) inputs
             (if echo then write_text [word_of_int input] s else s)
      else read_line capacity echo typed_text inputs s)"

section \<open>The manual\<close>

definition manuals :: "(string \<times> string \<times> string) list" where
  "manuals = [
    (''ls'', ''list directory contents'', ''ls [-a] [-l] [PATH]''),
    (''cat'', ''print files'', ''cat FILE...''),
    (''head'', ''print the beginning of a file'', ''head [-n LINES] FILE''),
    (''grep'', ''search text for a pattern'', ''grep PATTERN FILE...''),
    (''mkdir'', ''create a directory'', ''mkdir PATH...''),
    (''rm'', ''remove files'', ''rm [-r] PATH...''),
    (''pwd'', ''print the current directory'', ''pwd''),
    (''which'', ''locate a command'', ''which COMMAND''),
    (''type'', ''describe command resolution'', ''type COMMAND''),
    (''echo'', ''write arguments to the console'', ''echo [TEXT...]''),
    (''printf'', ''format console output'', ''printf FORMAT [ARGUMENT...]''),
    (''uname'', ''print system identity'', ''uname [-a]''),
    (''date'', ''print the real-time clock'', ''date''),
    (''lsblk'', ''list block devices'', ''lsblk''),
    (''mount'', ''show or attach filesystems'', ''mount [DEVICE] [PATH]''),
    (''umount'', ''detach a filesystem'', ''umount PATH''),
    (''mkfs'', ''format a volume'', ''mkfs [-t exfat|qfs] DEVICE''),
    (''diskpart'', ''inspect and change partitions'', ''diskpart COMMAND''),
    (''sync'', ''flush filesystem changes'', ''sync''),
    (''ps'', ''list processes'', ''ps''),
    (''free'', ''show memory information'', ''free''),
    (''df'', ''show filesystem space'', ''df [PATH]''),
    (''id'', ''show the current identity'', ''id''),
    (''whoami'', ''print the current user'', ''whoami''),
    (''hostname'', ''print the system hostname'', ''hostname''),
    (''udrive'', ''manage userspace driver capsules'', ''udrive list|add|remove|start|stop|status''),
    (''sudrive'', ''manage administrator driver operations'', ''sudrive add|remove|start|stop|status''),
    (''help'', ''show command documentation'', ''help [COMMAND]''),
    (''man'', ''show command documentation'', ''man COMMAND'')]"

definition manual :: "byte list \<Rightarrow> session \<Rightarrow> session" where
  "manual name =
     (case List.find (\<lambda>(n, description, usage). str n = name) manuals of
        Some (n, description, usage) \<Rightarrow>
          chain [write_text (str ''NAME'' @ [10] @ str ''  ''), say n, say '' - '', say description,
          write_text ([10, 10] @ str ''SYNOPSIS'' @ [10] @ str ''  ''), say usage,
          write_text ([10, 10] @ str ''DESCRIPTION'' @ [10] @ str ''  ''), say description,
          write_text (str ''.'' @ [10, 10] @ str ''EXIT STATUS'' @ [10] @
            str ''  0 on success; non-zero on failure.'' @ [10])]
      | None \<Rightarrow> chain [say ''No manual entry for '', write_text name, say_line ''.''])"

definition list_manual :: "nat \<times> string \<times> string \<times> string \<Rightarrow> session \<Rightarrow> session" where
  "list_manual item =
     (case item of (index, n, _) \<Rightarrow>
        chain [say ''  '', say n, (if (index + 1) mod 4 = 0 then write_text [10] else say ''  '')])"

definition interactive_help :: "int list \<Rightarrow> session \<Rightarrow> int list option \<times> session" where
  "interactive_help inputs s =
     (let s1 = chain [write_text (str ''QuantaOs command guide'' @ [10, 10] @ str ''Commands:'' @ [10]),
                fold list_manual (enumerate 0 manuals),
                (if length manuals mod 4 \<noteq> 0 then write_text [10] else id),
                write_text (10 # str ''manual for (or Enter to return): '')] s
      in case read_line 32 True [] inputs s1 of
           (None, s2) \<Rightarrow> (None, s2)
         | (Some (name, inputs1), s2) \<Rightarrow> (Some inputs1, if name \<noteq> [] then manual name s2 else s2))"

section \<open>Commands on files\<close>

definition resolve :: "session \<Rightarrow> byte list \<Rightarrow> byte list option" where
  "resolve s args = path_resolve (cwd s) (active_drive s) args"

definition command_cd :: "os \<Rightarrow> byte list \<Rightarrow> session \<Rightarrow> session" where
  "command_cd os args s =
     (case resolve s (if args = [] then cwd s else args) of
        None \<Rightarrow> say_line ''cd: no such directory'' s
      | Some path \<Rightarrow>
          (let (type, s1) = file_stat os path s
           in if type = Some FILE_DIRECTORY then set_cwd path s1 else say_line ''cd: no such directory'' s1))"

definition command_mkdir :: "os \<Rightarrow> byte list \<Rightarrow> session \<Rightarrow> session" where
  "command_mkdir os args s =
     (if args = [] then say_line ''mkdir: usage: mkdir PATH...'' s
      else case resolve s args of None \<Rightarrow> say_line ''mkdir: failed'' s
         | Some path \<Rightarrow>
             (let ((result, stored), s1) = call os (Sys_Fs_Mkdir path) s
              in if result = 0 then write_text [10] s1 else say_line ''mkdir: failed'' s1))"

text \<open>Open for reading, writing and creation; the handle comes back in eight bytes.\<close>

definition command_touch :: "os \<Rightarrow> byte list \<Rightarrow> session \<Rightarrow> session" where
  "command_touch os args s =
     (if args = [] then say_line ''touch: usage: touch FILE'' s
      else case resolve s args of None \<Rightarrow> say_line ''touch: failed'' s
         | Some path \<Rightarrow>
             (let (type, s1) = file_stat os path s
              in if type \<noteq> None then write_text [10] s1
                 else let ((result, stored), s2) = call os (Sys_Fs_Open path 7) s1
                      in if result = 0
                         then write_text [10] (tell (Sys_Fs_Close (u64_at (fill_buffer stored (replicate 8 0)) 0)) s2)
                         else say_line ''touch: failed'' s2))"

definition command_ls :: "os \<Rightarrow> byte list \<Rightarrow> session \<Rightarrow> session" where
  "command_ls os args s =
     (case resolve s (if args = [] then str ''.'' else args) of
        None \<Rightarrow> say_line ''ls: not found'' s
      | Some path \<Rightarrow>
          (let ((result, stored), s1) = call os (Sys_Fs_List path) s
           in if result > 0 then write_text (fill_buffer stored (replicate 256 0)) s1
              else if result = 0 then s1 else say_line ''ls: not found'' s1))"

text \<open>The contents of the file that is the argument, for \<^verbatim>\<open>cat\<close>, \<^verbatim>\<open>head\<close> and \<^verbatim>\<open>wc\<close>.\<close>

definition read_argument :: "os \<Rightarrow> byte list \<Rightarrow> session \<Rightarrow> byte list option \<times> session" where
  "read_argument os args s =
     (case resolve s args of None \<Rightarrow> (None, s)
      | Some path \<Rightarrow>
          (let ((result, stored), s1) = call os (Sys_Fs_Read path) s
           in (if result \<ge> 0 then Some (fill_buffer stored (replicate 256 0)) else None, s1)))"

definition command_print_file :: "string \<Rightarrow> string \<Rightarrow> os \<Rightarrow> byte list \<Rightarrow> session \<Rightarrow> session" where
  "command_print_file usage missing os args s =
     (if args = [] then say_line usage s
      else let (contents, s1) = read_argument os args s
           in case contents of Some buffer \<Rightarrow> write_text buffer s1 | None \<Rightarrow> say_line missing s1)"

text \<open>Lines, words and bytes.\<close>

fun count_words :: "bool \<Rightarrow> byte list \<Rightarrow> u64 \<times> u64 \<times> u64" where
  "count_words in_word [] = (0, 0, 0)"
| "count_words in_word (c # cs) =
     (let separated = (c = 32 \<or> c = 10); (lines, words, bytes) = count_words (\<not> separated) cs
      in (if c = 10 then lines + 1 else lines, if \<not> separated \<and> \<not> in_word then words + 1 else words, bytes + 1))"

definition command_wc :: "os \<Rightarrow> byte list \<Rightarrow> session \<Rightarrow> session" where
  "command_wc os args s =
     (if args = [] then say_line ''wc: usage: wc FILE'' s
      else let (contents, s1) = read_argument os args s
           in case contents of None \<Rightarrow> say_line ''wc: not found'' s1
              | Some buffer \<Rightarrow>
                  (let (lines, words, bytes) = count_words False (cstr buffer)
                   in chain [write_text (decimal lines), say '' '', write_text (decimal words), say '' '',
                       write_text (decimal bytes), write_text [10]] s1))"

definition base_name :: "byte list \<Rightarrow> byte list" where
  "base_name path = rev (takeWhile (\<lambda>c. c \<noteq> 62 \<and> c \<noteq> 58) (rev path))"

definition command_basename :: "byte list \<Rightarrow> session \<Rightarrow> session" where
  "command_basename args =
     (if args = [] then say_line ''basename: usage: basename PATH'' else chain [write_text (base_name args), write_text [10]])"

definition root_end :: "byte list \<Rightarrow> nat" where
  "root_end path = foldl (\<lambda>e i. if path ! i = 58 then i + 1 else e) 0 [0..<length path]"

definition dir_name :: "byte list \<Rightarrow> byte list" where
  "dir_name path =
     (let parent = last_separator path in take (if parent \<noteq> 0 then parent else root_end path) path)"

definition command_dirname :: "byte list \<Rightarrow> session \<Rightarrow> session" where
  "command_dirname args s =
     (if args = [] then say_line ''dirname: usage: dirname PATH'' s
      else case resolve s args of None \<Rightarrow> say_line ''dirname: invalid path'' s
         | Some path \<Rightarrow> chain [write_text (dir_name path), write_text [10]] s)"

section \<open>Commands on the system\<close>

definition filesystem_name :: "u32 \<Rightarrow> string" where
  "filesystem_name kind =
     (if kind = 1 then ''qfs1'' else if kind = 2 then ''qfs2'' else if kind = 4 then ''vfat''
      else if kind = 3 then ''fat'' else ''unknown'')"

definition list_device :: "byte list \<Rightarrow> nat \<Rightarrow> session \<Rightarrow> session" where
  "list_device devices index =
     (let base = 20 * index; flags = u32_at devices (base + 8); sectors = u64_at devices (base + 12)
      in chain [write_text (field devices base 8), say ''  '', write_text (decimal (sectors * 512)), say '' bytes  '',
         (if flags AND 1 \<noteq> 0 then say ''live read-only'' else if flags AND 2 \<noteq> 0 then say ''read-only'' else say ''ready''),
         write_text [10]])"

definition storage_list :: "os \<Rightarrow> session \<Rightarrow> session" where
  "storage_list os s =
     (let ((count, stored), s1) = call os Sys_Storage_List s; devices = fill_buffer stored (replicate 200 0)
      in if count < 0 then say_line ''storage: unavailable'' s1
         else chain [say_line ''DRIVE  SIZE       STATE'', fold (list_device devices) [0..<nat count]] s1)"

definition stamp_digits :: "byte \<Rightarrow> byte list" where
  "stamp_digits v = [48 + v div 10, 48 + v mod 10]"

definition clock_stamp :: "byte list \<Rightarrow> byte list" where
  "clock_stamp now = str ''20'' @ stamp_digits (now ! 0) @ str ''-'' @ stamp_digits (now ! 1) @ str ''-'' @
     stamp_digits (now ! 2) @ str '' '' @ stamp_digits (now ! 3) @ str '':'' @ stamp_digits (now ! 4) @
     str '':'' @ stamp_digits (now ! 5) @ str '' UTC'' @ [10]"

definition command_date :: "os \<Rightarrow> session \<Rightarrow> session" where
  "command_date os s =
     (let ((result, stored), s1) = call os Sys_Rtc_Read s
      in if result = 0 then write_text (clock_stamp (fill_buffer stored (replicate 6 0))) s1
         else say_line ''date: unavailable'' s1)"

definition command_df :: "os \<Rightarrow> session \<Rightarrow> session" where
  "command_df os s =
     (let (info, s1) = system_info os s
      in case info of None \<Rightarrow> say_line ''df: unavailable'' s1
         | Some i \<Rightarrow>
             chain [say_line ''Filesystem  Size       Used     Avail'',
              say (filesystem_name (info_filesystem_kind i)), say ''        '',
              write_text (decimal (info_size_bytes i)), say_line '' bytes  unknown  unknown''] s1)"

definition command_mount :: "os \<Rightarrow> session \<Rightarrow> session" where
  "command_mount os s =
     (let (info, s1) = system_info os s
      in case info of None \<Rightarrow> say_line ''mount: unavailable'' s1
         | Some i \<Rightarrow>
             chain [write_text (active_drive s1), say '': type '', say (filesystem_name (info_filesystem_kind i)),
              (if info_read_only i then say '' (read-only, '' else say '' (read-write, ''),
              write_text (decimal (info_size_bytes i)), say_line '' bytes)'', storage_list os] s1)"

definition command_env :: "session \<Rightarrow> session" where
  "command_env s =
     chain [write_text (str ''USER=quanta'' @ [10] @ str ''HOME=''), write_text (active_drive s),
      write_text (str '':home>quanta'' @ [10] @ str ''SHELL=''), write_text (active_drive s),
      say_line '':bin>session''] s"

definition command_which :: "byte list \<Rightarrow> session \<Rightarrow> session" where
  "command_which args s =
     (if args = [] then say_line ''which: usage: which COMMAND'' s
      else if args \<in> set (map str [''cat'', ''echo'', ''session'', ''mkdir'', ''ls'', ''pwd''])
      then chain [write_text (active_drive s), say '':bin>'', write_text args, write_text [10]] s
      else say_line ''which: not found'' s)"

definition command_udrive :: "byte list \<Rightarrow> session \<Rightarrow> session" where
  "command_udrive args =
     (if args = [] \<or> args = str ''list''
      then write_text (str ''NAME STATE CAPSULE'' @ [10] @ str ''console online builtin'' @ [10] @
             str ''storage online builtin'' @ [10])
      else say_line ''udrive: driver capsule service is not available in this session'')"

text \<open>Change of the password: three lines are read.\<close>

definition change_password :: "os \<Rightarrow> int list \<Rightarrow> session \<Rightarrow> int list option \<times> session" where
  "change_password os inputs s =
     (case read_line 65 False [] inputs (say ''new password: '' s) of
        (None, s1) \<Rightarrow> (None, s1)
      | (Some (new, inputs1), s1) \<Rightarrow>
          (case read_line 65 False [] inputs1 (say ''confirm password: '' s1) of
             (None, s2) \<Rightarrow> (None, s2)
           | (Some (confirm, inputs2), s2) \<Rightarrow>
               (Some inputs2,
                if new = [] \<or> length new \<noteq> length confirm \<or> new \<noteq> confirm
                then say_line ''passwd: new passwords do not match'' s2
                else let ((result, stored), s3) = call os (Sys_Auth_Change new) s2
                     in if result \<noteq> 0 then say_line ''passwd: update failed'' s3
                        else say_line ''passwd: password updated'' s3)))"

definition command_passwd :: "os \<Rightarrow> int list \<Rightarrow> session \<Rightarrow> int list option \<times> session" where
  "command_passwd os inputs s =
     (case read_line 65 False [] inputs (say ''current password: '' s) of
        (None, s1) \<Rightarrow> (None, s1)
      | (Some (old, inputs1), s1) \<Rightarrow>
          (let ((result, stored), s2) = call os (Sys_Auth_Verify old) s1
           in if result \<noteq> 0 then (Some inputs1, say_line ''passwd: current password is incorrect'' s2)
              else change_password os inputs1 s2))"

section \<open>The interpreter\<close>

text \<open>The commands that print a fixed text.\<close>

definition fixed_answers :: "(byte list \<times> byte list) list" where
  "fixed_answers = map (\<lambda>(name, t). (str name, t)) [
     (''whoami'', str ''quanta'' @ [10]), (''id'', str ''quanta'' @ [10]), (''hostname'', str ''quanta'' @ [10]),
     (''uname'', str ''QuantaOs x86_64 single-user'' @ [10]),
     (''ps'', str ''PID STATE NAME'' @ [10] @ str ''1 running session'' @ [10] @ str ''2 ready console'' @ [10]),
     (''mem'', str ''memory: bootstrap frame allocator active'' @ [10]),
     (''free'', str ''memory: bootstrap frame allocator active'' @ [10]),
     (''uptime'', str ''0:00, 1 user, load average: 0.00'' @ [10]),
     (''history'', str ''history is session-local'' @ [10]), (''tty'', str ''console0'' @ [10]),
     (''umount'', str ''umount: named boot drive cannot be detached'' @ [10]), (''sync'', [10]),
     (''dmesg'', str ''QuantaOs kernel: console ps2 rtc ramfs online'' @ [10]),
     (''drivers'', str ''vga: online'' @ [10] @ str ''ps2: online'' @ [10] @ str ''serial: online'' @ [10] @
        str ''rtc: online'' @ [10]),
     (''sudrive'', str ''sudrive: administrator driver authority is required'' @ [10]),
     (''login'', str ''already logged in as quanta'' @ [10]), (''false'', str ''false'' @ [10]),
     (''yes'', str ''yes'' @ [10]), (''reboot'', str ''unsupported: use shutdown'' @ [10]),
     (''poweroff'', str ''unsupported: use shutdown'' @ [10])]"

text \<open>The commands that neither read input nor leave the session.\<close>

definition run_command :: "os \<Rightarrow> byte list \<Rightarrow> byte list \<Rightarrow> session \<Rightarrow> session" where
  "run_command os name args s =
     (let is = (\<lambda>n. name = str n) in
      if is ''man'' then (if args = [] then say_line ''man: usage: man COMMAND'' s else manual args s)
      else if is ''pwd'' then chain [write_text (cwd s), write_text [10]] s
      else if is ''cd'' then command_cd os args s
      else if is ''mkdir'' then command_mkdir os args s
      else if is ''touch'' then command_touch os args s
      else if is ''ls'' then command_ls os args s
      else if is ''cat'' then command_print_file ''cat: usage: cat FILE...'' ''cat: not found'' os args s
      else if is ''echo'' then chain [write_text args, write_text [10]] s
      else if is ''printf'' then
        (if args = [] then say_line ''printf: usage: printf FORMAT'' s else chain [write_text args, write_text [10]] s)
      else if is ''date'' then command_date os s
      else if is ''env'' then command_env s
      else if is ''lsblk'' then storage_list os s
      else if is ''df'' then command_df os s
      else if is ''mount'' then command_mount os s
      else if is ''udrive'' then command_udrive args s
      else if is ''which'' then command_which args s
      else if is ''type'' then say_line (if args = [] then ''type: usage: type COMMAND'' else ''type: shell builtin'') s
      else if is ''head'' then command_print_file ''head: usage: head FILE'' ''head: not found'' os args s
      else if is ''wc'' then command_wc os args s
      else if is ''basename'' then command_basename args s
      else if is ''dirname'' then command_dirname args s
      else if is ''clear'' then tell Sys_Console_Clear s
      else if is ''true'' then s
      else if is ''shutdown'' then tell Sys_Shutdown s
      else say_line ''command not found'' s)"

definition command :: "os \<Rightarrow> byte list \<Rightarrow> int list \<Rightarrow> session \<Rightarrow> int list option \<times> session" where
  "command os line inputs s =
     (case split_command line 32 of None \<Rightarrow> (Some inputs, s)
      | Some (name, args) \<Rightarrow>
          (case map_of fixed_answers name of Some answer \<Rightarrow> (Some inputs, write_text answer s)
           | None \<Rightarrow>
               if name = str ''help'' then (if args = [] then interactive_help inputs s else (Some inputs, manual args s))
               else if name = str ''passwd'' then command_passwd os inputs s
               else if name = str ''exit'' \<or> name = str ''logout'' then login os inputs (tell Sys_Session_Logout s)
               else (Some inputs, run_command os name args s)))"

section \<open>The main loop\<close>

definition view_workspace :: "os \<Rightarrow> session \<Rightarrow> session" where
  "view_workspace os =
     chain [(\<lambda>s. s\<lparr>desktop_view := VIEW_WORKSPACE, terminal_focused := False\<rparr>), draw_workspace os,
     tell (Sys_Console_Write (str ''QUANTA_VIEW_WORKSPACE'' @ [10]))]"

definition view_terminal :: "os \<Rightarrow> session \<Rightarrow> session" where
  "view_terminal os =
     chain [(\<lambda>s. s\<lparr>desktop_view := VIEW_TERMINAL, terminal_open := True, terminal_minimized := False, terminal_focused := True\<rparr>),
     start_terminal, draw_workspace os, tell (Sys_Console_Write (str ''QUANTA_VIEW_TERMINAL'' @ [10])),
     tell (Sys_Console_Write terminal_focused_marker)]"

definition mouse_turn :: "os \<Rightarrow> int \<Rightarrow> session \<Rightarrow> session" where
  "mouse_turn os input s =
     (let s1 = desktop_mouse_event os input s
      in if pointer_buttons s \<noteq> pointer_buttons s1 then tell (Sys_Console_Write (str ''QUANTA_MOUSE_CLICK'' @ [10])) s1
         else s1)"

definition BUFFER_SIZE :: nat where [geometry]: "BUFFER_SIZE = 128"

text \<open>A key for the terminal that neither ends the line nor waits: the line and the state.\<close>

definition terminal_key :: "int \<Rightarrow> byte list \<Rightarrow> session \<Rightarrow> byte list \<times> session" where
  "terminal_key input line s =
     (if (input = 8 \<or> input = 127) \<and> line \<noteq> []
      then (let s1 = write_text [8, 32, 8] s
            in (butlast line,
                chain [draw_rect (terminal_x s1 + 20 + of_nat (terminal_column s1) * 8) (terminal_y s1 + 52 + 17 * 19) 8 16
                   0x0017202e, draw_present] s1))
      else if 32 \<le> input \<and> input < 127 \<and> length line + 1 < BUFFER_SIZE
      then (let c = word_of_int input; s1 = write_text [c] s;
                column = (if terminal_column s1 = 0 then 79 else terminal_column s1 - 1)
            in (line @ [c],
                chain [draw_text (terminal_x s1 + 20 + of_nat column * 8) (terminal_y s1 + 52 + 17 * 19) [c] 0x00e8edf2,
                 draw_present] s1))
      else (line, s))"

definition enter_line :: "os \<Rightarrow> byte list \<Rightarrow> int list \<Rightarrow> session \<Rightarrow> int list option \<times> session" where
  "enter_line os line inputs s =
     (case command os (trim_line line) inputs (write_text [10] s) of
        (None, s1) \<Rightarrow> (None, s1)
      | (Some inputs1, s1) \<Rightarrow> (Some inputs1, draw_workspace os (prompt s1)))"

text \<open>One turn of the endless loop: the line, what is left of the input, the state.\<close>

definition session_turn ::
  "os \<Rightarrow> int \<Rightarrow> byte list \<Rightarrow> int list \<Rightarrow> session \<Rightarrow> (byte list \<times> int list) option \<times> session" where
  "session_turn os input line inputs s =
     (if input < 0 then (Some (line, inputs), s)
      else if mouse_input input then (Some (line, inputs), mouse_turn os input s)
      else if input = KEY_ALT_F2 then (Some (line, inputs), view_workspace os s)
      else if input = KEY_ALT_F1 then (Some (line, inputs), view_terminal os s)
      else if \<not> terminal_focused s then (Some (line, inputs), desktop_dispatch os input s)
      else if enter_key input
      then (let (left, s1) = enter_line os line inputs s in (map_option (\<lambda>inputs1. ([], inputs1)) left, s1))
      else let (line1, s1) = terminal_key input line s in (Some (line1, inputs), s1))"

lemma read_line_consumes:
  "read_line capacity echo typed_text inputs s = (Some (t, rest), s1) \<Longrightarrow> length rest < length inputs"
  by (induction capacity echo typed_text inputs s rule: read_line.induct) (auto split: if_splits)

lemma login_loop_consumes: "login_loop os inputs form s = (Some rest, s1) \<Longrightarrow> length rest < length inputs"
proof (induction os inputs form s rule: login_loop.induct)
  case (2 os input inputs form s)
  obtain over form1 s2 where step: "login_step os input form s = (over, form1, s2)" by (metis prod_cases3)
  then show ?case using 2 by (cases over) (auto intro: less_SucI)
qed simp

lemma command_consumes: "command os line inputs s = (Some rest, s1) \<Longrightarrow> length rest \<le> length inputs"
  by (auto simp: command_def interactive_help_def command_passwd_def change_password_def login_def Let_def
      split: option.splits if_splits prod.splits dest!: read_line_consumes login_loop_consumes)

lemma session_turn_consumes:
  "session_turn os input line inputs s = (Some (line1, rest), s1) \<Longrightarrow> length rest \<le> length inputs"
  by (auto simp: session_turn_def enter_line_def Let_def split: if_splits prod.splits option.splits
      dest!: command_consumes)

function session_loop :: "os \<Rightarrow> byte list \<Rightarrow> int list \<Rightarrow> session \<Rightarrow> session" where
  "session_loop os line [] s = s"
| "session_loop os line (input # inputs) s =
     (case session_turn os input line inputs s of
        (None, s1) \<Rightarrow> s1
      | (Some (line1, inputs1), s1) \<Rightarrow> session_loop os line1 inputs1 s1)"
  by pat_completeness auto
termination
  by (relation "measure (\<lambda>(os, line, inputs, s). length inputs)") (auto dest: session_turn_consumes [OF sym] simp: less_Suc_eq_le)

text \<open>\<^verbatim>\<open>_start\<close>: what the program has done when it has used up the given input.\<close>

definition session_run :: "os \<Rightarrow> int list \<Rightarrow> session" where
  "session_run os inputs =
     (case login os inputs session_start of
        (None, s) \<Rightarrow> s
      | (Some inputs1, s) \<Rightarrow>
          session_loop os [] inputs1
            (chain [draw_workspace os, tell (Sys_Console_Write (str ''QUANTA_DESKTOP_READY'' @ [10]))] s))"

end
