(* ===== verification/Session_Invariant.thy ===== *)
theory Session_Invariant
  imports Session
begin

text \<open>
  What every run of the session keeps, whatever the operating system answers and whatever is typed: its buffers
  hold what fits them, the drawing batches are ones the kernel accepts, and calls on files, devices or the
  password are made only while a password check has succeeded since the last logout.  \<open>session_ok os online\<close> is that
  invariant; the collection \<open>session_rules\<close> has one rule per operation that keeps it, and rules for the ways the
  operations are put together.
\<close>

unbundle bit_operations_syntax

named_theorems session_rules "operations of the session that keep its invariant"

section \<open>The invariant\<close>

definition command_ok :: "draw_command \<Rightarrow> bool" where
  "command_ok c \<longleftrightarrow>
     dc_operation c \<in> {DRAW_RECT, DRAW_TEXT, DRAW_WALLPAPER, DRAW_ICON, DRAW_ROUNDED_RECT} \<and>
     (dc_operation c = DRAW_TEXT \<longrightarrow> dc_text_length c \<le> 128)"

fun call_ok :: "syscall \<Rightarrow> bool" where
  "call_ok (Sys_Desktop_Draw batch) \<longleftrightarrow> batch \<noteq> [] \<and> length batch \<le> 32 \<and> list_all command_ok batch"
| "call_ok (Sys_Console_Write chars) \<longleftrightarrow> length chars \<le> 256"
| "call_ok (Sys_Auth_Verify chars) \<longleftrightarrow> length chars \<le> 64"
| "call_ok (Sys_Auth_Change chars) \<longleftrightarrow> 0 < length chars \<and> length chars \<le> 64"
| "call_ok c \<longleftrightarrow> True"

text \<open>The calls a session may make before a password is accepted.\<close>

fun open_call :: "syscall \<Rightarrow> bool" where
  "open_call (Sys_Console_Write chars) = True"
| "open_call Sys_Console_Clear = True"
| "open_call (Sys_Desktop_Draw batch) = True"
| "open_call Sys_Desktop_Present = True"
| "open_call Sys_System_Info = True"
| "open_call (Sys_Auth_Verify chars) = True"
| "open_call Sys_Session_Logout = True"
| "open_call c = False"

text \<open>Has a password been accepted since the last logout?  The calls are given newest first.\<close>

fun logged_on :: "os \<Rightarrow> syscall list \<Rightarrow> bool" where
  "logged_on os [] = False"
| "logged_on os (Sys_Session_Logout # made) = False"
| "logged_on os (Sys_Auth_Verify chars # made) =
     (fst (os (rev (Sys_Auth_Verify chars # made))) = 0 \<or> logged_on os made)"
| "logged_on os (c # made) = logged_on os made"

fun calls_guarded :: "os \<Rightarrow> syscall list \<Rightarrow> bool" where
  "calls_guarded os [] = True"
| "calls_guarded os (c # made) \<longleftrightarrow> (open_call c \<or> logged_on os made) \<and> calls_guarded os made"

definition queue_ok :: "session \<Rightarrow> bool" where
  "queue_ok s \<longleftrightarrow> length (draw_commands s) = 32 \<and> draw_command_count s \<le> 32 \<and>
     list_all (\<lambda>c. length (dc_text c) = 128) (draw_commands s) \<and>
     list_all command_ok (take (draw_command_count s) (draw_commands s))"

definition terminal_ok :: "session \<Rightarrow> bool" where
  "terminal_ok s \<longleftrightarrow> length (terminal_lines s) = 18 \<and> (\<forall>row\<in>set (terminal_lines s). length row = 81) \<and>
     terminal_line s < 18 \<and> terminal_column s < 80"

definition texts_ok :: "session \<Rightarrow> bool" where
  "texts_ok s \<longleftrightarrow> length (cwd s) < 96 \<and> known_drive_name (active_drive s) \<and> length (explorer_listing s) = 256 \<and>
     length (explorer_cached_path s) < 96 \<and> length (logged_in_user s) < 32"

definition sizes_ok :: "session \<Rightarrow> bool" where
  "sizes_ok s \<longleftrightarrow> terminal_width s \<in> {440..1100} \<and> terminal_height s \<in> {280..680}"

definition session_ok :: "os \<Rightarrow> bool \<Rightarrow> session \<Rightarrow> bool" where
  "session_ok os online s \<longleftrightarrow> queue_ok s \<and> terminal_ok s \<and> texts_ok s \<and> sizes_ok s \<and> theme_dark s \<and>
     list_all call_ok (calls s) \<and> calls_guarded os (rev (calls s)) \<and> (online \<longrightarrow> logged_on os (rev (calls s)))"

lemmas ok_parts = session_ok_def queue_ok_def terminal_ok_def texts_ok_def sizes_ok_def

section \<open>Ways of putting operations together\<close>

lemma session_let [session_rules]:
  "session_ok os b s1 \<Longrightarrow> (\<And>s. session_ok os b s \<Longrightarrow> session_ok os b (f s)) \<Longrightarrow> session_ok os b (let s = s1 in f s)"
  "session_ok os b (snd p) \<Longrightarrow> (\<And>v s. session_ok os b s \<Longrightarrow> session_ok os b (g v s)) \<Longrightarrow>
     session_ok os b (let (v, s) = p in g v s)"
  by (simp_all add: Let_def split_beta)

lemma value_let: "(\<And>v. session_ok os b (f v)) \<Longrightarrow> session_ok os b (let v = e in f v)"
  by (simp add: Let_def)

lemma session_branch [session_rules]:
  "(c \<Longrightarrow> session_ok os b x) \<Longrightarrow> (\<not> c \<Longrightarrow> session_ok os b y) \<Longrightarrow> session_ok os b (if c then x else y)"
  "(c \<Longrightarrow> session_ok os b (f s)) \<Longrightarrow> (\<not> c \<Longrightarrow> session_ok os b (g s)) \<Longrightarrow> session_ok os b ((if c then f else g) s)"
  "(\<And>v. o' = Some v \<Longrightarrow> session_ok os b (h v)) \<Longrightarrow> (o' = None \<Longrightarrow> session_ok os b y) \<Longrightarrow>
     session_ok os b (case o' of Some v \<Rightarrow> h v | None \<Rightarrow> y)"
  by (auto split: option.split)

lemma session_sequence [session_rules]:
  "session_ok os b (f s) \<Longrightarrow> (\<And>s. session_ok os b s \<Longrightarrow> session_ok os b (chain fs s)) \<Longrightarrow> session_ok os b (chain (f # fs) s)"
  "session_ok os b s \<Longrightarrow> session_ok os b (chain [] s)"
  "session_ok os b s \<Longrightarrow> session_ok os b (id s)"
  "session_ok os b s \<Longrightarrow> (\<And>x s. session_ok os b s \<Longrightarrow> session_ok os b (h x s)) \<Longrightarrow> session_ok os b (fold h xs s)"
proof -
  show "session_ok os b s \<Longrightarrow> (\<And>x s. session_ok os b s \<Longrightarrow> session_ok os b (h x s)) \<Longrightarrow> session_ok os b (fold h xs s)"
    by (induction xs arbitrary: s) auto
qed simp_all

text \<open>Fields the invariant does not speak of.\<close>

lemma session_fields [simp]:
  "session_ok os b (s\<lparr>screen_width := w, screen_height := h\<rparr>) = session_ok os b s"
  "session_ok os b (s\<lparr>desktop_view := v\<rparr>) = session_ok os b s"
  "session_ok os b (s\<lparr>desktop_selection := n\<rparr>) = session_ok os b s"
  "session_ok os b (s\<lparr>explorer_selection := n\<rparr>) = session_ok os b s"
  "session_ok os b (s\<lparr>explorer_listing_valid := p\<rparr>) = session_ok os b s"
  "session_ok os b (s\<lparr>explorer_listing_count := n\<rparr>) = session_ok os b s"
  "session_ok os b (s\<lparr>explorer_list_view := p\<rparr>) = session_ok os b s"
  "session_ok os b (s\<lparr>pointer_x := x, pointer_y := y, pointer_buttons := n\<rparr>) = session_ok os b s"
  "session_ok os b (s\<lparr>terminal_x := x, terminal_y := y\<rparr>) = session_ok os b s"
  "session_ok os b (s\<lparr>terminal_open := p\<rparr>) = session_ok os b s"
  "session_ok os b (s\<lparr>terminal_minimized := p\<rparr>) = session_ok os b s"
  "session_ok os b (s\<lparr>terminal_focused := p\<rparr>) = session_ok os b s"
  "session_ok os b (s\<lparr>terminal_started := p\<rparr>) = session_ok os b s"
  "session_ok os b (s\<lparr>terminal_dragging := p\<rparr>) = session_ok os b s"
  "session_ok os b (s\<lparr>terminal_resizing := p\<rparr>) = session_ok os b s"
  "session_ok os b (s\<lparr>terminal_drag_x := x\<rparr>) = session_ok os b s"
  "session_ok os b (s\<lparr>terminal_drag_y := y\<rparr>) = session_ok os b s"
  "session_ok os b (s\<lparr>terminal_resize_x := x\<rparr>) = session_ok os b s"
  "session_ok os b (s\<lparr>terminal_resize_y := y\<rparr>) = session_ok os b s"
  "session_ok os b (s\<lparr>terminal_resize_width := w\<rparr>) = session_ok os b s"
  "session_ok os b (s\<lparr>terminal_resize_height := h\<rparr>) = session_ok os b s"
  "session_ok os b (s\<lparr>files_window := fw\<rparr>) = session_ok os b s"
  "session_ok os b (s\<lparr>settings_window := sw\<rparr>) = session_ok os b s"
  by (simp_all add: ok_parts)

section \<open>Calls\<close>

lemma logged_on_other:
  "c \<noteq> Sys_Session_Logout \<Longrightarrow> logged_on os made \<Longrightarrow> logged_on os (c # made)"
  by (cases c) auto

lemma tell_ok:
  assumes "session_ok os b s" "call_ok c" "c \<noteq> Sys_Session_Logout" "open_call c \<or> b"
  shows "session_ok os b (tell c s)"
  using assms logged_on_other [OF assms(3)] by (auto simp: ok_parts tell_def)

lemma tell_plain [session_rules]:
  "session_ok os b s \<Longrightarrow> length chars \<le> 256 \<Longrightarrow> session_ok os b (tell (Sys_Console_Write chars) s)"
  "session_ok os b s \<Longrightarrow> session_ok os b (tell Sys_Console_Clear s)"
  "session_ok os b s \<Longrightarrow> session_ok os b (tell Sys_Desktop_Present s)"
  "session_ok os b s \<Longrightarrow> session_ok os b (tell Sys_System_Info s)"
  "session_ok os b s \<Longrightarrow> length pw \<le> 64 \<Longrightarrow> session_ok os b (tell (Sys_Auth_Verify pw) s)"
  by (simp_all add: tell_ok)

lemma tell_online [session_rules]:
  "session_ok os True s \<Longrightarrow> session_ok os True (tell (Sys_Fs_List p) s)"
  "session_ok os True s \<Longrightarrow> session_ok os True (tell (Sys_Fs_Read p) s)"
  "session_ok os True s \<Longrightarrow> session_ok os True (tell (Sys_Fs_Stat p) s)"
  "session_ok os True s \<Longrightarrow> session_ok os True (tell (Sys_Fs_Mkdir p) s)"
  "session_ok os True s \<Longrightarrow> session_ok os True (tell (Sys_Fs_Open p f) s)"
  "session_ok os True s \<Longrightarrow> session_ok os True (tell (Sys_Fs_Close h) s)"
  "session_ok os True s \<Longrightarrow> 0 < length pw \<Longrightarrow> length pw \<le> 64 \<Longrightarrow> session_ok os True (tell (Sys_Auth_Change pw) s)"
  "session_ok os True s \<Longrightarrow> session_ok os True (tell Sys_Storage_List s)"
  "session_ok os True s \<Longrightarrow> session_ok os True (tell Sys_Rtc_Read s)"
  "session_ok os True s \<Longrightarrow> session_ok os True (tell Sys_Shutdown s)"
  by (simp_all add: tell_ok)

lemma logout_ok: "session_ok os True s \<Longrightarrow> session_ok os False (tell Sys_Session_Logout s)"
  by (simp add: ok_parts tell_def)

lemma offline: "session_ok os True s \<Longrightarrow> session_ok os False s"
  by (simp add: session_ok_def)

lemma verified_ok:
  assumes "session_ok os b s" "length pw \<le> 64" "fst (os (calls s @ [Sys_Auth_Verify pw])) = 0"
  shows "session_ok os True (tell (Sys_Auth_Verify pw) s)"
  using assms by (simp add: ok_parts tell_def)

lemma call_eq: "call os c s = (os (calls s @ [c]), tell c s)"
  by (simp add: call_def tell_def)

text \<open>A call whose result is used, with the answer taken apart.\<close>

lemma session_call [session_rules]:
  "session_ok os b (tell c s) \<Longrightarrow> (\<And>result stored s. session_ok os b s \<Longrightarrow> session_ok os b (f result stored s)) \<Longrightarrow>
     session_ok os b (let ((result, stored), s) = call os c s in f result stored s)"
  by (simp add: call_eq Let_def split_beta)

section \<open>Terminal and drawing\<close>

lemma terminal_set_ok [session_rules]: "session_ok os b s \<Longrightarrow> session_ok os b (terminal_set c s)"
  by (auto simp: ok_parts terminal_set_def dest!: set_update_subset_insert [THEN subsetD])

lemma shifted_rows:
  "length ls = 18 \<Longrightarrow> n \<le> 17 \<Longrightarrow>
     foldl (\<lambda>ls row. ls[row := ls ! (row + 1)]) ls [0..<n] = take n (tl ls) @ drop n ls"
proof (induction n)
  case (Suc n)
  then have "foldl (\<lambda>ls row. ls[row := ls ! (row + 1)]) ls [0..<Suc n]
      = (take n (tl ls) @ drop n ls)[n := (take n (tl ls) @ drop n ls) ! (n + 1)]" by simp
  also have "\<dots> = take n (tl ls) @ (drop n ls)[0 := ls ! (n + 1)]"
    using Suc.prems by (simp add: list_update_append nth_append)
  also have "(drop n ls)[0 := ls ! (n + 1)] = ls ! (n + 1) # drop (Suc n) ls"
    using Suc.prems by (simp add: Cons_nth_drop_Suc [symmetric])
  finally show ?case using Suc.prems by (simp add: take_Suc_conv_app_nth nth_tl)
qed simp

lemma advance_scrolls:
  assumes "length (terminal_lines s) = 18" "\<not> terminal_line s + 1 < 18"
  shows "terminal_advance_line s = s\<lparr>terminal_lines := tl (terminal_lines s) @ [last (terminal_lines s)], terminal_column := 0\<rparr>"
proof -
  have "take 17 (tl (terminal_lines s)) = tl (terminal_lines s)" using assms(1) by simp
  moreover have "drop 17 (terminal_lines s) = [last (terminal_lines s)]"
  proof -
    have "terminal_lines s \<noteq> []" using assms(1) by auto
    then have "last (terminal_lines s) = terminal_lines s ! 17" using assms(1) by (simp add: last_conv_nth)
    then show ?thesis using assms(1) Cons_nth_drop_Suc [of 17 "terminal_lines s"] by simp
  qed
  ultimately show ?thesis
    unfolding terminal_advance_line_def shifted_rows [OF assms(1) order_refl] using assms(2) by (simp add: TERMINAL_ROWS_def)
qed

lemma advance_line_ok [session_rules]:
  assumes "session_ok os b s"
  shows "session_ok os b (terminal_advance_line s)"
proof (cases "terminal_line s + 1 < 18")
  case True
  then show ?thesis using assms by (simp add: ok_parts terminal_advance_line_def TERMINAL_ROWS_def)
next
  case False
  have len: "length (terminal_lines s) = 18" and rows: "\<forall>row\<in>set (terminal_lines s). length row = 81"
    using assms by (simp_all add: ok_parts)
  have "terminal_lines s \<noteq> []" using len by auto
  then have "\<forall>row\<in>set (tl (terminal_lines s) @ [last (terminal_lines s)]). length row = 81"
    using rows by (auto dest: list.set_sel(2))
  then show ?thesis using assms len unfolding advance_scrolls [OF len False] by (simp add: ok_parts)
qed

lemma column_step:
  assumes "session_ok os b s" "n < 80"
  shows "session_ok os b (s\<lparr>terminal_column := n\<rparr>)"
  using assms by (simp add: ok_parts)

lemma capture_char_ok [session_rules]: "session_ok os b s \<Longrightarrow> session_ok os b (capture_char c s)"
proof -
  assume ok: "session_ok os b s"
  have col: "terminal_column s < 80" using ok by (simp add: ok_parts)
  have same: "terminal_column (terminal_set c s) = terminal_column s" by (simp add: terminal_set_def)
  have adv: "terminal_advance_line (s1\<lparr>terminal_column := n\<rparr>) = terminal_advance_line s1" for s1 n
    by (simp add: terminal_advance_line_def)
  note set = terminal_set_ok [OF ok, of c]
  show ?thesis
    unfolding capture_char_def Let_def same
    using col ok set advance_line_ok [OF ok] advance_line_ok [OF set] column_step [OF ok, of 0]
      terminal_set_ok [OF column_step [OF ok, of "terminal_column s - 1"], of 32] column_step [OF set, of "terminal_column s + 1"]
      column_step [OF set, of "Suc 0"]
    by (simp add: adv TERMINAL_COLUMNS_def)
qed

lemma terminal_capture_ok [session_rules]: "session_ok os b s \<Longrightarrow> session_ok os b (terminal_capture cs s)"
  unfolding terminal_capture_def by (intro session_rules)

lemma write_text_ok [session_rules]: "session_ok os b s \<Longrightarrow> session_ok os b (write_text cs s)"
  unfolding write_text_def by (intro session_rules) simp_all

lemma flush_ok: "session_ok os b s \<Longrightarrow> session_ok os b (draw_flush s) \<and> draw_command_count (draw_flush s) = 0"
proof -
  assume ok: "session_ok os b s"
  show ?thesis
  proof (cases "draw_command_count s = 0")
    case False
    let ?c = "Sys_Desktop_Draw (take (draw_command_count s) (draw_commands s))"
    have "call_ok ?c" using ok False by (auto simp: ok_parts)
    then have "session_ok os b (tell ?c s)" using ok by (intro tell_ok) simp_all
    then show ?thesis using False by (simp add: draw_flush_def ok_parts)
  qed (simp add: draw_flush_def ok)
qed

lemma draw_flush_ok [session_rules]: "session_ok os b s \<Longrightarrow> session_ok os b (draw_flush s)"
  using flush_ok by blast

definition drawing_operation :: "u32 \<Rightarrow> bool" where
  "drawing_operation n \<longleftrightarrow> n \<in> {DRAW_RECT, DRAW_TEXT, DRAW_WALLPAPER, DRAW_ICON, DRAW_ROUNDED_RECT}"

lemma list_all_update: "list_all P xs \<Longrightarrow> P x \<Longrightarrow> list_all P (xs[i := x])"
  by (auto simp: list_all_iff dest!: set_update_subset_insert [THEN subsetD])

lemma draw_begin_ok:
  assumes "session_ok os b s" "drawing_operation n"
  shows "session_ok os b (draw_begin n s) \<and> 0 < draw_command_count (draw_begin n s) \<and>
    dc_operation (draw_commands (draw_begin n s) ! (draw_command_count (draw_begin n s) - 1)) = n"
proof -
  define s1 where "s1 = (if draw_command_count s = 32 then draw_flush s else s)"
  have ok: "session_ok os b s1" and n: "draw_command_count s1 < 32"
    using flush_ok [OF assms(1)] assms(1) by (auto simp: s1_def ok_parts)
  let ?n = "draw_command_count s1"
  let ?c = "(draw_commands s1 ! ?n)\<lparr>dc_operation := n, dc_x := 0, dc_y := 0, dc_width := 0, dc_height := 0,
    dc_color := 0, dc_text_length := 0\<rparr>"
  have eq: "draw_begin n s = s1\<lparr>draw_commands := (draw_commands s1)[?n := ?c], draw_command_count := ?n + 1\<rparr>"
    by (simp add: draw_begin_def s1_def Let_def)
  have len: "length (draw_commands s1) = 32" using ok by (simp add: ok_parts)
  have "command_ok ?c" using assms(2) by (simp add: command_ok_def drawing_operation_def)
  moreover have "length (dc_text ?c) = 128" using ok n len by (auto simp: ok_parts list_all_length)
  moreover have "take (?n + 1) ((draw_commands s1)[?n := ?c]) = take ?n (draw_commands s1) @ [?c]"
    using n len by (simp add: take_Suc_conv_app_nth)
  ultimately have "session_ok os b (draw_begin n s)"
    using ok n len unfolding eq by (simp add: ok_parts list_all_update)
  then show ?thesis using n len by (simp add: eq)
qed

lemma edit_command_ok:
  assumes "session_ok os b s" "0 < draw_command_count s"
    "\<And>c. command_ok c \<Longrightarrow> dc_operation c = dc_operation (draw_commands s ! (draw_command_count s - 1)) \<Longrightarrow> command_ok (f c)"
    "\<And>c. length (dc_text c) = 128 \<Longrightarrow> length (dc_text (f c)) = 128"
  shows "session_ok os b (edit_command f s)"
proof -
  let ?n = "draw_command_count s - 1" and ?c = "draw_commands s ! (draw_command_count s - 1)"
  have q: "length (draw_commands s) = 32" "draw_command_count s \<le> 32" "list_all (\<lambda>c. length (dc_text c) = 128) (draw_commands s)"
    "list_all command_ok (take (draw_command_count s) (draw_commands s))"
    using assms(1) by (simp_all add: ok_parts)
  have "command_ok ?c" using q assms(2) by (auto simp: list_all_length)
  then have "command_ok (f ?c)" by (rule assms(3)) simp
  moreover have "length (dc_text (f ?c)) = 128" using q assms(2) by (intro assms(4)) (auto simp: list_all_length)
  ultimately have "list_all command_ok (take (draw_command_count s) ((draw_commands s)[?n := f ?c]))"
    "list_all (\<lambda>c. length (dc_text c) = 128) ((draw_commands s)[?n := f ?c])"
    using q by (simp_all add: take_update_swap list_all_update)
  then show ?thesis using assms(1) by (simp add: ok_parts edit_command_def Let_def)
qed

lemma begin_edit_ok:
  assumes "session_ok os b s" "drawing_operation n"
    "\<And>c. command_ok c \<Longrightarrow> dc_operation c = n \<Longrightarrow> command_ok (f c)" "\<And>c. length (dc_text c) = 128 \<Longrightarrow> length (dc_text (f c)) = 128"
  shows "session_ok os b (chain [draw_begin n, edit_command f] s)"
  using draw_begin_ok [OF assms(1,2)] assms(3,4) by (auto intro: edit_command_ok)

lemmas operations = drawing_operation_def command_ok_def DRAW_RECT_def DRAW_TEXT_def DRAW_WALLPAPER_def DRAW_ICON_def
  DRAW_ROUNDED_RECT_def

lemma draw_primitives_ok [session_rules]:
  "session_ok os b s \<Longrightarrow> session_ok os b (draw_rect x y w h color s)"
  "session_ok os b s \<Longrightarrow> session_ok os b (draw_rounded_rect x y w h radius color s)"
  "session_ok os b s \<Longrightarrow> session_ok os b (draw_icon x y icon s)"
  "session_ok os b s \<Longrightarrow> session_ok os b (draw_text x y chars color s)"
  "session_ok os b s \<Longrightarrow> session_ok os b (draw_begin DRAW_WALLPAPER s)"
proof -
  assume ok: "session_ok os b s"
  show "session_ok os b (draw_rect x y w h color s)"
    unfolding draw_rect_def by (rule begin_edit_ok [OF ok]) (simp_all add: operations)
  show "session_ok os b (draw_rounded_rect x y w h radius color s)"
    unfolding draw_rounded_rect_def by (rule begin_edit_ok [OF ok]) (simp_all add: operations)
  show "session_ok os b (draw_icon x y icon s)"
    unfolding draw_icon_def by (rule begin_edit_ok [OF ok]) (simp_all add: operations)
  have "(of_nat (length (take 128 (cstr chars))) :: u32) \<le> 128"
    by (simp only: word_le_nat_alt unat_of_nat) simp
  then show "session_ok os b (draw_text x y chars color s)"
    unfolding draw_text_def Let_def by (intro begin_edit_ok [OF ok]) (simp_all add: operations)
  show "session_ok os b (draw_begin DRAW_WALLPAPER s)"
    using draw_begin_ok [OF ok, of DRAW_WALLPAPER] by (simp add: operations)
qed

lemma draw_present_ok [session_rules]: "session_ok os b s \<Longrightarrow> session_ok os b (draw_present s)"
  unfolding draw_present_def by (intro session_rules)

lemma draw_cursor_ok [session_rules]: "session_ok os b s \<Longrightarrow> session_ok os b (draw_cursor s)"
  unfolding draw_cursor_def by (intro session_rules value_let)

section \<open>Files and pictures\<close>

lemma length_fill_buffer [simp]: "length (fill_buffer stored buffer) = length buffer"
  by (auto simp: fill_buffer_def)

lemma system_info_ok [session_rules]: "session_ok os b s \<Longrightarrow> session_ok os b (snd (system_info os s))"
  by (simp add: system_info_def call_eq Let_def split_beta tell_plain)

lemma screen_size_ok [session_rules]: "session_ok os b s \<Longrightarrow> session_ok os b (refresh_screen_size os s)"
  unfolding refresh_screen_size_def by (intro session_rules) simp_all

lemma file_stat_ok [session_rules]: "session_ok os True s \<Longrightarrow> session_ok os True (snd (file_stat os path s))"
  by (simp add: file_stat_def call_eq Let_def split_beta tell_online)

lemma set_cwd_ok [session_rules]: "session_ok os b s \<Longrightarrow> session_ok os b (set_cwd path s)"
  by (simp add: ok_parts set_cwd_def set_cwd_text_def PATH_SIZE_def)

lemma length_home: "length (reset_home_cwd drive) \<le> 96" "known_drive_name drive \<Longrightarrow> length (reset_home_cwd drive) < 96"
  by (auto simp: reset_home_cwd_def PATH_SIZE_def Let_def known_drive_name_def)

lemma reset_home_ok [session_rules]: "session_ok os b s \<Longrightarrow> session_ok os b (reset_home s)"
  by (simp add: ok_parts reset_home_def length_home)

lemma select_drive_ok [session_rules]: "session_ok os b s \<Longrightarrow> session_ok os b (select_boot_drive os s)"
proof -
  assume "session_ok os b s"
  then have "session_ok os b (snd (system_info os s))" by (rule system_info_ok)
  then show ?thesis
    by (simp add: select_boot_drive_def Let_def split_beta ok_parts known_drive_name_def split: option.split)
qed

lemma refresh_ok [session_rules]:
  assumes "session_ok os True s"
  shows "session_ok os True (explorer_refresh os s)"
proof -
  let ?s = "tell (Sys_Fs_List (cwd s)) s"
  have ok: "session_ok os True ?s" using assms by (rule tell_online)
  have shown: "session_ok os True (?s\<lparr>explorer_listing := buffer, explorer_cached_path := take 95 (cwd s),
      explorer_listing_count := n, explorer_listing_valid := v\<rparr>)"
    "session_ok os True (?s\<lparr>explorer_listing := buffer, explorer_listing_count := n, explorer_listing_valid := v\<rparr>)"
    if "length buffer = 256" for buffer n v
    using ok that by (simp_all add: ok_parts)
  have len: "length (explorer_listing ?s) = 256" "cwd ?s = cwd s" using ok by (simp_all add: ok_parts tell_def)
  show ?thesis
    using assms shown len unfolding explorer_refresh_def by (simp add: call_eq Let_def split_beta PATH_SIZE_def)
qed

lemma explorer_ok [session_rules]:
  "session_ok os True s \<Longrightarrow> session_ok os True (snd (explorer_entry os n capacity s))"
  "session_ok os True s \<Longrightarrow> session_ok os True (snd (explorer_count os s))"
  "session_ok os True s \<Longrightarrow> session_ok os True (snd (explorer_entry_path os n capacity s))"
  "session_ok os True s \<Longrightarrow> session_ok os True (snd (entry_icon os n s))"
proof -
  have entry: "session_ok os True s \<Longrightarrow> session_ok os True (snd (explorer_entry os n capacity s))" for n capacity s
    using refresh_ok [of os s] by (simp add: explorer_entry_def Let_def)
  have path: "session_ok os True s \<Longrightarrow> session_ok os True (snd (explorer_entry_path os n capacity s))" for n capacity s
    using entry [of s n NAME_SIZE] by (simp add: explorer_entry_path_def Let_def split_beta split: option.split)
  show "session_ok os True s \<Longrightarrow> session_ok os True (snd (explorer_entry os n capacity s))"
    "session_ok os True s \<Longrightarrow> session_ok os True (snd (explorer_entry_path os n capacity s))"
    by (rule entry, simp) (rule path, simp)
  show "session_ok os True s \<Longrightarrow> session_ok os True (snd (explorer_count os s))"
    using refresh_ok [of os s] by (simp add: explorer_count_def Let_def)
  show "session_ok os True s \<Longrightarrow> session_ok os True (snd (entry_icon os n s))"
    using path [of s n PATH_SIZE] file_stat_ok
    by (simp add: entry_icon_def Let_def split_beta split: option.split)
qed

lemma frame_ok [session_rules]: "session_ok os b s \<Longrightarrow> session_ok os b (draw_window_frame title w s)"
  unfolding draw_window_frame_def Let_def by (intro session_rules)

lemma panel_ok [session_rules]: "session_ok os b s \<Longrightarrow> session_ok os b (draw_panel_and_dock s)"
  unfolding draw_panel_and_dock_def draw_dock_item_def
  by (rule value_let)+ (intro session_rules value_let)

lemma files_frame_ok [session_rules]:
  "session_ok os b s \<Longrightarrow> session_ok os b (draw_files_toolbar s)"
  "session_ok os b s \<Longrightarrow> session_ok os b (draw_files_sidebar s)"
  unfolding draw_files_toolbar_def draw_files_sidebar_def draw_place_def Let_def by (intro session_rules; assumption)+

lemma entry_ok [session_rules]: "session_ok os b s \<Longrightarrow> session_ok os b (draw_entry n x y name icon s)"
  unfolding draw_entry_def Let_def by (intro session_rules)

lemma draw_entries_ok [session_rules]: "session_ok os True s \<Longrightarrow> session_ok os True (draw_entries os entries s)"
proof (induction entries arbitrary: s)
  case (Cons n entries)
  show ?case
    unfolding draw_entries.simps Let_def split_beta by (intro session_rules Cons)
qed simp

lemma count_ok [session_rules]:
  "session_ok os True s \<Longrightarrow> (\<And>count s. session_ok os True s \<Longrightarrow> session_ok os True (f count s)) \<Longrightarrow>
     session_ok os True (let (count, s) = explorer_count os s in f count s)"
  by (intro session_rules)

lemma files_window_ok [session_rules]: "session_ok os True s \<Longrightarrow> session_ok os True (draw_files_window os s)"
  unfolding draw_files_window_def by (rule value_let) (intro session_rules; (assumption | simp))

lemma settings_window_ok [session_rules]: "session_ok os b s \<Longrightarrow> session_ok os b (draw_settings_window os s)"
  unfolding draw_settings_window_def
  by (rule value_let, rule value_let, rule value_let, rule value_let) (intro session_rules; assumption)

lemma terminal_window_ok [session_rules]: "session_ok os b s \<Longrightarrow> session_ok os b (draw_terminal_window s)"
  unfolding draw_terminal_window_def draw_terminal_row_def Let_def by (intro session_rules; assumption)

lemma workspace_ok [session_rules]: "session_ok os True s \<Longrightarrow> session_ok os True (draw_workspace os s)"
  unfolding draw_workspace_def draw_workspace_pass_def Let_def
  by (intro session_rules; (assumption | simp))

lemma draw_settings_ok [session_rules]: "session_ok os True s \<Longrightarrow> session_ok os True (draw_settings os s)"
  unfolding draw_settings_def by (intro session_rules) (simp add: ok_parts)

lemma draw_files_ok [session_rules]: "session_ok os True s \<Longrightarrow> session_ok os True (draw_files os s)"
proof -
  assume ok: "session_ok os True s"
  have focus: "session_ok os True s \<Longrightarrow> session_ok os True (s\<lparr>desktop_selection := n, settings_window := w,
    terminal_focused := p, desktop_view := v\<rparr>)" for s n w p v by (simp add: ok_parts)
  show ?thesis
    unfolding draw_files_def place_files_window_def Let_def
    by (intro session_rules focus; (rule ok | assumption | simp))
qed

section \<open>Events\<close>

lemma launch_files_ok [session_rules]: "session_ok os True s \<Longrightarrow> session_ok os True (launch_files os s)"
  unfolding launch_files_def by (intro session_rules; (assumption | simp))

lemma prompt_ok [session_rules]: "session_ok os b s \<Longrightarrow> session_ok os b (prompt s)"
  unfolding prompt_def by (intro session_rules)

lemma start_terminal_ok [session_rules]: "session_ok os b s \<Longrightarrow> session_ok os b (start_terminal s)"
  using prompt_ok [of os b s] by (simp add: start_terminal_def)

lemma launch_terminal_ok [session_rules]: "session_ok os b s \<Longrightarrow> session_ok os b (launch_terminal s)"
  unfolding launch_terminal_def terminal_focused_marker_def
  by (intro session_rules; (assumption | simp))

lemma launch_app_ok [session_rules]: "session_ok os True s \<Longrightarrow> session_ok os True (launch_app os app s)"
  unfolding launch_app_def by (intro session_rules)

lemma preview_chars_ok [session_rules]:
  "session_ok os b s \<Longrightarrow> session_ok os b (draw_preview_chars x y color row column cs s)"
proof (induction x y color row column cs s rule: draw_preview_chars.induct)
  case (2 x y color row column c cs s)
  then show ?case unfolding draw_preview_chars.simps by (intro session_branch 2 draw_primitives_ok)
qed simp

lemma session_call_case:
  "session_ok os b (tell c s) \<Longrightarrow> (\<And>result stored s. session_ok os b s \<Longrightarrow> session_ok os b (f result stored s)) \<Longrightarrow>
     session_ok os b (case call os c s of (x, s) \<Rightarrow> (case x of (result, stored) \<Rightarrow> f result stored s))"
  by (simp add: call_eq split_beta)

lemma preview_ok [session_rules]: "session_ok os True s \<Longrightarrow> session_ok os True (draw_file_preview os path s)"
  unfolding draw_file_preview_def
  apply (rule session_call)
  apply (erule tell_online)
  apply (rule value_let)
  apply (rule session_let)
  apply (intro session_rules, simp)
  apply (rule value_let, rule value_let, rule value_let, rule value_let)
  by (intro session_rules; assumption)

lemma open_selected_ok [session_rules]: "session_ok os True s \<Longrightarrow> session_ok os True (explorer_open_selected os s)"
  unfolding explorer_open_selected_def
  apply (intro session_rules)
  apply assumption+
  apply (rule value_let)
  by (intro session_rules; (assumption | simp add: set_cwd_ok))

lemma cwd_update: "session_ok os b s \<Longrightarrow> length path < 96 \<Longrightarrow> session_ok os b (s\<lparr>cwd := path\<rparr>)"
  by (simp add: ok_parts)

lemma place_fits:
  "length home \<le> 95 \<Longrightarrow>
     length (let path = (if length home + 1 < 96 then home @ [62] else home) in path @ take (95 - length path) name) < 96"
  by (cases "length home + 1 < 96") (simp_all add: Let_def)

lemma enter_place_ok [session_rules]:
  assumes "session_ok os b s"
  shows "session_ok os b (enter_place place s)"
proof -
  have "length (take (PATH_SIZE - 1) (cwd (reset_home s))) \<le> 95" by (simp add: PATH_SIZE_def)
  from place_fits [OF this] show ?thesis
    unfolding enter_place_def Let_def using cwd_update [OF reset_home_ok [OF assms]] reset_home_ok [OF assms]
    by (simp only: session_fields PATH_SIZE_def diff_Suc_1 split: if_split) simp
qed

lemma parent_cut_shorter: "parent_cut path = Some parent \<Longrightarrow> length parent \<le> length path"
  by (auto simp: parent_cut_def Let_def split: if_splits)

lemma leave_directory_ok [session_rules]: "session_ok os b s \<Longrightarrow> session_ok os b (leave_directory s)"
  using parent_cut_shorter [of "cwd s"] by (auto simp: leave_directory_def ok_parts dest: le_less_trans split: option.split)

lemma pick_entry_ok [session_rules]: "session_ok os True s \<Longrightarrow> session_ok os True (pick_entry os x y s)"
  unfolding pick_entry_def
  apply (rule value_let, rule value_let, rule value_let, rule value_let)
  by (intro session_rules; (assumption | simp))

lemma files_pointer_ok [session_rules]: "session_ok os True s \<Longrightarrow> session_ok os True (files_pointer_down os x y s)"
  unfolding files_pointer_down_def
  apply (rule value_let, rule value_let, rule value_let)
  by (intro session_rules value_let; (assumption | simp))

lemma focus_ok [simp]:
  "session_ok os b (focus_files s) = session_ok os b s" "session_ok os b (focus_settings s) = session_ok os b s"
  "session_ok os b (focus_terminal s) = session_ok os b s" "session_ok os b (pointer_release s) = session_ok os b s"
  "session_ok os b (point event s) = session_ok os b s"
  by (simp_all add: focus_files_def focus_settings_def focus_terminal_def pointer_release_def point_def)

lemma press_files_ok [session_rules]: "session_ok os True s \<Longrightarrow> session_ok os True (press_files os s)"
  unfolding press_files_def by (intro session_rules value_let; (assumption | simp))

lemma press_settings_ok [session_rules]: "session_ok os b s \<Longrightarrow> session_ok os b (press_settings s)"
  unfolding press_settings_def by (intro session_rules value_let; (assumption | simp))

lemma press_title_ok [session_rules]: "session_ok os b s \<Longrightarrow> session_ok os b (press_terminal_title s)"
  unfolding press_terminal_title_def by (intro session_rules value_let; (assumption | simp))

lemma press_ok [session_rules]: "session_ok os True s \<Longrightarrow> session_ok os True (pointer_press os s)"
  unfolding pointer_press_def Let_def by (intro session_rules; (assumption | simp))

lemma resized_bounds:
  assumes "sint smallest \<le> sint largest" "0 \<le> sint smallest"
  shows "smallest \<le> resized smallest largest old position origin" "resized smallest largest old position origin \<le> largest"
proof -
  let ?r = "resized smallest largest old position origin"
  have r: "sint smallest \<le> sint ?r" "sint ?r \<le> sint largest" using assms(1) by (auto simp: resized_def Let_def)
  have u: "uint w = sint w" if "0 \<le> sint w" for w :: u32 using that uint_lt2p [of w] bintr_uint [where w = w and n = 32]
    by (auto simp: sint_uint signed_take_bit_eq_take_bit_minus split: if_splits)
  show "smallest \<le> ?r" "?r \<le> largest" using r assms u [of ?r] u [of smallest] u [of largest] by (simp_all add: word_le_def)
qed

lemma drag_ok [session_rules]: "session_ok os b s \<Longrightarrow> session_ok os b (pointer_drag s)"
proof -
  assume ok: "session_ok os b s"
  have "session_ok os b (s\<lparr>terminal_width := w, terminal_height := h\<rparr>)"
    if "440 \<le> w" "w \<le> 1100" "280 \<le> h" "h \<le> 680" for w h
    using ok that by (simp add: ok_parts)
  from this [OF resized_bounds resized_bounds] show ?thesis
    using ok by (simp add: pointer_drag_def Let_def)
qed

lemma wallpaper_area_ok [session_rules]:
  "session_ok os b s \<Longrightarrow> session_ok os b
     (edit_command (\<lambda>c. c\<lparr>dc_x := x, dc_y := y, dc_width := w, dc_height := h\<rparr>) (draw_begin DRAW_WALLPAPER s))"
  using begin_edit_ok [of os b s DRAW_WALLPAPER "\<lambda>c. c\<lparr>dc_x := x, dc_y := y, dc_width := w, dc_height := h\<rparr>"]
  by (simp add: operations)

lemma redraw_pointer_ok [session_rules]: "session_ok os True s \<Longrightarrow> session_ok os True (redraw_pointer os x y s)"
  unfolding redraw_pointer_def Let_def
  by (subst chain.simps(2), subst chain.simps(2)) (intro session_rules; assumption)

lemma mouse_event_ok [session_rules]: "session_ok os True s \<Longrightarrow> session_ok os True (desktop_mouse_event os event s)"
  unfolding desktop_mouse_event_def
  apply (rule value_let)
  by (intro session_rules; (assumption | simp))

text \<open>The keys, in the views in which they are read: the workspace and the terminal.\<close>

lemma dispatch_ok:
  assumes ok: "session_ok os True s" and view: "desktop_view s \<in> {VIEW_WORKSPACE, VIEW_TERMINAL}"
  shows "session_ok os True (desktop_dispatch os input s)"
proof (cases "desktop_view s = VIEW_TERMINAL")
  case True
  then show ?thesis using ok by (simp add: desktop_dispatch_def)
next
  case False
  then have "desktop_view s = VIEW_WORKSPACE" using view by simp
  then show ?thesis
    unfolding desktop_dispatch_def by (simp only: view.case) (intro session_rules ok; simp add: ok)
qed

end
