(* ===== verification/Session_Views.thy ===== *)
theory Session_Views
  imports Session_Input
begin

text \<open>
  Which view of the desktop the keys act on.  Drawing leaves \<open>desktop_view\<close> alone, except that drawing the
  workspace sets it back; so every event handler that ends by drawing the workspace leaves that view behind.
\<close>

unbundle bit_operations_syntax

named_theorems same_view "routines that leave the view of the desktop and the buttons alone"

abbreviation steady :: "(session \<Rightarrow> session) \<Rightarrow> bool" where
  "steady f \<equiv> \<forall>s. desktop_view (f s) = desktop_view s \<and> pointer_buttons (f s) = pointer_buttons s"

lemma fold_same_view: "(\<And>x. steady (h x)) \<Longrightarrow> steady (fold h xs)"
  by (induction xs) simp_all

lemma text_views [same_view]:
  "steady (tell c)"
  "steady (\<lambda>s. snd (call os c s))"
  "steady terminal_advance_line"
  "steady (terminal_set ch)"
  by (simp_all add: tell_def call_def terminal_advance_line_def terminal_set_def)

lemma capture_views [same_view]: "steady (capture_char c)"
  by (simp add: capture_char_def Let_def same_view)

lemma write_text_views [same_view]: "steady (write_text chars)"
  by (simp add: write_text_def terminal_capture_def same_view fold_same_view)

lemma queue_views [same_view]:
  "steady draw_flush" "steady (edit_command f)"
  by (simp_all add: draw_flush_def edit_command_def Let_def same_view)

lemma begin_views [same_view]: "steady (draw_begin n)"
  by (simp add: draw_begin_def Let_def same_view)

lemma primitive_views [same_view]:
  "steady (draw_rect x y w h color)"
  "steady (draw_rounded_rect x y w h radius color)"
  "steady (draw_icon x y icon)"
  "steady (draw_text x y chars color)"
  "steady draw_present"
  by (simp_all add: draw_rect_def draw_rounded_rect_def draw_icon_def draw_text_def draw_present_def Let_def same_view)

lemma cursor_views [same_view]: "steady draw_cursor"
  unfolding draw_cursor_def by (rule fold_same_view) (simp add: Let_def same_view)

lemma explorer_views [same_view]:
  "steady (\<lambda>s. snd (system_info os s))"
  "steady (\<lambda>s. snd (file_stat os path s))"
  "steady (explorer_refresh os)"
  by (simp_all add: system_info_def file_stat_def explorer_refresh_def call_def Let_def split_beta same_view)

lemma entry_views [same_view]:
  "steady (\<lambda>s. snd (explorer_entry os n capacity s))"
  "steady (\<lambda>s. snd (explorer_count os s))"
  by (simp_all add: explorer_entry_def explorer_count_def Let_def same_view)

lemma entry_path_views [same_view]: "steady (\<lambda>s. snd (explorer_entry_path os n capacity s))"
  by (simp add: explorer_entry_path_def Let_def split_beta same_view split: option.split)

lemma entry_icon_views [same_view]: "steady (\<lambda>s. snd (entry_icon os n s))"
  by (simp add: entry_icon_def Let_def split_beta same_view split: option.split)

lemma panel_views [same_view]: "steady draw_panel_and_dock"
  by (simp add: draw_panel_and_dock_def draw_dock_item_def Let_def same_view fold_same_view)

lemma frame_views [same_view]:
  "steady (draw_window_frame title w)"
  "steady draw_files_toolbar"
  "steady draw_files_sidebar"
  "steady (draw_entry n x y name icon)"
  by (simp_all add: draw_window_frame_def draw_files_toolbar_def draw_files_sidebar_def draw_place_def draw_entry_def
      Let_def same_view fold_same_view)

lemma entries_views [same_view]: "steady (draw_entries os entries)"
  by (induction entries arbitrary: s) (simp_all add: Let_def split_beta same_view split: option.split)

lemma window_views [same_view]:
  "steady (draw_files_window os)"
  "steady (draw_settings_window os)"
  "steady draw_terminal_window"
  by (simp_all add: draw_files_window_def draw_settings_window_def draw_terminal_window_def draw_terminal_row_def
      Let_def split_beta same_view fold_same_view split: option.split)

lemma pass_views [same_view]: "steady (draw_workspace_pass os focused)"
  by (simp add: draw_workspace_pass_def Let_def same_view)

lemma draw_workspace_view:
  "desktop_view (draw_workspace os s) = VIEW_WORKSPACE" "pointer_buttons (draw_workspace os s) = pointer_buttons s"
  by (simp_all add: draw_workspace_def same_view)

lemma redraw_pointer_views [same_view]: "steady (redraw_pointer os x y)"
  by (simp add: redraw_pointer_def Let_def same_view)

text \<open>The views in which a handler of events leaves the desktop.\<close>

definition view_ok :: "session \<Rightarrow> bool" where
  "view_ok s \<longleftrightarrow> desktop_view s \<in> {VIEW_WORKSPACE, VIEW_TERMINAL}"

lemma screen_size_buttons [same_view]: "steady (refresh_screen_size os)"
  by (simp add: refresh_screen_size_def Let_def split_beta same_view split: option.split)

lemma draw_views:
  "desktop_view (draw_files os s) = VIEW_WORKSPACE" "pointer_buttons (draw_files os s) = pointer_buttons s"
  "desktop_view (draw_settings os s) = VIEW_WORKSPACE" "pointer_buttons (draw_settings os s) = pointer_buttons s"
  by (simp_all add: draw_files_def draw_settings_def place_files_window_def Let_def draw_workspace_view same_view)

lemma launch_views:
  "view_ok (launch_app os app s)" "pointer_buttons (launch_app os app s) = pointer_buttons s"
  "view_ok (launch_files os s)"
  by (simp_all add: launch_app_def launch_files_def launch_terminal_def start_terminal_def prompt_def view_ok_def
      reset_home_def same_view draw_views)

lemma preview_chars_views [same_view]: "steady (draw_preview_chars x y color row column chars)"
proof -
  have "desktop_view (draw_preview_chars x y color row column chars s) = desktop_view s \<and>
     pointer_buttons (draw_preview_chars x y color row column chars s) = pointer_buttons s" for s
    by (induction x y color row column chars s rule: draw_preview_chars.induct) (simp_all add: same_view)
  then show ?thesis by simp
qed

lemma open_selected_views:
  "view_ok s \<Longrightarrow> view_ok (explorer_open_selected os s)"
  "pointer_buttons (explorer_open_selected os s) = pointer_buttons s"
  by (simp_all add: explorer_open_selected_def draw_file_preview_def set_cwd_def view_ok_def Let_def split_beta same_view
      draw_views draw_workspace_view split: option.split)

lemma press_buttons: "pointer_buttons (pointer_press os s) = pointer_buttons s"
proof -
  have files: "pointer_buttons (files_pointer_down os x y s) = pointer_buttons s" for x y s
    by (simp add: files_pointer_down_def pick_entry_def leave_directory_def enter_place_def reset_home_def Let_def
        split_beta same_view open_selected_views split: option.split)
  have "pointer_buttons (press_files os s) = pointer_buttons s"
    by (simp add: press_files_def focus_files_def Let_def files)
  moreover have "pointer_buttons (press_settings s) = pointer_buttons s"
    by (simp add: press_settings_def focus_settings_def Let_def)
  moreover have "pointer_buttons (press_terminal_title s) = pointer_buttons s"
    by (simp add: press_terminal_title_def focus_terminal_def Let_def)
  ultimately show ?thesis by (simp add: pointer_press_def Let_def launch_views)
qed

lemma drag_views [same_view]: "steady pointer_drag" "steady pointer_release"
  by (simp_all add: pointer_drag_def pointer_release_def Let_def)

lemma mouse_event_view_ok: "view_ok s \<Longrightarrow> view_ok (desktop_mouse_event os event s)"
  by (auto simp: desktop_mouse_event_def point_def view_ok_def Let_def same_view draw_workspace_view press_buttons)

lemma dispatch_view_ok:
  assumes "view_ok s"
  shows "view_ok (desktop_dispatch os input s)"
proof -
  have workspace: "view_ok (draw_workspace os s)" for s by (simp add: view_ok_def draw_workspace_view)
  show ?thesis
    using assms workspace
    by (cases "desktop_view s") (simp_all add: desktop_dispatch_def view_ok_def draw_views launch_views [unfolded view_ok_def, simplified])
qed

end
