(* ===== verification/Session_Safety.thy ===== *)
theory Session_Safety
  imports Session_Invariant Session_Views
begin

text \<open>
  The invariant of \<open>Session_Invariant\<close> carried through the login, the command interpreter and the main loop, and
  what it says of every run of the session.
\<close>

unbundle bit_operations_syntax

section \<open>The login\<close>

definition form_ok :: "login_form \<Rightarrow> bool" where
  "form_ok form \<longleftrightarrow> length (username form) < 32 \<and> length (password form) < 65"

lemma login_screen_ok [session_rules]:
  "session_ok os b s \<Longrightarrow> session_ok os b (draw_login_screen form has_failed background s)"
  unfolding draw_login_screen_def Let_def by (intro session_rules; assumption)

lemma login_mouse_ok:
  "session_ok os b s \<Longrightarrow> form_ok form \<Longrightarrow> login_mouse event form s = (submit, form1, s1) \<Longrightarrow>
     session_ok os b s1 \<and> form_ok form1"
  by (auto simp: login_mouse_def form_ok_def Let_def)

lemma form_edits_ok:
  "form_ok form \<Longrightarrow> form_ok (erase_in_form form)"
  "form_ok form \<Longrightarrow> form_ok (type_in_form c form)"
  "form_ok (form\<lparr>focus := n\<rparr>) = form_ok form"
  "form_ok login_form_start"
  by (auto simp: form_ok_def erase_in_form_def type_in_form_def login_form_start_def USERNAME_SIZE_def PASSWORD_SIZE_def)

lemma enter_session_ok: "session_ok os b s \<Longrightarrow> session_ok os b (enter_session os name s)"
proof -
  assume ok: "session_ok os b s"
  have user: "session_ok os b (s\<lparr>logged_in_user := take 31 name\<rparr>)" if "session_ok os b s" for s
    using that by (simp add: ok_parts)
  have fresh: "session_ok os b (s\<lparr>terminal_lines := replicate 18 (replicate 81 0), terminal_line := 0, terminal_column := 0\<rparr>)"
    if "session_ok os b s" for s using that by (simp add: ok_parts)
  show ?thesis
    unfolding enter_session_def by (intro session_rules user fresh; (rule ok | assumption | simp))
qed

text \<open>Over or not: a login that is over has had its password accepted.\<close>

lemma login_enter_ok:
  assumes "session_ok os False s" "form_ok form" "login_enter os form s = (over, form1, s1)"
  shows "session_ok os over s1 \<and> form_ok form1"
proof -
  let ?s = "tell (Sys_Auth_Verify (password form)) s"
  have len: "length (password form) \<le> 64" using assms(2) by (simp add: form_ok_def)
  have told: "session_ok os False ?s" using assms(1) len by (rule tell_plain)
  have accepted: "session_ok os True (enter_session os name ?s)" if "fst (os (calls s @ [Sys_Auth_Verify (password form)])) = 0" for name
    by (rule enter_session_ok, rule verified_ok [OF assms(1) len that])
  have cleared: "form_ok (form\<lparr>failed := True, password := []\<rparr>)" using assms(2) by (simp add: form_ok_def)
  show ?thesis
    using assms told accepted cleared
    by (auto simp: login_enter_def call_eq Let_def split_beta form_edits_ok split: if_splits intro: login_screen_ok)
qed

lemma login_step_ok:
  assumes "session_ok os False s" "form_ok form" "login_step os input form s = (over, form1, s1)"
  shows "session_ok os over s1 \<and> form_ok form1"
proof (cases "input < 0")
  case True
  then show ?thesis using assms by (simp add: login_step_def)
next
  case False
  show ?thesis
  proof (cases "mouse_input input")
    case True
    obtain submit form2 s2 where m: "login_mouse input form s = (submit, form2, s2)" by (metis prod_cases3)
    have ok: "session_ok os False s2" "form_ok form2" using login_mouse_ok [OF assms(1,2) m] by simp_all
    show ?thesis
      using assms(3) \<open>\<not> input < 0\<close> True m ok login_enter_ok [OF ok]
      by (auto simp: login_step_def split: if_splits intro: login_screen_ok)
  next
    case key: False
    show ?thesis
      using assms \<open>\<not> input < 0\<close> key login_enter_ok [OF assms(1,2)]
      by (auto simp: login_step_def login_key_def Let_def form_edits_ok split: if_splits intro: login_screen_ok)
  qed
qed

text \<open>What a routine that may wait for input leaves: the session is still logged in unless it waits.\<close>

definition outcome_ok :: "os \<Rightarrow> 'a option \<times> session \<Rightarrow> bool" where
  "outcome_ok os p \<longleftrightarrow> session_ok os (fst p \<noteq> None) (snd p)"

lemma outcome_simps [simp]:
  "outcome_ok os (None, s) = session_ok os False s" "outcome_ok os (Some x, s) = session_ok os True s"
  by (simp_all add: outcome_ok_def)

lemma login_loop_ok: "session_ok os False s \<Longrightarrow> form_ok form \<Longrightarrow> outcome_ok os (login_loop os inputs form s)"
proof (induction os inputs form s rule: login_loop.induct)
  case (2 os input inputs form s)
  obtain over form1 s1 where step: "login_step os input form s = (over, form1, s1)" by (metis prod_cases3)
  with login_step_ok [OF 2(2,3) step] 2(1) show ?case by (cases over) (auto simp: step)
qed simp

lemma session_login_ok: "session_ok os False s \<Longrightarrow> outcome_ok os (login os inputs s)"
  unfolding login_def Let_def by (intro login_loop_ok session_rules form_edits_ok; (assumption | simp))

section \<open>Commands\<close>

lemma say_ok [session_rules]:
  "session_ok os b s \<Longrightarrow> session_ok os b (say t s)" "session_ok os b s \<Longrightarrow> session_ok os b (say_line t s)"
  by (simp_all add: say_def say_line_def write_text_ok)

lemma read_line_ok: "session_ok os b s \<Longrightarrow> session_ok os b (snd (read_line capacity echo typed_text inputs s))"
proof (induction capacity echo typed_text inputs s rule: read_line.induct)
  case (2 capacity echo typed_text input inputs s)
  then show ?case
    unfolding read_line.simps if_distrib [of snd] snd_conv by (intro session_branch(1) 2 write_text_ok; (assumption | simp))
qed simp

lemma read_line_fits:
  "read_line capacity echo typed_text inputs s = (Some (t, rest), s1) \<Longrightarrow> length typed_text < capacity \<Longrightarrow> length t < capacity"
proof (induction capacity echo typed_text inputs s rule: read_line.induct)
  case (2 capacity echo typed_text input inputs s)
  then show ?case by (simp split: if_split_asm)
qed simp

lemma manual_ok [session_rules]: "session_ok os b s \<Longrightarrow> session_ok os b (manual name s)"
  unfolding manual_def
  by (cases "List.find (\<lambda>(n, description, usage). str n = name) manuals"; simp only: option.case split_beta)
    (intro session_rules; assumption)+

lemma list_manual_ok [session_rules]: "session_ok os b s \<Longrightarrow> session_ok os b (list_manual item s)"
  unfolding list_manual_def split_beta by (intro session_rules; assumption)

lemma interactive_help_ok: "session_ok os True s \<Longrightarrow> outcome_ok os (interactive_help inputs s)"
proof -
  assume ok: "session_ok os True s"
  let ?s = "chain [write_text (str ''QuantaOs command guide'' @ [10, 10] @ str ''Commands:'' @ [10]),
                fold list_manual (enumerate 0 manuals),
                (if length manuals mod 4 \<noteq> 0 then write_text [10] else id),
                write_text (10 # str ''manual for (or Enter to return): '')] s"
  have "session_ok os True ?s" by (intro session_rules; (rule ok | assumption))
  from read_line_ok [OF this, of 32 True "[]" inputs] show ?thesis
    unfolding interactive_help_def Let_def
    by (auto split: prod.splits option.splits intro: offline manual_ok simp del: comp_apply chain.simps)
qed

lemma file_commands_ok [session_rules]:
  assumes "session_ok os True s"
  shows "session_ok os True (command_cd os args s)" "session_ok os True (command_mkdir os args s)"
    "session_ok os True (command_touch os args s)" "session_ok os True (command_ls os args s)"
    "session_ok os True (command_dirname args s)"
proof -
  note rules = session_rules session_call_case
  show "session_ok os True (command_cd os args s)"
    unfolding command_cd_def by (intro session_rules assms; assumption)
  show "session_ok os True (command_mkdir os args s)"
    unfolding command_mkdir_def by (intro session_rules assms; assumption)
  show "session_ok os True (command_touch os args s)"
    unfolding command_touch_def by (intro session_rules assms; assumption)
  show "session_ok os True (command_ls os args s)"
    unfolding command_ls_def by (intro session_rules assms; assumption)
  show "session_ok os True (command_dirname args s)"
    unfolding command_dirname_def by (intro session_rules assms; assumption)
qed

lemma read_argument_ok [session_rules]: "session_ok os True s \<Longrightarrow> session_ok os True (snd (read_argument os args s))"
  by (auto simp: read_argument_def call_eq Let_def split_beta tell_online split: option.split)

lemma contents_commands_ok [session_rules]:
  "session_ok os True s \<Longrightarrow> session_ok os True (command_print_file usage missing os args s)"
  "session_ok os True s \<Longrightarrow> session_ok os True (command_wc os args s)"
  unfolding command_print_file_def command_wc_def
  by (intro session_rules; assumption)
    (simp only: Let_def split_beta, intro session_rules; (assumption | simp))

lemma storage_list_ok [session_rules]: "session_ok os True s \<Longrightarrow> session_ok os True (storage_list os s)"
  unfolding storage_list_def call_eq Let_def split_beta list_device_def by (simp, intro conjI impI session_rules; assumption)

lemma system_commands_ok [session_rules]:
  "session_ok os True s \<Longrightarrow> session_ok os True (command_date os s)"
  "session_ok os True s \<Longrightarrow> session_ok os True (command_df os s)"
  "session_ok os True s \<Longrightarrow> session_ok os True (command_mount os s)"
  "session_ok os b s \<Longrightarrow> session_ok os b (command_env s)"
  "session_ok os b s \<Longrightarrow> session_ok os b (command_which args s)"
  "session_ok os b s \<Longrightarrow> session_ok os b (command_udrive args s)"
  "session_ok os b s \<Longrightarrow> session_ok os b (command_basename args s)"
  unfolding command_date_def command_df_def command_mount_def command_env_def command_which_def command_udrive_def
    command_basename_def
  by (intro session_rules; assumption)+

lemma asked_ok: "session_ok os b s \<Longrightarrow> session_ok os b (snd (read_line capacity echo [] inputs (say t s)))"
  by (intro read_line_ok say_ok)

lemma change_password_ok: "session_ok os True s \<Longrightarrow> outcome_ok os (change_password os inputs s)"
proof -
  assume ok: "session_ok os True s"
  obtain r1 s1 where first: "read_line 65 False [] inputs (say ''new password: '' s) = (r1, s1)" by (metis surj_pair)
  have ok1: "session_ok os True s1"
    using asked_ok [OF ok, of 65 False inputs "''new password: ''"] by (simp add: first)
  show ?thesis
  proof (cases r1)
    case None
    then show ?thesis using first offline [OF ok1] by (simp add: change_password_def)
  next
    case (Some p)
    obtain new inputs1 where p: "p = (new, inputs1)" by (metis surj_pair)
    have fits: "length new \<le> 64" using read_line_fits [of 65 False "[]" inputs] first Some p by fastforce
    obtain r2 s2 where second: "read_line 65 False [] inputs1 (say ''confirm password: '' s1) = (r2, s2)" by (metis surj_pair)
    have ok2: "session_ok os True s2"
      using asked_ok [OF ok1, of 65 False inputs1 "''confirm password: ''"] by (simp add: second)
    show ?thesis
    proof (cases r2)
      case None
      then show ?thesis using first second Some p offline [OF ok2] by (simp add: change_password_def)
    next
      case (Some q)
      then show ?thesis
        using first second \<open>r1 = Some p\<close> p ok2 fits
        by (auto simp: change_password_def call_eq Let_def split_beta intro!: say_ok tell_online(7))
    qed
  qed
qed

lemma command_passwd_ok: "session_ok os True s \<Longrightarrow> outcome_ok os (command_passwd os inputs s)"
proof -
  assume ok: "session_ok os True s"
  obtain r1 s1 where first: "read_line 65 False [] inputs (say ''current password: '' s) = (r1, s1)" by (metis surj_pair)
  have ok1: "session_ok os True s1"
    using asked_ok [OF ok, of 65 False inputs "''current password: ''"] by (simp add: first)
  show ?thesis
  proof (cases r1)
    case None
    then show ?thesis using first offline [OF ok1] by (simp add: command_passwd_def)
  next
    case (Some p)
    obtain old inputs1 where p: "p = (old, inputs1)" by (metis surj_pair)
    have fits: "length old \<le> 64" using read_line_fits [of 65 False "[]" inputs] first Some p by fastforce
    have "session_ok os True (tell (Sys_Auth_Verify old) s1)" using ok1 fits by (rule tell_plain)
    then show ?thesis
      using first Some p by (simp add: command_passwd_def call_eq Let_def split_beta change_password_ok say_ok)
  qed
qed

lemma run_command_ok [session_rules]: "session_ok os True s \<Longrightarrow> session_ok os True (run_command os name args s)"
  unfolding run_command_def by (rule value_let) (intro session_rules; assumption)

lemma command_ok_outcome: "session_ok os True s \<Longrightarrow> outcome_ok os (command os line inputs s)"
proof -
  assume ok: "session_ok os True s"
  note parts = write_text_ok [OF ok] interactive_help_ok [OF ok] manual_ok [OF ok] command_passwd_ok [OF ok]
    session_login_ok [OF logout_ok [OF ok]] run_command_ok [OF ok]
  show ?thesis
    unfolding command_def using ok parts by (simp split: option.split prod.split)
qed

section \<open>The main loop\<close>

lemma views_ok [session_rules]:
  "session_ok os True s \<Longrightarrow> session_ok os True (view_workspace os s)"
  "session_ok os True s \<Longrightarrow> session_ok os True (view_terminal os s)"
  unfolding view_workspace_def view_terminal_def terminal_focused_marker_def
  by (intro session_rules; (assumption | simp))+

lemma mouse_turn_ok [session_rules]: "session_ok os True s \<Longrightarrow> session_ok os True (mouse_turn os input s)"
  unfolding mouse_turn_def by (intro session_rules; (assumption | simp))

lemma terminal_key_ok [session_rules]: "session_ok os b s \<Longrightarrow> session_ok os b (snd (terminal_key input line s))"
  unfolding terminal_key_def Let_def if_distrib [of snd] snd_conv by (intro session_rules; assumption)

lemma enter_line_ok: "session_ok os True s \<Longrightarrow> outcome_ok os (enter_line os line inputs s)"
proof -
  assume ok: "session_ok os True s"
  obtain left s1 where c: "command os (trim_line line) inputs (write_text [10] s) = (left, s1)" by (metis surj_pair)
  have "outcome_ok os (left, s1)" using command_ok_outcome [OF write_text_ok [OF ok]] unfolding c [symmetric] .
  then show ?thesis by (cases left) (simp_all add: enter_line_def c workspace_ok prompt_ok)
qed

lemma session_turn_ok:
  assumes ok: "session_ok os True s" and view: "view_ok s"
  shows "outcome_ok os (session_turn os input line inputs s)"
proof -
  obtain left s1 where e: "enter_line os line inputs s = (left, s1)" by (metis surj_pair)
  have "outcome_ok os (left, s1)" using enter_line_ok [OF ok] unfolding e [symmetric] .
  then have entered: "outcome_ok os (map_option (\<lambda>inputs1. ([] :: byte list, inputs1)) left, s1)" by (cases left) simp_all
  show ?thesis
    using ok entered terminal_key_ok [OF ok, of input line]
    by (simp add: session_turn_def e mouse_turn_ok views_ok dispatch_ok [OF ok view [unfolded view_ok_def]] split_beta)
qed

text \<open>What a turn that goes on leaves: the keys act on the workspace or the terminal.\<close>

lemma session_turn_view:
  assumes "view_ok s" "session_turn os input line inputs s = (Some p, s1)"
  shows "view_ok s1"
proof -
  have keys: "view_ok (snd (terminal_key input line s))"
    using assms(1) by (simp add: terminal_key_def view_ok_def Let_def same_view)
  have views: "view_ok (view_workspace os s)" "view_ok (view_terminal os s)"
    by (simp_all add: view_workspace_def view_terminal_def view_ok_def same_view draw_workspace_view)
  have mouse: "view_ok (mouse_turn os input s)"
    using mouse_event_view_ok [OF assms(1), of os input] by (simp add: mouse_turn_def view_ok_def Let_def same_view)
  have entered: "view_ok (snd (enter_line os line inputs s))" if "fst (enter_line os line inputs s) \<noteq> None"
    using that by (auto simp: enter_line_def view_ok_def draw_workspace_view split: prod.split option.split)
  show ?thesis
    using assms keys views mouse entered dispatch_view_ok [OF assms(1), of os input]
    by (auto simp: session_turn_def split_beta split: if_split_asm)
qed

lemma session_loop_ok: "session_ok os True s \<Longrightarrow> view_ok s \<Longrightarrow> \<exists>b. session_ok os b (session_loop os line inputs s)"
proof (induction os line inputs s rule: session_loop.induct)
  case (2 os line input inputs s)
  have turn: "outcome_ok os (session_turn os input line inputs s)" using 2(2,3) by (rule session_turn_ok)
  show ?case
  proof (cases "session_turn os input line inputs s")
    case (Pair r s1)
    show ?thesis
    proof (cases r)
      case None
      then show ?thesis using turn Pair by auto
    next
      case (Some p)
      obtain line1 inputs1 where "p = (line1, inputs1)" by (metis surj_pair)
      then show ?thesis using turn Pair Some 2(1) session_turn_view [OF 2(3)] by simp
    qed
  qed
qed auto

lemma session_start_ok: "session_ok os False session_start"
  by (simp add: ok_parts session_start_def empty_command_def known_drive_name_def str_def list_all_iff)

lemma session_run_ok: "session_ok os False (session_run os inputs)"
proof -
  obtain left s where l: "login os inputs session_start = (left, s)" by (metis surj_pair)
  have start: "outcome_ok os (left, s)" by (simp only: l [symmetric] session_login_ok [OF session_start_ok])
  have "\<exists>b. session_ok os b (session_run os inputs)"
  proof (cases left)
    case None
    then show ?thesis using start by (auto simp: session_run_def l)
  next
    case (Some inputs1)
    have "session_ok os True (chain [draw_workspace os, tell (Sys_Console_Write (str ''QUANTA_DESKTOP_READY'' @ [10]))] s)"
      using start Some by (intro session_rules) (simp_all add: str_def)
    moreover have "view_ok (chain [draw_workspace os, tell (Sys_Console_Write (str ''QUANTA_DESKTOP_READY'' @ [10]))] s)"
      by (simp add: view_ok_def same_view draw_workspace_view)
    ultimately show ?thesis using session_loop_ok l Some by (simp add: session_run_def)
  qed
  then show ?thesis by (metis (full_types) offline)
qed

section \<open>What holds of every run\<close>


text \<open>C10: Nobody gets at files, devices, the clock, the password or the shutdown without the password: in every
  run, each call other than writing, drawing, asking for the system data, checking a password and logging out is
  made while a password check has been answered with success since the last logout.\<close>

theorem session_needs_password: "calls_guarded os (rev (calls (session_run os inputs)))"
  using session_run_ok [of os inputs] unfolding session_ok_def by blast

text \<open>The theme never changes.  The settings window says that Enter toggles it, but drawing the workspace sets
  the view back before the next key is read, so the keys of the settings, file and preview views are dead.\<close>

theorem theme_never_changes: "theme_dark (session_run os inputs)"
  using session_run_ok [of os inputs] unfolding session_ok_def by blast

text \<open>The kernel's answer to a drawing call.\<close>

fun kernel_draws :: "assets \<Rightarrow> display \<Rightarrow> syscall \<Rightarrow> bool" where
  "kernel_draws pictures d (Sys_Desktop_Draw batch) = fst (quanta_arch_desktop_draw pictures batch d)"
| "kernel_draws pictures d c = True"

lemma draw_all_accepted: "list_all command_ok batch \<Longrightarrow> fst (desktop_draw_all pictures batch d)"
proof (induction batch arbitrary: d)
  case (Cons c batch)
  have op: "dc_operation c \<in> {DRAW_RECT, DRAW_TEXT, DRAW_WALLPAPER, DRAW_ICON, DRAW_ROUNDED_RECT}"
    "dc_operation c = DRAW_TEXT \<Longrightarrow> \<not> 128 < dc_text_length c"
    using Cons.prems by (simp_all only: list.pred_inject command_ok_def not_less)
  then have "desktop_draw_one pictures c d \<noteq> None"
    by (elim insertE) (simp_all add: desktop_draw_one_def operations DRAW_TERMINAL_PROMPT_def)
  then show ?case using Cons by (cases "desktop_draw_one pictures c d") simp_all
qed simp

lemma call_ok_draws: "call_ok c \<Longrightarrow> kernel_draws pictures (d\<lparr>framebuffer_mapped := True\<rparr>) c"
  by (cases c) (auto simp: quanta_arch_desktop_draw_def DRAW_MAX_COMMANDS_def draw_all_accepted)

text \<open>C25: The kernel accepts every batch of drawing commands of every run, in whatever state its mapped screen is:
  no batch is empty or too long, no operation is unknown, and no text is longer than its field.\<close>

theorem kernel_draws_every_batch:
  "list_all (kernel_draws pictures (d\<lparr>framebuffer_mapped := True\<rparr>)) (calls (session_run os inputs))"
  using session_run_ok [of os inputs] by (simp add: session_ok_def list_all_iff call_ok_draws)

section \<open>Reading a line\<close>

text \<open>What one key does to the line.\<close>

definition edit_line :: "nat \<Rightarrow> byte list \<Rightarrow> int \<Rightarrow> byte list" where
  "edit_line capacity typed key =
     (if key = 8 \<or> key = 127 then butlast typed
      else if 32 \<le> key \<and> key < 127 \<and> length typed + 1 < capacity then typed @ [word_of_int key]
      else typed)"

lemma read_line_edits:
  assumes "list_all (\<lambda>key. \<not> enter_key key) keys" "enter_key last_key"
  shows "\<exists>s1. read_line capacity echo typed (keys @ last_key # inputs) s = (Some (foldl (edit_line capacity) typed keys, inputs), s1)"
  using assms(1)
proof (induction keys arbitrary: typed s)
  case Nil
  show ?case using assms(2) by (auto simp: enter_key_def)
next
  case (Cons key keys)
  have "key < 0 \<Longrightarrow> edit_line capacity typed key = typed" by (simp add: edit_line_def)
  then show ?case using Cons by (simp add: edit_line_def)
qed

text \<open>C31: Once Enter is pressed a line is read to its end: \<open>read_line\<close> returns, leaves the input behind Enter alone,
  and the line is what the keys before it edit, one after the other, within the capacity.\<close>

theorem read_line_returns:
  assumes "list_all (\<lambda>key. \<not> enter_key key) keys" "enter_key last_key" "0 < capacity"
  shows "\<exists>s1. read_line capacity echo [] (keys @ last_key # inputs) s = (Some (foldl (edit_line capacity) [] keys, inputs), s1)
    \<and> length (foldl (edit_line capacity) [] keys) < capacity"
proof -
  obtain s1 where r: "read_line capacity echo [] (keys @ last_key # inputs) s = (Some (foldl (edit_line capacity) [] keys, inputs), s1)"
    using read_line_edits [OF assms(1,2)] by blast
  then show ?thesis using read_line_fits [OF r] assms(3) by auto
qed

theorem read_line_returns_witness:
  "\<exists>s1. read_line 3 False [] [113, 8, 97, 98, 99, -1, 10, 120] session_start = (Some ([97, 98], [120]), s1)"
  using read_line_returns [of "[113, 8, 97, 98, 99, -1]" 10 3 False "[120]" session_start]
  by (simp add: enter_key_def edit_line_def)

end
