(* ===== verification/Session_Queue.thy ===== *)
theory Session_Queue
  imports Session_Invariant
begin

text \<open>
  The queue of drawing commands as its callers see it: an endless list of commands to which each drawing routine
  adds one.  The 32 places of the array, the batches that leave when it is full and the rest of an earlier
  text in a place that is used again do not show.
\<close>

unbundle bit_operations_syntax

section \<open>The abstract picture\<close>

fun batch_of :: "syscall \<Rightarrow> draw_command list" where
  "batch_of (Sys_Desktop_Draw batch) = batch"
| "batch_of c = []"

definition sent :: "session \<Rightarrow> draw_command list" where
  "sent s = concat (map batch_of (calls s))"

definition queued :: "session \<Rightarrow> draw_command list" where
  "queued s = sent s @ take (draw_command_count s) (draw_commands s)"

text \<open>A command as the kernel reads it: only a text command has a text, and no more of it than its length.\<close>

definition as_read :: "draw_command \<Rightarrow> draw_command" where
  "as_read c = c\<lparr>dc_text := (if dc_operation c = DRAW_TEXT then take (unat (dc_text_length c)) (dc_text c) else [])\<rparr>"

definition picture :: "session \<Rightarrow> draw_command list" where
  "picture s = map as_read (queued s)"

definition read_command :: "u32 \<Rightarrow> u32 \<Rightarrow> u32 \<Rightarrow> u32 \<Rightarrow> u32 \<Rightarrow> u32 \<Rightarrow> u32 \<Rightarrow> byte list \<Rightarrow> draw_command" where
  "read_command operation x y width height color n chars = \<lparr>dc_operation = operation, dc_x = x, dc_y = y,
     dc_width = width, dc_height = height, dc_color = color, dc_text_length = n, dc_text = chars\<rparr>"

section \<open>Flushing, beginning and filling in a command\<close>

lemma sent_tell: "sent (tell c s) = sent s @ batch_of c"
  by (simp add: sent_def tell_def)

lemma flush_queue:
  assumes "queue_ok s"
  shows "queue_ok (draw_flush s)" "draw_command_count (draw_flush s) = 0" "queued (draw_flush s) = queued s"
    "sent (draw_flush s) = queued s"
  using assms by (auto simp: draw_flush_def queue_ok_def queued_def sent_def tell_def)

definition blank :: "u32 \<Rightarrow> draw_command \<Rightarrow> draw_command" where
  "blank n c = c\<lparr>dc_operation := n, dc_x := 0, dc_y := 0, dc_width := 0, dc_height := 0, dc_color := 0, dc_text_length := 0\<rparr>"

lemma begin_edit_queue:
  assumes "queue_ok s" "\<And>c. length (dc_text c) = 128 \<Longrightarrow> length (dc_text (f c)) = 128"
    "\<And>c. command_ok (f (blank n c))"
  obtains c where "length (dc_text c) = 128" "queued (chain [draw_begin n, edit_command f] s) = queued s @ [f (blank n c)]"
    "queue_ok (chain [draw_begin n, edit_command f] s)"
proof -
  define s1 where "s1 = (if draw_command_count s = 32 then draw_flush s else s)"
  have ok: "queue_ok s1" and n: "draw_command_count s1 < 32" and same: "queued s1 = queued s"
    using flush_queue [OF assms(1)] assms(1) by (auto simp: s1_def queue_ok_def)
  let ?n = "draw_command_count s1"
  let ?c = "draw_commands s1 ! ?n"
  have len: "length (draw_commands s1) = 32" using ok by (simp add: queue_ok_def)
  have chars: "length (dc_text ?c) = 128" using ok n len by (simp add: queue_ok_def list_all_length)
  have eq: "chain [draw_begin n, edit_command f] s =
      s1\<lparr>draw_commands := (draw_commands s1)[?n := f (blank n ?c)], draw_command_count := ?n + 1\<rparr>"
    using n len by (simp add: draw_begin_def edit_command_def s1_def Let_def blank_def)
  have front: "take (?n + 1) ((draw_commands s1)[?n := f (blank n ?c)]) = take ?n (draw_commands s1) @ [f (blank n ?c)]"
    using n len by (simp add: take_Suc_conv_app_nth)
  have "length (dc_text (f (blank n ?c))) = 128" by (rule assms(2)) (simp add: blank_def chars)
  then have "queue_ok (chain [draw_begin n, edit_command f] s)"
    using ok n len front assms(3) [of ?c] unfolding eq by (simp add: queue_ok_def list_all_update)
  moreover have "queued (chain [draw_begin n, edit_command f] s) = queued s @ [f (blank n ?c)]"
    using front same unfolding eq by (simp add: queued_def sent_def)
  ultimately show ?thesis using that chars by blast
qed

lemma begin_edit_picture:
  assumes "queue_ok s" "\<And>c. length (dc_text c) = 128 \<Longrightarrow> length (dc_text (f c)) = 128"
    "\<And>c. command_ok (f (blank n c))" "\<And>c. length (dc_text c) = 128 \<Longrightarrow> as_read (f (blank n c)) = r"
  shows "picture (chain [draw_begin n, edit_command f] s) = picture s @ [r] \<and> queue_ok (chain [draw_begin n, edit_command f] s)"
proof -
  obtain c where "length (dc_text c) = 128" "queued (chain [draw_begin n, edit_command f] s) = queued s @ [f (blank n c)]"
    "queue_ok (chain [draw_begin n, edit_command f] s)"
    by (rule begin_edit_queue [of s f n]) (use assms(1-3) in simp_all)
  then show ?thesis using assms(4) by (simp add: picture_def)
qed

section \<open>The drawing routines\<close>

lemma draw_picture:
  assumes "queue_ok s"
  shows "picture (draw_rect x y w h color s) = picture s @ [read_command DRAW_RECT x y w h color 0 []] \<and>
      queue_ok (draw_rect x y w h color s)"
    "picture (draw_rounded_rect x y w h radius color s) = picture s @ [read_command DRAW_ROUNDED_RECT x y w h color radius []] \<and>
      queue_ok (draw_rounded_rect x y w h radius color s)"
    "picture (draw_icon x y icon s) = picture s @ [read_command DRAW_ICON x y 0 0 icon 0 []] \<and> queue_ok (draw_icon x y icon s)"
  unfolding draw_rect_def draw_rounded_rect_def draw_icon_def
  by (rule begin_edit_picture [OF assms]; simp add: blank_def as_read_def read_command_def operations)+

lemma draw_text_picture:
  assumes "queue_ok s"
  shows "picture (draw_text x y chars color s) = picture s @
      [read_command DRAW_TEXT x y 0 0 color (of_nat (length (take 128 (cstr chars)))) (take 128 (cstr chars))] \<and>
      queue_ok (draw_text x y chars color s)"
proof -
  define shown where "shown = take 128 (cstr chars)"
  have n: "length shown \<le> 128" by (simp add: shown_def)
  then have len: "unat (of_nat (length shown) :: u32) = length shown" by (simp only: unat_of_nat) simp
  have small: "(of_nat (length shown) :: u32) \<le> 128" unfolding word_le_nat_alt len using n by simp
  show ?thesis
    unfolding draw_text_def Let_def shown_def [symmetric]
    by (rule begin_edit_picture [OF assms]) (use n len small in \<open>simp_all add: blank_def as_read_def read_command_def operations\<close>)
qed

lemma present_picture:
  "queue_ok s \<Longrightarrow> picture (draw_present s) = picture s \<and> queue_ok (draw_present s) \<and>
     map as_read (sent (draw_present s)) = picture s"
proof -
  assume ok: "queue_ok s"
  note flushed = flush_queue [OF ok]
  have present: "draw_present s = tell Sys_Desktop_Present (draw_flush s)" by (simp add: draw_present_def)
  have same: "sent (draw_present s) = queued s" using flushed by (simp add: present sent_tell)
  have "draw_command_count (draw_present s) = 0" "draw_commands (draw_present s) = draw_commands (draw_flush s)"
    using flushed by (simp_all add: present tell_def)
  then show ?thesis using same flushed(1) by (simp add: picture_def queued_def queue_ok_def)
qed

text \<open>The kernel draws a command and what it reads of it alike.\<close>

lemma draws_as_read:
  assumes "dc_operation c \<noteq> DRAW_TERMINAL_PROMPT"
  shows "desktop_draw_one assets (as_read c) d = desktop_draw_one assets c d"
proof -
  have "draw_text_command (as_read c) d = draw_text_command c d" if "dc_operation c = DRAW_TEXT"
    unfolding draw_text_command_def Let_def using that by (simp add: as_read_def) (intro conjI impI foldl_cong; simp)
  then show ?thesis using assms by (simp add: desktop_draw_one_def as_read_def)
qed

text \<open>C21: The queue refines an endless list: each drawing routine adds one command at its end and changes nothing
  before it, whether or not a batch of 32 leaves on the way, and presenting sends exactly the commands drawn so
  far, in their order.\<close>

theorem draw_queue_refines:
  assumes "queue_ok s"
  shows "picture (draw_rect x y w h color s) = picture s @ [read_command DRAW_RECT x y w h color 0 []] \<and>
    picture (draw_rounded_rect x y w h radius color s) = picture s @ [read_command DRAW_ROUNDED_RECT x y w h color radius []] \<and>
    picture (draw_icon x y icon s) = picture s @ [read_command DRAW_ICON x y 0 0 icon 0 []] \<and>
    picture (draw_text x y chars color s) = picture s @
      [read_command DRAW_TEXT x y 0 0 color (of_nat (length (take 128 (cstr chars)))) (take 128 (cstr chars))] \<and>
    map as_read (sent (draw_present s)) = picture s"
  using draw_picture [OF assms] draw_text_picture [OF assms] present_picture [OF assms] by simp

lemma start_queue_ok: "queue_ok session_start"
  by (simp add: queue_ok_def session_start_def empty_command_def list_all_iff)

theorem draw_queue_refines_witness:
  "queue_ok session_start \<and> picture (draw_rect 1 2 3 4 5 session_start) = [read_command DRAW_RECT 1 2 3 4 5 0 []]"
proof -
  have "picture session_start = []" by (simp add: picture_def queued_def sent_def session_start_def)
  then show ?thesis
    using draw_queue_refines [OF start_queue_ok, of 1 2 3 4 5 0 0 "[]"] start_queue_ok by simp
qed

section \<open>A window dragged over the left edge\<close>

lemma frame_picture:
  assumes "queue_ok s"
  shows "read_command DRAW_TEXT (win_x w + 14) (win_y w + 10) 0 0 0x00e8f4ff (of_nat (length (take 128 (cstr title))))
    (take 128 (cstr title)) \<in> set (picture (draw_window_frame title w s))"
  using assms by (simp add: draw_window_frame_def Let_def draw_picture draw_text_picture)

text \<open>C27: The session never keeps a window on the screen.  Dragged 22 pixels over the left edge, the file window has
  its title drawn by a command whose coordinate is 8 below the end of the 32-bit range; the kernel accepts the
  command and writes each pixel of the first letter far behind its back buffer.\<close>

theorem dragged_title_escapes_buffer:
  assumes s: "queue_ok s" "\<not> terminal_dragging s" "win_dragging (files_window s) = 1"
      "win_drag_x (files_window s) = pointer_x s + 22"
    and d: "display_ok d" "framebuffer_mapped d"
      "unat (pointer_y s - win_drag_y (files_window s) + 10) + 16 \<le> unat (framebuffer_height d)"
    and pixel: "row < 16" "column < 8" "framebuffer_font d ! (70 * 16 + row) AND drop_bit column 0x80 \<noteq> 0"
  shows "\<exists>c\<in>set (picture (draw_window_frame (str ''Files'') (files_window (pointer_drag s)) (pointer_drag s))).
    \<exists>place. \<not> place < framebuffer_bytes d \<and> framebuffer (snd (quanta_arch_desktop_draw assets [c] d)) place = 0xff"
proof -
  let ?w = "files_window (pointer_drag s)"
  have w: "win_x ?w + 14 = 0xfffffff8" "win_y ?w = pointer_y s - win_drag_y (files_window s)"
    using s(2-4) by (simp_all add: pointer_drag_def move_window_def)
  have q: "queue_ok (pointer_drag s)" using s by (simp add: pointer_drag_def queue_ok_def)
  define c where "c = read_command DRAW_TEXT 0xfffffff8 (win_y ?w + 10) 0 0 0x00e8f4ff 5 (str ''Files'')"
  have text5: "take 128 (cstr (str ''Files'')) = str ''Files''" "length (str ''Files'') = 5" "str ''Files'' ! 0 = 70"
    by (simp_all add: str_def)
  have c: "c \<in> set (picture (draw_window_frame (str ''Files'') ?w (pointer_drag s)))"
    using frame_picture [OF q, of ?w "str ''Files''"] unfolding c_def w(1) text5 by simp
  let ?place = "glyph_place d 0xfffffff8 (dc_y c) row column"
  have y: "unat (dc_y c) + 16 \<le> unat (framebuffer_height d)" using d(3) by (simp add: c_def read_command_def w)
  have "framebuffer (draw_text_command c d) ?place = ucast (dc_color c)"
    by (rule text_escapes [OF d(1) y pixel(1,2)]) (use pixel(3) in \<open>simp_all add: c_def read_command_def text5\<close>)
  moreover have "snd (quanta_arch_desktop_draw assets [c] d) = draw_text_command c d"
    using d(2) by (simp add: quanta_arch_desktop_draw_def desktop_draw_one_def c_def read_command_def DRAW_TEXT_def
        DRAW_RECT_def DRAW_ROUNDED_RECT_def DRAW_MAX_COMMANDS_def)
  moreover have "\<not> ?place < framebuffer_bytes d"
    by (rule glyph_place_outside [OF d(1) y pixel(1,2)]) simp
  ultimately show ?thesis using c by (intro bexI [OF _ c] exI [of _ ?place]) (simp add: c_def read_command_def)
qed

definition dragging_session :: session where
  "dragging_session = session_start\<lparr>files_window := (closed_window 485 0 520 360)\<lparr>win_open := True, win_dragging := 1,
     win_drag_x := 534, win_drag_y := 384\<rparr>\<rparr>"

theorem dragged_title_escapes_buffer_witness:
  "\<exists>c\<in>set (picture (draw_window_frame (str ''Files'') (files_window (pointer_drag dragging_session)) (pointer_drag dragging_session))).
    \<exists>place. \<not> place < framebuffer_bytes demo_display \<and>
      framebuffer (snd (quanta_arch_desktop_draw \<lparr>icon_atlas = [], wallpaper = []\<rparr> [c] demo_display)) place = 0xff"
proof (rule dragged_title_escapes_buffer [OF _ _ _ _ demo_display_ok(1,3), where row = 0 and column = 0])
  show "queue_ok dragging_session" using start_queue_ok by (simp add: dragging_session_def queue_ok_def)
qed (simp_all add: dragging_session_def session_start_def closed_window_def demo_display_def)

end
