(* ===== verification/Session_Login.thy ===== *)
theory Session_Login
  imports Session_Invariant
begin

text \<open>What the login does with the account name, the password and the two Enter keys.\<close>

unbundle bit_operations_syntax

definition key_of :: "byte \<Rightarrow> int" where
  "key_of c = int (unat c)"

definition typeable :: "byte \<Rightarrow> bool" where
  "typeable c \<longleftrightarrow> 32 \<le> c \<and> c < 127"

lemma key_not_mouse: "n < 128 \<Longrightarrow> \<not> mouse_input (int n)"
proof -
  assume n: "n < 128"
  let ?w = "of_nat n :: u32"
  have w: "unat ?w = n" using n by (simp only: unat_of_nat) simp
  have "unat (?w AND 0x7f) = unat ?w AND 0x7f" by (simp add: unsigned_and_eq)
  also have "\<dots> = take_bit 7 (unat ?w)" by (simp add: take_bit_eq_mask mask_eq_exp_minus_1)
  also have "\<dots> = unat ?w" using n unfolding w by (simp add: take_bit_nat_eq_self_iff)
  finally have "?w AND 0x7f = ?w" by (simp only: unsigned_word_eqI)
  then have "?w AND KEY_MOUSE = (?w AND 0x7f) AND KEY_MOUSE" by (simp only:)
  also have "\<dots> = ?w AND (0x7f AND KEY_MOUSE)" by (simp only: and.assoc)
  also have "\<dots> = 0" by (simp add: KEY_MOUSE_def)
  finally show ?thesis by (simp add: mouse_input_def)
qed

lemma typeable_key:
  assumes "typeable c"
  shows "32 \<le> key_of c" "key_of c < 127" "word_of_int (key_of c) = c" "\<not> mouse_input (key_of c)"
proof -
  have c: "32 \<le> unat c" "unat c < 127" using assms by (simp_all add: typeable_def word_le_nat_alt word_less_nat_alt)
  then show "32 \<le> key_of c" "key_of c < 127" unfolding key_of_def by linarith+
  show "word_of_int (key_of c) = c" by (simp add: key_of_def)
  show "\<not> mouse_input (key_of c)" using c key_not_mouse [of "unat c"] by (simp add: key_of_def)
qed

lemma typeable_step:
  assumes "typeable c"
  shows "login_step os (key_of c) form s =
    (False, type_in_form c form, draw_login_screen (type_in_form c form) (failed (type_in_form c form)) False s)"
  using typeable_key [OF assms] by (simp add: login_step_def login_key_def enter_key_def Let_def)

text \<open>The form after typing, whatever is drawn meanwhile.\<close>

lemma typed_form:
  "list_all typeable chars \<Longrightarrow> focus form = 0 \<Longrightarrow> length (username form) + length chars < 32 \<Longrightarrow> chars \<noteq> [] \<Longrightarrow>
     \<exists>s1. login_loop os (map key_of chars @ inputs) form s =
       login_loop os inputs (form\<lparr>username := username form @ chars, failed := False\<rparr>) s1"
  "list_all typeable chars \<Longrightarrow> focus form = 1 \<Longrightarrow> length (password form) + length chars < 65 \<Longrightarrow> chars \<noteq> [] \<Longrightarrow>
     \<exists>s1. login_loop os (map key_of chars @ inputs) form s =
       login_loop os inputs (form\<lparr>password := password form @ chars, failed := False\<rparr>) s1"
proof (induction chars arbitrary: form s)
  case (Cons c chars)
  {
    case 1
    have one: "type_in_form c form = form\<lparr>username := username form @ [c], failed := False\<rparr>"
      using 1 by (simp add: type_in_form_def USERNAME_SIZE_def)
    show ?case
      using 1 Cons(1) [of "type_in_form c form"] by (cases "chars = []") (auto simp: typeable_step one)
  next
    case 2
    have one: "type_in_form c form = form\<lparr>password := password form @ [c], failed := False\<rparr>"
      using 2 by (simp add: type_in_form_def PASSWORD_SIZE_def)
    show ?case
      using 2 Cons(2) [of "type_in_form c form"] by (cases "chars = []") (auto simp: typeable_step one)
  }
qed simp_all

lemma enter_step:
  "focus form = 0 \<Longrightarrow> login_step os 10 form s =
     (False, form\<lparr>focus := 1\<rparr>, draw_login_screen (form\<lparr>focus := 1\<rparr>) (failed form) False s)"
  "login_step os 10 form s = login_enter os form s"
  using key_not_mouse [of 10] by (simp_all add: login_step_def login_key_def enter_key_def login_enter_def Let_def)

text \<open>C28: The password decides: after the account name, Enter, a password and Enter the session is entered if the
  system accepts the password, and otherwise the login waits for more input, whatever was drawn or called before.\<close>

theorem password_decides_login:
  assumes "\<forall>made. fst (os (made @ [Sys_Auth_Verify pw])) = answer" "list_all typeable pw" "length pw \<le> 64"
  shows "fst (login os (map key_of (str ''quanta'') @ 10 # map key_of pw @ [10]) s) = (if answer = 0 then Some [] else None)"
proof -
  let ?quanta = "str ''quanta''" and ?form = "login_form_start"
  have name: "list_all typeable ?quanta" "length ?quanta < 32" "?quanta \<noteq> []"
    by (simp_all add: str_def typeable_def)
  have start: "focus ?form = 0" "username ?form = []" "password ?form = []" "failed ?form = False"
    by (simp_all add: login_form_start_def)
  let ?named = "?form\<lparr>username := ?quanta, failed := False\<rparr>"
  have final: "fst (login_loop os [10] form s) = (if answer = 0 then Some [] else None)"
    if "focus form = 1" "username form = ?quanta" "password form = pw" for form s
    using that assms(1) by (simp add: enter_step(2) login_enter_def call_eq Let_def split_beta)
  obtain s0 where "login os (map key_of ?quanta @ 10 # map key_of pw @ [10]) s =
      login_loop os (map key_of ?quanta @ 10 # map key_of pw @ [10]) ?form s0" by (simp add: login_def)
  moreover obtain s1 where "login_loop os (map key_of ?quanta @ 10 # map key_of pw @ [10]) ?form s0 =
      login_loop os (10 # map key_of pw @ [10]) ?named s1"
    using typed_form(1) [OF name(1) start(1), where inputs = "10 # map key_of pw @ [10]" and os = os and s = s0] name start by auto
  moreover have "login_loop os (10 # map key_of pw @ [10]) ?named s1 =
      login_loop os (map key_of pw @ [10]) (?named\<lparr>focus := 1\<rparr>)
        (draw_login_screen (?named\<lparr>focus := 1\<rparr>) False False s1)"
    using start by (simp add: enter_step(1))
  moreover have "fst (login_loop os (map key_of pw @ [10]) (?named\<lparr>focus := 1\<rparr>) s2) = (if answer = 0 then Some [] else None)"
    for s2
  proof (cases "pw = []")
    case True
    then show ?thesis using final [of "?named\<lparr>focus := 1\<rparr>" s2] start by simp
  next
    case False
    obtain s3 where "login_loop os (map key_of pw @ [10]) (?named\<lparr>focus := 1\<rparr>) s2 =
        login_loop os [10] (?named\<lparr>focus := 1, password := pw, failed := False\<rparr>) s3"
      using typed_form(2) [OF assms(2), where form = "?named\<lparr>focus := 1\<rparr>" and inputs = "[10]" and os = os and s = s2] assms(3) start False by auto
    then show ?thesis using final [of "?named\<lparr>focus := 1, password := pw, failed := False\<rparr>" s3] by simp
  qed
  ultimately show ?thesis by simp
qed

theorem password_decides_login_witness:
  "fst (login (\<lambda>_. (0, [])) (map key_of (str ''quanta'') @ 10 # map key_of (str ''pw'') @ [10]) session_start) = Some []"
  using password_decides_login [of "\<lambda>_. (0, [])" "str ''pw''" 0 session_start] by (simp add: str_def typeable_def)

end
