(* ===== verification/Uefi.thy ===== *)
theory Uefi
  imports Paging
begin

text \<open>
  The UEFI loader \<^verbatim>\<open>bootloader/uefi/loader.c\<close>: it asks the firmware for the display and for memory,
  loads the kernel image that is linked into it, copies the live disk, hands the memory map over, leaves the
  boot services, builds the first page tables and jumps.  Memory is a map from addresses to bytes.  The
  firmware is a function from the calls made so far, the newest last, to a reply; it stores nothing but the
  memory map it is asked for.  A return of the loader is \<open>Inl\<close>, the jump into the kernel is \<open>Inr\<close>.
\<close>

unbundle bit_operations_syntax

section \<open>Byte memory\<close>

type_synonym bytes_at = "u64 \<Rightarrow> byte"

fun copy_bytes :: "u64 \<Rightarrow> byte list \<Rightarrow> bytes_at \<Rightarrow> bytes_at" where
  "copy_bytes destination [] m = m"
| "copy_bytes destination (b # bs) m = copy_bytes (destination + 1) bs (m(destination := b))"

definition clear_bytes :: "u64 \<Rightarrow> u64 \<Rightarrow> bytes_at \<Rightarrow> bytes_at" where
  "clear_bytes destination n = copy_bytes destination (replicate (unat n) 0)"

definition read_bytes :: "bytes_at \<Rightarrow> u64 \<Rightarrow> nat \<Rightarrow> byte list" where
  "read_bytes m address n = map (\<lambda>i. m (address + of_nat i)) [0..<n]"

definition load64 :: "bytes_at \<Rightarrow> memory" where
  "load64 m address = u64_at (read_bytes m address 8) 0"

definition store64 :: "u64 \<Rightarrow> u64 \<Rightarrow> bytes_at \<Rightarrow> bytes_at" where
  "store64 address word = copy_bytes address (le64 word)"

section \<open>The firmware\<close>

definition EFI_SUCCESS :: u64 where "EFI_SUCCESS = 0"
definition EFI_ALLOCATE_ADDRESS :: u32 where "EFI_ALLOCATE_ADDRESS = 2"
definition EFI_ALLOCATE_ANY :: u32 where "EFI_ALLOCATE_ANY = 0"
definition EFI_CONVENTIONAL_MEMORY :: u32 where "EFI_CONVENTIONAL_MEMORY = 7"

datatype efi_call =
    Locate_Graphics
  | Allocate_Pages u32 u64 u64
  | Allocate_Pool u64
  | Get_Memory_Map u64 u64
  | Exit_Boot_Services u64

record graphics_mode =
  horizontal_resolution :: u32
  vertical_resolution :: u32
  pixel_format :: u32
  pixel_information :: "u32 list"
  pixels_per_scan_line :: u32
  mode_framebuffer_base :: u64
  mode_framebuffer_size :: u64

text \<open>\<open>reply_graphics\<close> is \<open>None\<close> where the interface, its mode or the description of the mode is a null pointer.\<close>

record efi_reply =
  reply_status :: u64
  reply_address :: u64
  reply_graphics :: "graphics_mode option"
  reply_map :: "byte list"
  reply_key :: u64
  reply_descriptor_size :: u64

type_synonym efi = "efi_call list \<Rightarrow> efi_reply"

record loader =
  lo_mem :: bytes_at
  lo_ports :: "(u16 \<times> byte) list"
  lo_calls :: "efi_call list"

definition call_firmware :: "efi \<Rightarrow> efi_call \<Rightarrow> loader \<Rightarrow> efi_reply \<times> loader" where
  "call_firmware efi c s = (efi (lo_calls s @ [c]), s\<lparr>lo_calls := lo_calls s @ [c]\<rparr>)"

definition serial_out :: "byte \<Rightarrow> loader \<Rightarrow> loader" where
  "serial_out b s = s\<lparr>lo_ports := lo_ports s @ [(0x3f8, b)]\<rparr>"

definition serial_init :: "loader \<Rightarrow> loader" where
  "serial_init s = s\<lparr>lo_ports := lo_ports s @ [(0x3f9, 0), (0x3fb, 0x80), (0x3f8, 3), (0x3f9, 0), (0x3fb, 3)]\<rparr>"

definition serial_text :: "string \<Rightarrow> loader \<Rightarrow> loader" where
  "serial_text chars = fold serial_out (str chars @ [10])"

section \<open>The memory map\<close>

definition QUANTA_BOOT_MAX_MEMORY_REGIONS :: nat where "QUANTA_BOOT_MAX_MEMORY_REGIONS = 64"
definition EFI_DESCRIPTOR_SIZE :: u64 where "EFI_DESCRIPTOR_SIZE = 40"

definition region_bytes :: "u64 \<Rightarrow> u64 \<Rightarrow> byte list" where
  "region_bytes start len = le64 start @ le64 len @ le32 1 @ le32 0"

text \<open>The loop over the descriptors: the number of regions stored so far and the memory.  \<open>fuel\<close> bounds
the iterations; every one moves \<open>offset\<close> by at least 40 towards the end of the map.\<close>

fun collect_descriptors :: "nat \<Rightarrow> u64 \<Rightarrow> u64 \<Rightarrow> u64 \<Rightarrow> u64 \<Rightarrow> u64 \<Rightarrow> nat \<times> bytes_at \<Rightarrow> nat \<times> bytes_at" where
  "collect_descriptors 0 map_buffer map_size descriptor_size regions offset (n, m) = (n, m)"
| "collect_descriptors (Suc fuel) map_buffer map_size descriptor_size regions offset (n, m) =
     (if offset + descriptor_size \<le> map_size \<and> n < QUANTA_BOOT_MAX_MEMORY_REGIONS
      then
       (let d = read_bytes m (map_buffer + offset) 40
        in collect_descriptors fuel map_buffer map_size descriptor_size regions (offset + descriptor_size)
             (if u32_at d 0 \<noteq> EFI_CONVENTIONAL_MEMORY then (n, m)
              else (n + 1, copy_bytes (regions + 24 * of_nat n) (region_bytes (u64_at d 8) (u64_at d 24 * PAGE_SIZE)) m)))
      else (n, m))"

definition collect_memory_regions :: "u64 \<Rightarrow> u64 \<Rightarrow> u64 \<Rightarrow> u64 \<Rightarrow> bytes_at \<Rightarrow> nat \<times> bytes_at" where
  "collect_memory_regions map_buffer map_size descriptor_size regions m =
     (if descriptor_size < EFI_DESCRIPTOR_SIZE then (0, m)
      else collect_descriptors (unat map_size div 40 + 1) map_buffer map_size descriptor_size regions 0 (0, m))"

section \<open>The kernel image\<close>

definition KERNEL_PHYSICAL :: u64 where "KERNEL_PHYSICAL = 0x200000"
definition KERNEL_VMA :: u64 where "KERNEL_VMA = 0xffffffff80100000"
definition PML4_PHYSICAL :: u64 where "PML4_PHYSICAL = 0x100000"

record kernel_segment =
  ks_type :: u32
  ks_offset :: u64
  ks_virtual :: u64
  ks_physical :: u64
  ks_file_size :: u64
  ks_memory_size :: u64
  ks_alignment :: u64

definition segment_of :: "byte list \<Rightarrow> kernel_segment" where
  "segment_of b = \<lparr>ks_type = u32_at b 0, ks_offset = u64_at b 8, ks_virtual = u64_at b 16, ks_physical = u64_at b 24,
     ks_file_size = u64_at b 32, ks_memory_size = u64_at b 40, ks_alignment = u64_at b 48\<rparr>"

definition kernel_entry :: "byte list \<Rightarrow> u64" where "kernel_entry img = u64_at img 24"
definition segment_table :: "byte list \<Rightarrow> u64" where "segment_table img = u64_at img 32"
definition segment_count :: "byte list \<Rightarrow> u16" where "segment_count img = u16_at img 56"

definition segment_at :: "byte list \<Rightarrow> nat \<Rightarrow> kernel_segment" where
  "segment_at img index =
     segment_of (field img (unat (segment_table img + of_nat index * ucast (u16_at img 54))) 56)"

definition segments :: "byte list \<Rightarrow> kernel_segment list" where
  "segments img = map (segment_at img) [0..<unat (segment_count img)]"

definition kernel_header_ok :: "byte list \<Rightarrow> bool" where
  "kernel_header_ok img \<longleftrightarrow>
     (let image_size = of_nat (length img)
      in \<not> (img ! 0 \<noteq> 0x7f \<or> img ! 1 \<noteq> of_char CHR ''E'' \<or> img ! 2 \<noteq> of_char CHR ''L'' \<or>
         img ! 3 \<noteq> of_char CHR ''F'' \<or> img ! 4 \<noteq> 2 \<or> img ! 5 \<noteq> 1 \<or>
         img ! 6 \<noteq> 1 \<or> u16_at img 16 \<noteq> 2 \<or> u16_at img 18 \<noteq> 0x3e \<or>
         u32_at img 20 \<noteq> 1 \<or> u16_at img 52 \<noteq> 64 \<or>
         u16_at img 54 \<noteq> 56 \<or> segment_count img = 0 \<or>
         segment_table img > image_size \<or>
         ucast (u16_at img 54) * ucast (segment_count img) > image_size - segment_table img))"

definition add_overflow :: "u64 \<Rightarrow> u64 \<Rightarrow> u64 option" where
  "add_overflow left right = (if left > - 1 - right then None else Some (left + right))"

text \<open>The test of one load segment: \<open>None\<close> is the error, otherwise the end of its virtual range.\<close>

definition check_segment :: "u64 \<Rightarrow> u64 \<Rightarrow> kernel_segment \<Rightarrow> u64 option" where
  "check_segment image_size allocation_size p =
     (if ks_file_size p > ks_memory_size p \<or> ks_offset p > image_size \<or>
         ks_file_size p > image_size - ks_offset p \<or> ks_physical p < KERNEL_PHYSICAL then None
      else case add_overflow (ks_physical p) (ks_memory_size p) of None \<Rightarrow> None
      | Some physical_end \<Rightarrow>
      if physical_end < ks_physical p \<or> physical_end - KERNEL_PHYSICAL > allocation_size then None
      else case add_overflow (ks_virtual p) (ks_memory_size p) of None \<Rightarrow> None
      | Some virtual_end \<Rightarrow>
      if ks_alignment p > 1 \<and> ks_alignment p AND (ks_alignment p - 1) \<noteq> 0 \<or>
         ks_alignment p > 1 \<and> ks_physical p mod ks_alignment p \<noteq> ks_offset p mod ks_alignment p then None
      else Some virtual_end)"

definition load_segment :: "byte list \<Rightarrow> u64 \<Rightarrow> kernel_segment \<Rightarrow> loader \<Rightarrow> loader" where
  "load_segment img destination p s =
     (let destination_offset = ks_physical p - KERNEL_PHYSICAL;
          m1 = copy_bytes (destination + destination_offset)
                 (field img (unat (ks_offset p)) (unat (ks_file_size p))) (lo_mem s);
          m2 = clear_bytes (destination + destination_offset + ks_file_size p) (ks_memory_size p - ks_file_size p) m1
      in s\<lparr>lo_mem := m2\<rparr>)"

text \<open>The loop over the program headers; \<open>None\<close> is the return of -1, \<open>Some entry_loadable\<close> its normal end.\<close>

fun load_segments :: "byte list \<Rightarrow> u64 \<Rightarrow> u64 \<Rightarrow> kernel_segment list \<Rightarrow> bool \<Rightarrow> loader \<Rightarrow> bool option \<times> loader" where
  "load_segments img destination allocation_size [] entry_loadable s = (Some entry_loadable, s)"
| "load_segments img destination allocation_size (p # ps) entry_loadable s =
     (if ks_type p \<noteq> 1 then load_segments img destination allocation_size ps entry_loadable s
      else case check_segment (of_nat (length img)) allocation_size p of
        None \<Rightarrow> (None, serial_text ''QUANTA_UEFI_ELF_SEGMENT'' s)
      | Some virtual_end \<Rightarrow>
          if ks_offset p + ks_file_size p > of_nat (length img)
          then (None, serial_text ''QUANTA_UEFI_ELF_FILE'' s)
          else load_segments img destination allocation_size ps
                 (kernel_entry img \<ge> ks_virtual p \<and> kernel_entry img < virtual_end \<or> entry_loadable)
                 (load_segment img destination p s))"

definition load_kernel :: "byte list \<Rightarrow> u64 \<Rightarrow> u64 \<Rightarrow> loader \<Rightarrow> u64 option \<times> loader" where
  "load_kernel img destination allocation_size s =
     (if of_nat (length img) < (64 :: u64) then (None, serial_text ''QUANTA_UEFI_ELF_HEADER'' s)
      else if \<not> kernel_header_ok img then (None, serial_text ''QUANTA_UEFI_ELF_TABLE'' s)
      else case load_segments img destination allocation_size (segments img) False s of
        (None, s1) \<Rightarrow> (None, s1)
      | (Some entry_loadable, s1) \<Rightarrow>
          if \<not> entry_loadable then (None, serial_text ''QUANTA_UEFI_ELF_ENTRY'' s1)
          else (Some (kernel_entry img), s1))"

section \<open>The first page tables\<close>

definition PAGE_PRESENT_WRITE :: u64 where "PAGE_PRESENT_WRITE = 3"
definition PAGE_LARGE :: u64 where "PAGE_LARGE = 0x83"

text \<open>\<open>n\<close> entries from \<open>entry\<close> on, for addresses \<open>step\<close> apart.\<close>

fun fill_entries :: "nat \<Rightarrow> u64 \<Rightarrow> u64 \<Rightarrow> u64 \<Rightarrow> u64 \<Rightarrow> bytes_at \<Rightarrow> bytes_at" where
  "fill_entries 0 entry address step flags m = m"
| "fill_entries (Suc n) entry address step flags m =
     fill_entries n (entry + 8) (address + step) step flags (store64 entry (address OR flags) m)"

definition build_tables :: "u64 \<Rightarrow> u64 \<Rightarrow> bytes_at \<Rightarrow> bytes_at" where
  "build_tables pml4 kernel_physical m =
     (let pdpt = pml4 + 0x1000; pdlow = pml4 + 0x2000; pdhigh = pml4 + 0x3000; pt1 = pml4 + 0x4000; pt2 = pml4 + 0x5000;
          m1 = clear_bytes pml4 (6 * PAGE_SIZE) m;
          m2 = store64 (entry_address pml4 0) (pdpt OR PAGE_PRESENT_WRITE) m1;
          m3 = store64 (entry_address pml4 511) (pdpt OR PAGE_PRESENT_WRITE) m2;
          m4 = store64 (entry_address pdpt 0) (pdlow OR PAGE_PRESENT_WRITE) m3;
          m5 = store64 (entry_address pdpt 510) (pdhigh OR PAGE_PRESENT_WRITE) m4;
          m6 = fill_entries 512 pdlow 0 0x200000 PAGE_LARGE m5;
          m7 = store64 (entry_address pdhigh 0) (pt1 OR PAGE_PRESENT_WRITE) m6;
          m8 = store64 (entry_address pdhigh 1) (pt2 OR PAGE_PRESENT_WRITE) m7;
          m9 = fill_entries 256 (entry_address pt1 256) kernel_physical PAGE_SIZE PAGE_PRESENT_WRITE m8
      in fill_entries 256 pt2 (kernel_physical + 256 * PAGE_SIZE) PAGE_SIZE PAGE_PRESENT_WRITE m9)"

section \<open>The loader\<close>

record boot_info =
  bi_magic :: u64
  bi_version :: u32
  bi_size :: u32
  bi_memory_map :: u64
  bi_memory_map_entries :: u64
  bi_framebuffer_physical :: u64
  bi_framebuffer_width :: u32
  bi_framebuffer_height :: u32
  bi_framebuffer_pitch :: u32
  bi_framebuffer_bpp :: byte
  bi_framebuffer_format :: byte
  bi_rsdp_physical :: u64
  bi_storage_physical :: u64
  bi_storage_sectors :: u64

text \<open>The loader sets every field but the reserved bytes and the address of the ACPI tables.\<close>

definition boot_info_head :: "boot_info \<Rightarrow> byte list" where
  "boot_info_head i = le64 (bi_magic i) @ le32 (bi_version i) @ le32 (bi_size i) @ le64 (bi_memory_map i) @
     le64 (bi_memory_map_entries i) @ le64 (bi_framebuffer_physical i) @ le32 (bi_framebuffer_width i) @
     le32 (bi_framebuffer_height i) @ le32 (bi_framebuffer_pitch i) @ [bi_framebuffer_bpp i, bi_framebuffer_format i]"

definition write_boot_info :: "boot_info \<Rightarrow> u64 \<Rightarrow> bytes_at \<Rightarrow> bytes_at" where
  "write_boot_info i address m =
     copy_bytes (address + 64) (le64 (bi_storage_physical i) @ le64 (bi_storage_sectors i))
       (copy_bytes address (boot_info_head i) m)"

definition boot_info_at :: "bytes_at \<Rightarrow> u64 \<Rightarrow> boot_info" where
  "boot_info_at m address =
     (let b = read_bytes m address 80
      in \<lparr>bi_magic = u64_at b 0, bi_version = u32_at b 8, bi_size = u32_at b 12, bi_memory_map = u64_at b 16,
          bi_memory_map_entries = u64_at b 24, bi_framebuffer_physical = u64_at b 32,
          bi_framebuffer_width = u32_at b 40, bi_framebuffer_height = u32_at b 44, bi_framebuffer_pitch = u32_at b 48,
          bi_framebuffer_bpp = b ! 52, bi_framebuffer_format = b ! 53, bi_rsdp_physical = u64_at b 56,
          bi_storage_physical = u64_at b 64, bi_storage_sectors = u64_at b 72\<rparr>)"

definition boot_format :: "graphics_mode \<Rightarrow> byte option" where
  "boot_format g =
     (if pixel_format g = 0 then Some 3
      else if pixel_format g = 1 then Some 1
      else if pixel_format g = 2 \<and> pixel_information g ! 0 = 0x00ff0000 \<and> pixel_information g ! 1 = 0x0000ff00 \<and>
        pixel_information g ! 2 = 0x000000ff then Some 1
      else None)"

definition boot_framebuffer_bytes :: "graphics_mode \<Rightarrow> u64" where
  "boot_framebuffer_bytes g = ucast (pixels_per_scan_line g) * ucast (vertical_resolution g) * 4"

definition boot_framebuffer_ok :: "graphics_mode \<Rightarrow> bool" where
  "boot_framebuffer_ok g \<longleftrightarrow>
     \<not> (mode_framebuffer_base g = 0 \<or> boot_framebuffer_bytes g > mode_framebuffer_size g \<or>
        boot_framebuffer_bytes g > 0x01000000 \<or> pixels_per_scan_line g < horizontal_resolution g)"

definition INFO_ADDRESS :: u64 where "INFO_ADDRESS = 0x9000"
definition MAP_ADDRESS :: u64 where "MAP_ADDRESS = 0x5000"

text \<open>What the jump hands to the kernel: the root of the tables, the entry point and the address of the boot information.\<close>

type_synonym jump = "u64 \<times> u64 \<times> u64"

text \<open>A call of \<^verbatim>\<open>get_map\<close> and what it stores.\<close>

definition get_map :: "efi \<Rightarrow> u64 \<Rightarrow> loader \<Rightarrow> efi_reply \<times> loader" where
  "get_map efi map_buffer s =
     (case call_firmware efi (Get_Memory_Map 65536 map_buffer) s of (r, s1) \<Rightarrow>
        (r, s1\<lparr>lo_mem := copy_bytes map_buffer (reply_map r) (lo_mem s1)\<rparr>))"

definition take_regions :: "u64 \<Rightarrow> efi_reply \<Rightarrow> loader \<Rightarrow> nat \<times> loader" where
  "take_regions map_buffer r s =
     (case collect_memory_regions map_buffer (of_nat (length (reply_map r))) (reply_descriptor_size r) MAP_ADDRESS (lo_mem s) of
        (n, m) \<Rightarrow> (n, s\<lparr>lo_mem := m\<rparr>))"

text \<open>From the marker that the boot services are gone to the jump.\<close>

definition enter_kernel :: "u64 \<Rightarrow> u64 \<Rightarrow> u64 \<Rightarrow> loader \<Rightarrow> (u64 + jump) \<times> loader" where
  "enter_kernel kernel_address pml4_address entry s =
     (let s1 = serial_text ''QUANTA_UEFI_EXIT_DONE'' s;
          s2 = s1\<lparr>lo_mem := build_tables pml4_address kernel_address (lo_mem s1)\<rparr>;
          s3 = serial_text ''QUANTA_UEFI_TABLES_READY'' s2
      in (Inr (pml4_address, entry, INFO_ADDRESS), s3))"

definition leave_boot_services :: "efi \<Rightarrow> u64 \<Rightarrow> u64 \<Rightarrow> u64 \<Rightarrow> u64 \<Rightarrow> efi_reply \<Rightarrow> loader \<Rightarrow> (u64 + jump) \<times> loader" where
  "leave_boot_services efi map_buffer kernel_address pml4_address entry r s =
     (case call_firmware efi (Exit_Boot_Services (reply_key r)) s of (e, s1) \<Rightarrow>
        if reply_status e = EFI_SUCCESS then enter_kernel kernel_address pml4_address entry s1
        else
         (case get_map efi map_buffer (serial_text ''QUANTA_UEFI_EXIT_RETRY'' s1) of (r2, s2) \<Rightarrow>
            if reply_status r2 \<noteq> EFI_SUCCESS then (Inl 1, serial_text ''QUANTA_UEFI_MAP_RETRY_ERROR'' s2)
            else case take_regions map_buffer r2 s2 of (n, s3) \<Rightarrow>
              let s4 = s3\<lparr>lo_mem := copy_bytes (INFO_ADDRESS + 24) (le64 (of_nat n)) (lo_mem s3)\<rparr>
              in case call_firmware efi (Exit_Boot_Services (reply_key r2)) s4 of (e2, s5) \<Rightarrow>
                if reply_status e2 \<noteq> EFI_SUCCESS then (Inl 1, serial_text ''QUANTA_UEFI_EXIT_ERROR'' s5)
                else enter_kernel kernel_address pml4_address entry s5))"

definition boot_record :: "graphics_mode \<Rightarrow> byte \<Rightarrow> u64 \<Rightarrow> u64 \<Rightarrow> u64 \<Rightarrow> boot_info" where
  "boot_record g format storage_address storage_size region_count =
     \<lparr>bi_magic = 0x51424f4f54494e46, bi_version = 2, bi_size = 80, bi_memory_map = MAP_ADDRESS,
      bi_memory_map_entries = region_count, bi_framebuffer_physical = mode_framebuffer_base g,
      bi_framebuffer_width = horizontal_resolution g, bi_framebuffer_height = vertical_resolution g,
      bi_framebuffer_pitch = pixels_per_scan_line g * 4, bi_framebuffer_bpp = 32,
      bi_framebuffer_format = format, bi_rsdp_physical = 0, bi_storage_physical = storage_address,
      bi_storage_sectors = (storage_size + 511) div 512\<rparr>"

definition hand_over :: "efi \<Rightarrow> graphics_mode \<Rightarrow> byte \<Rightarrow> u64 \<Rightarrow> u64 \<Rightarrow> u64 \<Rightarrow> u64 \<Rightarrow> u64 \<Rightarrow> loader \<Rightarrow> (u64 + jump) \<times> loader" where
  "hand_over efi g format kernel_address pml4_address entry storage_address storage_size s =
     (case call_firmware efi (Allocate_Pool 65536) s of (a, s1) \<Rightarrow>
        if reply_status a \<noteq> EFI_SUCCESS then (Inl 1, serial_text ''QUANTA_UEFI_MAP_ERROR'' s1)
        else
         let map_buffer = reply_address a in
         case get_map efi map_buffer (serial_text ''QUANTA_UEFI_EXIT_READY'' s1) of (r, s2) \<Rightarrow>
         if reply_status r \<noteq> EFI_SUCCESS then (Inl 1, s2)
         else case take_regions map_buffer r s2 of (n, s3) \<Rightarrow>
           let info = boot_record g format storage_address storage_size (of_nat n);
               s4 = serial_text ''QUANTA_UEFI_GOP_READY'' (s3\<lparr>lo_mem := write_boot_info info INFO_ADDRESS (lo_mem s3)\<rparr>)
           in leave_boot_services efi map_buffer kernel_address pml4_address entry r s4)"

definition efi_main :: "efi \<Rightarrow> byte list \<Rightarrow> byte list \<Rightarrow> loader \<Rightarrow> (u64 + jump) \<times> loader" where
  "efi_main efi kernel_img storage s0 =
     (let storage_size = of_nat (length storage); storage_pages = (storage_size + PAGE_SIZE - 1) div PAGE_SIZE in
      case call_firmware efi Locate_Graphics (serial_text ''QUANTA_UEFI_ENTRY'' (serial_init s0)) of (r, s1) \<Rightarrow>
      case (if reply_status r \<noteq> EFI_SUCCESS then None else reply_graphics r) of
        None \<Rightarrow> (Inl 1, serial_text ''QUANTA_UEFI_GOP_ERROR'' s1)
      | Some g \<Rightarrow>
      case boot_format g of
        None \<Rightarrow> (Inl 1, serial_text ''QUANTA_UEFI_GOP_FORMAT'' s1)
      | Some format \<Rightarrow>
      if \<not> boot_framebuffer_ok g then (Inl 1, serial_text ''QUANTA_UEFI_GOP_BOUNDS'' s1)
      else case call_firmware efi (Allocate_Pages EFI_ALLOCATE_ANY 0 512) s1 of (rk, s2) \<Rightarrow>
      if reply_status rk \<noteq> EFI_SUCCESS then (Inl 1, serial_text ''QUANTA_UEFI_ALLOC_KERNEL'' s2)
      else case call_firmware efi (Allocate_Pages EFI_ALLOCATE_ADDRESS PML4_PHYSICAL 6) s2 of (rt, s3) \<Rightarrow>
      if reply_status rt \<noteq> EFI_SUCCESS then (Inl 1, serial_text ''QUANTA_UEFI_ALLOC_PAGING'' s3)
      else case call_firmware efi (Allocate_Pages EFI_ALLOCATE_ANY 0 storage_pages) s3 of (rs, s4) \<Rightarrow>
      if reply_status rs \<noteq> EFI_SUCCESS then (Inl 1, serial_text ''QUANTA_UEFI_ALLOC_STORAGE'' s4)
      else case load_kernel kernel_img (reply_address rk) (512 * PAGE_SIZE) s4 of
        (None, s5) \<Rightarrow> (Inl 1, serial_text ''QUANTA_UEFI_LOAD_ERROR'' s5)
      | (Some entry, s5) \<Rightarrow>
          let s6 = serial_text ''QUANTA_UEFI_KERNEL_READY'' s5;
              m1 = copy_bytes (reply_address rs) storage (lo_mem s6);
              m2 = clear_bytes INFO_ADDRESS PAGE_SIZE m1;
              m3 = clear_bytes MAP_ADDRESS PAGE_SIZE m2
          in hand_over efi g format (reply_address rk) (reply_address rt) entry (reply_address rs) storage_size (s6\<lparr>lo_mem := m3\<rparr>))"

end
