(* ===== verification/Uefi_Tables.thy ===== *)
theory Uefi_Tables
  imports Uefi
begin

text \<open>
  The page tables the loader builds.  \<open>page_walk\<close> is the translation of the processor with pages of 4 KiB,
  2 MiB and 1 GiB; the last theorem says what it returns for every address under the tables of \<open>build_tables\<close>.
\<close>

unbundle bit_operations_syntax

section \<open>Byte memory\<close>

text \<open>\<open>x\<close> is one of the \<open>n\<close> addresses from \<open>a\<close> on, in the arithmetic of addresses.\<close>

definition in_area :: "u64 \<Rightarrow> nat \<Rightarrow> u64 \<Rightarrow> bool" where
  "in_area a n x \<longleftrightarrow> unat (x - a) < n"

lemma in_area_offset: "i < n \<Longrightarrow> i < 2 ^ 64 \<Longrightarrow> in_area a n (a + of_nat i)"
  by (simp add: in_area_def unat_of_nat)

lemma copy_bytes_at:
  assumes "length bs \<le> 2 ^ 64"
  shows "copy_bytes a bs m x = (if in_area a (length bs) x then bs ! unat (x - a) else m x)"
  using assms
proof (induction a bs m rule: copy_bytes.induct)
  case (1 a m)
  then show ?case by (simp add: in_area_def)
next
  case (2 a b bs m)
  have step: "x - (a + 1) = x - a - 1" by simp
  have IH: "copy_bytes (a + 1) bs (m(a := b)) x =
      (if in_area (a + 1) (length bs) x then bs ! unat (x - (a + 1)) else (m(a := b)) x)"
    by (rule 2(1)) (use 2(2) in simp)
  show ?case
  proof (cases "x = a")
    case True
    have "unat (- 1 :: u64) = 2 ^ 64 - 1" by (simp only: unsigned_minus_1_eq_mask mask_eq_exp_minus_1) simp
    then have "\<not> in_area (a + 1) (length bs) x" using 2(2) True by (simp add: in_area_def)
    then show ?thesis unfolding copy_bytes.simps IH using True by (simp add: in_area_def)
  next
    case False
    then have "unat (x - a - 1) = unat (x - a) - 1" "unat (x - a) \<noteq> 0"
      by (simp_all add: unat_minus_one unat_eq_0)
    then show ?thesis unfolding copy_bytes.simps IH using False by (auto simp: in_area_def step nth_Cons')
  qed
qed

lemma clear_bytes_at: "clear_bytes a n m x = (if in_area a (unat n) x then 0 else m x)"
  using unat_less_pow [of n] by (simp add: clear_bytes_def copy_bytes_at in_area_def)

lemma read_bytes_nth: "i < n \<Longrightarrow> read_bytes m a n ! i = m (a + of_nat i)"
  by (simp add: read_bytes_def)

lemma length_read_bytes [simp]: "length (read_bytes m a n) = n"
  by (simp add: read_bytes_def)

lemma read_copied:
  assumes "length bs < 2 ^ 64" "off + n \<le> length bs"
  shows "read_bytes (copy_bytes a bs m) (a + of_nat off) n = field bs off n"
proof (rule nth_equalityI)
  fix i assume "i < length (read_bytes (copy_bytes a bs m) (a + of_nat off) n)"
  then have i: "i < n" by simp
  have sum: "a + of_nat off + of_nat i = a + (of_nat (off + i) :: u64)" by simp
  have "unat (of_nat (off + i) :: u64) = off + i" using assms i by (simp add: unat_of_nat del: of_nat_add)
  then show "read_bytes (copy_bytes a bs m) (a + of_nat off) n ! i = field bs off n ! i"
    using assms i by (simp add: read_bytes_nth sum copy_bytes_at in_area_def field_def del: of_nat_add)
qed (use assms in \<open>simp add: length_field\<close>)

lemma read_unchanged: "(\<And>i. i < n \<Longrightarrow> m' (a + of_nat i) = m (a + of_nat i)) \<Longrightarrow> read_bytes m' a n = read_bytes m a n"
  by (simp add: read_bytes_def)

section \<open>A table as an array of words\<close>

lemma load_stored: "load64 (store64 a w m) a = w"
  using read_copied [of "le64 w" 0 8 a m] by (simp add: load64_def store64_def u64_at_def field_whole)

lemma word_of_table:
  assumes "j < 2 ^ 32" "k < 2 ^ 32" "j \<noteq> k" "i < 8"
  shows "\<not> in_area (p + 8 * of_nat j) 8 (p + 8 * of_nat k + of_nat i)"
proof -
  have same: "p + 8 * of_nat k + of_nat i - (p + 8 * of_nat j) = (of_nat (8 * k + i) - of_nat (8 * j) :: u64)" by simp
  have "unat (of_nat (8 * k + i) :: u64) = 8 * k + i" "unat (of_nat (8 * j) :: u64) = 8 * j"
    using assms by (simp_all only: unat_of_nat) simp_all
  then have "unat (of_nat (8 * k + i) - of_nat (8 * j) :: u64) \<ge> 8"
    unfolding unat_sub_if' using assms by auto
  then show ?thesis unfolding in_area_def same by simp
qed

text \<open>Stores into the words of a table do not disturb one another.\<close>

lemma load_store:
  assumes "j < 2 ^ 32" "k < 2 ^ 32"
  shows "load64 (store64 (p + 8 * of_nat j) w m) (p + 8 * of_nat k) =
    (if j = k then w else load64 m (p + 8 * of_nat k))"
proof (cases "j = k")
  case True
  then show ?thesis by (simp add: load_stored)
next
  case False
  have "load64 (copy_bytes (p + 8 * of_nat j) (le64 w) m) (p + 8 * of_nat k) = load64 m (p + 8 * of_nat k)"
    unfolding load64_def
    by (intro arg_cong2 [of _ _ _ _ u64_at] read_unchanged refl)
      (subst copy_bytes_at, use word_of_table [OF assms False, of _ p] in simp_all)
  with False show ?thesis by (simp add: store64_def)
qed

lemma load_filled:
  assumes "j + n < 2 ^ 32" "k < 2 ^ 32"
  shows "load64 (fill_entries n (p + 8 * of_nat j) a step flags m) (p + 8 * of_nat k) =
    (if j \<le> k \<and> k < j + n then (a + of_nat (k - j) * step) OR flags else load64 m (p + 8 * of_nat k))"
  using assms(1)
proof (induction n arbitrary: j a m)
  case 0
  then show ?case by auto
next
  case (Suc n)
  have up: "p + 8 * of_nat j + 8 = p + 8 * of_nat (Suc j)" by simp
  have shift: "a + step + (of_nat k - (1 + of_nat j)) * step = a + (of_nat k - of_nat j) * step"
    by (simp add: algebra_simps)
  have IH: "load64 (fill_entries (Suc n) (p + 8 * of_nat j) a step flags m) (p + 8 * of_nat k) =
      (if Suc j \<le> k \<and> k < Suc j + n then (a + step + of_nat (k - Suc j) * step) OR flags
       else if j = k then a OR flags else load64 m (p + 8 * of_nat k))"
    unfolding fill_entries.simps up using Suc(2) assms(2) by (subst Suc.IH) (simp_all add: load_store)
  consider "k < j" | "k = j" | "j < k" by linarith
  then show ?case unfolding IH by cases (auto simp: shift)
qed

lemma load_cleared:
  assumes "8 * k + 8 \<le> n" "n < 2 ^ 64"
  shows "load64 (clear_bytes p (of_nat n) m) (p + 8 * of_nat k) = 0"
proof -
  have "unat (of_nat n :: u64) = n" using assms(2) by (simp add: unat_of_nat)
  moreover have "in_area p n (p + 8 * of_nat k + of_nat i)" if "i < 8" for i
    using in_area_offset [of "8 * k + i" n p] that assms by (simp add: add.assoc)
  ultimately have "read_bytes (clear_bytes p (of_nat n) m) (p + 8 * of_nat k) 8 = replicate 8 0"
    by (intro nth_equalityI) (simp_all add: read_bytes_nth clear_bytes_at)
  then show ?thesis by (simp add: load64_def u64_at_def field_zeros)
qed

section \<open>The six tables\<close>

definition table_word :: "u64 \<Rightarrow> u64 \<Rightarrow> nat \<Rightarrow> u64" where
  "table_word p kbase k =
     (if k = 0 \<or> k = 511 then p + 0x1000 OR 3
      else if k = 512 then p + 0x2000 OR 3
      else if k = 1022 then p + 0x3000 OR 3
      else if 1024 \<le> k \<and> k < 1536 then of_nat (k - 1024) * 0x200000 OR 0x83
      else if k = 1536 then p + 0x4000 OR 3
      else if k = 1537 then p + 0x5000 OR 3
      else if 2304 \<le> k \<and> k < 2560 then kbase + of_nat (k - 2304) * 0x1000 OR 3
      else if 2560 \<le> k \<and> k < 2816 then kbase + 0x100000 + of_nat (k - 2560) * 0x1000 OR 3
      else 0)"

lemma table_places:
  fixes p :: u64
  shows "entry_address p 0 = p + 8 * of_nat 0" "entry_address p 511 = p + 8 * of_nat 511"
    "entry_address (p + 0x1000) 0 = p + 8 * of_nat 512" "entry_address (p + 0x1000) 510 = p + 8 * of_nat 1022"
    "p + 0x2000 = p + 8 * of_nat 1024" "entry_address (p + 0x3000) 0 = p + 8 * of_nat 1536"
    "entry_address (p + 0x3000) 1 = p + 8 * of_nat 1537" "entry_address (p + 0x4000) 256 = p + 8 * of_nat 2304"
    "p + 0x5000 = p + 8 * of_nat 2560"
  by (simp_all add: entry_address_def)

lemma build_tables_word:
  assumes k: "k < 3072"
  shows "load64 (build_tables p kbase m) (p + 8 * of_nat k) = table_word p kbase k"
proof -
  note places = table_places [of p]
  have area: "6 * PAGE_SIZE = of_nat 24576" by (simp add: PAGE_SIZE_def)
  have cleared: "load64 (clear_bytes p (of_nat 24576) m) (p + 8 * of_nat k) = 0"
    by (rule load_cleared) (use k in simp_all)
  have filled: "load64 (fill_entries n (p + 8 * of_nat j) a step flags m) (p + 8 * of_nat k) =
      (if j \<le> k \<and> k < j + n then (a + of_nat (k - j) * step) OR flags else load64 m (p + 8 * of_nat k))"
    if "j + n < 3073" for j n a step flags m
    by (rule load_filled) (use k that in simp_all)
  have stored: "load64 (store64 (p + 8 * of_nat j) w m) (p + 8 * of_nat k) =
      (if j = k then w else load64 m (p + 8 * of_nat k))" if "j < 3072" for j w m
    by (rule load_store) (use k that in simp_all)
  note flag_values = PAGE_SIZE_def PAGE_PRESENT_WRITE_def PAGE_LARGE_def
  show ?thesis
    unfolding build_tables_def Let_def places(1-4,6-8) unfolding area
    by (subst places(9), subst places(5),
        (subst filled stored, simp)+,
        unfold cleared table_word_def flag_values, auto)
qed

section \<open>Translation\<close>

definition PAGE_SIZE_BIT :: u64 where "PAGE_SIZE_BIT = 0x80"

definition frame_of :: "u64 \<Rightarrow> u64" where "frame_of e = e AND 0x000ffffffffff000"

definition page_walk :: "memory \<Rightarrow> u64 \<Rightarrow> u64 \<Rightarrow> u64 option" where
  "page_walk m root va =
     (let e4 = m (entry_address root (table_index va 39)) in
      if e4 AND PAGE_PRESENT = 0 then None
      else let e3 = m (entry_address (frame_of e4) (table_index va 30)) in
      if e3 AND PAGE_PRESENT = 0 then None
      else if e3 AND PAGE_SIZE_BIT \<noteq> 0 then Some ((e3 AND 0x000fffffc0000000) OR take_bit 30 va)
      else let e2 = m (entry_address (frame_of e3) (table_index va 21)) in
      if e2 AND PAGE_PRESENT = 0 then None
      else if e2 AND PAGE_SIZE_BIT \<noteq> 0 then Some ((e2 AND 0x000fffffffe00000) OR take_bit 21 va)
      else let e1 = m (entry_address (frame_of e2) (table_index va 12)) in
      if e1 AND PAGE_PRESENT = 0 then None else Some (frame_of e1 OR take_bit 12 va))"

text \<open>An address with \<open>n\<close> low bits clear, below \<open>2 ^ 52\<close>.\<close>

definition block :: "nat \<Rightarrow> u64 \<Rightarrow> bool" where
  "block n a \<longleftrightarrow> take_bit n a = 0 \<and> take_bit 52 a = a"

lemma block_unat: "block n a \<longleftrightarrow> 2 ^ n dvd unat a \<and> unat a < 2 ^ 52"
proof -
  have "take_bit n a = 0 \<longleftrightarrow> unat (take_bit n a) = 0" by (simp add: unat_eq_0)
  moreover have "unat (take_bit n a) = unat a mod 2 ^ n" by (simp only: unsigned_take_bit_eq) (simp add: take_bit_eq_mod)
  moreover have "take_bit 52 a = a \<longleftrightarrow> unat (take_bit 52 a) = unat a" by (simp add: word_unat_eq_iff)
  moreover have "unat (take_bit 52 a) = unat a mod 2 ^ 52" by (simp only: unsigned_take_bit_eq) (simp add: take_bit_eq_mod)
  ultimately show ?thesis
    by (auto simp: block_def dvd_eq_mod_eq_0 mod_eq_self_iff_div_eq_0 div_eq_0_iff)
qed

lemma block_bits: "block n a \<Longrightarrow> bit a i \<Longrightarrow> n \<le> i \<and> i < 52"
  unfolding block_def by (metis bit_take_bit_iff linorder_not_le bit_0_eq bot_apply bot_bool_def)

lemma bit_flags: "bit (3 :: u64) i \<longleftrightarrow> i < 2" "bit (0x83 :: u64) i \<longleftrightarrow> i = 0 \<or> i = 1 \<or> i = 7"
proof -
  have low: "(3 :: u64) = mask 2" "(0x83 :: u64) = mask 2 OR push_bit 7 (mask 1)"
    by (simp_all add: mask_eq_exp_minus_1)
  show "bit (3 :: u64) i \<longleftrightarrow> i < 2" unfolding low(1) by (auto simp: bit_mask_iff)
  show "bit (0x83 :: u64) i \<longleftrightarrow> i = 0 \<or> i = 1 \<or> i = 7"
    unfolding low(2) by (simp only: bit_or_iff bit_push_bit_iff bit_mask_iff) auto
qed

lemma bit_masks:
  "bit (0x000ffffffffff000 :: u64) i \<longleftrightarrow> 12 \<le> i \<and> i < 52" "bit (0x000fffffffe00000 :: u64) i \<longleftrightarrow> 21 \<le> i \<and> i < 52"
proof -
  have shape: "(0x000ffffffffff000 :: u64) = push_bit 12 (mask 40)" "(0x000fffffffe00000 :: u64) = push_bit 21 (mask 31)"
    by (simp_all add: mask_eq_exp_minus_1 push_bit_eq_mult)
  show "bit (0x000ffffffffff000 :: u64) i \<longleftrightarrow> 12 \<le> i \<and> i < 52"
    unfolding shape(1) by (auto simp: bit_push_bit_iff bit_mask_iff)
  show "bit (0x000fffffffe00000 :: u64) i \<longleftrightarrow> 21 \<le> i \<and> i < 52"
    unfolding shape(2) by (auto simp: bit_push_bit_iff bit_mask_iff)
qed

lemma entry_bits:
  "block 12 a \<Longrightarrow> frame_of (a OR 3) = a" "(a OR 3) AND PAGE_PRESENT \<noteq> 0" "(a OR 0x83) AND PAGE_PRESENT \<noteq> 0"
  "block 12 a \<Longrightarrow> (a OR 3) AND PAGE_SIZE_BIT = 0" "(a OR 0x83) AND PAGE_SIZE_BIT \<noteq> 0"
  "block 21 a \<Longrightarrow> (a OR 0x83) AND 0x000fffffffe00000 = a"
proof -
  have present: "w AND PAGE_PRESENT = 0 \<longleftrightarrow> \<not> bit w 0" and large: "w AND PAGE_SIZE_BIT = 0 \<longleftrightarrow> \<not> bit w 7" for w :: u64
    using and_exp_eq_0_iff_not_bit [of w 0] and_exp_eq_0_iff_not_bit [of w 7]
    by (simp_all add: PAGE_PRESENT_def PAGE_SIZE_BIT_def)
  show "block 12 a \<Longrightarrow> frame_of (a OR 3) = a"
    by (rule bit_word_eqI) (auto simp only: frame_of_def bit_and_iff bit_or_iff bit_flags bit_masks dest: block_bits)
  show "(a OR 3) AND PAGE_PRESENT \<noteq> 0" "(a OR 0x83) AND PAGE_PRESENT \<noteq> 0" "(a OR 0x83) AND PAGE_SIZE_BIT \<noteq> 0"
    by (simp_all add: present large bit_simps bit_flags)
  show "block 12 a \<Longrightarrow> (a OR 3) AND PAGE_SIZE_BIT = 0"
    by (auto simp: large bit_simps bit_flags dest: block_bits)
  show "block 21 a \<Longrightarrow> (a OR 0x83) AND 0x000fffffffe00000 = a"
    by (rule bit_word_eqI) (auto simp only: bit_and_iff bit_or_iff bit_flags bit_masks dest: block_bits)
qed

lemma block_join: "block n a \<Longrightarrow> a OR take_bit n va = a + take_bit n va"
  by (rule disjunctive_add_eq_or [symmetric]) (rule bit_word_eqI, auto simp: bit_simps dest: block_bits)

text \<open>Addresses as numbers.\<close>

lemma unat_take_bit: "unat (take_bit n (va :: u64)) = unat va mod 2 ^ n"
  by (simp only: unsigned_take_bit_eq) (simp add: take_bit_eq_mod)

lemma table_index_unat: "table_index va sh = unat va div 2 ^ sh mod 512"
proof -
  have "drop_bit sh va AND 0x1ff = take_bit 9 (drop_bit sh va)" by (simp add: take_bit_eq_mask mask_numeral)
  then show ?thesis
    unfolding table_index_def by (simp only: unat_take_bit unat_drop_bit_eq) (simp add: drop_bit_eq_div)
qed

lemma block_offset: "block n a \<Longrightarrow> n \<le> 52 \<Longrightarrow> unat a + k * 2 ^ n < 2 ^ 52 \<Longrightarrow> block n (a + of_nat k * 2 ^ n)"
  for a :: u64
proof -
  assume a: "block n a" "n \<le> 52" "unat a + k * 2 ^ n < 2 ^ 52"
  have "unat (of_nat (k * 2 ^ n) :: u64) = k * 2 ^ n" using a(3) by (simp only: unat_of_nat) simp
  then have "unat (a + of_nat (k * 2 ^ n)) = unat a + k * 2 ^ n"
    using a(3) by (simp only: unat_word_ariths) simp
  then show ?thesis using a by (simp add: block_unat)
qed

text \<open>
  The low half of the first gigabyte is itself, the 2 MiB from \<open>KERNEL_VMA\<close> on are the kernel's, and nothing
  else is mapped; the one second-level table serves the first and the last 512 GiB.  \<open>v\<close> is the place in those.
\<close>

definition KERNEL_PLACE :: nat where "KERNEL_PLACE = 510 * 2 ^ 30 + 2 ^ 20"

definition boot_translation :: "u64 \<Rightarrow> u64 \<Rightarrow> u64 option" where
  "boot_translation kbase va =
     (if table_index va 39 \<noteq> 0 \<and> table_index va 39 \<noteq> 511 then None
      else let v = unat va mod 2 ^ 39 in
      if v < 2 ^ 30 then Some (of_nat v)
      else if KERNEL_PLACE \<le> v \<and> v < KERNEL_PLACE + 0x200000 then Some (kbase + of_nat (v - KERNEL_PLACE))
      else None)"

lemma place_digits:
  fixes v i3 i2 i1 r30 r21 r12 :: nat
  assumes "v = 2 ^ 30 * i3 + r30" "r30 = 2 ^ 21 * i2 + r21" "r21 = 2 ^ 12 * i1 + r12" "r12 < 2 ^ 12"
    "i1 < 512" "i2 < 512"
  shows "v < 2 ^ 30 \<Longrightarrow> i3 = 0 \<and> 2 ^ 21 * i2 + r21 = v"
    "KERNEL_PLACE \<le> v \<Longrightarrow> v < KERNEL_PLACE + 0x200000 \<Longrightarrow> i3 = 510 \<and>
       (i2 = 0 \<and> \<not> i1 < 256 \<and> 2 ^ 12 * (i1 - 256) + r12 = v - KERNEL_PLACE \<or>
        i2 = 1 \<and> i1 < 256 \<and> 2 ^ 20 + (2 ^ 12 * i1 + r12) = v - KERNEL_PLACE)"
    "2 ^ 30 \<le> v \<Longrightarrow> v < KERNEL_PLACE \<Longrightarrow> i3 \<noteq> 0 \<and> (i3 = 510 \<longrightarrow> i2 = 0 \<and> i1 < 256)"
    "KERNEL_PLACE + 0x200000 \<le> v \<Longrightarrow> i3 \<noteq> 0 \<and> (i3 = 510 \<longrightarrow> i2 \<noteq> 0 \<and> (i2 = 1 \<longrightarrow> 256 \<le> i1))"
proof -
  have eqs: "v = 1073741824 * i3 + r30" "r30 = 2097152 * i2 + r21" "r21 = 4096 * i1 + r12" "r12 < 4096"
    using assms(1-4) by simp_all
  have place: "KERNEL_PLACE = 547609378816" by (simp add: KERNEL_PLACE_def)
  have r21: "r21 < 2097152" using eqs assms(5) by linarith
  have r30: "r30 < 1073741824" using eqs(2) r21 assms(6) by linarith
  show "v < 2 ^ 30 \<Longrightarrow> i3 = 0 \<and> 2 ^ 21 * i2 + r21 = v" using eqs(1,2) by auto
  show "2 ^ 30 \<le> v \<Longrightarrow> v < KERNEL_PLACE \<Longrightarrow> i3 \<noteq> 0 \<and> (i3 = 510 \<longrightarrow> i2 = 0 \<and> i1 < 256)"
  proof (intro conjI impI)
    assume v: "2 ^ 30 \<le> v" "v < KERNEL_PLACE"
    show "i3 \<noteq> 0" using v(1) eqs(1) r30 by auto
    assume i3: "i3 = 510"
    show i2: "i2 = 0" using v(2) eqs(1,2) i3 unfolding place by linarith
    show "i1 < 256" using v(2) eqs i3 i2 unfolding place by linarith
  qed
  show "KERNEL_PLACE + 0x200000 \<le> v \<Longrightarrow> i3 \<noteq> 0 \<and> (i3 = 510 \<longrightarrow> i2 \<noteq> 0 \<and> (i2 = 1 \<longrightarrow> 256 \<le> i1))"
  proof (intro conjI impI)
    assume v: "KERNEL_PLACE + 0x200000 \<le> v"
    show "i3 \<noteq> 0" using v eqs(1) r30 unfolding place by auto
    assume i3: "i3 = 510"
    show "i2 \<noteq> 0" using v eqs(1,2) r21 i3 unfolding place by auto
    assume i2: "i2 = 1"
    show "256 \<le> i1" using v eqs i3 i2 unfolding place by linarith
  qed
  assume v: "KERNEL_PLACE \<le> v" "v < KERNEL_PLACE + 0x200000"
  have "i3 < 511" "509 < i3" using v eqs(1) r30 unfolding place by linarith+
  then have i3: "i3 = 510" by simp
  have "i2 < 2" using v(2) eqs(1,2) i3 unfolding place by linarith
  then consider "i2 = 0" | "i2 = 1" by linarith
  then show "i3 = 510 \<and>
       (i2 = 0 \<and> \<not> i1 < 256 \<and> 2 ^ 12 * (i1 - 256) + r12 = v - KERNEL_PLACE \<or>
        i2 = 1 \<and> i1 < 256 \<and> 2 ^ 20 + (2 ^ 12 * i1 + r12) = v - KERNEL_PLACE)"
  proof cases
    case 1
    have "\<not> i1 < 256" using v(1) eqs i3 1 unfolding place by linarith
    then show ?thesis using eqs i3 1 by (auto simp: place diff_mult_distrib2)
  next
    case 2
    have "i1 < 256" using v(2) eqs i3 2 unfolding place by linarith
    then show ?thesis using eqs i3 2 by (auto simp: place)
  qed
qed

lemma boot_page_walk:
  assumes p: "block 12 p" "unat p + 0x6000 \<le> 2 ^ 52" and kbase: "block 12 kbase" "unat kbase + 0x200000 \<le> 2 ^ 52"
    and words: "\<And>k. k < 3072 \<Longrightarrow> mm (p + 8 * of_nat k) = table_word p kbase k"
  shows "page_walk mm p va = boot_translation kbase va"
proof -
  let ?i4 = "table_index va 39" and ?i3 = "table_index va 30" and ?i2 = "table_index va 21" and ?i1 = "table_index va 12"
  let ?v = "unat va mod 2 ^ 39"
  have less: "table_index va sh < 512" for sh by (simp add: table_index_unat)
  have at: "mm (entry_address (p + of_nat t * 0x1000) i) = table_word p kbase (512 * t + i)" if "i < 512" "t < 6" for t i
    using words [of "512 * t + i"] that by (simp add: entry_address_def algebra_simps)
  have tables: "block 12 (p + of_nat t * 0x1000)" if "t < 6" for t
    using block_offset [OF p(1), of t] p(2) that by simp
  note at4 = at [of _ 0, simplified] and at3 = at [of _ 1, simplified] and at2 = at [of _ 2, simplified]
    and at2' = at [of _ 3, simplified] and at1 = at [of _ 4, simplified] and at1' = at [of _ 5, simplified]
  note t1 = tables [of 1, simplified] and t2 = tables [of 2, simplified] and t3 = tables [of 3, simplified]
    and t4 = tables [of 4, simplified] and t5 = tables [of 5, simplified]
  have w4: "table_word p kbase i = (if i = 0 \<or> i = 511 then p + 0x1000 OR 3 else 0)" if "i < 512" for i
    using that by (simp add: table_word_def)
  have w3: "table_word p kbase (512 + i) = (if i = 0 then p + 0x2000 OR 3 else if i = 510 then p + 0x3000 OR 3 else 0)"
    if "i < 512" for i
    using that by (simp add: table_word_def)
  have w2: "table_word p kbase (1024 + i) = of_nat i * 0x200000 OR 0x83" if "i < 512" for i
    using that by (simp add: table_word_def)
  have w2': "table_word p kbase (1536 + i) = (if i = 0 then p + 0x4000 OR 3 else if i = 1 then p + 0x5000 OR 3 else 0)"
    if "i < 512" for i
    using that by (simp add: table_word_def)
  have w1: "table_word p kbase (2048 + i) = (if i < 256 then 0 else kbase + of_nat (i - 256) * 0x1000 OR 3)"
    if "i < 512" for i
    using that by (simp add: table_word_def)
  have w1': "table_word p kbase (2560 + i) = (if i < 256 then kbase + 0x100000 + of_nat i * 0x1000 OR 3 else 0)"
    if "i < 512" for i
    using that by (simp add: table_word_def)
  have large: "block 21 (of_nat i * 0x200000)" if "i < 512" for i
    using block_offset [of 21 0 i] that by (simp add: block_def)
  have page: "block 12 (kbase + of_nat i * 0x1000)" if "i < 512" for i
    using block_offset [OF kbase(1), of i] kbase(2) that by simp
  have page': "block 12 (kbase + 0x100000 + of_nat i * 0x1000)" if "i < 256" for i
    using page [of "256 + i"] that by (simp add: algebra_simps)
  have walk: "page_walk mm p va =
     (if ?i4 \<noteq> 0 \<and> ?i4 \<noteq> 511 then None
      else if ?i3 = 0 then Some (of_nat ?i2 * 0x200000 + take_bit 21 va)
      else if ?i3 = 510 then
        (if ?i2 = 0 then if ?i1 < 256 then None else Some (kbase + of_nat (?i1 - 256) * 0x1000 + take_bit 12 va)
         else if ?i2 = 1 then if ?i1 < 256 then Some (kbase + 0x100000 + of_nat ?i1 * 0x1000 + take_bit 12 va) else None
         else None)
      else None)"
  proof -
    note E4 = at4 [OF less, of 39, unfolded w4 [OF less]] and E3 = at3 [OF less, of 30, unfolded w3 [OF less]]
      and E2 = at2 [OF less, of 21, unfolded w2 [OF less]] and E2' = at2' [OF less, of 21, unfolded w2' [OF less]]
      and E1 = at1 [OF less, of 12, unfolded w1 [OF less]] and E1' = at1' [OF less, of 12, unfolded w1' [OF less]]
    note frames = entry_bits(1,4) [OF t1] entry_bits(1,4) [OF t2] entry_bits(1,4) [OF t3] entry_bits(1,4) [OF t4]
      entry_bits(1,4) [OF t5] entry_bits(2,3,5) entry_bits(6) [OF large [OF less]]
    have big: "of_nat ?i2 * 0x200000 OR take_bit 21 va = of_nat ?i2 * 0x200000 + take_bit 21 va"
      by (rule block_join) (rule large [OF less])
    have small: "frame_of (kbase + of_nat (?i1 - 256) * 0x1000 OR 3) OR take_bit 12 va =
        kbase + of_nat (?i1 - 256) * 0x1000 + take_bit 12 va"
    proof -
      have "?i1 - 256 < 512" using less [of 12] by simp
      then show ?thesis by (simp only: entry_bits(1) [OF page] block_join [OF page])
    qed
    have small': "frame_of (kbase + 0x100000 + of_nat ?i1 * 0x1000 OR 3) OR take_bit 12 va =
        kbase + 0x100000 + of_nat ?i1 * 0x1000 + take_bit 12 va" if "?i1 < 256"
      by (simp only: entry_bits(1) [OF page' [OF that]] block_join [OF page' [OF that]])
    have zero: "(0 :: u64) AND PAGE_PRESENT = 0" by simp
    consider "?i4 \<noteq> 0 \<and> ?i4 \<noteq> 511" | "?i4 = 0 \<or> ?i4 = 511" "?i3 = 0"
      | "?i4 = 0 \<or> ?i4 = 511" "?i3 = 510" | "?i4 = 0 \<or> ?i4 = 511" "?i3 \<noteq> 0" "?i3 \<noteq> 510" by metis
    then show ?thesis
    proof cases
      case 1
      then show ?thesis by (simp add: page_walk_def E4)
    next
      case 2
      then have "?i4 \<noteq> 0 \<and> ?i4 \<noteq> 511 \<longleftrightarrow> False" by auto
      then show ?thesis
        unfolding page_walk_def Let_def E4 by (simp only: 2 if_True if_False frames E3 [unfolded 2(2)] E2 big simp_thms)
    next
      case 3
      then have no: "?i4 \<noteq> 0 \<and> ?i4 \<noteq> 511 \<longleftrightarrow> False" "(510 :: nat) = 0 \<longleftrightarrow> False" by auto
      consider "?i2 = 0" | "?i2 = 1" | "?i2 \<noteq> 0" "?i2 \<noteq> 1" by metis
      then show ?thesis
      proof cases
        case 1
        show ?thesis
          unfolding page_walk_def Let_def E4
          by (simp only: 1 3 no if_True if_False frames E3 [unfolded 3(2)] E2' [unfolded 1] E1 simp_thms)
            (cases "?i1 < 256"; simp only: if_True if_False frames zero small simp_thms)
      next
        case 2
        show ?thesis
          unfolding page_walk_def Let_def E4
          by (simp only: 2 3 no if_True if_False frames E3 [unfolded 3(2)] E2' [unfolded 2] E1' simp_thms one_neq_zero)
            (cases "?i1 < 256"; simp only: if_True if_False frames zero small' simp_thms)
      next
        case other: 3
        then have "?i2 = 0 \<longleftrightarrow> False" "?i2 = 1 \<longleftrightarrow> False" by auto
        then show ?thesis
          unfolding page_walk_def Let_def E4
          by (simp only: 3 no if_True if_False frames E3 [unfolded 3(2)] E2' zero simp_thms)
      qed
    next
      case 4
      then have "?i4 \<noteq> 0 \<and> ?i4 \<noteq> 511 \<longleftrightarrow> False" "?i3 = 0 \<longleftrightarrow> False" "?i3 = 510 \<longleftrightarrow> False" by auto
      then show ?thesis
        unfolding page_walk_def Let_def E4 by (simp only: 4 if_True if_False frames E3 zero simp_thms)
    qed
  qed
  define n v r30 r21 r12 where "n = unat va" and "v = n mod 2 ^ 39" and "r30 = n mod 2 ^ 30" and "r21 = n mod 2 ^ 21"
    and "r12 = n mod 2 ^ 12"
  note parts = n_def [symmetric] v_def [symmetric] r30_def [symmetric] r21_def [symmetric] r12_def [symmetric]
  have v: "v = 2 ^ 30 * ?i3 + r30" "r30 = 2 ^ 21 * ?i2 + r21" "r21 = 2 ^ 12 * ?i1 + r12" "r12 < 2 ^ 12"
    using mod_mult2_eq [of n "2 ^ 30" 512] mod_mult2_eq [of n "2 ^ 21" 512] mod_mult2_eq [of n "2 ^ 12" 512]
    by (simp_all add: table_index_unat v_def r30_def r21_def r12_def n_def)
  note place = place_digits [OF v less less]
  have low: "take_bit b va = of_nat (n mod 2 ^ b)" for b
    unfolding n_def by (subst unat_take_bit [symmetric]) simp
  have joined: "of_nat ?i2 * 0x200000 + of_nat r21 = (of_nat (2 ^ 21 * ?i2 + r21) :: u64)"
    "kbase + of_nat (?i1 - 256) * 0x1000 + of_nat r12 = kbase + of_nat (2 ^ 12 * (?i1 - 256) + r12)"
    "kbase + 0x100000 + of_nat ?i1 * 0x1000 + of_nat r12 = kbase + of_nat (2 ^ 20 + (2 ^ 12 * ?i1 + r12))"
    by simp_all
  note open_up = walk boot_translation_def low parts joined Let_def
  have above: "\<not> v < 2 ^ 30" if "KERNEL_PLACE \<le> v" using that by (simp add: KERNEL_PLACE_def)
  consider "?i4 \<noteq> 0 \<and> ?i4 \<noteq> 511" | "?i4 = 0 \<or> ?i4 = 511" "v < 2 ^ 30"
    | "?i4 = 0 \<or> ?i4 = 511" "KERNEL_PLACE \<le> v" "v < KERNEL_PLACE + 0x200000"
    | "?i4 = 0 \<or> ?i4 = 511" "2 ^ 30 \<le> v" "v < KERNEL_PLACE"
    | "?i4 = 0 \<or> ?i4 = 511" "KERNEL_PLACE + 0x200000 \<le> v"
    by linarith
  then show ?thesis
  proof cases
    case 1
    then show ?thesis unfolding walk boot_translation_def by simp
  next
    case 2
    then show ?thesis using place(1) unfolding open_up by auto
  next
    case 3
    then show ?thesis using place(2) above unfolding open_up
      by (auto simp del: of_nat_add of_nat_mult of_nat_diff of_nat_numeral)
  next
    case 4
    then show ?thesis using place(3) unfolding open_up by auto
  next
    case 5
    then have "KERNEL_PLACE \<le> v" by simp
    then show ?thesis using 5 place(4) above unfolding open_up by auto
  qed
qed

lemma built_page_walk:
  assumes "block 12 p" "unat p + 0x6000 \<le> 2 ^ 52" "block 12 kbase" "unat kbase + 0x200000 \<le> 2 ^ 52"
  shows "page_walk (load64 (build_tables p kbase m)) p va = boot_translation kbase va"
  using assms by (intro boot_page_walk build_tables_word)

end
