(* ===== verification/Uefi_Load.thy ===== *)
theory Uefi_Load
  imports Uefi_Tables
begin

text \<open>
  What \<open>load_kernel\<close> does to memory: it stores nothing outside the allocation it is given, whatever the image
  is, and when it succeeds every load segment lies in memory with its zeros behind it.
\<close>

unbundle bit_operations_syntax

section \<open>The test of a segment\<close>

lemma add_overflow_Some: "add_overflow a b = Some c \<longleftrightarrow> unat a + unat b < 2 ^ 64 \<and> c = a + b"
proof -
  have "unat (- 1 - b) = 2 ^ 64 - 1 - unat b"
    using unat_less_pow [of b] by (simp add: unat_sub_if' unsigned_minus_1_eq_mask mask_eq_exp_minus_1)
  then have "a > - 1 - b \<longleftrightarrow> \<not> unat a + unat b < 2 ^ 64"
    using unat_less_pow [of b] by (auto simp: word_less_nat_alt)
  then show ?thesis by (auto simp: add_overflow_def)
qed

definition is_load_segment :: "kernel_segment \<Rightarrow> bool" where
  "is_load_segment p \<longleftrightarrow> ks_type p = 1"

text \<open>The place of a segment in the allocation.\<close>

definition segment_place :: "kernel_segment \<Rightarrow> u64" where
  "segment_place p = ks_physical p - KERNEL_PHYSICAL"

definition segment_fits :: "nat \<Rightarrow> u64 \<Rightarrow> kernel_segment \<Rightarrow> bool" where
  "segment_fits image_size allocation_size p \<longleftrightarrow>
     unat (ks_file_size p) \<le> unat (ks_memory_size p) \<and>
     unat (ks_offset p) + unat (ks_file_size p) \<le> image_size \<and>
     KERNEL_PHYSICAL \<le> ks_physical p \<and>
     unat (segment_place p) + unat (ks_memory_size p) \<le> unat allocation_size \<and>
     unat (ks_virtual p) + unat (ks_memory_size p) < 2 ^ 64"

lemma check_segment_fits:
  assumes "check_segment image_size allocation_size p = Some e"
  shows "segment_fits (unat image_size) allocation_size p" "e = ks_virtual p + ks_memory_size p"
proof -
  have parts: "ks_file_size p \<le> ks_memory_size p" "ks_offset p \<le> image_size"
    "ks_file_size p \<le> image_size - ks_offset p" "KERNEL_PHYSICAL \<le> ks_physical p"
    and ends: "unat (ks_physical p) + unat (ks_memory_size p) < 2 ^ 64"
    "\<not> ks_physical p + ks_memory_size p - KERNEL_PHYSICAL > allocation_size"
    "unat (ks_virtual p) + unat (ks_memory_size p) < 2 ^ 64" and e: "e = ks_virtual p + ks_memory_size p"
    using assms by (auto simp: check_segment_def add_overflow_Some not_less split: if_splits option.splits)
  have place: "ks_physical p + ks_memory_size p - KERNEL_PHYSICAL = segment_place p + ks_memory_size p"
    by (simp add: segment_place_def)
  have "unat (segment_place p) = unat (ks_physical p) - unat KERNEL_PHYSICAL"
    using parts(4) by (simp add: segment_place_def unat_sub)
  then have "unat (segment_place p + ks_memory_size p) = unat (segment_place p) + unat (ks_memory_size p)"
    using ends(1) by (simp add: unat_word_ariths)
  then have "unat (segment_place p) + unat (ks_memory_size p) \<le> unat allocation_size"
    using ends(2) unfolding place by (simp add: not_less word_le_nat_alt)
  then show "segment_fits (unat image_size) allocation_size p"
    using parts ends(1,3)
    by (auto simp: segment_fits_def not_less word_le_nat_alt unat_sub le_diff_conv2 add.commute)
  show "e = ks_virtual p + ks_memory_size p" by (rule e)
qed

section \<open>Storing a segment\<close>

text \<open>The byte of a segment at an offset: from the file, and zero behind it.\<close>

definition segment_byte :: "byte list \<Rightarrow> kernel_segment \<Rightarrow> nat \<Rightarrow> byte" where
  "segment_byte img p k = (if k < unat (ks_file_size p) then img ! (unat (ks_offset p) + k) else 0)"

lemma load_segment_at:
  assumes "segment_fits (length img) allocation_size p"
  shows "lo_mem (load_segment img destination p s) x =
    (if in_area (destination + segment_place p) (unat (ks_memory_size p)) x
     then segment_byte img p (unat (x - (destination + segment_place p))) else lo_mem s x)"
proof -
  let ?a = "destination + segment_place p" and ?f = "unat (ks_file_size p)" and ?m = "unat (ks_memory_size p)"
  have fits: "?f \<le> ?m" "unat (ks_offset p) + ?f \<le> length img"
    using assms by (simp_all add: segment_fits_def)
  have len: "length (field img (unat (ks_offset p)) ?f) = ?f" using fits(2) by (simp add: length_field)
  have small: "?f \<le> 2 ^ 64" using unat_less_pow [of "ks_file_size p"] by simp
  have rest: "unat (ks_memory_size p - ks_file_size p) = ?m - ?f" using fits(1) by (simp add: unat_sub word_le_nat_alt)
  have behind: "x - (?a + ks_file_size p) = x - ?a - ks_file_size p" by simp
  have "in_area (?a + ks_file_size p) (?m - ?f) x \<longleftrightarrow> in_area ?a ?m x \<and> \<not> in_area ?a ?f x"
    unfolding in_area_def behind unat_sub_if' using fits(1) unat_less_pow [of "x - ?a"] unat_less_pow [of "ks_memory_size p"]
    by (auto simp: in_area_def)
  moreover have "in_area ?a ?f x \<longrightarrow> in_area ?a ?m x" using fits(1) by (auto simp: in_area_def)
  ultimately show ?thesis
    using fits(2) len small rest
    by (auto simp: load_segment_def Let_def segment_place_def [symmetric] clear_bytes_at copy_bytes_at segment_byte_def
        in_area_def field_def)
qed

lemma load_segment_keeps:
  assumes "segment_fits (length img) allocation_size p" "\<not> in_area destination (unat allocation_size) x"
  shows "lo_mem (load_segment img destination p s) x = lo_mem s x"
proof -
  have "\<not> in_area (destination + segment_place p) (unat (ks_memory_size p)) x"
  proof
    assume inside: "in_area (destination + segment_place p) (unat (ks_memory_size p)) x"
    define y where "y = x - (destination + segment_place p)"
    have split: "x - destination = y + segment_place p" by (simp add: y_def)
    have room: "unat (segment_place p) + unat (ks_memory_size p) \<le> unat allocation_size"
      using assms(1) by (simp add: segment_fits_def)
    have "unat (x - destination) < unat allocation_size"
      using inside room unat_less_pow [of allocation_size]
      unfolding split in_area_def y_def [symmetric] by (simp add: unat_word_ariths)
    then show False using assms(2) by (simp add: in_area_def)
  qed
  then show ?thesis using load_segment_at [OF assms(1)] by simp
qed

lemma serial_text_mem [simp]: "lo_mem (serial_text t s) = lo_mem s" "lo_calls (serial_text t s) = lo_calls s"
proof -
  have "lo_mem (fold serial_out bs s) = lo_mem s \<and> lo_calls (fold serial_out bs s) = lo_calls s" for bs
    by (induction bs arbitrary: s) (simp_all add: serial_out_def)
  then show "lo_mem (serial_text t s) = lo_mem s" "lo_calls (serial_text t s) = lo_calls s"
    by (simp_all only: serial_text_def)
qed

section \<open>The loop over the segments\<close>

lemma unat_length: "length xs < 2 ^ 64 \<Longrightarrow> unat (of_nat (length xs) :: u64) = length xs"
  by (simp add: unat_of_nat)

lemma load_segment_calls [simp]: "lo_calls (load_segment img destination p s) = lo_calls s"
  by (simp add: load_segment_def Let_def)

lemma load_segments_keeps:
  assumes size: "length img < 2 ^ 64" and out: "\<not> in_area destination (unat allocation_size) x"
  shows "lo_mem (snd (load_segments img destination allocation_size ps b s)) x = lo_mem s x"
proof (induction ps arbitrary: b s)
  case (Cons p ps)
  have "lo_mem (load_segment img destination p s) x = lo_mem s x"
    if e: "check_segment (of_nat (length img)) allocation_size p = Some e" for e
    by (rule load_segment_keeps [OF _ out]) (use check_segment_fits(1) [OF e] unat_length [OF size] in simp)
  then show ?case using Cons.IH by (auto split: option.split)
qed simp

text \<open>A loop that ends normally has loaded every load segment, in order.\<close>

lemma load_segments_done:
  assumes size: "length img < 2 ^ 64" and run: "load_segments img destination allocation_size ps b s = (Some b', s')"
  shows "(\<forall>p\<in>set (filter is_load_segment ps). segment_fits (length img) allocation_size p) \<and>
    (b' \<longleftrightarrow> b \<or> (\<exists>p\<in>set (filter is_load_segment ps). ks_virtual p \<le> kernel_entry img \<and>
       kernel_entry img < ks_virtual p + ks_memory_size p)) \<and>
    s' = fold (load_segment img destination) (filter is_load_segment ps) s"
  using run
proof (induction ps arbitrary: b s)
  case Nil
  then show ?case by auto
next
  case (Cons p ps)
  show ?case
  proof (cases "ks_type p = 1")
    case False
    then show ?thesis using Cons by (simp add: is_load_segment_def)
  next
    case True
    with Cons.prems obtain e where e: "check_segment (of_nat (length img)) allocation_size p = Some e"
      and rest: "load_segments img destination allocation_size ps
        (kernel_entry img \<ge> ks_virtual p \<and> kernel_entry img < e \<or> b) (load_segment img destination p s) = (Some b', s')"
      by (auto split: option.splits if_splits)
    note fits = check_segment_fits [OF e, unfolded unat_length [OF size]]
    show ?thesis using Cons.IH [OF rest] True fits by (simp add: is_load_segment_def) blast
  qed
qed

text \<open>A segment survives the loading of segments that do not overlap it.\<close>

definition segments_apart :: "kernel_segment \<Rightarrow> kernel_segment \<Rightarrow> bool" where
  "segments_apart p q \<longleftrightarrow> unat (segment_place p) + unat (ks_memory_size p) \<le> unat (segment_place q) \<or>
     unat (segment_place q) + unat (ks_memory_size q) \<le> unat (segment_place p)"

lemma apart_keeps:
  assumes "segment_fits n allocation_size p" "segment_fits n allocation_size q" "segments_apart p q"
    "in_area (destination + segment_place p) (unat (ks_memory_size p)) x"
  shows "\<not> in_area (destination + segment_place q) (unat (ks_memory_size q)) x"
proof -
  have split: "x - (destination + segment_place r) = (x - destination) - segment_place r" for r by simp
  show ?thesis
    using assms unat_less_pow [of "x - destination"] unat_less_pow [of allocation_size]
    unfolding in_area_def segments_apart_def segment_fits_def split unat_sub_if' by (auto split: if_splits)
qed

lemma loaded_segments:
  assumes "\<forall>p\<in>set ps. segment_fits (length img) allocation_size p" "i < length ps"
    "\<forall>j. i < j \<and> j < length ps \<longrightarrow> segments_apart (ps ! i) (ps ! j)" "k < unat (ks_memory_size (ps ! i))"
  shows "lo_mem (fold (load_segment img destination) ps s) (destination + segment_place (ps ! i) + of_nat k) =
    segment_byte img (ps ! i) k"
  using assms
proof (induction ps arbitrary: i s)
  case Nil
  then show ?case by simp
next
  case (Cons p ps)
  show ?case
  proof (cases i)
    case (Suc j)
    have "\<forall>m. j < m \<and> m < length ps \<longrightarrow> segments_apart (ps ! j) (ps ! m)"
      using Cons.prems(3) Suc by (metis Suc_less_eq length_Cons nth_Cons_Suc)
    then show ?thesis using Cons.IH [of j] Cons.prems(1,2,4) Suc by simp
  next
    case 0
    let ?x = "destination + segment_place p + of_nat k"
    have k: "k < unat (ks_memory_size p)" using Cons.prems(4) 0 by simp
    then have "unat (of_nat k :: u64) = k" using unat_less_pow [of "ks_memory_size p"] by (simp add: unat_of_nat)
    then have area: "in_area (destination + segment_place p) (unat (ks_memory_size p)) ?x" and at: "unat (?x - (destination + segment_place p)) = k"
      using k by (simp_all add: in_area_def)
    have keep: "lo_mem (fold (load_segment img destination) qs t) ?x = lo_mem t ?x"
      if "\<forall>q\<in>set qs. segment_fits (length img) allocation_size q \<and> segments_apart p q" for qs t
      using that
    proof (induction qs arbitrary: t)
      case (Cons q qs)
      then have "\<not> in_area (destination + segment_place q) (unat (ks_memory_size q)) ?x"
        using apart_keeps [OF _ _ _ area] \<open>\<forall>p\<in>set (p # ps). segment_fits (length img) allocation_size p\<close> by auto
      then show ?case using Cons load_segment_at [of img allocation_size q destination t ?x] by auto
    qed simp
    have "\<forall>q\<in>set ps. segment_fits (length img) allocation_size q \<and> segments_apart p q"
    proof
      fix q assume "q \<in> set ps"
      then obtain j where "j < length ps" "q = ps ! j" by (auto simp: in_set_conv_nth)
      then show "segment_fits (length img) allocation_size q \<and> segments_apart p q"
        using Cons.prems(1) spec [OF Cons.prems(3), of "Suc j"] 0 by auto
    qed
    then show ?thesis
      using keep [of ps] load_segment_at [of img allocation_size p destination s ?x] Cons.prems(1) area at 0 by auto
  qed
qed

section \<open>The whole routine\<close>

lemma load_kernel_Some:
  assumes "length img < 2 ^ 64" "load_kernel img destination allocation_size s = (Some entry, s')"
  shows "\<forall>p\<in>set (filter is_load_segment (segments img)). segment_fits (length img) allocation_size p"
    "entry = kernel_entry img"
    "\<exists>p\<in>set (filter is_load_segment (segments img)). ks_virtual p \<le> entry \<and> entry < ks_virtual p + ks_memory_size p"
    "s' = fold (load_segment img destination) (filter is_load_segment (segments img)) s"
proof -
  from assms(2) obtain s1 where run: "load_segments img destination allocation_size (segments img) False s = (Some True, s1)"
    and "entry = kernel_entry img" "s' = s1"
    by (auto simp: load_kernel_def split: if_splits prod.splits option.splits)
  with load_segments_done [OF assms(1) run] show
    "\<forall>p\<in>set (filter is_load_segment (segments img)). segment_fits (length img) allocation_size p"
    "entry = kernel_entry img"
    "\<exists>p\<in>set (filter is_load_segment (segments img)). ks_virtual p \<le> entry \<and> entry < ks_virtual p + ks_memory_size p"
    "s' = fold (load_segment img destination) (filter is_load_segment (segments img)) s"
    by blast+
qed

lemma load_kernel_keeps:
  assumes "length img < 2 ^ 64" "load_kernel img destination allocation_size s = (r, s')"
    "\<not> in_area destination (unat allocation_size) x"
  shows "lo_mem s' x = lo_mem s x"
proof -
  show ?thesis
    using load_segments_keeps [OF assms(1,3), of "segments img" False s] assms(2)
    by (auto simp: load_kernel_def split: if_splits option.splits prod.splits)
qed

lemma load_kernel_calls: "load_kernel img destination allocation_size s = (r, s') \<Longrightarrow> lo_calls s' = lo_calls s"
proof -
  have loop: "lo_calls (snd (load_segments img destination allocation_size ps b s)) = lo_calls s" for ps b s
    by (induction ps arbitrary: b s) (simp_all split: option.split)
  show "load_kernel img destination allocation_size s = (r, s') \<Longrightarrow> lo_calls s' = lo_calls s"
    using loop [of "segments img" False s] by (auto simp: load_kernel_def split: if_splits prod.splits option.splits)
qed

end
