(* ===== verification/Uefi_Map.thy ===== *)
theory Uefi_Map
  imports Uefi_Tables
begin

text \<open>
  The memory map the loader hands to the kernel: the first 64 descriptors of free memory, in the order of the
  firmware's map, and nothing stored outside the 64 records.
\<close>

unbundle bit_operations_syntax

section \<open>The map of the firmware and the map of the kernel\<close>

definition descriptors :: "byte list \<Rightarrow> nat \<Rightarrow> byte list list" where
  "descriptors bs n = map (\<lambda>i. field bs (i * n) 40) [0..<length bs div n]"

definition conventional :: "byte list list \<Rightarrow> boot_memory_region list" where
  "conventional ds = map (\<lambda>d. Region (u64_at d 8) (u64_at d 24 * PAGE_SIZE) 1) (filter (\<lambda>d. u32_at d 0 = EFI_CONVENTIONAL_MEMORY) ds)"

definition region_at :: "bytes_at \<Rightarrow> u64 \<Rightarrow> nat \<Rightarrow> boot_memory_region" where
  "region_at m a i = (let b = read_bytes m (a + 24 * of_nat i) 24 in Region (u64_at b 0) (u64_at b 8) (u32_at b 16))"

definition regions_at :: "bytes_at \<Rightarrow> u64 \<Rightarrow> nat \<Rightarrow> boot_memory_region list" where
  "regions_at m a n = map (region_at m a) [0..<n]"

lemma length_regions_at [simp]: "length (regions_at m a n) = n"
  by (simp add: regions_at_def)

section \<open>One record\<close>

lemma length_region_bytes [simp]: "length (region_bytes a n) = 24"
  by (simp add: region_bytes_def)

lemma region_read_back:
  "region_at (copy_bytes (a + 24 * of_nat i) (region_bytes start len) m) a i = Region start len 1"
proof -
  have "read_bytes (copy_bytes (a + 24 * of_nat i) (region_bytes start len) m) (a + 24 * of_nat i) 24 = region_bytes start len"
    using read_copied [of "region_bytes start len" 0 24 "a + 24 * of_nat i" m] by (simp add: field_whole)
  then show ?thesis
    by (simp add: region_at_def region_bytes_def u64_at_def u32_at_def field_layout)
qed

lemma record_keeps:
  assumes "j < i" "i < 64" "k < 24"
  shows "copy_bytes (a + 24 * of_nat i) (region_bytes start len) m (a + 24 * of_nat j + of_nat k) = m (a + 24 * of_nat j + of_nat k)"
proof -
  have off: "a + 24 * of_nat j + of_nat k - (a + 24 * of_nat i) = (of_nat (24 * j + k) - of_nat (24 * i) :: u64)" by simp
  have "unat (of_nat (24 * j + k) :: u64) = 24 * j + k" "unat (of_nat (24 * i) :: u64) = 24 * i"
    using assms by (simp_all only: unat_of_nat) simp_all
  then have "unat (of_nat (24 * j + k) - of_nat (24 * i) :: u64) \<ge> 24"
    unfolding unat_sub_if' using assms by auto
  then show ?thesis by (subst copy_bytes_at) (simp_all add: in_area_def off del: of_nat_add of_nat_mult)
qed

lemma regions_extended:
  assumes "n < 64"
  shows "regions_at (copy_bytes (a + 24 * of_nat n) (region_bytes start len) m) a (n + 1) = regions_at m a n @ [Region start len 1]"
proof -
  have "region_at (copy_bytes (a + 24 * of_nat n) (region_bytes start len) m) a j = region_at m a j" if "j < n" for j
    unfolding region_at_def
    by (simp only: read_unchanged [where m' = "copy_bytes (a + 24 * of_nat n) (region_bytes start len) m" and m = m,
          OF record_keeps [OF that assms]])
  then show ?thesis by (simp add: regions_at_def region_read_back)
qed

lemma record_in_array:
  assumes "n < 64" "\<not> in_area a 1536 x"
  shows "copy_bytes (a + 24 * of_nat n) (region_bytes start len) m x = m x"
proof -
  have n: "unat (24 * of_nat n :: u64) = 24 * n"
  proof -
    have "unat (of_nat (24 * n) :: u64) = 24 * n" using assms(1) by (simp only: unat_of_nat) simp
    then show ?thesis by simp
  qed
  have off: "x - (a + 24 * of_nat n) = x - a - 24 * of_nat n" by simp
  have "\<not> in_area (a + 24 * of_nat n) 24 x"
    using assms n unat_less_pow [of "x - a"] unfolding in_area_def off unat_sub_if' by auto
  then show ?thesis by (simp add: copy_bytes_at)
qed

section \<open>The loop\<close>

lemma conventional_Cons:
  "conventional (d # ds) = (if u32_at d 0 = EFI_CONVENTIONAL_MEMORY
     then [Region (u64_at d 8) (u64_at d 24 * PAGE_SIZE) 1] else []) @ conventional ds"
  by (simp add: conventional_def)

text \<open>The bytes of the map stay in memory while the records are stored.\<close>

lemma map_survives:
  assumes "read_bytes m b (length bs) = bs" "\<And>k. k < length bs \<Longrightarrow> m' (b + of_nat k) = m (b + of_nat k)"
  shows "read_bytes m' b (length bs) = bs"
  using assms(1) read_unchanged [of "length bs" m' b m] assms(2) by simp

lemma read_part:
  assumes "read_bytes m b (length bs) = bs" "off + n \<le> length bs"
  shows "read_bytes m (b + of_nat off) n = field bs off n"
proof (rule nth_equalityI)
  fix i assume "i < length (read_bytes m (b + of_nat off) n)"
  then have i: "i < n" by simp
  then have "bs ! (off + i) = m (b + of_nat (off + i))"
    using assms read_bytes_nth [of "off + i" "length bs" m b] by simp
  then show "read_bytes m (b + of_nat off) n ! i = field bs off n ! i"
    using i assms(2) by (simp add: read_bytes_nth field_def add.assoc)
qed (use assms(2) in \<open>simp add: length_field\<close>)

lemma collect_loop:
  assumes n: "40 \<le> unat ds" and len: "length bs \<le> 65536"
    and apart: "\<And>k. k < length bs \<Longrightarrow> \<not> in_area a 1536 (b + of_nat k)"
    and start: "read_bytes m b (length bs) = bs" "c \<le> 64" "i \<le> length bs div unat ds" "length bs div unat ds - i < fuel"
    and run: "collect_descriptors fuel b (of_nat (length bs)) ds a (of_nat (i * unat ds)) (c, m) = (c', m')"
  shows "regions_at m' a c' = take 64 (regions_at m a c @ conventional (drop i (descriptors bs (unat ds)))) \<and>
    (\<forall>x. \<not> in_area a 1536 x \<longrightarrow> m' x = m x)"
  using start run
proof (induction fuel arbitrary: c m i)
  case 0
  then show ?case by simp
next
  case (Suc fuel)
  let ?n = "unat ds" and ?off = "of_nat (i * unat ds) :: u64"
  have div: "i * ?n \<le> length bs" using Suc.prems(3) n by (metis dual_order.trans mult.commute mult_le_mono2 times_div_less_eq_dividend)
  have off: "unat ?off = i * ?n" using div len by (simp only: unat_of_nat) simp
  have "unat (?off + ds) = i * ?n + ?n"
  proof (cases "i = 0")
    case False
    then have "?n \<le> i * ?n" by simp
    then have "i * ?n + ?n \<le> 65536 + 65536" using div len by (intro add_mono) (blast intro: order_trans)+
    then have "i * ?n + ?n < 2 ^ 64" by (rule le_less_trans) simp
    then show ?thesis by (simp only: unat_word_ariths off) simp
  qed simp
  moreover have size: "unat (of_nat (length bs) :: u64) = length bs" using len by (simp only: unat_of_nat) simp
  ultimately have test: "?off + ds \<le> of_nat (length bs) \<longleftrightarrow> i < length bs div ?n"
    using n by (simp add: word_le_nat_alt less_eq_div_iff_mult_less_eq Suc_le_eq [symmetric] add.commute)
  have shown: "regions_at m a c @ [] = take 64 (regions_at m a c @ [])" using Suc.prems(2) by (simp add: regions_at_def)
  show ?case
  proof (cases "i < length bs div ?n \<and> c < 64")
    case False
    then have same: "c' = c" "m' = m" using Suc.prems(5) test by (auto simp: QUANTA_BOOT_MAX_MEMORY_REGIONS_def)
    show ?thesis
    proof (cases "c < 64")
      case True
      then have "drop i (descriptors bs ?n) = []" using False Suc.prems(3) by (simp add: descriptors_def)
      then show ?thesis using same shown by (simp add: conventional_def)
    next
      case False
      then show ?thesis using same Suc.prems(2) by (simp add: regions_at_def)
    qed
  next
    case True
    let ?d = "field bs (i * ?n) 40"
    have "Suc i * ?n \<le> length bs" using True n by (metis Suc_leI less_eq_div_iff_mult_less_eq less_le_trans zero_less_numeral)
    then have inside: "i * ?n + 40 \<le> length bs" using n by simp
    have d: "read_bytes m (b + ?off) 40 = ?d" by (rule read_part [OF Suc.prems(1) inside])
    have rest: "drop i (descriptors bs ?n) = ?d # drop (Suc i) (descriptors bs ?n)"
      using True by (subst Cons_nth_drop_Suc [symmetric]) (simp_all add: descriptors_def)
    have next_off: "?off + ds = of_nat (Suc i * ?n)" by (simp add: algebra_simps)
    define m1 where "m1 = copy_bytes (a + 24 * of_nat c) (region_bytes (u64_at ?d 8) (u64_at ?d 24 * PAGE_SIZE)) m"
    have m1: "\<not> in_area a 1536 x \<Longrightarrow> m1 x = m x" for x
      unfolding m1_def using True by (intro record_in_array) simp_all
    have survives: "read_bytes m1 b (length bs) = bs"
      by (rule map_survives [OF Suc.prems(1)]) (simp add: m1 apart)
    have more: "regions_at m1 a (c + 1) = regions_at m a c @ [Region (u64_at ?d 8) (u64_at ?d 24 * PAGE_SIZE) 1]"
      unfolding m1_def using True by (intro regions_extended) simp
    have step: "collect_descriptors fuel b (of_nat (length bs)) ds a (of_nat (Suc i * ?n))
        (if u32_at ?d 0 \<noteq> EFI_CONVENTIONAL_MEMORY then (c, m) else (c + 1, m1)) = (c', m')"
      using Suc.prems(5) True test unfolding m1_def
      by (simp only: collect_descriptors.simps QUANTA_BOOT_MAX_MEMORY_REGIONS_def d next_off Let_def simp_thms if_True)
    show ?thesis
    proof (cases "u32_at ?d 0 = EFI_CONVENTIONAL_MEMORY")
      case found: True
      show ?thesis
        using Suc.IH [of m1 "c + 1" "Suc i"] survives True Suc.prems(4) step found more m1
        by (auto simp: rest conventional_Cons take_Cons')
    next
      case False
      then show ?thesis
        using Suc.IH [of m c "Suc i"] True Suc.prems step by (auto simp: rest conventional_Cons)
    qed
  qed
qed

text \<open>The fuel is enough: a step moves the offset by the size of a descriptor, which is at least 40.\<close>

lemma collected_regions:
  assumes "40 \<le> unat ds" "length bs \<le> 65536" "\<And>k. k < length bs \<Longrightarrow> \<not> in_area a 1536 (b + of_nat k)"
    "read_bytes m b (length bs) = bs" "collect_memory_regions b (of_nat (length bs)) ds a m = (c, m')"
  shows "regions_at m' a c = take 64 (conventional (descriptors bs (unat ds)))"
    "\<not> in_area a 1536 x \<Longrightarrow> m' x = m x"
proof -
  have size: "unat (of_nat (length bs) :: u64) = length bs" using assms(2) by (simp only: unat_of_nat) simp
  have "\<not> ds < EFI_DESCRIPTOR_SIZE" using assms(1) by (simp add: EFI_DESCRIPTOR_SIZE_def word_less_nat_alt)
  then have run: "collect_descriptors (length bs div 40 + 1) b (of_nat (length bs)) ds a (of_nat (0 * unat ds)) (0, m) = (c, m')"
    using assms(5) by (simp add: collect_memory_regions_def size)
  have "length bs div unat ds - 0 < length bs div 40 + 1"
    using div_le_mono2 [of 40 "unat ds" "length bs"] assms(1) by simp
  from collect_loop [OF assms(1-4) _ _ this run] show
    "regions_at m' a c = take 64 (conventional (descriptors bs (unat ds)))" "\<not> in_area a 1536 x \<Longrightarrow> m' x = m x"
    by (simp_all add: regions_at_def)
qed

end
