(* ===== verification/Uefi_Boot.thy ===== *)
theory Uefi_Boot
  imports Uefi_Load Uefi_Map "HOL-Library.Sublist"
begin

text \<open>
  The loader as a whole.  \<open>firmware_sound\<close> states what the UEFI specification promises of the replies: pages
  are aligned and an allocation at an address is at that address, grants do not overlap, and a memory map fits
  its buffer.  The loader also relies on two pages it never asks for, 0x5000 and 0x9000; that they are free is
  part of the same hypothesis.
\<close>

unbundle bit_operations_syntax

section \<open>What the firmware promises\<close>

definition exchanges :: "efi \<Rightarrow> efi_call list \<Rightarrow> (efi_call \<times> efi_reply) list" where
  "exchanges efi h = map (\<lambda>i. (h ! i, efi (take (Suc i) h))) [0..<length h]"

fun reply_sound :: "efi_call \<times> efi_reply \<Rightarrow> bool" where
  "reply_sound (Allocate_Pages policy address pages, r) \<longleftrightarrow> reply_status r = EFI_SUCCESS \<longrightarrow>
     page_aligned (reply_address r) \<and> (policy = EFI_ALLOCATE_ADDRESS \<longrightarrow> reply_address r = address)"
| "reply_sound (Get_Memory_Map room address, r) \<longleftrightarrow> reply_status r = EFI_SUCCESS \<longrightarrow>
     length (reply_map r) \<le> unat room \<and> 40 \<le> unat (reply_descriptor_size r)"
| "reply_sound (c, r) \<longleftrightarrow> True"

fun grant :: "efi_call \<times> efi_reply \<Rightarrow> (u64 \<times> nat) list" where
  "grant (Allocate_Pages policy address pages, r) =
     (if reply_status r = EFI_SUCCESS then [(reply_address r, unat pages * 4096)] else [])"
| "grant (Allocate_Pool room, r) = (if reply_status r = EFI_SUCCESS then [(reply_address r, unat room)] else [])"
| "grant (c, r) = []"

definition areas_apart :: "u64 \<times> nat \<Rightarrow> u64 \<times> nat \<Rightarrow> bool" where
  "areas_apart p q \<longleftrightarrow> unat (fst p) + snd p \<le> unat (fst q) \<or> unat (fst q) + snd q \<le> unat (fst p)"

definition areas :: "efi \<Rightarrow> efi_call list \<Rightarrow> (u64 \<times> nat) list" where
  "areas efi h = (MAP_ADDRESS, 4096) # (INFO_ADDRESS, 4096) # concat (map grant (exchanges efi h))"

definition firmware_sound :: "efi \<Rightarrow> efi_call list \<Rightarrow> bool" where
  "firmware_sound efi h \<longleftrightarrow> list_all reply_sound (exchanges efi h) \<and> sorted_wrt areas_apart (areas efi h) \<and>
     list_all (\<lambda>a. unat (fst a) + snd a \<le> 2 ^ 52) (areas efi h)"

lemma exchanges_snoc [simp]: "exchanges efi (h @ [c]) = exchanges efi h @ [(c, efi (h @ [c]))]"
  by (simp add: exchanges_def nth_append)

lemma exchanges_Nil [simp]: "exchanges efi [] = []"
  by (simp add: exchanges_def)

lemma exchange_in: "prefix (p @ [c]) h \<Longrightarrow> (c, efi (p @ [c])) \<in> set (exchanges efi h)"
proof -
  assume "prefix (p @ [c]) h"
  then obtain t where h: "h = p @ c # t" by (auto simp: prefix_def)
  then have "length p < length (exchanges efi h)" "exchanges efi h ! length p = (c, efi (p @ [c]))"
    by (simp_all add: exchanges_def nth_append del: upt_Suc)
  then show "(c, efi (p @ [c])) \<in> set (exchanges efi h)" by (metis nth_mem)
qed

lemma exchange_sound: "list_all reply_sound (exchanges efi h) \<Longrightarrow> prefix (p @ [c]) h \<Longrightarrow> reply_sound (c, efi (p @ [c]))"
  using exchange_in by (fastforce simp: list_all_iff)

section \<open>Areas and reads\<close>

lemma in_area_unat: "unat a + n \<le> 2 ^ 64 \<Longrightarrow> in_area a n x \<longleftrightarrow> unat a \<le> unat x \<and> unat x < unat a + n"
  using unat_less_pow [of a] unat_less_pow [of x] unfolding in_area_def unat_sub_if' by auto

lemma field_read: "off + k \<le> n \<Longrightarrow> field (read_bytes m a n) off k = read_bytes m (a + of_nat off) k"
  by (rule nth_equalityI) (simp_all add: length_field field_def read_bytes_nth add.assoc)

lemma place_apart:
  assumes "o1 < 2 ^ 32" "o2 < 2 ^ 32" "n < 2 ^ 32" "o2 < o1 \<or> o1 + n \<le> o2"
  shows "\<not> in_area (a + of_nat o1) n (a + of_nat o2)"
proof -
  have off: "a + of_nat o2 - (a + of_nat o1) = (of_nat o2 - of_nat o1 :: u64)" by simp
  have "unat (of_nat o1 :: u64) = o1" "unat (of_nat o2 :: u64) = o2" using assms by (simp_all add: unat_of_nat)
  then show ?thesis unfolding in_area_def off unat_sub_if' using assms by auto
qed

text \<open>Parts of a structure at \<open>a\<close>, by their offsets.\<close>

definition part :: "bytes_at \<Rightarrow> u64 \<Rightarrow> nat \<Rightarrow> nat \<Rightarrow> byte list" where
  "part m a off k = read_bytes m (a + of_nat off) k"

definition put_part :: "u64 \<Rightarrow> nat \<Rightarrow> byte list \<Rightarrow> bytes_at \<Rightarrow> bytes_at" where
  "put_part a off bs = copy_bytes (a + of_nat off) bs"

lemma part_apart:
  assumes "o2 + k \<le> o1 \<or> o1 + length bs \<le> o2" "o1 < 2 ^ 32" "o2 + k < 2 ^ 32" "length bs < 2 ^ 32"
  shows "part (put_part a o1 bs m) a o2 k = part m a o2 k"
  unfolding part_def put_part_def
proof (rule read_unchanged)
  fix i assume i: "i < k"
  have "\<not> in_area (a + of_nat o1) (length bs) (a + of_nat (o2 + i))"
    by (rule place_apart) (use assms i in auto)
  then show "copy_bytes (a + of_nat o1) bs m (a + of_nat o2 + of_nat i) = m (a + of_nat o2 + of_nat i)"
    using assms(4) by (simp add: copy_bytes_at add.assoc)
qed

lemma part_within:
  assumes "o1 \<le> o2" "o2 + k \<le> o1 + length bs" "o1 < 2 ^ 32" "length bs < 2 ^ 32"
  shows "part (put_part a o1 bs m) a o2 k = field bs (o2 - o1) k"
  using read_copied [of bs "o2 - o1" k "a + of_nat o1" m] assms by (simp add: part_def put_part_def of_nat_diff)

section \<open>The boot information\<close>

lemma boot_info_places:
  "boot_info_at m a = \<lparr>bi_magic = u64_at (part m a 0 8) 0, bi_version = u32_at (part m a 8 4) 0,
     bi_size = u32_at (part m a 12 4) 0, bi_memory_map = u64_at (part m a 16 8) 0,
     bi_memory_map_entries = u64_at (part m a 24 8) 0, bi_framebuffer_physical = u64_at (part m a 32 8) 0,
     bi_framebuffer_width = u32_at (part m a 40 4) 0, bi_framebuffer_height = u32_at (part m a 44 4) 0,
     bi_framebuffer_pitch = u32_at (part m a 48 4) 0, bi_framebuffer_bpp = part m a 52 1 ! 0,
     bi_framebuffer_format = part m a 53 1 ! 0, bi_rsdp_physical = u64_at (part m a 56 8) 0,
     bi_storage_physical = u64_at (part m a 64 8) 0, bi_storage_sectors = u64_at (part m a 72 8) 0\<rparr>"
  by (simp add: boot_info_at_def Let_def u64_at_def u32_at_def field_read field_whole read_bytes_nth part_def)

lemma entries_put:
  "boot_info_at (put_part a 24 (le64 w) m) a = (boot_info_at m a)\<lparr>bi_memory_map_entries := w\<rparr>"
  unfolding boot_info_places by (simp add: part_apart part_within u64_at_def field_whole)

lemma length_head [simp]: "length (boot_info_head i) = 54"
  by (simp add: boot_info_head_def)

lemma boot_info_written:
  assumes "part m a 56 8 = replicate 8 0"
  shows "boot_info_at (write_boot_info i a m) a = i\<lparr>bi_rsdp_physical := 0\<rparr>"
proof -
  have "write_boot_info i a m = put_part a 64 (le64 (bi_storage_physical i) @ le64 (bi_storage_sectors i)) (put_part a 0 (boot_info_head i) m)"
    by (simp add: write_boot_info_def put_part_def)
  then show ?thesis
    unfolding boot_info_places
    by (simp add: part_apart part_within assms u64_at_def u32_at_def field_whole field_layout field_zeros)
      (cases i; simp add: boot_info_head_def field_layout field_def)
qed

lemma boot_info_kept:
  assumes "\<And>x. in_area a 80 x \<Longrightarrow> m' x = m x"
  shows "boot_info_at m' a = boot_info_at m a"
proof -
  have "read_bytes m' a 80 = read_bytes m a 80"
    by (rule read_unchanged) (use assms in \<open>simp add: in_area_offset\<close>)
  then show ?thesis by (simp add: boot_info_at_def)
qed

lemma regions_kept:
  assumes "\<And>x. in_area a 1536 x \<Longrightarrow> m' x = m x" "n \<le> 64"
  shows "regions_at m' a n = regions_at m a n"
proof -
  have "region_at m' a j = region_at m a j" if "j < n" for j
  proof -
    have "in_area a 1536 (a + 24 * of_nat j + of_nat i)" if "i < 24" for i
      using in_area_offset [of "24 * j + i" 1536 a] that \<open>j < n\<close> assms(2) by (simp add: add.assoc)
    then have "read_bytes m' (a + 24 * of_nat j) 24 = read_bytes m (a + 24 * of_nat j) 24"
      by (intro read_unchanged) (use assms(1) in simp)
    then show ?thesis by (simp add: region_at_def)
  qed
  then show ?thesis by (simp add: regions_at_def)
qed

section \<open>The tables stay in their pages\<close>

lemma build_tables_keeps:
  assumes "\<not> in_area p 0x6000 x"
  shows "build_tables p kbase m x = m x"
proof -
  have store: "store64 (p + 8 * of_nat k) w m x = m x" if "k < 3072" for k w m
  proof -
    have n: "unat (8 * of_nat k :: u64) = 8 * k"
    proof -
      have "unat (of_nat (8 * k) :: u64) = 8 * k" using that by (simp only: unat_of_nat) simp
      then show ?thesis by simp
    qed
    have off: "x - (p + 8 * of_nat k) = x - p - 8 * of_nat k" by simp
    have "\<not> in_area (p + 8 * of_nat k) 8 x"
      using assms that n unat_less_pow [of "x - p"] unfolding in_area_def off unat_sub_if' [of "x - p"] by auto
    then show ?thesis by (simp add: store64_def copy_bytes_at)
  qed
  have filled: "fill_entries n (p + 8 * of_nat j) a step flags m x = m x" if "j + n < 3073" for j n a step flags m
    using that
  proof (induction n arbitrary: j a m)
    case (Suc n)
    then show ?case using Suc.IH [of "Suc j"] store [of j] by (simp add: algebra_simps)
  qed simp
  have cleared: "clear_bytes p 0x6000 m x = m x" using assms by (simp add: clear_bytes_at)
  note places = table_places [of p]
  have area: "6 * PAGE_SIZE = 0x6000" by (simp add: PAGE_SIZE_def)
  show ?thesis
    unfolding build_tables_def Let_def places(1-4,6-8) unfolding area
    by (subst places(9), subst places(5), (subst filled store, simp)+, rule cleared)
qed

section \<open>Taking the memory map\<close>

definition handed :: "efi_reply \<Rightarrow> bytes_at \<Rightarrow> bool" where
  "handed r m \<longleftrightarrow> (let n = unat (bi_memory_map_entries (boot_info_at m INFO_ADDRESS)) in n \<le> 64 \<and>
     regions_at m MAP_ADDRESS n = take 64 (conventional (descriptors (reply_map r) (unat (reply_descriptor_size r)))))"

definition buffer_free :: "u64 \<Rightarrow> bool" where
  "buffer_free b \<longleftrightarrow> unat b + 65536 \<le> 2 ^ 52 \<and> areas_apart (MAP_ADDRESS, 4096) (b, 65536) \<and> areas_apart (INFO_ADDRESS, 4096) (b, 65536)"

lemma fixed_areas:
  "in_area MAP_ADDRESS 4096 x \<longleftrightarrow> 0x5000 \<le> unat x \<and> unat x < 0x6000"
  "in_area MAP_ADDRESS 1536 x \<longleftrightarrow> 0x5000 \<le> unat x \<and> unat x < 0x5600"
  "in_area INFO_ADDRESS 4096 x \<longleftrightarrow> 0x9000 \<le> unat x \<and> unat x < 0xa000"
  "in_area INFO_ADDRESS 80 x \<longleftrightarrow> 0x9000 \<le> unat x \<and> unat x < 0x9050"
  by (simp_all add: in_area_unat MAP_ADDRESS_def INFO_ADDRESS_def)

lemma buffer_area: "buffer_free b \<Longrightarrow> in_area b 65536 x \<longleftrightarrow> unat b \<le> unat x \<and> unat x < unat b + 65536"
  by (rule in_area_unat) (simp add: buffer_free_def)

lemma buffer_apart:
  "buffer_free b \<Longrightarrow> in_area b 65536 x \<Longrightarrow> \<not> in_area MAP_ADDRESS 4096 x \<and> \<not> in_area INFO_ADDRESS 4096 x"
  unfolding fixed_areas buffer_area by (auto simp: buffer_free_def areas_apart_def MAP_ADDRESS_def INFO_ADDRESS_def)

lemma map_taken:
  assumes map: "get_map efi b s = (r, s1)" and taken: "take_regions b r s1 = (n, s2)"
    and sound: "length (reply_map r) \<le> 65536" "40 \<le> unat (reply_descriptor_size r)" and free: "buffer_free b"
  shows "n \<le> 64" "regions_at (lo_mem s2) MAP_ADDRESS n = take 64 (conventional (descriptors (reply_map r) (unat (reply_descriptor_size r))))"
    "lo_calls s2 = lo_calls s @ [Get_Memory_Map 65536 b]" "r = efi (lo_calls s2)"
    "\<not> in_area b 65536 x \<Longrightarrow> \<not> in_area MAP_ADDRESS 1536 x \<Longrightarrow> lo_mem s2 x = lo_mem s x"
proof -
  have s1: "r = efi (lo_calls s @ [Get_Memory_Map 65536 b])" "lo_mem s1 = copy_bytes b (reply_map r) (lo_mem s)"
    "lo_calls s1 = lo_calls s @ [Get_Memory_Map 65536 b]"
    using map by (auto simp: get_map_def call_firmware_def)
  obtain m where m: "collect_memory_regions b (of_nat (length (reply_map r))) (reply_descriptor_size r) MAP_ADDRESS (lo_mem s1) = (n, m)"
    and s2: "s2 = s1\<lparr>lo_mem := m\<rparr>"
    using taken by (auto simp: take_regions_def split: prod.splits)
  have stored: "read_bytes (lo_mem s1) b (length (reply_map r)) = reply_map r"
    using read_copied [of "reply_map r" 0 "length (reply_map r)" b "lo_mem s"] sound(1) by (simp add: s1 field_whole)
  have apart: "\<not> in_area MAP_ADDRESS 1536 (b + of_nat k)" if "k < length (reply_map r)" for k
  proof -
    have "in_area b 65536 (b + of_nat k)" using that sound(1) by (intro in_area_offset) simp_all
    then show ?thesis using buffer_apart [OF free] fixed_areas(1,2) [of "b + of_nat k"] by auto
  qed
  note collected = collected_regions [OF sound(2,1) apart stored m]
  show regions: "regions_at (lo_mem s2) MAP_ADDRESS n = take 64 (conventional (descriptors (reply_map r) (unat (reply_descriptor_size r))))"
    using collected(1) by (simp add: s2)
  have "n = length (regions_at (lo_mem s2) MAP_ADDRESS n)" by simp
  then show "n \<le> 64" unfolding regions by simp
  show "lo_calls s2 = lo_calls s @ [Get_Memory_Map 65536 b]" "r = efi (lo_calls s2)" using s1 by (simp_all add: s2)
  assume x: "\<not> in_area b 65536 x" "\<not> in_area MAP_ADDRESS 1536 x"
  then have "\<not> in_area b (length (reply_map r)) x" using sound(1) by (auto simp: in_area_def)
  then show "lo_mem s2 x = lo_mem s x" using collected(2) [OF _ x(2)] sound(1) by (simp add: s2 s1 copy_bytes_at)
qed

lemma unat_entries: "n \<le> 64 \<Longrightarrow> unat (of_nat n :: u64) = n"
  by (simp add: unat_of_nat)

lemma put_info: "\<not> in_area INFO_ADDRESS 80 x \<Longrightarrow> off + length bs \<le> 80 \<Longrightarrow> put_part INFO_ADDRESS off bs m x = m x"
proof -
  assume a: "\<not> in_area INFO_ADDRESS 80 x" "off + length bs \<le> 80"
  have "unat (of_nat off :: u64) = off" using a(2) by (simp add: unat_of_nat)
  then have "unat (INFO_ADDRESS + of_nat off) = 0x9000 + off" using a(2) by (simp add: INFO_ADDRESS_def unat_word_ariths)
  then have "\<not> in_area (INFO_ADDRESS + of_nat off) (length bs) x"
    using a by (subst in_area_unat) (auto simp: fixed_areas)
  then show "put_part INFO_ADDRESS off bs m x = m x" using a(2) by (simp add: put_part_def copy_bytes_at)
qed

section \<open>Leaving the boot services\<close>

text \<open>
  The jump happens right after the call whose key is the one of the last map, and what is handed over is that
  map.  \<open>m\<close> is the memory before the tables are built.
\<close>

definition departed :: "efi \<Rightarrow> u64 \<Rightarrow> u64 \<Rightarrow> u64 \<Rightarrow> u64 \<Rightarrow> jump \<Rightarrow> loader \<Rightarrow> bytes_at \<Rightarrow> loader \<Rightarrow> bool" where
  "departed efi b kbase pml4 entry j s m s' \<longleftrightarrow> j = (pml4, entry, INFO_ADDRESS) \<and> lo_mem s' = build_tables pml4 kbase m \<and>
     (\<exists>h r n. lo_calls s' = h @ [Get_Memory_Map 65536 b, Exit_Boot_Services (reply_key r)] \<and>
        r = efi (h @ [Get_Memory_Map 65536 b]) \<and> reply_status r = EFI_SUCCESS \<and> handed r m \<and>
        boot_info_at m INFO_ADDRESS = (boot_info_at (lo_mem s) INFO_ADDRESS)\<lparr>bi_memory_map_entries := n\<rparr>) \<and>
     (\<forall>x. \<not> in_area b 65536 x \<longrightarrow> \<not> in_area MAP_ADDRESS 4096 x \<longrightarrow> \<not> in_area INFO_ADDRESS 4096 x \<longrightarrow> m x = lo_mem s x) \<and>
     prefix (lo_calls s) (lo_calls s')"

lemma left_boot_services:
  assumes run: "leave_boot_services efi b kbase pml4 entry r s = (Inr j, s')"
    and calls: "lo_calls s = h @ [Get_Memory_Map 65536 b]" "r = efi (lo_calls s)" "reply_status r = EFI_SUCCESS"
    and handed: "handed r (lo_mem s)" and sound: "list_all reply_sound (exchanges efi (lo_calls s'))" and free: "buffer_free b"
  shows "\<exists>m. departed efi b kbase pml4 entry j s m s'"
proof -
  have jump: "j' = (pml4, entry, INFO_ADDRESS)" "lo_mem t' = build_tables pml4 kbase (lo_mem t)" "lo_calls t' = lo_calls t"
    if "enter_kernel kbase pml4 entry t = (Inr j', t')" for t j' t'
    using that by (auto simp: enter_kernel_def Let_def)
  obtain e s1 where first: "call_firmware efi (Exit_Boot_Services (reply_key r)) s = (e, s1)" by fastforce
  then have s1: "lo_mem s1 = lo_mem s" "lo_calls s1 = lo_calls s @ [Exit_Boot_Services (reply_key r)]"
    by (auto simp: call_firmware_def)
  show ?thesis
  proof (cases "reply_status e = EFI_SUCCESS")
    case True
    then have "enter_kernel kbase pml4 entry s1 = (Inr j, s')" using run by (simp add: leave_boot_services_def first)
    note jump [OF this]
    moreover have "\<exists>n. boot_info_at (lo_mem s) INFO_ADDRESS = (boot_info_at (lo_mem s) INFO_ADDRESS)\<lparr>bi_memory_map_entries := n\<rparr>"
      by (rule exI [of _ "bi_memory_map_entries (boot_info_at (lo_mem s) INFO_ADDRESS)"]) simp
    ultimately have "departed efi b kbase pml4 entry j s (lo_mem s) s'"
      unfolding departed_def using s1 calls handed by (auto simp: prefix_def)
    then show ?thesis by blast
  next
    case False
    obtain r2 s2 where again: "get_map efi b (serial_text ''QUANTA_UEFI_EXIT_RETRY'' s1) = (r2, s2)" by fastforce
    obtain n s3 where taken: "take_regions b r2 s2 = (n, s3)" by fastforce
    define s4 where "s4 = s3\<lparr>lo_mem := copy_bytes (INFO_ADDRESS + 24) (le64 (of_nat n)) (lo_mem s3)\<rparr>"
    obtain e2 s5 where last: "call_firmware efi (Exit_Boot_Services (reply_key r2)) s4 = (e2, s5)" by fastforce
    have ok: "reply_status r2 = EFI_SUCCESS" and enter: "enter_kernel kbase pml4 entry s5 = (Inr j, s')"
      using run False by (auto simp: leave_boot_services_def first again taken last s4_def [symmetric] Let_def split: if_splits)
    have s5: "lo_mem s5 = lo_mem s4" "lo_calls s5 = lo_calls s4 @ [Exit_Boot_Services (reply_key r2)]"
      using last by (auto simp: call_firmware_def)
    have calls4: "lo_calls s4 = lo_calls s1 @ [Get_Memory_Map 65536 b]" "r2 = efi (lo_calls s4)"
      using again taken by (auto simp: s4_def get_map_def take_regions_def call_firmware_def split: prod.splits)
    have "prefix (lo_calls s1 @ [Get_Memory_Map 65536 b]) (lo_calls s')"
      using s5 jump(3) [OF enter] calls4(1) by (simp add: prefix_def)
    from exchange_sound [OF sound this] have good: "length (reply_map r2) \<le> 65536" "40 \<le> unat (reply_descriptor_size r2)"
      using ok calls4 by simp_all
    note map = map_taken [OF again taken good free]
    have m4: "lo_mem s4 = put_part INFO_ADDRESS 24 (le64 (of_nat n)) (lo_mem s3)" by (simp add: s4_def put_part_def)
    have apart: "in_area MAP_ADDRESS 1536 x \<Longrightarrow> \<not> in_area INFO_ADDRESS 80 x" for x by (simp add: fixed_areas)
    have "in_area INFO_ADDRESS 80 x \<Longrightarrow> lo_mem s3 x = lo_mem s x" for x
    proof -
      assume x: "in_area INFO_ADDRESS 80 x"
      then have "in_area INFO_ADDRESS 4096 x" by (simp add: fixed_areas)
      then have "\<not> in_area b 65536 x" using buffer_apart [OF free] by blast
      then show "lo_mem s3 x = lo_mem s x" using map(5) [of x] apart x by (auto simp: s1)
    qed
    then have "boot_info_at (lo_mem s3) INFO_ADDRESS = boot_info_at (lo_mem s) INFO_ADDRESS" by (rule boot_info_kept)
    then have info: "boot_info_at (lo_mem s4) INFO_ADDRESS = (boot_info_at (lo_mem s) INFO_ADDRESS)\<lparr>bi_memory_map_entries := of_nat n\<rparr>"
      unfolding m4 entries_put by simp
    have "regions_at (lo_mem s4) MAP_ADDRESS n = regions_at (lo_mem s3) MAP_ADDRESS n"
      using map(1) apart by (intro regions_kept) (simp_all add: m4 put_info)
    then have "handed r2 (lo_mem s4)"
      using map(1,2) by (simp add: handed_def info unat_entries)
    then have "\<exists>h r n. lo_calls s' = h @ [Get_Memory_Map 65536 b, Exit_Boot_Services (reply_key r)] \<and>
        r = efi (h @ [Get_Memory_Map 65536 b]) \<and> reply_status r = EFI_SUCCESS \<and> handed r (lo_mem s4) \<and>
        boot_info_at (lo_mem s4) INFO_ADDRESS = (boot_info_at (lo_mem s) INFO_ADDRESS)\<lparr>bi_memory_map_entries := n\<rparr>"
      using jump(3) [OF enter] s5(2) calls4 ok info by (intro exI [of _ "lo_calls s1"] exI [of _ r2] exI [of _ "of_nat n"]) simp
    moreover have "prefix (lo_calls s) (lo_calls s')"
      using jump(3) [OF enter] s5(2) calls4(1) s1(2) by (simp add: prefix_def)
    moreover have "lo_mem s4 x = lo_mem s x"
      if "\<not> in_area b 65536 x" "\<not> in_area MAP_ADDRESS 4096 x" "\<not> in_area INFO_ADDRESS 4096 x" for x
    proof -
      have "\<not> in_area MAP_ADDRESS 1536 x" "\<not> in_area INFO_ADDRESS 80 x" using that by (auto simp: fixed_areas)
      then show ?thesis using map(5) [OF that(1)] by (simp add: m4 put_info s1)
    qed
    ultimately have "departed efi b kbase pml4 entry j s (lo_mem s4) s'"
      unfolding departed_def using jump(1,2) [OF enter] s5(1) by simp
    then show ?thesis by blast
  qed
qed

end
