(* ===== verification/Uefi_Start.thy ===== *)
theory Uefi_Start
  imports Uefi_Boot
begin

text \<open>
  The run of the loader from its entry to the jump, and what the kernel finds: itself at the addresses it is
  linked for, and the memory map whose key the firmware accepted.
\<close>

unbundle bit_operations_syntax

section \<open>The run\<close>

text \<open>The calls up to the last grant, for a disk image of \<open>pages\<close> pages.\<close>

definition opening_calls :: "u64 \<Rightarrow> efi_call list" where
  "opening_calls pages = [Locate_Graphics, Allocate_Pages EFI_ALLOCATE_ANY 0 512,
     Allocate_Pages EFI_ALLOCATE_ADDRESS PML4_PHYSICAL 6, Allocate_Pages EFI_ALLOCATE_ANY 0 pages, Allocate_Pool 65536]"

lemma leave_prefix: "leave_boot_services efi b kbase pml4 entry r s = (Inr j, s') \<Longrightarrow> prefix (lo_calls s) (lo_calls s')"
  by (auto simp: leave_boot_services_def get_map_def take_regions_def call_firmware_def enter_kernel_def Let_def prefix_def
      split: if_splits prod.splits)

lemma hand_over_calls:
  assumes "hand_over efi g format kbase pml4 entry storage_address storage_size s = (Inr j, s')"
  shows "reply_status (efi (lo_calls s @ [Allocate_Pool 65536])) = EFI_SUCCESS"
    "prefix (lo_calls s @ [Allocate_Pool 65536]) (lo_calls s')"
proof -
  show "reply_status (efi (lo_calls s @ [Allocate_Pool 65536])) = EFI_SUCCESS"
    using assms by (auto simp: hand_over_def call_firmware_def split: if_splits)
  from assms obtain b r t n t' where leave: "leave_boot_services efi b kbase pml4 entry r t = (Inr j, s')"
    and "prefix (lo_calls s @ [Allocate_Pool 65536]) (lo_calls t)"
    by (auto simp: hand_over_def call_firmware_def get_map_def take_regions_def Let_def prefix_def split: if_splits prod.splits)
  then show "prefix (lo_calls s @ [Allocate_Pool 65536]) (lo_calls s')"
    using leave_prefix prefix_order.trans by blast
qed

lemma hand_over_run:
  assumes run: "hand_over efi g format kbase pml4 entry storage_address storage_size s = (Inr j, s')"
    and sound: "list_all reply_sound (exchanges efi (lo_calls s'))"
    and free: "buffer_free (reply_address (efi (lo_calls s @ [Allocate_Pool 65536])))"
    and blank: "\<And>x. in_area INFO_ADDRESS 4096 x \<Longrightarrow> lo_mem s x = 0"
  shows "\<exists>m h r n b. j = (pml4, entry, INFO_ADDRESS) \<and> lo_mem s' = build_tables pml4 kbase m \<and>
      b = reply_address (efi (lo_calls s @ [Allocate_Pool 65536])) \<and>
      lo_calls s' = h @ [Get_Memory_Map 65536 b, Exit_Boot_Services (reply_key r)] \<and> r = efi (h @ [Get_Memory_Map 65536 b]) \<and>
      reply_status r = EFI_SUCCESS \<and> handed r m \<and>
      boot_info_at m INFO_ADDRESS = boot_record g format storage_address storage_size n \<and>
      (\<forall>x. \<not> in_area b 65536 x \<longrightarrow> \<not> in_area MAP_ADDRESS 4096 x \<longrightarrow> \<not> in_area INFO_ADDRESS 4096 x \<longrightarrow> m x = lo_mem s x)"
proof -
  define b where "b = reply_address (efi (lo_calls s @ [Allocate_Pool 65536]))"
  obtain a s1 where pool: "call_firmware efi (Allocate_Pool 65536) s = (a, s1)" by fastforce
  then have s1: "a = efi (lo_calls s @ [Allocate_Pool 65536])" "lo_mem s1 = lo_mem s" "lo_calls s1 = lo_calls s @ [Allocate_Pool 65536]"
    by (auto simp: call_firmware_def)
  obtain r s2 where map: "get_map efi b (serial_text ''QUANTA_UEFI_EXIT_READY'' s1) = (r, s2)" by fastforce
  obtain n s3 where taken: "take_regions b r s2 = (n, s3)" by fastforce
  define info where "info = boot_record g format storage_address storage_size (of_nat n)"
  define s4 where "s4 = serial_text ''QUANTA_UEFI_GOP_READY'' (s3\<lparr>lo_mem := write_boot_info info INFO_ADDRESS (lo_mem s3)\<rparr>)"
  have ok: "reply_status a = EFI_SUCCESS" "reply_status r = EFI_SUCCESS"
    and leave: "leave_boot_services efi b kbase pml4 entry r s4 = (Inr j, s')"
    using run map taken by (auto simp: hand_over_def pool Let_def b_def s1(1) s4_def info_def split: if_splits)
  have calls: "lo_calls s4 = lo_calls s1 @ [Get_Memory_Map 65536 b]" "r = efi (lo_calls s4)"
    using map taken by (auto simp: s4_def get_map_def take_regions_def call_firmware_def split: prod.splits)
  have onwards: "prefix (lo_calls s4) (lo_calls s')" by (rule leave_prefix [OF leave])
  then have "prefix (lo_calls s1 @ [Get_Memory_Map 65536 b]) (lo_calls s')" by (simp add: calls(1))
  from exchange_sound [OF sound this] have good: "length (reply_map r) \<le> 65536" "40 \<le> unat (reply_descriptor_size r)"
    using ok calls by simp_all
  have free': "buffer_free b" using free by (simp add: b_def)
  note taken_map = map_taken [OF map taken good free']
  have m4: "lo_mem s4 = put_part INFO_ADDRESS 64 (le64 (bi_storage_physical info) @ le64 (bi_storage_sectors info))
      (put_part INFO_ADDRESS 0 (boot_info_head info) (lo_mem s3))"
    by (simp add: s4_def write_boot_info_def put_part_def)
  have apart: "in_area MAP_ADDRESS 1536 x \<Longrightarrow> \<not> in_area INFO_ADDRESS 80 x" for x by (simp add: fixed_areas)
  have zero: "lo_mem s3 x = 0" if "in_area INFO_ADDRESS 4096 x" for x
  proof -
    have "\<not> in_area b 65536 x" using buffer_apart [OF free'] that by blast
    moreover have "\<not> in_area MAP_ADDRESS 1536 x" using that by (simp add: fixed_areas)
    ultimately show ?thesis using taken_map(5) [of x] blank [OF that] by (simp add: s1)
  qed
  have "part (lo_mem s3) INFO_ADDRESS 56 8 = replicate 8 0"
  proof (rule nth_equalityI)
    fix i assume "i < length (part (lo_mem s3) INFO_ADDRESS 56 8)"
    then have i: "i < 8" by (simp add: part_def)
    then have "in_area INFO_ADDRESS 4096 (INFO_ADDRESS + of_nat 56 + of_nat i)"
      using in_area_offset [of "56 + i" 4096 INFO_ADDRESS] by (simp add: add.assoc)
    then show "part (lo_mem s3) INFO_ADDRESS 56 8 ! i = replicate 8 0 ! i"
      using i zero by (simp add: part_def read_bytes_nth)
  qed (simp add: part_def)
  then have info: "boot_info_at (lo_mem s4) INFO_ADDRESS = info"
    using boot_info_written [of "lo_mem s3" INFO_ADDRESS info] by (simp add: s4_def info_def boot_record_def)
  have "regions_at (lo_mem s4) MAP_ADDRESS n = regions_at (lo_mem s3) MAP_ADDRESS n"
    using taken_map(1) apart by (intro regions_kept) (simp_all add: m4 put_info)
  then have handed: "handed r (lo_mem s4)"
    using taken_map(1,2) by (simp add: handed_def info info_def boot_record_def unat_entries)
  obtain m where dep: "departed efi b kbase pml4 entry j s4 m s'"
    using left_boot_services [OF leave calls ok(2) handed sound free'] by blast
  have kept: "lo_mem s4 x = lo_mem s x"
    if "\<not> in_area b 65536 x" "\<not> in_area MAP_ADDRESS 4096 x" "\<not> in_area INFO_ADDRESS 4096 x" for x
  proof -
    have "\<not> in_area MAP_ADDRESS 1536 x" "\<not> in_area INFO_ADDRESS 80 x" using that by (auto simp: fixed_areas)
    then show ?thesis using taken_map(5) [OF that(1)] by (simp add: m4 put_info s1)
  qed
  have "boot_info_at m INFO_ADDRESS = boot_record g format storage_address storage_size k"
    if "boot_info_at m INFO_ADDRESS = (boot_info_at (lo_mem s4) INFO_ADDRESS)\<lparr>bi_memory_map_entries := k\<rparr>" for k
    using that by (simp add: info info_def boot_record_def)
  then show ?thesis
    using dep kept unfolding departed_def b_def [symmetric] by metis
qed

text \<open>The number of pages the loader asks for holds the disk image.\<close>

definition disk_pages :: "byte list \<Rightarrow> u64" where
  "disk_pages storage = (of_nat (length storage) + PAGE_SIZE - 1) div PAGE_SIZE"

lemma disk_fits: "length storage < 2 ^ 63 \<Longrightarrow> length storage \<le> unat (disk_pages storage) * 4096"
proof -
  assume len: "length storage < 2 ^ 63"
  have "unat (of_nat (length storage + 4095) :: u64) = length storage + 4095" using len by (simp only: unat_of_nat) simp
  moreover have "of_nat (length storage) + PAGE_SIZE - 1 = (of_nat (length storage + 4095) :: u64)" by (simp add: PAGE_SIZE_def)
  ultimately have "unat (disk_pages storage) = (length storage + 4095) div 4096"
    by (simp only: disk_pages_def unat_div) (simp add: PAGE_SIZE_def)
  then show ?thesis by linarith
qed

definition kernel_area :: "efi \<Rightarrow> u64 \<Rightarrow> u64" where
  "kernel_area efi pages = reply_address (efi (take 2 (opening_calls pages)))"

definition table_area :: "efi \<Rightarrow> u64 \<Rightarrow> u64" where
  "table_area efi pages = reply_address (efi (take 3 (opening_calls pages)))"

definition disk_area :: "efi \<Rightarrow> u64 \<Rightarrow> u64" where
  "disk_area efi pages = reply_address (efi (take 4 (opening_calls pages)))"

definition map_area :: "efi \<Rightarrow> u64 \<Rightarrow> u64" where
  "map_area efi pages = reply_address (efi (opening_calls pages))"

lemmas area_defs = kernel_area_def table_area_def disk_area_def map_area_def opening_calls_def

lemma serial_init_other [simp]: "lo_mem (serial_init s) = lo_mem s" "lo_calls (serial_init s) = lo_calls s"
  by (simp_all add: serial_init_def)

lemma efi_main_run:
  assumes run: "efi_main efi img storage s0 = (Inr j, s)" and calls: "lo_calls s0 = []"
  obtains g format entry s4 s5 s6 where
    "boot_format g = Some format" "boot_framebuffer_ok g" "reply_graphics (efi [Locate_Graphics]) = Some g"
    "load_kernel img (kernel_area efi (disk_pages storage)) 0x200000 s4 = (Some entry, s5)"
    "lo_calls s6 = take 4 (opening_calls (disk_pages storage))"
    "lo_mem s6 = clear_bytes MAP_ADDRESS PAGE_SIZE (clear_bytes INFO_ADDRESS PAGE_SIZE
       (copy_bytes (disk_area efi (disk_pages storage)) storage (lo_mem s5)))"
    "\<forall>n\<in>{2, 3, 4}. reply_status (efi (take n (opening_calls (disk_pages storage)))) = EFI_SUCCESS"
    "hand_over efi g format (kernel_area efi (disk_pages storage)) (table_area efi (disk_pages storage)) entry
       (disk_area efi (disk_pages storage)) (of_nat (length storage)) s6 = (Inr j, s)"
proof -
  let ?p = "disk_pages storage"
  have numbers: "512 * PAGE_SIZE = 0x200000" by (simp add: PAGE_SIZE_def)
  note run' = run [unfolded efi_main_def Let_def call_firmware_def disk_pages_def [symmetric] numbers prod.case]
  obtain g where g: "reply_graphics (efi [Locate_Graphics]) = Some g"
    using run' calls by (auto split: option.splits if_splits)
  obtain format where format: "boot_format g = Some format"
    using run' calls g by (auto split: option.splits if_splits)
  have fb: "boot_framebuffer_ok g" using run' calls g format by (auto split: if_splits)
  have ok2: "reply_status (efi (take 2 (opening_calls ?p))) = EFI_SUCCESS"
    using run' calls g format fb by (auto simp: opening_calls_def split: if_splits)
  have ok3: "reply_status (efi (take 3 (opening_calls ?p))) = EFI_SUCCESS"
    using run' calls g format fb ok2 by (auto simp: opening_calls_def split: if_splits)
  have ok4: "reply_status (efi (take 4 (opening_calls ?p))) = EFI_SUCCESS"
    using run' calls g format fb ok2 ok3 by (auto simp: opening_calls_def split: if_splits)
  define s4 where "s4 = (serial_text ''QUANTA_UEFI_ENTRY'' (serial_init s0))\<lparr>lo_calls := take 4 (opening_calls ?p)\<rparr>"
  obtain r5 s5 where load: "load_kernel img (kernel_area efi ?p) 0x200000 s4 = (r5, s5)" by fastforce
  have calls5: "lo_calls s5 = take 4 (opening_calls ?p)" using load_kernel_calls [OF load] by (simp add: s4_def)
  define s6 where "s6 = (serial_text ''QUANTA_UEFI_KERNEL_READY'' s5)\<lparr>lo_mem := clear_bytes MAP_ADDRESS PAGE_SIZE
    (clear_bytes INFO_ADDRESS PAGE_SIZE (copy_bytes (disk_area efi ?p) storage (lo_mem s5)))\<rparr>"
  have rest: "(case r5 of None \<Rightarrow> (Inl 1, serial_text ''QUANTA_UEFI_LOAD_ERROR'' s5)
      | Some entry \<Rightarrow> hand_over efi g format (kernel_area efi ?p) (table_area efi ?p) entry (disk_area efi ?p)
          (of_nat (length storage)) s6) = (Inr j, s)"
    using run' calls g format fb ok2 ok3 ok4 load
    by (simp add: area_defs s4_def s6_def split: option.splits if_splits)
  then obtain entry where "r5 = Some entry" by (cases r5) auto
  with rest load calls5 show thesis
    using that [OF format fb g, of s4 entry s5 s6] ok2 ok3 ok4 by (simp add: s6_def)
qed

section \<open>The grants\<close>

lemma exchanges_append: "\<exists>e. exchanges efi (p @ q) = exchanges efi p @ e"
proof (induction q rule: rev_induct)
  case (snoc c q)
  then obtain e where "exchanges efi (p @ q) = exchanges efi p @ e" by blast
  then show ?case using exchanges_snoc [of efi "p @ q" c] by simp
qed simp

lemma opening_exchanges:
  "exchanges efi (opening_calls pages) = [(Locate_Graphics, efi [Locate_Graphics]),
     (Allocate_Pages EFI_ALLOCATE_ANY 0 512, efi (take 2 (opening_calls pages))),
     (Allocate_Pages EFI_ALLOCATE_ADDRESS PML4_PHYSICAL 6, efi (take 3 (opening_calls pages))),
     (Allocate_Pages EFI_ALLOCATE_ANY 0 pages, efi (take 4 (opening_calls pages))),
     (Allocate_Pool 65536, efi (opening_calls pages))]"
  by (simp add: exchanges_def opening_calls_def upt_rec)

lemma loader_areas:
  assumes sound: "firmware_sound efi h" and start: "prefix (opening_calls pages) h"
    and ok: "\<forall>n\<in>{2, 3, 4}. reply_status (efi (take n (opening_calls pages))) = EFI_SUCCESS"
      "reply_status (efi (opening_calls pages)) = EFI_SUCCESS"
  shows "sorted_wrt areas_apart [(MAP_ADDRESS, 4096), (INFO_ADDRESS, 4096), (kernel_area efi pages, 0x200000),
      (table_area efi pages, 0x6000), (disk_area efi pages, unat pages * 4096), (map_area efi pages, 65536)]"
    "\<forall>a\<in>set [(kernel_area efi pages, 0x200000), (table_area efi pages, 0x6000), (disk_area efi pages, unat pages * 4096),
      (map_area efi pages, 65536)]. unat (fst a) + snd a \<le> 2 ^ 52"
    "page_aligned (kernel_area efi pages)" "table_area efi pages = PML4_PHYSICAL"
proof -
  obtain t where h: "h = opening_calls pages @ t" using start by (auto simp: prefix_def)
  obtain e where e: "exchanges efi h = exchanges efi (opening_calls pages) @ e" using exchanges_append h by metis
  have grants: "areas efi h = [(MAP_ADDRESS, 4096), (INFO_ADDRESS, 4096), (kernel_area efi pages, 0x200000),
      (table_area efi pages, 0x6000), (disk_area efi pages, unat pages * 4096), (map_area efi pages, 65536)] @ concat (map grant e)"
    using ok by (simp add: areas_def e opening_exchanges kernel_area_def table_area_def disk_area_def map_area_def)
  show "sorted_wrt areas_apart [(MAP_ADDRESS, 4096), (INFO_ADDRESS, 4096), (kernel_area efi pages, 0x200000),
      (table_area efi pages, 0x6000), (disk_area efi pages, unat pages * 4096), (map_area efi pages, 65536)]"
    using sound unfolding firmware_sound_def grants sorted_wrt_append by blast
  show "\<forall>a\<in>set [(kernel_area efi pages, 0x200000), (table_area efi pages, 0x6000), (disk_area efi pages, unat pages * 4096),
      (map_area efi pages, 65536)]. unat (fst a) + snd a \<le> 2 ^ 52"
    using sound unfolding firmware_sound_def grants by simp
  have "list_all reply_sound (exchanges efi (opening_calls pages))"
    using sound unfolding firmware_sound_def e by simp
  then show "page_aligned (kernel_area efi pages)" "table_area efi pages = PML4_PHYSICAL"
    using ok(1) by (simp_all add: opening_exchanges kernel_area_def table_area_def)
qed

section \<open>What the kernel finds\<close>

lemma apart_areas:
  "areas_apart (a, n) (b, k) \<Longrightarrow> unat a + n \<le> 2 ^ 52 \<Longrightarrow> unat b + k \<le> 2 ^ 52 \<Longrightarrow> \<not> (in_area a n x \<and> in_area b k x)"
  by (auto simp: in_area_unat areas_apart_def)

lemma loader_run:
  assumes run: "efi_main efi img storage s0 = (Inr (root, entry, info), s)" and calls: "lo_calls s0 = []"
    and size: "length storage < 2 ^ 63" "length img < 2 ^ 64" and sound: "firmware_sound efi (lo_calls s)"
  defines "pages \<equiv> disk_pages storage"
  defines "ka \<equiv> kernel_area efi pages" and "da \<equiv> disk_area efi pages" and "b \<equiv> map_area efi pages"
  obtains g format t0 t m h r n where
    "root = PML4_PHYSICAL" "info = INFO_ADDRESS" "load_kernel img ka 0x200000 t0 = (Some entry, t)"
    "block 12 ka" "unat ka + 0x200000 \<le> 2 ^ 52" "lo_mem s = build_tables PML4_PHYSICAL ka m"
    "\<forall>x. in_area ka 0x200000 x \<longrightarrow> lo_mem s x = lo_mem t x"
    "\<forall>k<length storage. lo_mem s (da + of_nat k) = storage ! k"
    "reply_graphics (efi [Locate_Graphics]) = Some g" "boot_format g = Some format" "boot_framebuffer_ok g"
    "boot_info_at (lo_mem s) INFO_ADDRESS = boot_record g format da (of_nat (length storage)) n" "unat n \<le> 64"
    "lo_calls s = h @ [Get_Memory_Map 65536 b, Exit_Boot_Services (reply_key r)]" "r = efi (h @ [Get_Memory_Map 65536 b])"
    "reply_status r = EFI_SUCCESS"
    "regions_at (lo_mem s) MAP_ADDRESS (unat n) = take 64 (conventional (descriptors (reply_map r) (unat (reply_descriptor_size r))))"
proof -
  obtain g format e s4 s5 s6 where g: "boot_format g = Some format" "boot_framebuffer_ok g" "reply_graphics (efi [Locate_Graphics]) = Some g"
    and load: "load_kernel img ka 0x200000 s4 = (Some e, s5)"
    and calls6: "lo_calls s6 = take 4 (opening_calls pages)"
    and mem6: "lo_mem s6 = clear_bytes MAP_ADDRESS PAGE_SIZE (clear_bytes INFO_ADDRESS PAGE_SIZE (copy_bytes da storage (lo_mem s5)))"
    and ok: "\<forall>n\<in>{2, 3, 4}. reply_status (efi (take n (opening_calls pages))) = EFI_SUCCESS"
    and hand: "hand_over efi g format ka (table_area efi pages) e da (of_nat (length storage)) s6 = (Inr (root, entry, info), s)"
    unfolding pages_def ka_def da_def by (rule efi_main_run [OF run calls])
  have pool: "lo_calls s6 @ [Allocate_Pool 65536] = opening_calls pages" by (simp add: calls6 opening_calls_def)
  note onwards = hand_over_calls [OF hand, unfolded pool]
  note areas = loader_areas [OF sound onwards(2) ok onwards(1), folded ka_def da_def b_def]
  have len: "length storage \<le> unat pages * 4096" unfolding pages_def by (rule disk_fits [OF size(1)])
  have range: "in_area PML4_PHYSICAL 0x6000 x \<longleftrightarrow> unat PML4_PHYSICAL \<le> unat x \<and> unat x < unat PML4_PHYSICAL + 0x6000"
    for x using areas(2,4) by (simp add: in_area_unat)
  have fixed: "unat MAP_ADDRESS = 0x5000" "unat INFO_ADDRESS = 0x9000" "unat PML4_PHYSICAL = 0x100000"
    by (simp_all add: MAP_ADDRESS_def INFO_ADDRESS_def PML4_PHYSICAL_def)
  have ends: "unat ka + 0x200000 \<le> 2 ^ 52" "unat PML4_PHYSICAL + 0x6000 \<le> 2 ^ 52" "unat da + unat pages * 4096 \<le> 2 ^ 52"
    "unat b + 65536 \<le> 2 ^ 52" "unat MAP_ADDRESS + 4096 \<le> 2 ^ 52" "unat INFO_ADDRESS + 4096 \<le> 2 ^ 52"
    using areas(2,4) by (simp_all add: fixed)
  note apart = areas(1) [unfolded areas(4), simplified]
  have kernel_apart: "\<not> (in_area ka 0x200000 x \<and> in_area PML4_PHYSICAL 0x6000 x)" "\<not> (in_area ka 0x200000 x \<and> in_area b 65536 x)"
    "\<not> (in_area MAP_ADDRESS 4096 x \<and> in_area ka 0x200000 x)" "\<not> (in_area INFO_ADDRESS 4096 x \<and> in_area ka 0x200000 x)"
    "\<not> (in_area ka 0x200000 x \<and> in_area da (unat pages * 4096) x)" for x
    by (rule apart_areas; (rule ends | simp add: apart))+
  have disk_apart: "\<not> (in_area PML4_PHYSICAL 0x6000 x \<and> in_area da (unat pages * 4096) x)"
    "\<not> (in_area da (unat pages * 4096) x \<and> in_area b 65536 x)"
    "\<not> (in_area MAP_ADDRESS 4096 x \<and> in_area da (unat pages * 4096) x)"
    "\<not> (in_area INFO_ADDRESS 4096 x \<and> in_area da (unat pages * 4096) x)" for x
    by (rule apart_areas; (rule ends | simp add: apart))+
  have "buffer_free b" using areas(1,2) by (simp add: buffer_free_def)
  then have "buffer_free (reply_address (efi (lo_calls s6 @ [Allocate_Pool 65536])))" by (simp add: pool b_def map_area_def)
  moreover have "lo_mem s6 x = 0" if "in_area INFO_ADDRESS 4096 x" for x
    using that by (simp add: mem6 clear_bytes_at PAGE_SIZE_def)
  moreover have "list_all reply_sound (exchanges efi (lo_calls s))" using sound by (simp add: firmware_sound_def)
  ultimately obtain m h r n where j: "(root, entry, info) = (PML4_PHYSICAL, e, INFO_ADDRESS)" "lo_mem s = build_tables PML4_PHYSICAL ka m"
    and c: "lo_calls s = h @ [Get_Memory_Map 65536 b, Exit_Boot_Services (reply_key r)]" "r = efi (h @ [Get_Memory_Map 65536 b])"
      "reply_status r = EFI_SUCCESS"
    and handed: "handed r m" and info: "boot_info_at m INFO_ADDRESS = boot_record g format da (of_nat (length storage)) n"
    and keep: "\<forall>x. \<not> in_area b 65536 x \<longrightarrow> \<not> in_area MAP_ADDRESS 4096 x \<longrightarrow> \<not> in_area INFO_ADDRESS 4096 x \<longrightarrow> m x = lo_mem s6 x"
    using hand_over_run [OF hand] unfolding pool areas(4) b_def map_area_def by metis
  have tables: "lo_mem s x = m x" if "\<not> in_area PML4_PHYSICAL 0x6000 x" for x
    unfolding j(2) by (rule build_tables_keeps [OF that])
  have info_s: "boot_info_at (lo_mem s) INFO_ADDRESS = boot_record g format da (of_nat (length storage)) n"
    unfolding info [symmetric] by (rule boot_info_kept) (rule tables, simp add: range fixed_areas fixed)
  have n: "unat n \<le> 64" and regions: "regions_at m MAP_ADDRESS (unat n) = take 64 (conventional (descriptors (reply_map r) (unat (reply_descriptor_size r))))"
    using handed by (simp_all add: handed_def info boot_record_def Let_def)
  have regions_s: "regions_at (lo_mem s) MAP_ADDRESS (unat n) = regions_at m MAP_ADDRESS (unat n)"
    using n by (intro regions_kept) (rule tables, simp_all add: range fixed_areas fixed)
  have fixed_kept: "lo_mem s x = lo_mem s6 x"
    if "\<not> in_area PML4_PHYSICAL 0x6000 x" "\<not> in_area b 65536 x" "\<not> in_area MAP_ADDRESS 4096 x" "\<not> in_area INFO_ADDRESS 4096 x" for x
    using tables keep that by simp
  have kernel: "lo_mem s x = lo_mem s5 x" if x: "in_area ka 0x200000 x" for x
  proof -
    have o: "\<not> in_area PML4_PHYSICAL 0x6000 x" "\<not> in_area b 65536 x" "\<not> in_area MAP_ADDRESS 4096 x" "\<not> in_area INFO_ADDRESS 4096 x"
      using x kernel_apart by blast+
    have "\<not> in_area da (unat pages * 4096) x" using x kernel_apart by blast
    then have "\<not> in_area da (length storage) x" using len by (auto simp: in_area_def)
    then show ?thesis using fixed_kept [OF o] o(3,4) size(1) by (simp add: mem6 clear_bytes_at copy_bytes_at PAGE_SIZE_def)
  qed
  have disk: "lo_mem s (da + of_nat k) = storage ! k" if k: "k < length storage" for k
  proof -
    let ?x = "da + of_nat k"
    have small: "unat (of_nat k :: u64) = k" using k size(1) by (simp add: unat_of_nat)
    have "in_area da (unat pages * 4096) ?x" using k len size(1) by (intro in_area_offset) simp_all
    then have o: "\<not> in_area PML4_PHYSICAL 0x6000 ?x" "\<not> in_area b 65536 ?x" "\<not> in_area MAP_ADDRESS 4096 ?x" "\<not> in_area INFO_ADDRESS 4096 ?x"
      using disk_apart by blast+
    show ?thesis
      using fixed_kept [OF o] o(3,4) size(1) k small by (simp add: mem6 clear_bytes_at copy_bytes_at in_area_def PAGE_SIZE_def)
  qed
  have "block 12 ka" "unat ka + 0x200000 \<le> 2 ^ 52"
    using areas(2,3) by (auto simp: block_unat page_aligned_def)
  then show thesis
    using that [of s4 s5 m g format n h r] load j g c info_s n regions regions_s kernel disk by simp
qed

section \<open>The kernel in its place\<close>

lemma kernel_translation:
  assumes "d < 0x200000"
  shows "boot_translation kbase (KERNEL_VMA + of_nat d) = Some (kbase + of_nat d)"
proof -
  have "unat (of_nat d :: u64) = d" using assms by (simp add: unat_of_nat)
  then have va: "unat (KERNEL_VMA + of_nat d) = 18446744071563116544 + d"
    using assms by (simp add: KERNEL_VMA_def unat_word_ariths)
  have quotient: "(18446744071563116544 + d) div 549755813888 = 33554431"
    by (rule div_nat_eqI) (use assms in simp_all)
  have "(18446744071563116544 + d) mod 549755813888 = 547609378816 + d"
    using div_mult_mod_eq [of "18446744071563116544 + d" 549755813888] unfolding quotient by linarith
  with quotient have "table_index (KERNEL_VMA + of_nat d) 39 = 511" "unat (KERNEL_VMA + of_nat d) mod 2 ^ 39 = KERNEL_PLACE + d"
    by (simp_all add: table_index_unat va KERNEL_PLACE_def)
  moreover have "\<not> KERNEL_PLACE + d < 2 ^ 30" by (simp add: KERNEL_PLACE_def)
  ultimately show ?thesis using assms unfolding boot_translation_def by simp
qed

end
