(* ===== verification/Uefi_Properties.thy ===== *)
theory Uefi_Properties
  imports Uefi_Start
begin

text \<open>
  The properties of the loader, with a firmware and an image on which they apply.
\<close>

unbundle bit_operations_syntax

section \<open>Which images are accepted\<close>

definition alignment_ok :: "kernel_segment \<Rightarrow> bool" where
  "alignment_ok p \<longleftrightarrow> ks_alignment p \<le> 1 \<or>
     ks_alignment p AND (ks_alignment p - 1) = 0 \<and> ks_physical p mod ks_alignment p = ks_offset p mod ks_alignment p"

definition kernel_accepted :: "byte list \<Rightarrow> bool" where
  "kernel_accepted img \<longleftrightarrow> 64 \<le> length img \<and> kernel_header_ok img \<and>
     (\<forall>p\<in>set (filter is_load_segment (segments img)). segment_fits (length img) 0x200000 p \<and> alignment_ok p) \<and>
     (\<exists>p\<in>set (filter is_load_segment (segments img)). ks_virtual p \<le> kernel_entry img \<and>
        kernel_entry img < ks_virtual p + ks_memory_size p)"

lemma check_segment_exact:
  assumes "length img < 2 ^ 64"
  shows "check_segment (of_nat (length img)) 0x200000 p =
    (if segment_fits (length img) 0x200000 p \<and> alignment_ok p then Some (ks_virtual p + ks_memory_size p) else None)"
proof (cases "check_segment (of_nat (length img)) 0x200000 p")
  case (Some e)
  note fits = check_segment_fits [OF Some, unfolded unat_length [OF assms]]
  moreover have "alignment_ok p"
    using Some by (auto simp: check_segment_def alignment_ok_def not_less split: if_splits option.splits)
  ultimately show ?thesis using Some by simp
next
  case None
  have "\<not> (segment_fits (length img) 0x200000 p \<and> alignment_ok p)"
  proof
    assume p: "segment_fits (length img) 0x200000 p \<and> alignment_ok p"
    have place: "ks_physical p = segment_place p + KERNEL_PHYSICAL" by (simp add: segment_place_def)
    have room: "unat (segment_place p) + unat (ks_memory_size p) \<le> 0x200000" using p by (simp add: segment_fits_def)
    have physical: "unat (ks_physical p) = unat (segment_place p) + 0x200000"
      unfolding place using room by (simp add: unat_word_ariths KERNEL_PHYSICAL_def)
    have sum: "unat (ks_physical p) + unat (ks_memory_size p) < 2 ^ 64" using room physical by simp
    have ends: "ks_physical p + ks_memory_size p - KERNEL_PHYSICAL = segment_place p + ks_memory_size p"
      by (simp add: segment_place_def)
    have "unat (segment_place p + ks_memory_size p) = unat (segment_place p) + unat (ks_memory_size p)"
      using room by (simp add: unat_word_ariths)
    then have small: "\<not> segment_place p + ks_memory_size p > 0x200000" using room by (simp add: word_less_nat_alt)
    have up: "\<not> ks_physical p + ks_memory_size p < ks_physical p"
      using sum by (simp add: word_less_nat_alt unat_word_ariths)
    have "unat (ks_offset p) + unat (ks_file_size p) \<le> length img" using p by (simp add: segment_fits_def)
    then have inside: "\<not> ks_offset p > of_nat (length img)" "\<not> ks_file_size p > of_nat (length img) - ks_offset p"
      using unat_length [OF assms] by (auto simp: word_less_nat_alt unat_sub word_le_nat_alt)
    have over: "add_overflow (ks_physical p) (ks_memory_size p) = Some (ks_physical p + ks_memory_size p)"
      "add_overflow (ks_virtual p) (ks_memory_size p) = Some (ks_virtual p + ks_memory_size p)"
      using p sum by (simp_all add: add_overflow_Some segment_fits_def)
    have low: "\<not> ks_file_size p > ks_memory_size p" "\<not> ks_physical p < KERNEL_PHYSICAL"
      using p by (auto simp: segment_fits_def word_less_nat_alt word_le_nat_alt)
    have aligned: "\<not> (ks_alignment p > 1 \<and> ks_alignment p AND (ks_alignment p - 1) \<noteq> 0 \<or>
        ks_alignment p > 1 \<and> ks_physical p mod ks_alignment p \<noteq> ks_offset p mod ks_alignment p)"
      using p by (auto simp: alignment_ok_def)
    have "check_segment (of_nat (length img)) 0x200000 p = Some (ks_virtual p + ks_memory_size p)"
      unfolding check_segment_def over option.case ends using inside up small low aligned by (simp only: simp_thms if_False)
    then show False using None by simp
  qed
  then show ?thesis using None by simp
qed

lemma fst_load_segments:
  assumes size: "length img < 2 ^ 64"
  shows "fst (load_segments img destination 0x200000 ps b s) =
    (if \<forall>p\<in>set (filter is_load_segment ps). segment_fits (length img) 0x200000 p \<and> alignment_ok p
     then Some (b \<or> (\<exists>p\<in>set (filter is_load_segment ps). ks_virtual p \<le> kernel_entry img \<and>
       kernel_entry img < ks_virtual p + ks_memory_size p)) else None)"
proof (induction ps arbitrary: b s)
  case (Cons p ps)
  show ?case
  proof (cases "ks_type p = 1")
    case False
    then show ?thesis using Cons.IH by (simp add: is_load_segment_def)
  next
    case load: True
    show ?thesis
    proof (cases "segment_fits (length img) 0x200000 p \<and> alignment_ok p")
      case True
      then have "unat (ks_offset p) + unat (ks_file_size p) \<le> length img" by (simp add: segment_fits_def)
      then have "\<not> ks_offset p + ks_file_size p > of_nat (length img)"
        using size unat_length [OF size] by (simp add: word_less_nat_alt unat_word_ariths)
      then show ?thesis
        using load True Cons.IH by (simp add: check_segment_exact [OF size] is_load_segment_def) blast
    next
      case False
      then have "check_segment (of_nat (length img)) 0x200000 p = None" by (subst check_segment_exact [OF size]) (rule if_not_P)
      then show ?thesis using load False by (auto simp: is_load_segment_def)
    qed
  qed
qed simp

lemma fst_load_kernel:
  assumes size: "length img < 2 ^ 64"
  shows "fst (load_kernel img destination 0x200000 s) = (if kernel_accepted img then Some (kernel_entry img) else None)"
proof -
  have "of_nat (length img) < (64 :: u64) \<longleftrightarrow> length img < 64"
    using unat_length [OF size] by (simp add: word_less_nat_alt)
  moreover obtain r s1 where run: "load_segments img destination 0x200000 (segments img) False s = (r, s1)" by fastforce
  ultimately show ?thesis
    using fst_load_segments [OF size, of destination "segments img" False s]
    by (auto simp: load_kernel_def kernel_accepted_def not_less split: option.split if_splits)
qed

section \<open>A firmware that grants every call\<close>

lemma loader_reaches_jump:
  assumes grants: "\<And>h. reply_status (efi h) = EFI_SUCCESS"
    and display: "reply_graphics (efi [Locate_Graphics]) = Some g" "boot_format g \<noteq> None" "boot_framebuffer_ok g"
    and img: "length img < 2 ^ 64" "kernel_accepted img" and calls: "lo_calls s0 = []"
  shows "\<exists>s. efi_main efi img storage s0 = (Inr (table_area efi (disk_pages storage), kernel_entry img, INFO_ADDRESS), s) \<and>
    lo_calls s = opening_calls (disk_pages storage) @ [Get_Memory_Map 65536 (map_area efi (disk_pages storage)),
      Exit_Boot_Services (reply_key (efi (opening_calls (disk_pages storage) @ [Get_Memory_Map 65536 (map_area efi (disk_pages storage))])))]"
proof -
  let ?p = "disk_pages storage"
  obtain format where format: "boot_format g = Some format" using display(2) by blast
  have numbers: "512 * PAGE_SIZE = 0x200000" by (simp add: PAGE_SIZE_def)
  define s4 where "s4 = (serial_text ''QUANTA_UEFI_ENTRY'' (serial_init s0))\<lparr>lo_calls := take 4 (opening_calls ?p)\<rparr>"
  obtain s5 where load: "load_kernel img (kernel_area efi ?p) 0x200000 s4 = (Some (kernel_entry img), s5)"
    using fst_load_kernel [OF img(1), of "kernel_area efi ?p" s4] img(2) by (metis prod.collapse)
  have calls5: "lo_calls s5 = take 4 (opening_calls ?p)" using load_kernel_calls [OF load] by (simp add: s4_def)
  define s6 where "s6 = (serial_text ''QUANTA_UEFI_KERNEL_READY'' s5)\<lparr>lo_mem := clear_bytes MAP_ADDRESS PAGE_SIZE
    (clear_bytes INFO_ADDRESS PAGE_SIZE (copy_bytes (disk_area efi ?p) storage (lo_mem s5)))\<rparr>"
  have main: "efi_main efi img storage s0 = hand_over efi g format (kernel_area efi ?p) (table_area efi ?p) (kernel_entry img)
      (disk_area efi ?p) (of_nat (length storage)) s6"
    unfolding efi_main_def Let_def call_firmware_def disk_pages_def [symmetric] numbers prod.case
    using display(1,3) format grants calls load by (simp add: area_defs s4_def s6_def)
  have calls6: "lo_calls s6 = take 4 (opening_calls ?p)" by (simp add: s6_def calls5)
  then have pool: "lo_calls s6 @ [Allocate_Pool 65536] = opening_calls ?p" by (simp add: opening_calls_def)
  show ?thesis
    unfolding main hand_over_def call_firmware_def get_map_def take_regions_def leave_boot_services_def enter_kernel_def Let_def prod.case pool
    using grants by (auto simp: map_area_def pool split: prod.splits)
qed

section \<open>A concrete boot\<close>

definition demo_image_header :: "byte list" where
  "demo_image_header = [0x7f, of_char CHR ''E'', of_char CHR ''L'', of_char CHR ''F'', 2, 1, 1, 0, 0, 0, 0, 0, 0, 0, 0, 0]
     @ le16 2 @ le16 0x3e @ le32 1 @ le64 KERNEL_VMA
     @ le64 64 @ le64 0 @ le32 0 @ le16 64 @ le16 56 @ le16 1 @ le16 0 @ le16 0 @ le16 0"

definition demo_image_segment :: "byte list" where
  "demo_image_segment = le32 1 @ le32 5 @ le64 120 @ le64 KERNEL_VMA @ le64 0x200000 @ le64 4 @ le64 8 @ le64 4"

definition demo_image :: "byte list" where
  "demo_image = demo_image_header @ demo_image_segment @ [0xfa, 0xf4, 0xeb, 0xfe]"

lemma demo_image_lengths: "length demo_image_header = 64" "length demo_image_segment = 56" "length demo_image = 124"
  by (simp_all add: demo_image_header_def demo_image_segment_def demo_image_def)

lemma demo_image_magic: "demo_image ! 0 = 0x7f" "demo_image ! 1 = of_char CHR ''E''" "demo_image ! 2 = of_char CHR ''L''"
  "demo_image ! 3 = of_char CHR ''F''" "demo_image ! 4 = 2" "demo_image ! 5 = 1" "demo_image ! 6 = 1"
  by (simp_all add: demo_image_def demo_image_header_def)

lemma demo_image_fields:
  "u16_at demo_image 16 = 2" "u16_at demo_image 18 = 0x3e" "u32_at demo_image 20 = 1" "kernel_entry demo_image = KERNEL_VMA"
  "segment_table demo_image = 64" "u16_at demo_image 52 = 64" "u16_at demo_image 54 = 56" "segment_count demo_image = 1"
  by (simp_all add: demo_image_def demo_image_header_def demo_image_segment_def u16_at_def u32_at_def u64_at_def field_layout
      field_Cons kernel_entry_def segment_table_def segment_count_def)

lemma demo_image_segments:
  "segments demo_image = [\<lparr>ks_type = 1, ks_offset = 120, ks_virtual = KERNEL_VMA, ks_physical = 0x200000,
     ks_file_size = 4, ks_memory_size = 8, ks_alignment = 4\<rparr>]"
proof -
  have "segment_of demo_image_segment = \<lparr>ks_type = 1, ks_offset = 120, ks_virtual = KERNEL_VMA, ks_physical = 0x200000,
      ks_file_size = 4, ks_memory_size = 8, ks_alignment = 4\<rparr>"
    by (simp add: segment_of_def demo_image_segment_def u32_at_def u64_at_def field_layout)
  moreover have "field demo_image 64 56 = demo_image_segment"
    by (simp add: demo_image_def field_layout demo_image_lengths)
  ultimately show ?thesis by (simp add: segments_def segment_at_def demo_image_fields)
qed

lemma demo_image_accepted: "kernel_accepted demo_image"
  by (simp add: kernel_accepted_def kernel_header_ok_def demo_image_lengths demo_image_magic [simplified] demo_image_fields
      demo_image_segments is_load_segment_def segment_fits_def segment_place_def alignment_ok_def KERNEL_PHYSICAL_def KERNEL_VMA_def)

definition demo_mode :: graphics_mode where
  "demo_mode = \<lparr>horizontal_resolution = 1024, vertical_resolution = 768, pixel_format = 1, pixel_information = [0, 0, 0, 0],
     pixels_per_scan_line = 1024, mode_framebuffer_base = 0x80000000, mode_framebuffer_size = 0x300000\<rparr>"

text \<open>The firmware lists one free area of 16 MiB from 16 MiB on.\<close>

fun demo_address :: "efi_call \<Rightarrow> u64" where
  "demo_address (Allocate_Pages policy address pages) =
     (if policy = EFI_ALLOCATE_ADDRESS then address else if pages = 512 then 0x800000 else 0xa00000)"
| "demo_address c = 0xb00000"

definition demo_efi :: efi where
  "demo_efi h = \<lparr>reply_status = 0, reply_address = demo_address (last h), reply_graphics = Some demo_mode,
     reply_map = le32 7 @ le32 0 @ le64 0x1000000 @ le64 0 @ le64 0x1000 @ le64 0, reply_key = 1, reply_descriptor_size = 40\<rparr>"

definition demo_loader :: loader where
  "demo_loader = \<lparr>lo_mem = (\<lambda>_. 0), lo_ports = [], lo_calls = []\<rparr>"

definition demo_boot :: loader where
  "demo_boot = snd (efi_main demo_efi demo_image [1, 2, 3] demo_loader)"

definition demo_calls :: "efi_call list" where
  "demo_calls = opening_calls 1 @ [Get_Memory_Map 65536 0xb00000, Exit_Boot_Services 1]"

lemma demo_pages: "disk_pages [1, 2, 3] = 1"
  by (simp add: disk_pages_def PAGE_SIZE_def)

lemma demo_boot_run:
  "efi_main demo_efi demo_image [1, 2, 3] demo_loader = (Inr (PML4_PHYSICAL, KERNEL_VMA, INFO_ADDRESS), demo_boot)"
  "lo_calls demo_boot = demo_calls"
proof -
  have "\<exists>s. efi_main demo_efi demo_image [1, 2, 3] demo_loader = (Inr (table_area demo_efi (disk_pages [1, 2, 3]), kernel_entry demo_image, INFO_ADDRESS), s) \<and>
    lo_calls s = opening_calls (disk_pages [1, 2, 3]) @ [Get_Memory_Map 65536 (map_area demo_efi (disk_pages [1, 2, 3])),
      Exit_Boot_Services (reply_key (demo_efi (opening_calls (disk_pages [1, 2, 3]) @ [Get_Memory_Map 65536 (map_area demo_efi (disk_pages [1, 2, 3]))])))]"
    by (rule loader_reaches_jump [where g = demo_mode])
      (simp_all add: demo_efi_def demo_mode_def boot_format_def boot_framebuffer_ok_def boot_framebuffer_bytes_def EFI_SUCCESS_def
        demo_image_lengths demo_image_accepted demo_loader_def)
  then show "efi_main demo_efi demo_image [1, 2, 3] demo_loader = (Inr (PML4_PHYSICAL, KERNEL_VMA, INFO_ADDRESS), demo_boot)"
    "lo_calls demo_boot = demo_calls"
    by (auto simp: demo_pages demo_calls_def demo_boot_def demo_efi_def area_defs EFI_ALLOCATE_ADDRESS_def demo_image_fields)
qed

lemma demo_exchanges:
  "map grant (exchanges demo_efi demo_calls) = [[], [(0x800000, 0x200000)], [(PML4_PHYSICAL, 0x6000)], [(0xa00000, 4096)],
     [(0xb00000, 65536)], [], []]"
  "list_all reply_sound (exchanges demo_efi demo_calls)"
  by (simp_all add: exchanges_def demo_calls_def opening_calls_def upt_rec demo_efi_def EFI_SUCCESS_def EFI_ALLOCATE_ADDRESS_def
      EFI_ALLOCATE_ANY_def page_aligned_def PML4_PHYSICAL_def)

lemma demo_firmware_sound: "firmware_sound demo_efi demo_calls"
  by (simp add: firmware_sound_def areas_def demo_exchanges areas_apart_def MAP_ADDRESS_def INFO_ADDRESS_def PML4_PHYSICAL_def)

section \<open>Properties\<close>

text \<open>C8: The loader puts the kernel where it is linked.  When \<open>efi_main\<close> reaches its jump, the entry point is the one of the
  image and lies in a load segment, and every byte of every load segment that is linked like the kernel (its virtual address
  as far from \<open>KERNEL_VMA\<close> as its physical one from \<open>KERNEL_PHYSICAL\<close>) and not covered by a later segment is read, through the
  page tables the loader built and at the address the segment asks for, as the byte of the file or as zero.\<close>

theorem kernel_starts_loaded:
  assumes "efi_main efi img storage s0 = (Inr (root, entry, info), s)" "lo_calls s0 = []"
    "length storage < 2 ^ 63" "length img < 2 ^ 64" "firmware_sound efi (lo_calls s)"
    "ps = filter is_load_segment (segments img)"
  shows "entry = kernel_entry img \<and> (\<exists>p\<in>set ps. ks_virtual p \<le> entry \<and> entry < ks_virtual p + ks_memory_size p) \<and>
    (\<forall>i k. i < length ps \<longrightarrow> ks_virtual (ps ! i) - KERNEL_VMA = segment_place (ps ! i) \<longrightarrow>
       (\<forall>j. i < j \<and> j < length ps \<longrightarrow> segments_apart (ps ! i) (ps ! j)) \<longrightarrow> k < unat (ks_memory_size (ps ! i)) \<longrightarrow>
       map_option (lo_mem s) (page_walk (load64 (lo_mem s)) root (ks_virtual (ps ! i) + of_nat k)) = Some (segment_byte img (ps ! i) k))"
proof -
  define ka where "ka = kernel_area efi (disk_pages storage)"
  obtain t0 t m where root: "root = PML4_PHYSICAL" and load: "load_kernel img ka 0x200000 t0 = (Some entry, t)"
    and ka: "block 12 ka" "unat ka + 0x200000 \<le> 2 ^ 52" and mem: "lo_mem s = build_tables PML4_PHYSICAL ka m"
    and kept: "\<forall>x. in_area ka 0x200000 x \<longrightarrow> lo_mem s x = lo_mem t x"
  proof -
    show thesis by (rule loader_run [OF assms(1-5)], fold ka_def) (rule that; assumption)
  qed
  note loaded = load_kernel_Some [OF assms(4) load, folded assms(6)]
  have tables: "block 12 PML4_PHYSICAL" "unat PML4_PHYSICAL + 0x6000 \<le> 2 ^ 52"
    by (simp_all add: block_unat PML4_PHYSICAL_def)
  have "map_option (lo_mem s) (page_walk (load64 (lo_mem s)) root (ks_virtual (ps ! i) + of_nat k)) = Some (segment_byte img (ps ! i) k)"
    if i: "i < length ps" and linked: "ks_virtual (ps ! i) - KERNEL_VMA = segment_place (ps ! i)"
      and apart: "\<forall>j. i < j \<and> j < length ps \<longrightarrow> segments_apart (ps ! i) (ps ! j)" and k: "k < unat (ks_memory_size (ps ! i))" for i k
  proof -
    let ?p = "ps ! i" let ?d = "unat (segment_place ?p) + k"
    have "segment_fits (length img) 0x200000 ?p" using loaded(1) i by simp
    then have d: "?d < 0x200000" using k by (simp add: segment_fits_def)
    have va: "ks_virtual ?p + of_nat k = KERNEL_VMA + of_nat ?d" using linked by (simp add: algebra_simps)
    have pa: "ka + of_nat ?d = ka + segment_place ?p + of_nat k" by simp
    have "page_walk (load64 (lo_mem s)) root (ks_virtual ?p + of_nat k) = Some (ka + of_nat ?d)"
      unfolding root mem built_page_walk [OF tables ka] va by (rule kernel_translation [OF d])
    moreover have "lo_mem s (ka + of_nat ?d) = lo_mem t (ka + of_nat ?d)"
      using kept in_area_offset [OF d, of ka] d by simp
    moreover have "lo_mem t (ka + of_nat ?d) = segment_byte img ?p k"
      unfolding pa loaded(4) by (rule loaded_segments [OF loaded(1) i apart k])
    ultimately show ?thesis by simp
  qed
  then show ?thesis using loaded(2,3) by blast
qed

theorem kernel_starts_loaded_witness:
  "map_option (lo_mem demo_boot) (page_walk (load64 (lo_mem demo_boot)) PML4_PHYSICAL (KERNEL_VMA + of_nat 1)) = Some 0xf4"
proof -
  have "demo_image ! 121 = 0xf4" by (simp add: demo_image_def demo_image_lengths nth_append)
  then have "segment_byte demo_image (segments demo_image ! 0) 1 = 0xf4" by (simp add: demo_image_segments segment_byte_def)
  moreover have "\<forall>k<8. map_option (lo_mem demo_boot) (page_walk (load64 (lo_mem demo_boot)) PML4_PHYSICAL (KERNEL_VMA + of_nat k)) =
      Some (segment_byte demo_image (segments demo_image ! 0) k)"
    using kernel_starts_loaded [OF demo_boot_run(1) _ _ _ _ refl]
    by (simp add: demo_boot_run(2) demo_loader_def demo_firmware_sound demo_image_lengths demo_image_segments is_load_segment_def
        segment_place_def KERNEL_PHYSICAL_def)
  ultimately show ?thesis by (metis one_less_numeral_iff semiring_norm(76))
qed



text \<open>C38: The page tables \<open>build_tables\<close> leaves map the first gigabyte to itself, in the first and the last 512 GiB of the
  address space, the 2 MiB from \<open>KERNEL_VMA\<close> on to the kernel's, and nothing else, whatever was in memory before.\<close>

theorem boot_tables_exact:
  assumes "block 12 root" "unat root + 0x6000 \<le> 2 ^ 52" "block 12 kbase" "unat kbase + 0x200000 \<le> 2 ^ 52"
  shows "page_walk (load64 (build_tables root kbase m)) root va = boot_translation kbase va"
  using assms by (rule built_page_walk)

theorem boot_tables_exact_witness:
  "page_walk (load64 (build_tables 0x100000 0x800000 (\<lambda>_. 0))) 0x100000 (KERNEL_VMA + of_nat 0x1234) = Some (0x800000 + of_nat 0x1234)"
  using boot_tables_exact [where root = "0x100000" and kbase = "0x800000" and m = "\<lambda>_. 0" and va = "KERNEL_VMA + of_nat 0x1234"] kernel_translation [where d = "0x1234" and kbase = "0x800000"]
  by (simp add: block_unat)

text \<open>C9: Loading is safe for every image.  Whatever bytes the kernel image has, \<open>load_kernel\<close> stores only inside the 2 MiB it is
  given, and it succeeds exactly when the header is well-formed, every load segment lies in the file, in the allocation and in
  the address space with a sound alignment, and the entry point lies in a load segment.\<close>

theorem kernel_load_contained:
  assumes "length img < 2 ^ 64" "load_kernel img destination 0x200000 s = (r, s')"
  shows "r = (if kernel_accepted img then Some (kernel_entry img) else None) \<and>
    (\<forall>x. \<not> in_area destination 0x200000 x \<longrightarrow> lo_mem s' x = lo_mem s x)"
  using load_kernel_keeps [OF assms] fst_load_kernel [OF assms(1), of destination s] assms(2) by auto

theorem kernel_load_contained_witness:
  "fst (load_kernel demo_image 0x800000 0x200000 demo_loader) = Some KERNEL_VMA \<and>
    lo_mem (snd (load_kernel demo_image 0x800000 0x200000 demo_loader)) 0xa00000 = 0"
  using kernel_load_contained [where img = demo_image and destination = "0x800000" and s = demo_loader
      and r = "fst (load_kernel demo_image 0x800000 0x200000 demo_loader)"
      and s' = "snd (load_kernel demo_image 0x800000 0x200000 demo_loader)"]
  by (simp add: demo_image_lengths demo_image_accepted demo_image_fields in_area_def demo_loader_def)

text \<open>The firmware does not list as free what it has granted.\<close>

definition map_lists_free :: "efi \<Rightarrow> efi_call list \<Rightarrow> bool" where
  "map_lists_free efi h \<longleftrightarrow> list_all (\<lambda>(c, r). case c of Get_Memory_Map _ _ \<Rightarrow>
       list_all (\<lambda>g. list_all (\<lambda>a. areas_apart a (physical_start g, unat (region_length g))) (concat (map grant (exchanges efi h))))
         (conventional (descriptors (reply_map r) (unat (reply_descriptor_size r))))
     | _ \<Rightarrow> True) (exchanges efi h)"

lemma pool_in_region:
  assumes "pool_within q p" "areas_apart a (physical_start q, unat (region_length q))"
  shows "areas_apart a (fst p, unat (snd p - fst p))"
proof -
  have "unat (physical_start q + region_length q) = unat (physical_start q) + unat (region_length q)"
    using assms(1) no_olen_add_nat unat_add_lem by (auto simp: pool_within_def usable_def)
  moreover have "unat (snd p - fst p) = unat (snd p) - unat (fst p)" "unat (fst p) \<le> unat (snd p)"
    using assms(1) by (auto simp: pool_within_def unat_sub word_le_nat_alt word_less_nat_alt)
  ultimately show ?thesis using assms by (auto simp: pool_within_def areas_apart_def word_le_nat_alt)
qed


lemma demo_map: "map_lists_free demo_efi demo_calls"
    "conventional (descriptors (reply_map (demo_efi h)) (unat (reply_descriptor_size (demo_efi h)))) = [Region 0x1000000 0x1000000 1]"
proof -
  have "descriptors (le32 7 @ le32 0 @ le64 0x1000000 @ le64 0 @ le64 0x1000 @ le64 0) 40 = [le32 7 @ le32 0 @ le64 0x1000000 @ le64 0 @ le64 0x1000 @ le64 0]"
    by (simp add: descriptors_def field_whole)
  then show listed: "conventional (descriptors (reply_map (demo_efi h)) (unat (reply_descriptor_size (demo_efi h)))) = [Region 0x1000000 0x1000000 1]" for h
    by (simp add: demo_efi_def conventional_def u32_at_def u64_at_def field_layout EFI_CONVENTIONAL_MEMORY_def PAGE_SIZE_def)
  show "map_lists_free demo_efi demo_calls"
    unfolding map_lists_free_def demo_exchanges list_all_iff
    using listed by (auto simp: exchanges_def areas_apart_def PML4_PHYSICAL_def split: efi_call.split)
qed

lemma demo_pool:
  "quanta_memory_initialize (regions_at (lo_mem demo_boot) (bi_memory_map (boot_info_at (lo_mem demo_boot) INFO_ADDRESS))
     (unat (bi_memory_map_entries (boot_info_at (lo_mem demo_boot) INFO_ADDRESS)))) m =
   Some \<lparr>mem = m, pool_start = 0x1000000, pool_end = 0x2000000, next_frame = 0x1000000, free_frame_head = 0, allocated_frames = (\<lambda>_. 0)\<rparr>"
proof -
  obtain g format n h r where run:
    "boot_info_at (lo_mem demo_boot) INFO_ADDRESS = boot_record g format (disk_area demo_efi (disk_pages [1, 2, 3])) (of_nat (length [1, 2, 3 :: byte])) n"
    "r = demo_efi (h @ [Get_Memory_Map 65536 (map_area demo_efi (disk_pages [1, 2, 3]))])"
    "regions_at (lo_mem demo_boot) MAP_ADDRESS (unat n) = take 64 (conventional (descriptors (reply_map r) (unat (reply_descriptor_size r))))"
  proof -
    have "lo_calls demo_loader = []" "length [1, 2, 3 :: byte] < 2 ^ 63" "length demo_image < 2 ^ 64" "firmware_sound demo_efi (lo_calls demo_boot)"
      by (simp_all add: demo_loader_def demo_image_lengths demo_boot_run(2) demo_firmware_sound)
    then show thesis by (rule loader_run [OF demo_boot_run(1)]) (rule that; assumption)
  qed
  show ?thesis
    unfolding run(1) boot_record_def boot_info.select_convs run(3) unfolding run(2) demo_map(2)
    by (simp add: quanta_memory_initialize_def scan_region_def PAGE_SIZE_def IDENTITY_LIMIT_def)
qed


end
