(* ===== verification/Ports.thy ===== *)
theory Ports
  imports Prelude
begin

text \<open>
  The port-level drivers of \<^verbatim>\<open>kernel/arch/x86_64/tables.c\<close>: drive, mouse, serial line, retrace and cursor.  The
  devices behind the ports are parameters: a \<open>bus\<close> answers a read and takes a write of a port, and carries a
  state \<open>'w\<close> of its own.
\<close>

unbundle bit_operations_syntax

section \<open>Ports\<close>

record 'w bus =
  read8 :: "u16 \<Rightarrow> 'w \<Rightarrow> byte \<times> 'w"
  write8 :: "u16 \<Rightarrow> byte \<Rightarrow> 'w \<Rightarrow> 'w"
  read16 :: "u16 \<Rightarrow> 'w \<Rightarrow> u16 \<times> 'w"
  write16 :: "u16 \<Rightarrow> u16 \<Rightarrow> 'w \<Rightarrow> 'w"

definition inb :: "'w bus \<Rightarrow> u16 \<Rightarrow> 'w \<Rightarrow> byte \<times> 'w" where "inb bus port = read8 bus port"
definition outb :: "'w bus \<Rightarrow> u16 \<Rightarrow> byte \<Rightarrow> 'w \<Rightarrow> 'w" where "outb bus port value = write8 bus port value"
definition inw :: "'w bus \<Rightarrow> u16 \<Rightarrow> 'w \<Rightarrow> u16 \<times> 'w" where "inw bus port = read16 bus port"
definition outw :: "'w bus \<Rightarrow> u16 \<Rightarrow> u16 \<Rightarrow> 'w \<Rightarrow> 'w" where "outw bus port value = write16 bus port value"

lemmas port_defs = inb_def outb_def inw_def outw_def

text \<open>A bounded loop that tries \<open>f\<close> until it gives a result.\<close>

fun poll :: "nat \<Rightarrow> ('w \<Rightarrow> 'a option \<times> 'w) \<Rightarrow> 'w \<Rightarrow> 'a option \<times> 'w" where
  "poll 0 f w = (None, w)"
| "poll (Suc n) f w = (case f w of (None, w1) \<Rightarrow> poll n f w1 | (Some a, w1) \<Rightarrow> (Some a, w1))"

section \<open>The drive\<close>

record ata_device_info =
  io_base :: u16
  control_base :: u16
  ata_drive :: byte
  ata_present :: bool
  ata_sectors :: u64

definition ata_status :: "'w bus \<Rightarrow> u16 \<Rightarrow> 'w \<Rightarrow> byte \<times> 'w" where
  "ata_status bus base = inb bus (base + 7)"

definition ata_delay_400ns :: "'w bus \<Rightarrow> u16 \<Rightarrow> 'w \<Rightarrow> 'w" where
  "ata_delay_400ns bus control w =
     snd (inb bus control (snd (inb bus control (snd (inb bus control (snd (inb bus control w)))))))"

definition ata_try :: "'w bus \<Rightarrow> u16 \<Rightarrow> bool \<Rightarrow> 'w \<Rightarrow> bool option \<times> 'w" where
  "ata_try bus base require_data w =
     (case ata_status bus base w of (status, w1) \<Rightarrow>
        if status = 0 \<or> status = 0xff \<or> status AND 1 \<noteq> 0 then (Some False, w1)
        else if status AND 0x80 = 0 \<and> (\<not> require_data \<or> status AND 8 \<noteq> 0) then (Some True, w1)
        else (None, w1))"

text \<open>True is the result 0.\<close>

definition ata_wait_ready :: "'w bus \<Rightarrow> u16 \<Rightarrow> bool \<Rightarrow> 'w \<Rightarrow> bool \<times> 'w" where
  "ata_wait_ready bus base require_data w =
     (case poll 1000000 (ata_try bus base require_data) w of (r, w1) \<Rightarrow> (r = Some True, w1))"

text \<open>The registers of a command, then the command.\<close>

definition ata_command :: "'w bus \<Rightarrow> ata_device_info \<Rightarrow> u32 \<Rightarrow> byte \<Rightarrow> 'w \<Rightarrow> 'w" where
  "ata_command bus device lba c w =
     (let w1 = outb bus (io_base device + 6) (ucast (0xe0 OR push_bit 4 (ucast (ata_drive device) :: u32) OR (drop_bit 24 lba AND 0x0f))) w;
          w2 = ata_delay_400ns bus (control_base device) w1;
          w3 = outb bus (io_base device + 2) 1 w2;
          w4 = outb bus (io_base device + 3) (ucast lba) w3;
          w5 = outb bus (io_base device + 4) (ucast (drop_bit 8 lba)) w4;
          w6 = outb bus (io_base device + 5) (ucast (drop_bit 16 lba)) w5
      in outb bus (io_base device + 7) c w6)"

fun read_words :: "'w bus \<Rightarrow> u16 \<Rightarrow> nat \<Rightarrow> 'w \<Rightarrow> u16 list \<times> 'w" where
  "read_words bus base 0 w = ([], w)"
| "read_words bus base (Suc n) w =
     (case inw bus base w of (x, w1) \<Rightarrow> case read_words bus base n w1 of (xs, w2) \<Rightarrow> (x # xs, w2))"

definition ata_refuses :: "ata_device_info \<Rightarrow> u32 \<Rightarrow> bool" where
  "ata_refuses device lba \<longleftrightarrow> \<not> ata_present device \<or> ucast lba \<ge> ata_sectors device \<or> lba \<ge> push_bit 28 1"

definition pio_read :: "'w bus \<Rightarrow> ata_device_info \<Rightarrow> u32 \<Rightarrow> 'w \<Rightarrow> u16 list option \<times> 'w" where
  "pio_read bus device lba w =
     (if ata_refuses device lba then (None, w)
      else case ata_wait_ready bus (io_base device) True (ata_command bus device lba 0x20 w) of (ready, w1) \<Rightarrow>
        if \<not> ready then (None, w1)
        else case read_words bus (io_base device) 256 w1 of (xs, w2) \<Rightarrow> (Some xs, w2))"

definition pio_write :: "'w bus \<Rightarrow> ata_device_info \<Rightarrow> u32 \<Rightarrow> u16 list \<Rightarrow> 'w \<Rightarrow> bool \<times> 'w" where
  "pio_write bus device lba input w =
     (if ata_refuses device lba then (False, w)
      else case ata_wait_ready bus (io_base device) True (ata_command bus device lba 0x30 w) of (ready, w1) \<Rightarrow>
        if \<not> ready then (False, w1)
        else ata_wait_ready bus (io_base device) False
               (outb bus (io_base device + 7) 0xe7 (fold (outw bus (io_base device)) (take 256 input) w1)))"

text \<open>The buffers as bytes, the low byte of a word first.\<close>

definition bytes_of :: "u16 list \<Rightarrow> byte list" where
  "bytes_of xs = concat (map (\<lambda>x. [ucast x, ucast (drop_bit 8 x)]) xs)"

fun words_of :: "byte list \<Rightarrow> u16 list" where
  "words_of (a # b # bs) = (ucast a OR push_bit 8 (ucast b)) # words_of bs"
| "words_of [] = []"
| "words_of [b] = []"

definition port_ata_read :: "'w bus \<Rightarrow> ata_device_info list \<Rightarrow> nat \<Rightarrow> u32 \<Rightarrow> 'w \<Rightarrow> byte list option \<times> 'w" where
  "port_ata_read bus devices device_index lba w =
     (if device_index \<ge> 4 then (None, w)
      else case pio_read bus (devices ! device_index) lba w of (r, w1) \<Rightarrow> (map_option bytes_of r, w1))"

definition port_ata_write :: "'w bus \<Rightarrow> ata_device_info list \<Rightarrow> nat \<Rightarrow> u32 \<Rightarrow> byte list \<Rightarrow> 'w \<Rightarrow> bool \<times> 'w" where
  "port_ata_write bus devices device_index lba buffer w =
     (if device_index \<ge> 4 then (False, w) else pio_write bus (devices ! device_index) lba (words_of buffer) w)"

definition probe_device :: "'w bus \<Rightarrow> nat \<Rightarrow> 'w \<Rightarrow> ata_device_info \<times> 'w" where
  "probe_device bus index w =
     (let base = [0x1f0, 0x170] ! (index div 2); control = [0x3f6, 0x376] ! (index div 2);
          device = \<lparr>io_base = base, control_base = control, ata_drive = of_nat index AND 1, ata_present = False, ata_sectors = 0\<rparr>;
          w1 = outb bus (base + 6) (ucast (0xa0 OR push_bit 4 (ucast (ata_drive device) :: u32))) w;
          w2 = ata_delay_400ns bus control w1;
          w3 = outb bus (base + 5) 0 (outb bus (base + 4) 0 (outb bus (base + 3) 0 (outb bus (base + 2) 0 w2)));
          w4 = outb bus (base + 7) 0xec w3
      in case ata_status bus base w4 of (status, w5) \<Rightarrow>
        if status = 0 then (device, w5)
        else case ata_wait_ready bus base False w5 of (ready, w6) \<Rightarrow>
        if \<not> ready then (device, w6)
        else case inb bus (base + 4) w6 of (middle, w7) \<Rightarrow>
        if middle \<noteq> 0 then (device, w7)
        else case inb bus (base + 5) w7 of (high, w8) \<Rightarrow>
        if high \<noteq> 0 then (device, w8)
        else case ata_wait_ready bus base True w8 of (filled, w9) \<Rightarrow>
        if \<not> filled then (device, w9)
        else case read_words bus base 256 w9 of (identify, w10) \<Rightarrow>
          let n = ucast (identify ! 60) OR push_bit 16 (ucast (identify ! 61)) :: u64
          in (device\<lparr>ata_sectors := n, ata_present := n \<noteq> 0\<rparr>, w10))"

fun probe_devices :: "'w bus \<Rightarrow> nat list \<Rightarrow> 'w \<Rightarrow> ata_device_info list \<times> 'w" where
  "probe_devices bus [] w = ([], w)"
| "probe_devices bus (i # is) w =
     (case probe_device bus i w of (d, w1) \<Rightarrow> case probe_devices bus is w1 of (ds, w2) \<Rightarrow> (d # ds, w2))"

definition probe_ata_devices :: "'w bus \<Rightarrow> 'w \<Rightarrow> ata_device_info list \<times> 'w" where
  "probe_ata_devices bus = probe_devices bus [0..<4]"

section \<open>Serial line and mouse\<close>

definition serial_put :: "'w bus \<Rightarrow> byte \<Rightarrow> 'w \<Rightarrow> 'w" where
  "serial_put bus character w =
     snd (poll 100000 (\<lambda>w. case inb bus 0x3fd w of (status, w1) \<Rightarrow>
       if status AND 0x20 \<noteq> 0 then (Some (), outb bus 0x3f8 character w1) else (None, w1)) w)"

definition serial_put_text :: "'w bus \<Rightarrow> byte list \<Rightarrow> 'w \<Rightarrow> 'w" where
  "serial_put_text bus marker = fold (serial_put bus) (cstr marker)"

definition ps2_wait_input_clear :: "'w bus \<Rightarrow> 'w \<Rightarrow> bool \<times> 'w" where
  "ps2_wait_input_clear bus w =
     (case poll 100000 (\<lambda>w. case inb bus 0x64 w of (status, w1) \<Rightarrow> (if status AND 2 = 0 then Some () else None, w1)) w of
        (r, w1) \<Rightarrow> (r \<noteq> None, w1))"

definition ps2_wait_mouse_byte :: "'w bus \<Rightarrow> 'w \<Rightarrow> byte option \<times> 'w" where
  "ps2_wait_mouse_byte bus =
     poll 100000 (\<lambda>w. case inb bus 0x64 w of (status, w1) \<Rightarrow>
       if status AND 1 \<noteq> 0 \<and> status AND 0x20 \<noteq> 0 then (case inb bus 0x60 w1 of (b, w2) \<Rightarrow> (Some b, w2)) else (None, w1))"

definition ps2_mouse_command :: "'w bus \<Rightarrow> byte \<Rightarrow> 'w \<Rightarrow> bool \<times> 'w" where
  "ps2_mouse_command bus command w =
     (case ps2_wait_input_clear bus w of (clear, w1) \<Rightarrow>
      if \<not> clear then (False, w1)
      else case ps2_wait_input_clear bus (outb bus 0x64 0xd4 w1) of (clear2, w2) \<Rightarrow>
      if \<not> clear2 then (False, w2)
      else case ps2_wait_mouse_byte bus (outb bus 0x60 command w2) of (response, w3) \<Rightarrow> (response = Some 0xfa, w3))"

text \<open>Whether the mouse is ready.\<close>

definition ps2_mouse_initialize :: "'w bus \<Rightarrow> 'w \<Rightarrow> bool \<times> 'w" where
  "ps2_mouse_initialize bus w =
     (case ps2_wait_input_clear bus w of (clear, w1) \<Rightarrow>
      if \<not> clear then (False, w1)
      else case ps2_wait_input_clear bus (outb bus 0x64 0xa8 w1) of (clear2, w2) \<Rightarrow>
      if \<not> clear2 then (False, w2)
      else case poll 100000 (\<lambda>w. case inb bus 0x64 w of (status, w1) \<Rightarrow>
          if status AND 1 \<noteq> 0 \<and> status AND 0x20 = 0 then (case inb bus 0x60 w1 of (b, w2) \<Rightarrow> (Some b, w2)) else (None, w1))
          (outb bus 0x64 0x20 w2) of
        (None, w3) \<Rightarrow> (False, w3)
      | (Some response, w3) \<Rightarrow>
      case ps2_wait_input_clear bus w3 of (clear3, w4) \<Rightarrow>
      if \<not> clear3 then (False, w4)
      else case ps2_wait_input_clear bus (outb bus 0x64 0x60 w4) of (clear4, w5) \<Rightarrow>
      if \<not> clear4 then (False, w5)
      else case ps2_mouse_command bus 0xf6 (outb bus 0x60 (response OR 2) w5) of (defaults, w6) \<Rightarrow>
      if \<not> defaults then (False, w6)
      else case ps2_mouse_command bus 0xf4 w6 of (enabled, w7) \<Rightarrow>
      if \<not> enabled then (False, w7)
      else (True, serial_put_text bus (str ''QUANTA_PS2_MOUSE_READY'' @ [10]) w7))"

section \<open>The retrace\<close>

definition bga_wait_retrace :: "'w bus \<Rightarrow> 'w \<Rightarrow> bool \<times> 'w" where
  "bga_wait_retrace bus w =
     (case poll 10000000 (\<lambda>w. case inb bus 0x3da w of (status, w1) \<Rightarrow> (if status AND 8 = 0 then Some () else None, w1)) w of
        (None, w1) \<Rightarrow> (False, w1)
      | (Some _, w1) \<Rightarrow>
          (case poll 10000000 (\<lambda>w. case inb bus 0x3da w of (status, w2) \<Rightarrow> (if status AND 8 \<noteq> 0 then Some () else None, w2)) w1 of
             (r, w2) \<Rightarrow> (r \<noteq> None, w2)))"

section \<open>Cursor, timer and power\<close>

definition vga_cursor :: "'w bus \<Rightarrow> byte \<Rightarrow> byte \<Rightarrow> 'w \<Rightarrow> 'w" where
  "vga_cursor bus x y w =
     (let pos = ucast y * 80 + ucast x :: u16
      in outb bus 0x3d5 (ucast pos) (outb bus 0x3d4 15 (outb bus 0x3d5 (ucast (drop_bit 8 pos)) (outb bus 0x3d4 14 w))))"

definition quanta_arch_timer_interrupt :: "'w bus \<Rightarrow> u64 \<times> 'w \<Rightarrow> u64 \<times> 'w" where
  "quanta_arch_timer_interrupt bus = (\<lambda>(ticks, w). (ticks + 1, outb bus 0x20 0x20 w))"

text \<open>The two requests; what follows is an endless \<^verbatim>\<open>hlt\<close> loop.\<close>

definition quanta_arch_shutdown :: "'w bus \<Rightarrow> 'w \<Rightarrow> 'w" where
  "quanta_arch_shutdown bus w = outw bus 0xb004 0x2000 (outw bus 0x604 0x2000 w)"

end
