(* ===== verification/Drive.thy ===== *)
theory Drive
  imports Ports Storage
begin

text \<open>
  The drive behind the ports.  \<open>channel\<close> is what a drive keeps of its own: the registers of the task
  file, the phase of the command it executes, the number of times it still reports to be busy, and its
  medium with the sectors on which commands fail.  \<open>drive_laws\<close> says how it answers the ports, as the
  ATA standard has it for PIO transfers in the 28-bit mode; every bus with these laws makes the driver
  an implementation of the drive of \<open>Storage\<close>.
\<close>

unbundle bit_operations_syntax

section \<open>What a drive promises\<close>

datatype phase = Ready | Failed | Sends "u16 list" | Takes u32 "u16 list"

record channel =
  task_file :: "u16 \<Rightarrow> byte"
  phase_of :: phase
  busy :: nat
  medium :: "u32 \<Rightarrow> u16 list"
  unreadable :: "u32 \<Rightarrow> bool"
  unwritable :: "u32 \<Rightarrow> bool"
  spoiled :: "u32 \<Rightarrow> u16 list option"
  cached :: bool

text \<open>\<open>unreadable\<close> and \<open>unwritable\<close> are the sectors whose command is refused; a sector in \<open>spoiled\<close> fails after
its data was taken and holds what \<open>spoiled\<close> says.  A drive with a write cache reports such a failure when the
cache is flushed, a drive without reports it in the status after the data.\<close>

definition settled :: "channel \<Rightarrow> bool" where
  "settled c \<longleftrightarrow> busy c = 0 \<and> (phase_of c = Ready \<or> phase_of c = Failed)"

text \<open>The status byte: bit 7 is busy, bit 3 asks for data, bit 0 is the error.\<close>

definition status_shows :: "channel \<Rightarrow> byte \<Rightarrow> bool" where
  "status_shows c status \<longleftrightarrow> status \<noteq> 0 \<and> status \<noteq> 0xff \<and>
     (status AND 0x80 \<noteq> 0 \<longleftrightarrow> busy c \<noteq> 0) \<and> (status AND 1 \<noteq> 0 \<longleftrightarrow> busy c = 0 \<and> phase_of c = Failed) \<and>
     (busy c = 0 \<longrightarrow> (status AND 8 \<noteq> 0 \<longleftrightarrow> (\<exists>xs. phase_of c = Sends xs) \<or> (\<exists>lba xs. phase_of c = Takes lba xs)))"

text \<open>The address in the task file, when the registers select this drive, the 28-bit mode and one sector.\<close>

definition addresses :: "ata_device_info \<Rightarrow> channel \<Rightarrow> u32 \<Rightarrow> bool" where
  "addresses device c lba \<longleftrightarrow> task_file c 2 = 1 \<and>
     task_file c 6 AND 0xf0 = 0xe0 OR push_bit 4 (ata_drive device) \<and>
     lba = ucast (task_file c 3) OR push_bit 8 (ucast (task_file c 4)) OR push_bit 16 (ucast (task_file c 5)) OR
       push_bit 24 (ucast (task_file c 6 AND 0x0f))"

text \<open>What the commands make of a drive, but for the time they take.\<close>

definition start_read :: "u32 \<Rightarrow> channel \<Rightarrow> channel" where
  "start_read lba c = c\<lparr>phase_of := (if unreadable c lba then Failed else Sends (medium c lba))\<rparr>"

definition start_write :: "u32 \<Rightarrow> channel \<Rightarrow> channel" where
  "start_write lba c = c\<lparr>phase_of := (if unwritable c lba then Failed else Takes lba [])\<rparr>"

definition take_word :: "u16 \<Rightarrow> channel \<Rightarrow> channel" where
  "take_word x c =
     (case phase_of c of
        Takes lba xs \<Rightarrow>
          if length xs < 255 then c\<lparr>phase_of := Takes lba (xs @ [x])\<rparr>
          else (case spoiled c lba of
              None \<Rightarrow> c\<lparr>phase_of := Ready, medium := (medium c)(lba := xs @ [x])\<rparr>
            | Some left \<Rightarrow> c\<lparr>phase_of := Failed, medium := (medium c)(lba := left)\<rparr>)
      | _ \<Rightarrow> c)"

definition give_word :: "channel \<Rightarrow> channel" where
  "give_word c = (case phase_of c of Sends (x # xs) \<Rightarrow> c\<lparr>phase_of := (if xs = [] then Ready else Sends xs)\<rparr> | _ \<Rightarrow> c)"

definition flush_cache :: "channel \<Rightarrow> channel" where
  "flush_cache c = c\<lparr>phase_of := (if cached c \<and> phase_of c = Failed then Failed else Ready)\<rparr>"

definition after_a_while :: "channel \<Rightarrow> channel \<Rightarrow> bool" where
  "after_a_while c' c \<longleftrightarrow> (\<exists>n<1000000. c' = c\<lparr>busy := n\<rparr>)"

lemma after_a_while_busy: "n < 1000000 \<Longrightarrow> after_a_while (c\<lparr>busy := n\<rparr>) c"
  by (auto simp: after_a_while_def)

text \<open>The alternate status, which the driver reads to pass the time, changes nothing.\<close>

definition delay_law :: "'w bus \<Rightarrow> ata_device_info \<Rightarrow> ('w \<Rightarrow> channel) \<Rightarrow> bool" where
  "delay_law bus device view \<longleftrightarrow> (\<forall>w. view (snd (read8 bus (control_base device) w)) = view w)"

definition status_law :: "'w bus \<Rightarrow> ata_device_info \<Rightarrow> ('w \<Rightarrow> channel) \<Rightarrow> bool" where
  "status_law bus device view \<longleftrightarrow> (\<forall>w. status_shows (view w) (fst (read8 bus (io_base device + 7) w)) \<and>
     view (snd (read8 bus (io_base device + 7) w)) = (view w)\<lparr>busy := busy (view w) - 1\<rparr>)"

definition register_law :: "'w bus \<Rightarrow> ata_device_info \<Rightarrow> ('w \<Rightarrow> channel) \<Rightarrow> bool" where
  "register_law bus device view \<longleftrightarrow> (\<forall>w r v. settled (view w) \<longrightarrow> r \<in> {2, 3, 4, 5, 6} \<longrightarrow>
     view (write8 bus (io_base device + r) v w) = (view w)\<lparr>task_file := (task_file (view w))(r := v)\<rparr>)"

definition command_law :: "'w bus \<Rightarrow> ata_device_info \<Rightarrow> ('w \<Rightarrow> channel) \<Rightarrow> bool" where
  "command_law bus device view \<longleftrightarrow> (\<forall>w lba. settled (view w) \<longrightarrow> addresses device (view w) lba \<longrightarrow>
     after_a_while (view (write8 bus (io_base device + 7) 0x20 w)) (start_read lba (view w)) \<and>
     after_a_while (view (write8 bus (io_base device + 7) 0x30 w)) (start_write lba (view w)))"

definition data_in_law :: "'w bus \<Rightarrow> ata_device_info \<Rightarrow> ('w \<Rightarrow> channel) \<Rightarrow> bool" where
  "data_in_law bus device view \<longleftrightarrow> (\<forall>w x xs. busy (view w) = 0 \<longrightarrow> phase_of (view w) = Sends (x # xs) \<longrightarrow>
     fst (read16 bus (io_base device) w) = x \<and> view (snd (read16 bus (io_base device) w)) = give_word (view w))"

definition data_out_law :: "'w bus \<Rightarrow> ata_device_info \<Rightarrow> ('w \<Rightarrow> channel) \<Rightarrow> bool" where
  "data_out_law bus device view \<longleftrightarrow> (\<forall>w x lba xs. busy (view w) = 0 \<longrightarrow> phase_of (view w) = Takes lba xs \<longrightarrow>
     (if length xs < 255 then view (write16 bus (io_base device) x w) = take_word x (view w)
      else after_a_while (view (write16 bus (io_base device) x w)) (take_word x (view w))))"

text \<open>The flush is taken in any phase: the driver sends it without waiting for the end of the write.\<close>

definition flush_law :: "'w bus \<Rightarrow> ata_device_info \<Rightarrow> ('w \<Rightarrow> channel) \<Rightarrow> bool" where
  "flush_law bus device view \<longleftrightarrow>
     (\<forall>w. after_a_while (view (write8 bus (io_base device + 7) 0xe7 w)) (flush_cache (view w)))"

definition drive_laws :: "'w bus \<Rightarrow> ata_device_info \<Rightarrow> ('w \<Rightarrow> channel) \<Rightarrow> bool" where
  "drive_laws bus device view \<longleftrightarrow> delay_law bus device view \<and> status_law bus device view \<and> register_law bus device view \<and>
     command_law bus device view \<and> data_in_law bus device view \<and> data_out_law bus device view \<and> flush_law bus device view"

lemma drive_lawsD:
  assumes "drive_laws bus device view"
  shows "view (snd (read8 bus (control_base device) w)) = view w"
    "status_shows (view w) (fst (read8 bus (io_base device + 7) w))"
    "view (snd (read8 bus (io_base device + 7) w)) = (view w)\<lparr>busy := busy (view w) - 1\<rparr>"
    "settled (view w) \<Longrightarrow> r \<in> {2, 3, 4, 5, 6} \<Longrightarrow>
       view (write8 bus (io_base device + r) v w) = (view w)\<lparr>task_file := (task_file (view w))(r := v)\<rparr>"
    "settled (view w) \<Longrightarrow> addresses device (view w) lba \<Longrightarrow>
       after_a_while (view (write8 bus (io_base device + 7) 0x20 w)) (start_read lba (view w))"
    "settled (view w) \<Longrightarrow> addresses device (view w) lba \<Longrightarrow>
       after_a_while (view (write8 bus (io_base device + 7) 0x30 w)) (start_write lba (view w))"
    "busy (view w) = 0 \<Longrightarrow> phase_of (view w) = Sends (x # xs) \<Longrightarrow>
       fst (read16 bus (io_base device) w) = x \<and> view (snd (read16 bus (io_base device) w)) = give_word (view w)"
    "busy (view w) = 0 \<Longrightarrow> phase_of (view w) = Takes lba xs \<Longrightarrow>
       (if length xs < 255 then view (write16 bus (io_base device) x w) = take_word x (view w)
        else after_a_while (view (write16 bus (io_base device) x w)) (take_word x (view w)))"
    "after_a_while (view (write8 bus (io_base device + 7) 0xe7 w)) (flush_cache (view w))"
proof -
  note l = assms [unfolded drive_laws_def]
  show "view (snd (read8 bus (control_base device) w)) = view w" using l unfolding delay_law_def by blast
  show "status_shows (view w) (fst (read8 bus (io_base device + 7) w))"
    "view (snd (read8 bus (io_base device + 7) w)) = (view w)\<lparr>busy := busy (view w) - 1\<rparr>"
    using l unfolding status_law_def by blast+
  show "settled (view w) \<Longrightarrow> r \<in> {2, 3, 4, 5, 6} \<Longrightarrow>
       view (write8 bus (io_base device + r) v w) = (view w)\<lparr>task_file := (task_file (view w))(r := v)\<rparr>"
    using l unfolding register_law_def by blast
  show "settled (view w) \<Longrightarrow> addresses device (view w) lba \<Longrightarrow>
       after_a_while (view (write8 bus (io_base device + 7) 0x20 w)) (start_read lba (view w))"
    "settled (view w) \<Longrightarrow> addresses device (view w) lba \<Longrightarrow>
       after_a_while (view (write8 bus (io_base device + 7) 0x30 w)) (start_write lba (view w))"
    using l unfolding command_law_def by blast+
  show "busy (view w) = 0 \<Longrightarrow> phase_of (view w) = Sends (x # xs) \<Longrightarrow>
       fst (read16 bus (io_base device) w) = x \<and> view (snd (read16 bus (io_base device) w)) = give_word (view w)"
    using l unfolding data_in_law_def by blast
  show "busy (view w) = 0 \<Longrightarrow> phase_of (view w) = Takes lba xs \<Longrightarrow>
       (if length xs < 255 then view (write16 bus (io_base device) x w) = take_word x (view w)
        else after_a_while (view (write16 bus (io_base device) x w)) (take_word x (view w)))"
    using l unfolding data_out_law_def by blast
  show "after_a_while (view (write8 bus (io_base device + 7) 0xe7 w)) (flush_cache (view w))"
    using l unfolding flush_law_def by blast
qed

section \<open>Waiting\<close>

text \<open>The status is looked at once more often than it shows busy.\<close>

lemma poll_status:
  assumes laws: "drive_laws bus device view"
    and phase: "phase_of (view w) = Failed \<or> \<not> require \<or> (\<exists>xs. phase_of (view w) = Sends xs) \<or> (\<exists>lba xs. phase_of (view w) = Takes lba xs)"
    and "busy (view w) < n"
  shows "\<exists>w'. poll n (ata_try bus (io_base device) require) w = (Some (phase_of (view w) \<noteq> Failed), w') \<and>
    view w' = (view w)\<lparr>busy := 0\<rparr>"
  using phase assms(3)
proof (induction n arbitrary: w)
  case (Suc n)
  obtain status w1 where status: "read8 bus (io_base device + 7) w = (status, w1)" by fastforce
  then have shown: "status_shows (view w) status" and next1: "view w1 = (view w)\<lparr>busy := busy (view w) - 1\<rparr>"
    using drive_lawsD(2,3) [OF laws, of w] by simp_all
  show ?case
  proof (cases "busy (view w) = 0")
    case True
    have "ata_try bus (io_base device) require w = (Some (phase_of (view w) \<noteq> Failed), w1)"
      using shown True Suc.prems(1) by (auto simp: ata_try_def ata_status_def inb_def status status_shows_def)
    then show ?thesis using next1 True by simp
  next
    case False
    then have "ata_try bus (io_base device) require w = (None, w1)"
      using shown by (auto simp: ata_try_def ata_status_def inb_def status status_shows_def)
    moreover have "busy (view w1) < n" using False Suc.prems(2) next1 by simp
    ultimately show ?thesis using Suc.IH [of w1] Suc.prems(1) next1 by simp
  qed
qed simp

lemma wait_ready_data:
  assumes "drive_laws bus device view" "busy (view w) < 1000000"
    "phase_of (view w) = Failed \<or> \<not> require \<or> (\<exists>xs. phase_of (view w) = Sends xs) \<or> (\<exists>lba xs. phase_of (view w) = Takes lba xs)"
  obtains w' where "ata_wait_ready bus (io_base device) require w = (phase_of (view w) \<noteq> Failed, w')"
    "view w' = (view w)\<lparr>busy := 0\<rparr>"
  using poll_status [OF assms(1,3,2)] by (auto simp: ata_wait_ready_def)

section \<open>Commands\<close>

lemma settled_file [simp]: "settled (c\<lparr>task_file := f\<rparr>) = settled c"
  by (simp add: settled_def)

lemma delay_view:
  assumes "drive_laws bus device view"
  shows "view (ata_delay_400ns bus (control_base device) w) = view w"
  by (simp add: ata_delay_400ns_def inb_def drive_lawsD(1) [OF assms])

lemma nibble_masks:
  "(0x0f :: u32) = mask 4" "(0x0f :: byte) = mask 4" "(0xf0 :: byte) = push_bit 4 (mask 4)" "(0xe0 :: byte) = push_bit 5 (mask 3)"
  "(0xe0 :: u32) = push_bit 5 (mask 3)"
  by (simp_all add: mask_eq_exp_minus_1 push_bit_eq_mult)

lemmas drive_bits = bit_and_iff bit_or_iff bit_push_bit_iff bit_drop_bit_eq bit_mask_iff bit_unsigned_iff o_apply possible_bit_word

definition command_file :: "ata_device_info \<Rightarrow> u32 \<Rightarrow> (u16 \<Rightarrow> byte) \<Rightarrow> u16 \<Rightarrow> byte" where
  "command_file device lba f =
     f(6 := ucast (0xe0 OR push_bit 4 (ucast (ata_drive device) :: u32) OR (drop_bit 24 lba AND 0x0f)),
       2 := 1, 3 := ucast lba, 4 := ucast (drop_bit 8 lba), 5 := ucast (drop_bit 16 lba))"

lemma command_file_addresses:
  assumes "ata_drive device = 0 \<or> ata_drive device = 1" "lba < push_bit 28 1"
  shows "addresses device (c\<lparr>task_file := command_file device lba f\<rparr>) lba"
proof -
  have high: "\<not> bit lba n" if "28 \<le> n" for n
  proof -
    have "take_bit 28 lba = lba"
      using assms(2) by (simp add: word_less_nat_alt take_bit_nat_eq_self_iff word_unat_eq_iff unsigned_take_bit_eq push_bit_eq_mult)
    then have "bit lba n \<longleftrightarrow> bit (take_bit 28 lba) n" by simp
    then show ?thesis using that by (simp add: bit_take_bit_iff)
  qed
  note ms = nibble_masks
  have low: "(ucast (ucast lba :: byte) :: u32) OR push_bit 8 (ucast (ucast (drop_bit 8 lba) :: byte)) OR
      push_bit 16 (ucast (ucast (drop_bit 16 lba) :: byte)) OR push_bit 24 (drop_bit 24 lba AND 0x0f) = lba"
    unfolding ms(1)
    apply (rule bit_word_eqI, simp only: drive_bits)
    subgoal for n using high [of n] by (cases "28 \<le> n"; cases "n < 8"; cases "n < 16"; cases "n < 24") auto
    done
  let ?h = "ucast (0xe0 OR push_bit 4 (ucast (ata_drive device) :: u32) OR (drop_bit 24 lba AND 0x0f)) :: byte"
  have h: "?h = 0xe0 OR push_bit 4 (ata_drive device) OR (ucast (drop_bit 24 lba) AND 0x0f)"
    unfolding ms by (rule bit_word_eqI, simp only: drive_bits) auto
  have d: "\<not> bit (ata_drive device) n" if "0 < n" for n
    using assms(1) that by (auto simp: bit_1_iff)
  have select: "?h AND 0xf0 = 0xe0 OR push_bit 4 (ata_drive device)"
    unfolding h ms by (rule bit_word_eqI, simp only: drive_bits) (use d in auto)
  have nibble: "(ucast (?h AND 0x0f) :: u32) = drop_bit 24 lba AND 0x0f"
    unfolding h ms by (rule bit_word_eqI, simp only: drive_bits) (use d in auto)
  have fields: "task_file (c\<lparr>task_file := g\<rparr>) = g" for g by simp
  have f: "command_file device lba f 6 = ?h" "command_file device lba f 2 = 1" "command_file device lba f 3 = ucast lba"
    "command_file device lba f 4 = ucast (drop_bit 8 lba)" "command_file device lba f 5 = ucast (drop_bit 16 lba)"
    by (simp_all add: command_file_def)
  show ?thesis by (simp only: addresses_def fields f select nibble low simp_thms)
qed


text \<open>What is on the drive, without the state of the protocol.\<close>

definition store_of :: "channel \<Rightarrow> _" where
  "store_of c = (medium c, unreadable c, unwritable c, spoiled c, cached c)"

lemma store_of_update [simp]:
  "store_of (c\<lparr>busy := n\<rparr>) = store_of c" "store_of (c\<lparr>phase_of := p\<rparr>) = store_of c" "store_of (c\<lparr>task_file := f\<rparr>) = store_of c"
  by (simp_all add: store_of_def)

lemma command_registers:
  assumes laws: "drive_laws bus device view" and "settled (view w)"
  shows "\<exists>w1. (\<forall>c. ata_command bus device lba c w = write8 bus (io_base device + 7) c w1) \<and>
    view w1 = (view w)\<lparr>task_file := command_file device lba (task_file (view w))\<rparr>"
proof -
  note out = drive_lawsD(4) [OF laws]
  define w1 where "w1 = ata_delay_400ns bus (control_base device) (outb bus (io_base device + 6)
    (ucast (0xe0 OR push_bit 4 (ucast (ata_drive device) :: u32) OR (drop_bit 24 lba AND 0x0f))) w)"
  have v1: "view w1 = (view w)\<lparr>task_file := (task_file (view w))(6 :=
      ucast (0xe0 OR push_bit 4 (ucast (ata_drive device) :: u32) OR (drop_bit 24 lba AND 0x0f)))\<rparr>"
    unfolding w1_def delay_view [OF laws] outb_def by (rule out) (simp_all add: assms(2))
  define w2 where "w2 = outb bus (io_base device + 2) 1 w1"
  have v2: "view w2 = (view w1)\<lparr>task_file := (task_file (view w1))(2 := 1)\<rparr>"
    unfolding w2_def outb_def by (rule out) (simp_all add: assms(2) v1)
  define w3 where "w3 = outb bus (io_base device + 3) (ucast lba) w2"
  have v3: "view w3 = (view w2)\<lparr>task_file := (task_file (view w2))(3 := ucast lba)\<rparr>"
    unfolding w3_def outb_def by (rule out) (simp_all add: assms(2) v1 v2)
  define w4 where "w4 = outb bus (io_base device + 4) (ucast (drop_bit 8 lba)) w3"
  have v4: "view w4 = (view w3)\<lparr>task_file := (task_file (view w3))(4 := ucast (drop_bit 8 lba))\<rparr>"
    unfolding w4_def outb_def by (rule out) (simp_all add: assms(2) v1 v2 v3)
  define w5 where "w5 = outb bus (io_base device + 5) (ucast (drop_bit 16 lba)) w4"
  have v5: "view w5 = (view w4)\<lparr>task_file := (task_file (view w4))(5 := ucast (drop_bit 16 lba))\<rparr>"
    unfolding w5_def outb_def by (rule out) (simp_all add: assms(2) v1 v2 v3 v4)
  show ?thesis
  proof (intro exI conjI allI)
    show "ata_command bus device lba c w = write8 bus (io_base device + 7) c w5" for c
      unfolding ata_command_def Let_def w5_def w4_def w3_def w2_def w1_def by (simp add: outb_def)
    show "view w5 = (view w)\<lparr>task_file := command_file device lba (task_file (view w))\<rparr>"
      by (simp add: v5 v4 v3 v2 v1 command_file_def)
  qed
qed

section \<open>Reading\<close>

lemma read_all_words:
  assumes laws: "drive_laws bus device view" and "busy (view w) = 0" "phase_of (view w) = Sends xs" "xs \<noteq> []"
  shows "\<exists>w'. read_words bus (io_base device) (length xs) w = (xs, w') \<and> view w' = (view w)\<lparr>phase_of := Ready\<rparr>"
  using assms(2-4)
proof (induction xs arbitrary: w)
  case (Cons x xs)
  obtain w1 where w1: "read16 bus (io_base device) w = (x, w1)" "view w1 = give_word (view w)"
    using drive_lawsD(7) [OF laws Cons.prems(1,2)] by (metis prod.collapse)
  show ?case
  proof (cases "xs = []")
    case True
    then show ?thesis using w1 Cons.prems(2) by (simp add: inw_def give_word_def)
  next
    case False
    then have "busy (view w1) = 0" "phase_of (view w1) = Sends xs" using w1(2) Cons.prems by (simp_all add: give_word_def)
    from Cons.IH [OF this False] obtain w2 where
      "read_words bus (io_base device) (length xs) w1 = (xs, w2)" "view w2 = (view w1)\<lparr>phase_of := Ready\<rparr>" by blast
    then show ?thesis using w1 Cons.prems(2) False by (simp add: inw_def give_word_def)
  qed
qed simp

lemma pio_read_run:
  assumes laws: "drive_laws bus device view" and ready: "settled (view w)"
    and device: "ata_drive device = 0 \<or> ata_drive device = 1" "\<not> ata_refuses device lba"
    and sector: "length (medium (view w) lba) = 256"
  obtains w' where "pio_read bus device lba w = (if unreadable (view w) lba then None else Some (medium (view w) lba), w')"
    "settled (view w')" "store_of (view w') = store_of (view w)"
proof -
  obtain w1 where w1: "\<And>c. ata_command bus device lba c w = write8 bus (io_base device + 7) c w1"
    "view w1 = (view w)\<lparr>task_file := command_file device lba (task_file (view w))\<rparr>"
    using command_registers [OF laws ready, of lba] by blast
  define w2 where "w2 = ata_command bus device lba 0x20 w"
  have "lba < push_bit 28 1" using device(2) by (simp add: ata_refuses_def not_le)
  from command_file_addresses [OF device(1) this] have "addresses device (view w1) lba" unfolding w1(2) .
  moreover have "settled (view w1)" using ready w1(2) by simp
  ultimately have "after_a_while (view w2) (start_read lba (view w1))"
    unfolding w2_def w1(1) by (intro drive_lawsD(5) [OF laws])
  then obtain n where n: "n < 1000000" "view w2 = (start_read lba (view w1))\<lparr>busy := n\<rparr>" by (auto simp: after_a_while_def)
  obtain w3 where w3: "ata_wait_ready bus (io_base device) True w2 = (phase_of (view w2) \<noteq> Failed, w3)" "view w3 = (view w2)\<lparr>busy := 0\<rparr>"
    by (rule wait_ready_data [OF laws, of w2 True]) (use n in \<open>auto simp: start_read_def\<close>)
  show thesis
  proof (cases "unreadable (view w) lba")
    case True
    then have "pio_read bus device lba w = (None, w3)" "settled (view w3)" "store_of (view w3) = store_of (view w)"
      using device(2) w3 n(2) w1(2) by (simp_all add: pio_read_def w2_def [symmetric] start_read_def settled_def)
    then show thesis using that True by simp
  next
    case False
    then have "phase_of (view w3) = Sends (medium (view w) lba)" "busy (view w3) = 0" "phase_of (view w2) \<noteq> Failed"
      using w3(2) n(2) w1(2) by (simp_all add: start_read_def)
    moreover have "medium (view w) lba \<noteq> []" using sector by auto
    ultimately obtain w4 where w4: "read_words bus (io_base device) 256 w3 = (medium (view w) lba, w4)"
      "view w4 = (view w3)\<lparr>phase_of := Ready\<rparr>"
      using read_all_words [OF laws, of w3 "medium (view w) lba"] sector by auto
    have "pio_read bus device lba w = (Some (medium (view w) lba), w4)"
      using device(2) w3(1) w4(1) \<open>phase_of (view w2) \<noteq> Failed\<close> by (simp add: pio_read_def w2_def [symmetric])
    moreover have "settled (view w4)" "store_of (view w4) = store_of (view w)"
      using w4(2) w3(2) n(2) w1(2) by (simp_all add: settled_def start_read_def)
    ultimately show thesis using that False by simp
  qed
qed

section \<open>Writing\<close>

text \<open>The drive after its last word.\<close>

definition stored :: "u32 \<Rightarrow> u16 list \<Rightarrow> channel \<Rightarrow> channel" where
  "stored lba xs c =
     (case spoiled c lba of None \<Rightarrow> c\<lparr>phase_of := Ready, medium := (medium c)(lba := xs)\<rparr>
      | Some left \<Rightarrow> c\<lparr>phase_of := Failed, medium := (medium c)(lba := left)\<rparr>)"

lemma stored_phase [simp]: "stored lba xs (c\<lparr>phase_of := p\<rparr>) = stored lba xs c"
  by (cases "spoiled c lba") (simp_all add: stored_def)

lemma write_all_words:
  assumes laws: "drive_laws bus device view" and "busy (view w) = 0" "phase_of (view w) = Takes lba xs"
    "length xs + length ys = 256" "ys \<noteq> []"
  shows "after_a_while (view (fold (outw bus (io_base device)) ys w)) (stored lba (xs @ ys) (view w))"
  using assms(2-5)
proof (induction ys arbitrary: w xs)
  case (Cons y ys)
  note step = drive_lawsD(8) [OF laws Cons.prems(1,2), of y]
  show ?case
  proof (cases "ys = []")
    case True
    then show ?thesis using step Cons.prems by (simp add: outw_def take_word_def stored_def)
  next
    case False
    let ?w1 = "outw bus (io_base device) y w"
    have "length xs < 255" using False Cons.prems(3) by (cases ys) simp_all
    then have v: "view ?w1 = (view w)\<lparr>phase_of := Takes lba (xs @ [y])\<rparr>"
      using step Cons.prems by (simp add: outw_def take_word_def)
    have "after_a_while (view (fold (outw bus (io_base device)) ys ?w1)) (stored lba ((xs @ [y]) @ ys) (view ?w1))"
      by (rule Cons.IH) (use v Cons.prems False in simp_all)
    then show ?thesis using v by simp
  qed
qed simp

lemma pio_write_run:
  assumes laws: "drive_laws bus device view" and ready: "settled (view w)"
    and device: "ata_drive device = 0 \<or> ata_drive device = 1" "\<not> ata_refuses device lba" and input: "length input = 256"
  obtains w' where "pio_write bus device lba input w =
      (\<not> unwritable (view w) lba \<and> \<not> (cached (view w) \<and> spoiled (view w) lba \<noteq> None), w')" "settled (view w')"
    "store_of (view w') = store_of (if unwritable (view w) lba then view w else stored lba input (view w))"
proof -
  obtain w1 where w1: "\<And>c. ata_command bus device lba c w = write8 bus (io_base device + 7) c w1"
    "view w1 = (view w)\<lparr>task_file := command_file device lba (task_file (view w))\<rparr>"
    using command_registers [OF laws ready, of lba] by blast
  define w2 where "w2 = ata_command bus device lba 0x30 w"
  have "lba < push_bit 28 1" using device(2) by (simp add: ata_refuses_def not_le)
  from command_file_addresses [OF device(1) this] have "addresses device (view w1) lba" unfolding w1(2) .
  moreover have "settled (view w1)" using ready w1(2) by simp
  ultimately have "after_a_while (view w2) (start_write lba (view w1))"
    unfolding w2_def w1(1) by (intro drive_lawsD(6) [OF laws])
  then obtain n where n: "n < 1000000" "view w2 = (start_write lba (view w1))\<lparr>busy := n\<rparr>" by (auto simp: after_a_while_def)
  obtain w3 where w3: "ata_wait_ready bus (io_base device) True w2 = (phase_of (view w2) \<noteq> Failed, w3)" "view w3 = (view w2)\<lparr>busy := 0\<rparr>"
    by (rule wait_ready_data [OF laws, of w2 True]) (use n in \<open>auto simp: start_write_def\<close>)
  show thesis
  proof (cases "unwritable (view w) lba")
    case True
    then have "pio_write bus device lba input w = (False, w3)" "settled (view w3)" "store_of (view w3) = store_of (view w)"
      using device(2) w3 n(2) w1(2) by (simp_all add: pio_write_def w2_def [symmetric] start_write_def settled_def)
    then show thesis using that True by simp
  next
    case False
    then have v3: "view w3 = (view w)\<lparr>task_file := command_file device lba (task_file (view w)), phase_of := Takes lba [], busy := 0\<rparr>"
      and good: "phase_of (view w2) \<noteq> Failed"
      using w3(2) n(2) w1(2) by (simp_all add: start_write_def)
    define w4 where "w4 = fold (outw bus (io_base device)) input w3"
    have "input \<noteq> []" using input by auto
    then have "after_a_while (view w4) (stored lba ([] @ input) (view w3))"
      unfolding w4_def using v3 input by (intro write_all_words [OF laws]) simp_all
    then obtain m where m: "view w4 = (stored lba input (view w3))\<lparr>busy := m\<rparr>" by (auto simp: after_a_while_def)
    define w5 where "w5 = outb bus (io_base device + 7) 0xe7 w4"
    have "after_a_while (view w5) (flush_cache (view w4))" unfolding w5_def outb_def by (rule drive_lawsD(9) [OF laws])
    then obtain k where k: "k < 1000000" "view w5 = (flush_cache (view w4))\<lparr>busy := k\<rparr>" by (auto simp: after_a_while_def)
    obtain w6 where w6: "ata_wait_ready bus (io_base device) False w5 = (phase_of (view w5) \<noteq> Failed, w6)" "view w6 = (view w5)\<lparr>busy := 0\<rparr>"
      by (rule wait_ready_data [OF laws, of w5 False]) (use k in \<open>auto simp: flush_cache_def\<close>)
    have "pio_write bus device lba input w = (phase_of (view w5) \<noteq> Failed, w6)"
      using device(2) w3(1) w6(1) good input by (simp add: pio_write_def w2_def [symmetric] w4_def w5_def)
    moreover have "phase_of (view w5) \<noteq> Failed \<longleftrightarrow> \<not> (cached (view w) \<and> spoiled (view w) lba \<noteq> None)"
      "settled (view w6)" "store_of (view w6) = store_of (stored lba input (view w))"
      using k(2) m v3 w6(2) by (auto simp: flush_cache_def stored_def settled_def store_of_def split: option.split)
    ultimately show thesis using that False by simp
  qed
qed


section \<open>The drive of the block layer\<close>

lemma length_bytes_of [simp]: "length (bytes_of xs) = 2 * length xs"
  by (induction xs) (simp_all add: bytes_of_def)

lemma length_words_of: "length bs = 2 * n \<Longrightarrow> length (words_of bs) = n"
  by (induction bs arbitrary: n rule: words_of.induct) (auto, case_tac n, auto)

lemma split_word: "(ucast (ucast a OR push_bit 8 (ucast b) :: u16) :: byte) = a" "(ucast (drop_bit 8 (ucast a OR push_bit 8 (ucast b) :: u16)) :: byte) = b"
  by (rule bit_word_eqI, simp only: drive_bits, auto dest: bit_imp_le_length)+

lemma bytes_of_words_of: "length bs = 2 * n \<Longrightarrow> bytes_of (words_of bs) = bs"
proof (induction bs arbitrary: n rule: words_of.induct)
  case (1 a b bs)
  then have "bytes_of (words_of bs) = bs" by (cases n) auto
  then show ?case by (simp only: words_of.simps bytes_of_def list.map concat.simps split_word) simp
next
  case 2
  then show ?case by (simp add: bytes_of_def)
next
  case (3 b)
  then have False by simp
  then show ?case ..
qed

text \<open>What \<open>Storage\<close> says of a drive: a write that the drive refuses leaves the sector as it was.\<close>

definition drive_of :: "ata_device_info \<Rightarrow> channel \<Rightarrow> drive" where
  "drive_of device c = \<lparr>present = ata_present device, sectors = ata_sectors device, platter = (\<lambda>l. bytes_of (medium c l)),
     read_fault = unreadable c,
     write_fault = (\<lambda>l. if unwritable c l then Some (bytes_of (medium c l)) else map_option bytes_of (spoiled c l))\<rparr>"

text \<open>A drive at rest whose late failures, if there are any, are reported when its cache is flushed.\<close>

definition reports_failures :: "channel \<Rightarrow> bool" where
  "reports_failures c \<longleftrightarrow> settled c \<and> (\<forall>l. length (medium c l) = 256) \<and>
     (\<forall>l left. spoiled c l = Some left \<longrightarrow> length left = 256 \<and> cached c)"

lemma store_of_eq:
  assumes "store_of c' = store_of c" "settled c'"
  shows "drive_of device c' = drive_of device c" "reports_failures c \<Longrightarrow> reports_failures c'"
  using assms by (auto simp: store_of_def drive_of_def reports_failures_def)

lemma refuses_accepts:
  assumes "i < 4" "drives s i = drive_of device c"
  shows "ata_accepts s i lba \<longleftrightarrow> \<not> ata_refuses device lba"
  using assms by (auto simp: ata_accepts_def ata_refuses_def drive_of_def)


section \<open>A drive that keeps the laws\<close>

text \<open>It is busy for three looks at its status after each command and for five after the last word.\<close>

definition addressed_sector :: "channel \<Rightarrow> u32" where
  "addressed_sector c = ucast (task_file c 3) OR push_bit 8 (ucast (task_file c 4)) OR push_bit 16 (ucast (task_file c 5)) OR
     push_bit 24 (ucast (task_file c 6 AND 0x0f))"

definition demo_status :: "channel \<Rightarrow> byte" where
  "demo_status c = (if busy c \<noteq> 0 then 0x80 else case phase_of c of Ready \<Rightarrow> 0x50 | Failed \<Rightarrow> 0x51 | _ \<Rightarrow> 0x58)"

definition demo_bus :: "channel bus" where
  "demo_bus = \<lparr>
     read8 = (\<lambda>port c. if port = 0x1f7 then (demo_status c, c\<lparr>busy := busy c - 1\<rparr>) else (0, c)),
     write8 = (\<lambda>port v c.
       if port = 0x1f7 then
         (if v = 0x20 then (start_read (addressed_sector c) c)\<lparr>busy := 3\<rparr>
          else if v = 0x30 then (start_write (addressed_sector c) c)\<lparr>busy := 3\<rparr>
          else (flush_cache c)\<lparr>busy := 3\<rparr>)
       else c\<lparr>task_file := (task_file c)(port - 0x1f0 := v)\<rparr>),
     read16 = (\<lambda>port c. (case phase_of c of Sends (x # xs) \<Rightarrow> x | _ \<Rightarrow> 0, give_word c)),
     write16 = (\<lambda>port x c. case phase_of c of
         Takes lba xs \<Rightarrow> if length xs < 255 then take_word x c else (take_word x c)\<lparr>busy := 5\<rparr>
       | _ \<Rightarrow> c)\<rparr>"

definition demo_device :: ata_device_info where
  "demo_device = \<lparr>io_base = 0x1f0, control_base = 0x3f6, ata_drive = 0, ata_present = True, ata_sectors = 1000\<rparr>"

lemma demo_drive_laws: "drive_laws demo_bus demo_device (\<lambda>c. c)"
proof -
  have "delay_law demo_bus demo_device (\<lambda>c. c)" by (simp add: delay_law_def demo_bus_def demo_device_def)
  moreover have "status_law demo_bus demo_device (\<lambda>c. c)"
    by (simp add: status_law_def demo_bus_def demo_device_def status_shows_def demo_status_def split: phase.split)
  moreover have "register_law demo_bus demo_device (\<lambda>c. c)"
    by (auto simp: register_law_def demo_bus_def demo_device_def)
  moreover have "command_law demo_bus demo_device (\<lambda>c. c)"
    by (auto simp: command_law_def demo_bus_def demo_device_def addresses_def addressed_sector_def intro!: after_a_while_busy)
  moreover have "data_in_law demo_bus demo_device (\<lambda>c. c)"
    by (simp add: data_in_law_def demo_bus_def)
  moreover have "data_out_law demo_bus demo_device (\<lambda>c. c)"
    by (auto simp: data_out_law_def demo_bus_def intro!: after_a_while_busy)
  moreover have "flush_law demo_bus demo_device (\<lambda>c. c)"
    by (auto simp: flush_law_def demo_bus_def demo_device_def intro!: after_a_while_busy)
  ultimately show ?thesis by (simp add: drive_laws_def)
qed

text \<open>Sector 5 cannot be read and sector 6 loses what is written to it.\<close>

definition demo_channel :: "bool \<Rightarrow> channel" where
  "demo_channel cache = \<lparr>task_file = (\<lambda>_. 0), phase_of = Ready, busy = 0, medium = (\<lambda>_. replicate 256 7), unreadable = (\<lambda>l. l = 5),
     unwritable = (\<lambda>_. False), spoiled = (\<lambda>l. if l = 6 then Some (replicate 256 0) else None), cached = cache\<rparr>"

definition demo_machine :: machine where
  "demo_machine = \<lparr>drives = (\<lambda>_. drive_of demo_device (demo_channel True)), live_base = 0, live_sectors = 0, live_image = (\<lambda>_. []),
     disk_count = (\<lambda>_. 0), live_count = 0, markers = []\<rparr>"

lemma demo_reports: "reports_failures (demo_channel True)"
  by (simp add: reports_failures_def demo_channel_def settled_def)


text \<open>A failure that a drive without a write cache reports after the data is lost: the flush command, sent without a look at
  the status, clears it, and the write counts as done though the sector holds something else.\<close>

theorem late_write_error_lost:
  assumes "drive_laws bus device view" "settled (view w)" "ata_drive device = 0 \<or> ata_drive device = 1" "\<not> ata_refuses device lba"
    "length input = 256" "\<not> unwritable (view w) lba" "spoiled (view w) lba = Some left" "\<not> cached (view w)"
  shows "fst (pio_write bus device lba input w) \<and> medium (view (snd (pio_write bus device lba input w))) lba = left"
proof -
  obtain w' where w': "pio_write bus device lba input w = (\<not> unwritable (view w) lba \<and> \<not> (cached (view w) \<and> spoiled (view w) lba \<noteq> None), w')"
    "store_of (view w') = store_of (if unwritable (view w) lba then view w else stored lba input (view w))"
  proof -
    show thesis by (rule pio_write_run [OF assms(1-5)]) (rule that; assumption)
  qed
  then show ?thesis using assms(6-8) by (simp add: store_of_def stored_def)
qed

theorem late_write_error_lost_witness:
  "fst (pio_write demo_bus demo_device 6 (replicate 256 9) (demo_channel False)) \<and>
   medium (snd (pio_write demo_bus demo_device 6 (replicate 256 9) (demo_channel False))) 6 = replicate 256 0"
  by (rule late_write_error_lost [OF demo_drive_laws])
    (simp_all add: settled_def demo_channel_def demo_device_def ata_refuses_def push_bit_eq_mult)

end
