(* ===== verification/Display_Start.thy ===== *)
theory Display_Start
  imports Console Uefi
begin

text \<open>
  How the kernel takes the display over: \<^verbatim>\<open>quanta_arch_display_initialize\<close> of \<^verbatim>\<open>kernel/arch/x86_64/tables.c\<close>.  It
  checks the display the loader reported, asks the adapter for two pages, maps the video memory and a back
  buffer of fresh frames into the kernel's address space and draws the first picture.  The console, the frames
  and the pointer are the state; \<open>None\<close> is the panic of a mapping that finds no frame for a table.  The font
  is a file the build generates.
\<close>

unbundle bit_operations_syntax

section \<open>The adapter\<close>

definition bga_read :: "u16 \<Rightarrow> display \<Rightarrow> u16" where
  "bga_read index d = bga_registers d index"

definition bga_initialize :: "adapter \<Rightarrow> u32 \<Rightarrow> u32 \<Rightarrow> display \<Rightarrow> bool \<times> display" where
  "bga_initialize hw width height d =
     (let version = bga_read 0 d;
          required_bytes = ucast width * 4 * ucast height * 2 :: u64;
          available_bytes = ucast (bga_read 0x0a d) * 65536 :: u64
      in if version < 0xb0c4 \<or> width > 0xffff \<or> height > 0x7fff \<or> required_bytes > available_bytes then (False, d)
      else
       (let d1 = fold (\<lambda>(index, v). bga_write hw index v)
              [(4, 0), (1, ucast width), (2, ucast height), (3, 32), (6, ucast width), (7, ucast (height * 2)), (8, 0), (9, 0),
               (4, 0x41)] d
        in if ucast (bga_read 1 d1) \<noteq> width \<or> ucast (bga_read 2 d1) \<noteq> height \<or> bga_read 3 d1 \<noteq> 32 \<or>
              ucast (bga_read 6 d1) \<noteq> width \<or> ucast (bga_read 7 d1) < height * 2
           then (False, bga_write hw 4 0 d1) else (True, d1)))"

section \<open>Initialisation\<close>

definition FRAMEBUFFER_VIRTUAL :: u64 where "FRAMEBUFFER_VIRTUAL = 0xffffffffc0000000"
definition FRAMEBUFFER_BACKBUFFER_VIRTUAL :: u64 where "FRAMEBUFFER_BACKBUFFER_VIRTUAL = 0xffffffffc1000000"
definition FRAMEBUFFER_MAX_BYTES :: u64 where "FRAMEBUFFER_MAX_BYTES = 0x01000000"

definition display_flags :: u64 where
  "display_flags = PAGE_PRESENT OR PAGE_WRITABLE OR PAGE_NO_EXECUTE"

record display_start =
  ds_console :: console
  ds_frames :: frames
  ds_pointer :: "u32 \<times> u32"

definition set_screen :: "display \<Rightarrow> display_start \<Rightarrow> display_start" where
  "set_screen d s = s\<lparr>ds_console := (ds_console s)\<lparr>screen_of := d\<rparr>\<rparr>"

definition display_supported :: "boot_info \<Rightarrow> bool" where
  "display_supported b \<longleftrightarrow>
     \<not> (bi_framebuffer_physical b = 0 \<or>
        bi_framebuffer_width b < 640 \<or> bi_framebuffer_width b > 4096 \<or>
        bi_framebuffer_height b < 480 \<or> bi_framebuffer_height b > 2160 \<or>
        bi_framebuffer_bpp b \<noteq> 24 \<and> bi_framebuffer_bpp b \<noteq> 32 \<or>
        bi_framebuffer_format b \<noteq> FORMAT_BGR888 \<and> bi_framebuffer_format b \<noteq> FORMAT_BGRX8888 \<and>
        bi_framebuffer_format b \<noteq> FORMAT_RGBX8888)"

definition display_mismatch :: "boot_info \<Rightarrow> byte \<Rightarrow> bool" where
  "display_mismatch b bytes_per_pixel \<longleftrightarrow>
     bi_framebuffer_format b = FORMAT_BGR888 \<and> bytes_per_pixel \<noteq> 3 \<or>
     (bi_framebuffer_format b = FORMAT_BGRX8888 \<or> bi_framebuffer_format b = FORMAT_RGBX8888) \<and> bytes_per_pixel \<noteq> 4 \<or>
     (ucast (bi_framebuffer_width b) * ucast bytes_per_pixel :: u64) > ucast (bi_framebuffer_pitch b)"

fun map_pages :: "u64 \<Rightarrow> (u64 \<times> u64) list \<Rightarrow> frames \<Rightarrow> frames option" where
  "map_pages root [] f = Some f"
| "map_pages root ((virtual, physical) # ps) f =
     (case quanta_map_page root virtual physical display_flags f of None \<Rightarrow> None | Some f1 \<Rightarrow> map_pages root ps f1)"

text \<open>The frames of the back buffer: \<open>None\<close> is the panic, \<open>False\<close> the return when no frame is left.\<close>

fun map_backbuffer :: "u64 \<Rightarrow> nat list \<Rightarrow> frames \<Rightarrow> (bool \<times> frames) option" where
  "map_backbuffer root [] f = Some (True, f)"
| "map_backbuffer root (page # remaining) f =
     (case quanta_frame_allocate f of
        None \<Rightarrow> Some (False, f)
      | Some (backbuffer_page, f1) \<Rightarrow>
         (case quanta_map_page root (FRAMEBUFFER_BACKBUFFER_VIRTUAL + of_nat page * 0x1000) backbuffer_page display_flags f1 of
            None \<Rightarrow> None
          | Some f2 \<Rightarrow> map_backbuffer root remaining f2))"

text \<open>The first picture; the frames of the back buffer were cleared when they were allocated.\<close>

definition display_first_picture :: "adapter \<Rightarrow> display \<Rightarrow> display_start \<Rightarrow> display_start" where
  "display_first_picture hw d s =
     (let d1 = d\<lparr>framebuffer_mapped := True, framebuffer := (\<lambda>_. 0)\<rparr>;
          s1 = s\<lparr>ds_pointer := (framebuffer_width d1 div 2, framebuffer_height d1 div 2)\<rparr>;
          d2 = serial_write_marker (if bga_page_flip d1 then ''QUANTA_BGA_DOUBLE_BUFFER_READY''
                 else ''QUANTA_DISPLAY_BACKBUFFER_READY_UNSYNCED'') d1;
          d3 = framebuffer_draw_terminal_frame d2;
          d4 = (if bga_page_flip d3 then snd (quanta_arch_desktop_present hw d3) else d3);
          s2 = set_screen d4 s1
      in s2\<lparr>ds_console := quanta_arch_write_marker (str ''QUANTA_FRAMEBUFFER_READY'' @ [10]) (ds_console s2)\<rparr>)"

text \<open>From the check of the font on: the two windows and the first picture.\<close>

definition display_windows :: "adapter \<Rightarrow> byte list \<Rightarrow> u64 \<Rightarrow> boot_info \<Rightarrow> u32 \<Rightarrow> u64 \<Rightarrow> u64 \<Rightarrow> display \<Rightarrow> display_start \<Rightarrow>
    display_start option" where
  "display_windows hw font cr3 b display_pitch bytes scanout_bytes d s =
     (let display_physical = bi_framebuffer_physical b;
          offset = display_physical AND 0xfff;
          physical_page = display_physical AND NOT 0xfff;
          map_bytes = (offset + scanout_bytes + 0xfff) AND NOT 0xfff;
          page_total = map_bytes div 0x1000
      in if map_bytes \<ge> 0x40000000 then Some (set_screen d s)
      else
       (let root = cr3 AND NOT 0xfff
        in if length font \<noteq> 4096 then Some (set_screen d s)
        else
          case map_pages root (map (\<lambda>page. (FRAMEBUFFER_VIRTUAL + of_nat page * 0x1000, physical_page + of_nat page * 0x1000))
                 [0..<unat page_total]) (ds_frames s) of
            None \<Rightarrow> None
          | Some f1 \<Rightarrow>
             (let d1 = d\<lparr>framebuffer_font := font, scanout_mapped := True,
                    framebuffer_width := bi_framebuffer_width b, framebuffer_height := bi_framebuffer_height b,
                    framebuffer_pitch := display_pitch, framebuffer_bytes := bytes\<rparr>;
                  backbuffer_page_count = (bytes + 0xfff) div 0x1000
              in case map_backbuffer root [0..<unat backbuffer_page_count] f1 of
                   None \<Rightarrow> None
                 | Some (False, f2) \<Rightarrow> Some (set_screen d1 (s\<lparr>ds_frames := f2\<rparr>))
                 | Some (True, f2) \<Rightarrow> Some (display_first_picture hw d1 (s\<lparr>ds_frames := f2\<rparr>)))))"

definition quanta_arch_display_initialize :: "adapter \<Rightarrow> byte list \<Rightarrow> u64 \<Rightarrow> boot_info option \<Rightarrow> display_start \<Rightarrow> display_start option" where
  "quanta_arch_display_initialize hw font cr3 boot_info s =
     (case boot_info of None \<Rightarrow> Some s
      | Some b \<Rightarrow>
          if \<not> display_supported b then Some s
          else
           (let d1 = (screen_of (ds_console s))\<lparr>framebuffer_bytes_per_pixel := bi_framebuffer_bpp b div 8\<rparr>
            in if display_mismatch b (framebuffer_bytes_per_pixel d1) then Some (set_screen d1 s)
            else
             (let d2 = d1\<lparr>framebuffer_format := bi_framebuffer_format b\<rparr>;
                  bytes = ucast (bi_framebuffer_pitch b) * ucast (bi_framebuffer_height b) :: u64
              in if bytes = 0 \<or> bytes > FRAMEBUFFER_MAX_BYTES \<or> bi_framebuffer_physical b > - 1 - bytes
                 then Some (set_screen d2 s)
              else
               (case bga_initialize hw (bi_framebuffer_width b) (bi_framebuffer_height b) d2 of (flip, d3) \<Rightarrow>
                  let d4 = (if flip then d3\<lparr>bga_page_flip := True, framebuffer_bytes_per_pixel := 4, framebuffer_format := FORMAT_BGRX8888\<rparr>
                            else d3\<lparr>bga_page_flip := False\<rparr>);
                      display_pitch = (if flip then bi_framebuffer_width b * 4 else bi_framebuffer_pitch b);
                      bytes = (if flip then ucast display_pitch * ucast (bi_framebuffer_height b) else bytes);
                      scanout_bytes = (if flip then bytes * 2 else bytes)
                  in if scanout_bytes > FRAMEBUFFER_MAX_BYTES * 2 \<or> bi_framebuffer_physical b > - 1 - scanout_bytes
                     then Some (set_screen d4 s)
                     else display_windows hw font cr3 b display_pitch bytes scanout_bytes d4 s))))"

text \<open>The size a client of the display is told.\<close>

definition quanta_arch_display_dimensions :: "display \<Rightarrow> u32 \<times> u32" where
  "quanta_arch_display_dimensions d = (framebuffer_width d, framebuffer_height d)"


section \<open>The first picture covers the screen\<close>

lemma whole_fill_dirty:
  assumes "display_ok d" "\<not> framebuffer_dirty d"
  shows "screen d \<subseteq> dirty_area (framebuffer_fill_rect 0 0 (framebuffer_width d) (framebuffer_height d) color d)"
proof -
  let ?e = "framebuffer_fill_rect 0 0 (framebuffer_width d) (framebuffer_height d) color d"
  have nz: "\<not> (0 \<ge> framebuffer_width d \<or> 0 \<ge> framebuffer_height d)"
    using assms(1) by (auto simp: display_ok_def)
  have "framebuffer_dirty ?e \<and> dirty_left ?e = 0 \<and> dirty_top ?e = 0 \<and> dirty_right ?e = framebuffer_width d \<and>
      dirty_bottom ?e = framebuffer_height d \<and> framebuffer_pitch ?e = framebuffer_pitch d \<and>
      framebuffer_bytes_per_pixel ?e = framebuffer_bytes_per_pixel d"
    using nz assms(2) by (simp add: framebuffer_fill_rect_def Let_def mark_clipped_def count_bytes_def clip_width_def clip_height_def)
  then show ?thesis using area_cong [of ?e d] by (simp add: dirty_area_def screen_def)
qed

lemma terminal_frame_after_fill:
  "drawn (framebuffer_fill_rect 0 0 (framebuffer_width d) (framebuffer_height d) FRAMEBUFFER_BACKGROUND d) (framebuffer_draw_terminal_frame d)"
  unfolding framebuffer_draw_terminal_frame_def Let_def
  by (intro fill_rect_after drawn_trans [OF _ draw_items_drawn] literal_after drawn_refl)
    (simp_all add: FRAMEBUFFER_PANEL_WIDTH_def length_str)

lemma covered_in_sync: "screen d \<subseteq> dirty_area d \<Longrightarrow> bga_front_y d = 0 \<Longrightarrow> in_sync d"
  by (auto simp: in_sync_def pages_def)

lemma frame_covers:
  assumes "display_ok d" "\<not> framebuffer_dirty d"
  shows "screen (framebuffer_draw_terminal_frame d) \<subseteq> dirty_area (framebuffer_draw_terminal_frame d)"
proof -
  let ?e = "framebuffer_fill_rect 0 0 (framebuffer_width d) (framebuffer_height d) FRAMEBUFFER_BACKGROUND d"
  have e: "geometry_of ?e = geometry_of d" "display_ok ?e" using fill_rect_drawn assms(1) by (auto simp: drawn_def)
  have f: "geometry_of (framebuffer_draw_terminal_frame d) = geometry_of ?e" "dirty_area ?e \<subseteq> dirty_area (framebuffer_draw_terminal_frame d)"
    using terminal_frame_after_fill [of d] e(2) by (auto simp: drawn_def)
  show ?thesis using whole_fill_dirty [OF assms] f(2) geometry_cong(5) [OF e(1)] geometry_cong(5) [OF f(1)] by blast
qed

section \<open>The marker\<close>

text \<open>A line that fits into the row does not scroll.\<close>

lemma put_line_drawn:
  assumes "10 \<notin> set marker" "13 \<notin> set marker" "8 \<notin> set marker" "unat (vga_x c) + length marker < 80" "unat (vga_y c) < 24"
  shows "drawn (screen_of c) (screen_of (foldl (\<lambda>c ch. vga_put ch (serial_write_char ch c)) c marker)) \<and>
    vga_y (foldl (\<lambda>c ch. vga_put ch (serial_write_char ch c)) c marker) = vga_y c"
  using assms
proof (induction marker arbitrary: c)
  case (Cons ch marker)
  let ?s = "serial_write_char ch c"
  let ?p = "vga_put ch ?s"
  have pos: "vga_x (put_cell ch ?s) = vga_x c" "vga_y (put_cell ch ?s) = vga_y c"
    by (simp_all add: put_cell_def Let_def set_cell_def serial_write_char_def)
  have x: "unat (vga_x c + 1) = unat (vga_x c) + 1" using Cons.prems(4) by (simp add: unat_word_ariths)
  then have "vga_x c + 1 \<noteq> 80" using Cons.prems(4) by (auto dest: arg_cong [where f = unat])
  moreover have "\<not> vga_y c \<ge> 25" using Cons.prems(5) by (simp add: word_le_nat_alt)
  ultimately have p: "?p = (put_cell ch ?s)\<lparr>vga_x := vga_x c + 1\<rparr>"
    using Cons.prems(1-3) pos by (simp add: vga_put_def Let_def)
  have "drawn (screen_of c) (screen_of ?s)" by (simp add: serial_write_char_def drawing)
  then have d: "drawn (screen_of c) (screen_of ?p)" unfolding p by (auto intro: drawn_trans [OF _ put_cell_drawn])
  have "drawn (screen_of ?p) (screen_of (foldl (\<lambda>c ch. vga_put ch (serial_write_char ch c)) ?p marker)) \<and>
      vga_y (foldl (\<lambda>c ch. vga_put ch (serial_write_char ch c)) ?p marker) = vga_y ?p"
    by (rule Cons.IH) (use Cons.prems p pos x in simp_all)
  then show ?case using drawn_trans [OF d] p pos by simp
qed (simp add: drawn_refl)

text \<open>A line of text and its end, on a row above the last two.\<close>

definition typed :: "byte list \<Rightarrow> console \<Rightarrow> console" where
  "typed cs c = foldl (\<lambda>c ch. vga_put ch (serial_write_char ch c)) c cs"

definition plain_line :: "byte list \<Rightarrow> bool" where
  "plain_line cs \<longleftrightarrow> 0 \<notin> set cs \<and> 8 \<notin> set cs \<and> 10 \<notin> set cs \<and> 13 \<notin> set cs \<and> length cs < 80"

lemma line_typed:
  assumes line: "plain_line cs" and pos: "vga_x c = 0" "unat (vga_y c) < 23"
  shows "drawn (screen_of c) (screen_of (typed (cs @ [10]) c)) \<and> vga_x (typed (cs @ [10]) c) = 0 \<and>
    unat (vga_y (typed (cs @ [10]) c)) = Suc (unat (vga_y c))"
proof -
  let ?c = "typed cs c"
  have l: "drawn (screen_of c) (screen_of ?c)" "vga_y ?c = vga_y c"
    using put_line_drawn [of cs c] line pos by (simp_all add: typed_def plain_line_def)
  have y: "unat (vga_y ?c + 1) = Suc (unat (vga_y c))" using pos(2) by (simp add: l(2) unat_word_ariths)
  then have "\<not> vga_y ?c + 1 \<ge> 25" using pos(2) by (simp add: word_le_nat_alt)
  then have n: "vga_put 10 (serial_write_char 10 ?c) = (serial_write_char 10 ?c)\<lparr>vga_x := 0, vga_y := vga_y ?c + 1\<rparr>"
    by (simp add: vga_put_def serial_write_char_def Let_def)
  have "drawn (screen_of c) (screen_of (serial_write_char 10 ?c))"
    by (rule drawn_trans [OF l(1)]) (simp add: serial_write_char_def drawing)
  then show ?thesis using n y by (simp add: typed_def)
qed

lemma cstr_line: "plain_line cs \<Longrightarrow> cstr (cs @ 10 # ds) = cs @ 10 # cstr ds"
  by (induction cs) (auto simp: cstr_def plain_line_def)

lemma marker_typed:
  assumes "plain_line cs" "vga_x c = 0" "unat (vga_y c) < 23"
  shows "drawn (screen_of c) (screen_of (quanta_arch_write_marker (cs @ [10]) c)) \<and>
    vga_x (quanta_arch_write_marker (cs @ [10]) c) = 0 \<and> unat (vga_y (quanta_arch_write_marker (cs @ [10]) c)) = Suc (unat (vga_y c))"
proof -
  have "quanta_arch_write_marker (cs @ [10]) c = typed (cs @ [10]) c"
    using cstr_line [OF assms(1), of "[]"] by (simp add: quanta_arch_write_marker_def typed_def cstr_def)
  then show ?thesis using line_typed [OF assms] by simp
qed

lemma plain_ready: "plain_line (str ''QUANTA_FRAMEBUFFER_READY'')"
  by (simp add: plain_line_def str_def)

section \<open>The display is sound\<close>

text \<open>What is asked of the state before: the static variables are zero.\<close>

definition display_off :: "display_start \<Rightarrow> bool" where
  "display_off s \<longleftrightarrow> \<not> framebuffer_mapped (screen_of (ds_console s)) \<and> \<not> framebuffer_dirty (screen_of (ds_console s)) \<and>
     bga_front_y (screen_of (ds_console s)) = 0 \<and> vga_x (ds_console s) = 0 \<and> vga_y (ds_console s) = 0"

definition display_on :: "display_start \<Rightarrow> bool" where
  "display_on s \<longleftrightarrow> (let d = screen_of (ds_console s) in
     display_ok d \<and> in_sync d \<and> framebuffer_mapped d \<and> scanout_mapped d \<and> vga_x (ds_console s) = 0 \<and> unat (vga_y (ds_console s)) = 1 \<and>
     fst (ds_pointer s) < framebuffer_width d \<and> snd (ds_pointer s) < framebuffer_height d)"

lemma bga_write_fields [simp]:
  "framebuffer_mapped (bga_write hw i v d) = framebuffer_mapped d" "framebuffer_dirty (bga_write hw i v d) = framebuffer_dirty d"
  "bga_front_y (bga_write hw i v d) = bga_front_y d" "framebuffer_bytes_per_pixel (bga_write hw i v d) = framebuffer_bytes_per_pixel d"
  by (simp_all add: bga_write_def)

lemma bga_initialize_fields [simp]:
  "framebuffer_mapped (snd (bga_initialize hw width height d)) = framebuffer_mapped d"
  "framebuffer_dirty (snd (bga_initialize hw width height d)) = framebuffer_dirty d"
  "bga_front_y (snd (bga_initialize hw width height d)) = bga_front_y d"
  "framebuffer_bytes_per_pixel (snd (bga_initialize hw width height d)) = framebuffer_bytes_per_pixel d"
  by (simp_all add: bga_initialize_def Let_def)

lemma first_present:
  assumes ok: "display_ok d" and cover: "screen d \<subseteq> dirty_area d" and front: "bga_front_y d = 0"
    and live: "framebuffer_mapped d" "scanout_mapped d" and p: "quanta_arch_desktop_present hw d = (r, d')"
  shows "display_ok d' \<and> in_sync d' \<and> framebuffer_mapped d' \<and> scanout_mapped d' \<and>
    framebuffer_width d' = framebuffer_width d \<and> framebuffer_height d' = framebuffer_height d \<and>
    framebuffer_bytes d' = framebuffer_bytes d \<and> bga_page_flip d' = bga_page_flip d"
proof -
  have kept: "framebuffer_mapped d' = framebuffer_mapped d \<and> scanout_mapped d' = scanout_mapped d \<and>
      framebuffer_width d' = framebuffer_width d \<and> framebuffer_height d' = framebuffer_height d \<and>
      framebuffer_bytes d' = framebuffer_bytes d \<and> bga_page_flip d' = bga_page_flip d"
    using p by (auto simp: quanta_arch_desktop_present_def Let_def bga_write_def presented_def serial_write_marker_def split: if_splits)
  show ?thesis
  proof (cases r)
    case True
    then show ?thesis using present_sync [OF ok covered_in_sync [OF cover front] live] p kept live by simp
  next
    case False
    then have same: "framebuffer_bytes_per_pixel d' = framebuffer_bytes_per_pixel d" "framebuffer_pitch d' = framebuffer_pitch d"
      "framebuffer_bytes d' = framebuffer_bytes d" "framebuffer_dirty d' = framebuffer_dirty d" "dirty_left d' = dirty_left d"
      "dirty_top d' = dirty_top d" "dirty_right d' = dirty_right d" "dirty_bottom d' = dirty_bottom d" "bga_front_y d' = 0"
      using p front by (auto simp: quanta_arch_desktop_present_def Let_def bga_write_def serial_write_marker_def split: if_splits)
    then have "area d' = area d" by (intro area_cong) simp_all
    then have "screen d' = screen d" "dirty_area d' = dirty_area d" using kept same by (simp_all add: screen_def dirty_area_def)
    then have "screen d' \<subseteq> dirty_area d'" using cover by simp
    moreover have "display_ok d'" using ok kept same by (simp add: display_ok_def)
    ultimately show ?thesis using covered_in_sync same kept live by blast
  qed
qed

lemma first_picture_on:
  assumes geometry: "framebuffer_bytes_per_pixel d = 3 \<or> framebuffer_bytes_per_pixel d = 4"
      "640 \<le> unat (framebuffer_width d)" "unat (framebuffer_width d) \<le> 4096"
      "480 \<le> unat (framebuffer_height d)" "unat (framebuffer_height d) \<le> 2160"
      "unat (framebuffer_width d) * unat (framebuffer_bytes_per_pixel d) \<le> unat (framebuffer_pitch d)"
      "unat (framebuffer_pitch d) * unat (framebuffer_height d) \<le> unat (framebuffer_bytes d)"
      "unat (framebuffer_bytes d) \<le> 0x1000000"
    and off: "scanout_mapped d" "\<not> framebuffer_dirty d" "bga_front_y d = 0" "vga_x (ds_console s) = 0" "vga_y (ds_console s) = 0"
  shows "display_on (display_first_picture hw d s) \<and>
    framebuffer_bytes (screen_of (ds_console (display_first_picture hw d s))) = framebuffer_bytes d \<and>
    bga_page_flip (screen_of (ds_console (display_first_picture hw d s))) = bga_page_flip d"
proof -
  define e where "e = serial_write_marker (if bga_page_flip d then ''QUANTA_BGA_DOUBLE_BUFFER_READY''
      else ''QUANTA_DISPLAY_BACKBUFFER_READY_UNSYNCED'') (d\<lparr>framebuffer_mapped := True, framebuffer := (\<lambda>_. 0)\<rparr>)"
  have e: "display_ok e" "\<not> framebuffer_dirty e" "framebuffer_mapped e" "scanout_mapped e" "bga_front_y e = 0"
    "framebuffer_width e = framebuffer_width d" "framebuffer_height e = framebuffer_height d"
    "framebuffer_bytes e = framebuffer_bytes d" "bga_page_flip e = bga_page_flip d"
    using geometry off by (simp_all add: e_def serial_write_marker_def display_ok_def)
  define p where "p = framebuffer_draw_terminal_frame e"
  have p: "display_ok p" "screen p \<subseteq> dirty_area p" "geometry_of p = geometry_of e"
    using terminal_frame_drawn [of e] frame_covers [OF e(1,2)] e(1) by (auto simp: p_def drawn_def)
  then have p': "bga_front_y p = 0" "framebuffer_mapped p" "scanout_mapped p" "framebuffer_width p = framebuffer_width d"
    "framebuffer_height p = framebuffer_height d" "framebuffer_bytes p = framebuffer_bytes d" "bga_page_flip p = bga_page_flip d"
    using e by (simp_all add: geometry_of_def)
  define q where "q = (if bga_page_flip p then snd (quanta_arch_desktop_present hw p) else p)"
  have q: "display_ok q \<and> in_sync q \<and> framebuffer_mapped q \<and> scanout_mapped q \<and> framebuffer_width q = framebuffer_width d \<and>
      framebuffer_height q = framebuffer_height d \<and> framebuffer_bytes q = framebuffer_bytes d \<and> bga_page_flip q = bga_page_flip d"
    using first_present [OF p(1,2) p'(1-3) prod.collapse [symmetric], of hw] p(1,2) p' covered_in_sync [OF p(2) p'(1)]
    by (simp add: q_def)
  let ?c = "(ds_console s)\<lparr>screen_of := q\<rparr>"
  have m: "drawn q (screen_of (quanta_arch_write_marker (str ''QUANTA_FRAMEBUFFER_READY'' @ [10]) ?c)) \<and>
      vga_x (quanta_arch_write_marker (str ''QUANTA_FRAMEBUFFER_READY'' @ [10]) ?c) = 0 \<and>
      unat (vga_y (quanta_arch_write_marker (str ''QUANTA_FRAMEBUFFER_READY'' @ [10]) ?c)) = 1"
    using marker_typed [OF plain_ready, of ?c] off(4,5) by simp
  then have "in_sync (screen_of (quanta_arch_write_marker (str ''QUANTA_FRAMEBUFFER_READY'' @ [10]) ?c))"
    using drawn_in_sync q by blast
  moreover have "framebuffer_width d div 2 < framebuffer_width d" "framebuffer_height d div 2 < framebuffer_height d"
    using geometry(2,4) by (simp_all add: word_less_nat_alt unat_div)
  moreover have "display_first_picture hw d s =
      s\<lparr>ds_pointer := (framebuffer_width d div 2, framebuffer_height d div 2),
        ds_console := quanta_arch_write_marker (str ''QUANTA_FRAMEBUFFER_READY'' @ [10]) ?c\<rparr>"
    by (simp add: display_first_picture_def Let_def set_screen_def q_def p_def e_def)
  ultimately show ?thesis using m q by (simp add: display_on_def Let_def drawn_def geometry_of_def)
qed

lemma windows_outcome:
  assumes run: "display_windows hw font cr3 b display_pitch bytes scanout_bytes d s = Some s'"
    and bytes_per_pixel: "framebuffer_bytes_per_pixel d = 3 \<or> framebuffer_bytes_per_pixel d = 4"
    and range: "640 \<le> unat (bi_framebuffer_width b)" "unat (bi_framebuffer_width b) \<le> 4096"
      "480 \<le> unat (bi_framebuffer_height b)" "unat (bi_framebuffer_height b) \<le> 2160"
      "unat (bi_framebuffer_width b) * unat (framebuffer_bytes_per_pixel d) \<le> unat display_pitch"
      "unat display_pitch * unat (bi_framebuffer_height b) \<le> unat bytes" "unat bytes \<le> 0x1000000"
    and off: "\<not> framebuffer_mapped d" "\<not> framebuffer_dirty d" "bga_front_y d = 0" "vga_x (ds_console s) = 0" "vga_y (ds_console s) = 0"
  shows "framebuffer_mapped (screen_of (ds_console s')) \<longrightarrow> display_on s' \<and>
    framebuffer_bytes (screen_of (ds_console s')) = bytes \<and> bga_page_flip (screen_of (ds_console s')) = bga_page_flip d"
proof -
  define d1 where "d1 = d\<lparr>framebuffer_font := font, scanout_mapped := True,
      framebuffer_width := bi_framebuffer_width b, framebuffer_height := bi_framebuffer_height b,
      framebuffer_pitch := display_pitch, framebuffer_bytes := bytes\<rparr>"
  have "s' = set_screen d s \<or> (\<exists>f. s' = set_screen d1 (s\<lparr>ds_frames := f\<rparr>)) \<or> (\<exists>f. s' = display_first_picture hw d1 (s\<lparr>ds_frames := f\<rparr>))"
    using run by (auto simp: display_windows_def Let_def d1_def split: if_splits option.splits bool.splits)
  moreover have "display_on (display_first_picture hw d1 (s\<lparr>ds_frames := f\<rparr>)) \<and>
      framebuffer_bytes (screen_of (ds_console (display_first_picture hw d1 (s\<lparr>ds_frames := f\<rparr>)))) = framebuffer_bytes d1 \<and>
      bga_page_flip (screen_of (ds_console (display_first_picture hw d1 (s\<lparr>ds_frames := f\<rparr>)))) = bga_page_flip d1" for f
    by (rule first_picture_on) (use bytes_per_pixel range off in \<open>simp_all add: d1_def\<close>)
  ultimately show ?thesis using off(1) by (auto simp: set_screen_def d1_def)
qed


lemma product_bytes:
  fixes width height :: u32
  shows "unat (ucast width * ucast height :: u64) = unat width * unat height"
proof -
  have "unat width * unat height < 2 ^ 32 * 2 ^ 32"
    using unat_less_pow [of width] unat_less_pow [of height] by (intro mult_strict_mono) simp_all
  moreover have "(ucast width * ucast height :: u64) = of_nat (unat width * unat height)" by (simp only: ucast_of_nat_word of_nat_mult)
  ultimately show ?thesis by (simp only: unat_of_nat) simp
qed

lemma supported_range:
  assumes "display_supported b"
  shows "640 \<le> unat (bi_framebuffer_width b)" "unat (bi_framebuffer_width b) \<le> 4096"
    "480 \<le> unat (bi_framebuffer_height b)" "unat (bi_framebuffer_height b) \<le> 2160"
    "bi_framebuffer_bpp b div 8 = 3 \<or> bi_framebuffer_bpp b div 8 = 4"
  using assms by (auto simp: display_supported_def word_less_nat_alt)

lemma row_fits:
  assumes "display_supported b" "\<not> display_mismatch b (bi_framebuffer_bpp b div 8)"
  shows "unat (bi_framebuffer_width b) * unat (bi_framebuffer_bpp b div 8) \<le> unat (bi_framebuffer_pitch b)"
proof -
  define n where "n = bi_framebuffer_bpp b div 8"
  have "unat n \<le> 4" using supported_range(5) [OF assms(1)] by (auto simp: n_def)
  then have "unat (bi_framebuffer_width b) * unat n \<le> 4096 * 4" using supported_range(2) [OF assms(1)] by (intro mult_le_mono)
  moreover have "(ucast (bi_framebuffer_width b) * ucast n :: u64) = of_nat (unat (bi_framebuffer_width b) * unat n)"
    by (simp only: ucast_of_nat_word of_nat_mult)
  ultimately have "unat (ucast (bi_framebuffer_width b) * ucast n :: u64) = unat (bi_framebuffer_width b) * unat n"
    by (simp only: unat_of_nat) simp
  moreover have "\<not> (ucast (bi_framebuffer_width b) * ucast n :: u64) > ucast (bi_framebuffer_pitch b)"
    using assms(2) by (simp add: display_mismatch_def n_def)
  ultimately show ?thesis by (simp add: n_def word_less_nat_alt unat_ucast_up)
qed

text \<open>A run that turns the display on comes to the windows, with a picture that fits the buffer.\<close>

lemma display_run:
  assumes "quanta_arch_display_initialize hw font cr3 boot s = Some s'" "display_off s"
    "framebuffer_mapped (screen_of (ds_console s'))"
  shows "\<exists>b pitch bytes scanout d. boot = Some b \<and> display_windows hw font cr3 b pitch bytes scanout d s = Some s' \<and>
    (framebuffer_bytes_per_pixel d = 3 \<or> framebuffer_bytes_per_pixel d = 4) \<and>
    640 \<le> unat (bi_framebuffer_width b) \<and> unat (bi_framebuffer_width b) \<le> 4096 \<and>
    480 \<le> unat (bi_framebuffer_height b) \<and> unat (bi_framebuffer_height b) \<le> 2160 \<and>
    unat (bi_framebuffer_width b) * unat (framebuffer_bytes_per_pixel d) \<le> unat pitch \<and>
    unat pitch * unat (bi_framebuffer_height b) = unat bytes \<and> unat bytes \<le> 0x1000000 \<and>
    scanout = (if bga_page_flip d then bytes * 2 else bytes) \<and>
    \<not> framebuffer_mapped d \<and> \<not> framebuffer_dirty d \<and> bga_front_y d = 0"
proof -
  obtain b where b: "boot = Some b" "display_supported b"
    using assms by (auto simp: quanta_arch_display_initialize_def display_off_def split: option.splits if_splits)
  define n where "n = bi_framebuffer_bpp b div 8"
  have n: "n = 3 \<or> n = 4" using b(2) by (auto simp: display_supported_def n_def)
  define d2 where "d2 = (screen_of (ds_console s))\<lparr>framebuffer_bytes_per_pixel := n, framebuffer_format := bi_framebuffer_format b\<rparr>"
  define flip where "flip = fst (bga_initialize hw (bi_framebuffer_width b) (bi_framebuffer_height b) d2)"
  define d3 where "d3 = snd (bga_initialize hw (bi_framebuffer_width b) (bi_framebuffer_height b) d2)"
  define d4 where "d4 = (if flip then d3\<lparr>bga_page_flip := True, framebuffer_bytes_per_pixel := 4, framebuffer_format := FORMAT_BGRX8888\<rparr>
      else d3\<lparr>bga_page_flip := False\<rparr>)"
  define pitch where "pitch = (if flip then bi_framebuffer_width b * 4 else bi_framebuffer_pitch b)"
  define bytes :: u64 where "bytes = (if flip then ucast (bi_framebuffer_width b * 4) * ucast (bi_framebuffer_height b)
      else ucast (bi_framebuffer_pitch b) * ucast (bi_framebuffer_height b))"
  define scanout where "scanout = (if flip then bytes * 2 else bytes)"
  have off: "\<not> framebuffer_mapped d2" "\<not> framebuffer_dirty d2" "bga_front_y d2 = 0" "vga_x (ds_console s) = 0" "vga_y (ds_console s) = 0"
    using assms(2) by (simp_all add: display_off_def d2_def)
  have checks: "\<not> display_mismatch b n" "\<not> ucast (bi_framebuffer_pitch b) * ucast (bi_framebuffer_height b) > FRAMEBUFFER_MAX_BYTES"
      "\<not> scanout > FRAMEBUFFER_MAX_BYTES * 2"
    and run: "display_windows hw font cr3 b pitch bytes scanout d4 s = Some s'"
    using assms(1,3) b off(1) unfolding quanta_arch_display_initialize_def Let_def prod.case_eq_if
    by (auto simp: n_def [symmetric] set_screen_def d2_def flip_def d3_def d4_def pitch_def bytes_def scanout_def
        split: if_splits)
  note range = supported_range(1-4) [OF b(2)]
  have d4: "framebuffer_bytes_per_pixel d4 = (if flip then 4 else n)" "\<not> framebuffer_mapped d4" "\<not> framebuffer_dirty d4" "bga_front_y d4 = 0"
    using off by (simp_all add: d4_def d3_def) (simp_all add: d2_def)
  have bytes: "unat bytes = unat pitch * unat (bi_framebuffer_height b)" by (simp add: bytes_def pitch_def product_bytes)
  have wide: "unat (bi_framebuffer_width b * 4) = unat (bi_framebuffer_width b) * 4" using range(2) by (simp add: unat_word_ariths)
  have row: "unat (bi_framebuffer_width b) * unat (framebuffer_bytes_per_pixel d4) \<le> unat pitch"
  proof (cases flip)
    case True
    then show ?thesis by (simp add: d4(1) pitch_def wide)
  next
    case False
    then show ?thesis using row_fits [OF b(2) checks(1) [unfolded n_def]] by (simp add: d4(1) pitch_def n_def)
  qed
  have small: "unat bytes \<le> 0x1000000"
  proof (cases flip)
    case True
    have "unat bytes \<le> 16384 * 2160" unfolding bytes using True range(2,4) by (intro mult_le_mono) (simp_all add: pitch_def wide)
    then have "unat (bytes * 2) = unat bytes * 2" by (simp add: unat_word_ariths)
    then show ?thesis using checks(3) True by (simp add: scanout_def FRAMEBUFFER_MAX_BYTES_def word_less_nat_alt)
  next
    case False
    then show ?thesis using checks(2) by (simp add: bytes_def FRAMEBUFFER_MAX_BYTES_def word_less_nat_alt)
  qed
  have "bga_page_flip d4 = flip" by (simp add: d4_def)
  then show ?thesis using b(1) run range row bytes small d4 n
    by (intro exI [of _ b] exI [of _ pitch] exI [of _ bytes] exI [of _ scanout] exI [of _ d4]) (auto simp: scanout_def)
qed

end
