(* ===== verification/Display_Windows.thy ===== *)
theory Display_Windows
  imports Display_Start Uefi_Tables
begin

text \<open>
  The two windows of the display in the kernel's half of the address space.  \<open>kernel_window\<close> describes the
  tables the mappings go through: the root and the second-level table the loader left, which lie outside
  the pool of frames, and below them tables in frames of the pool.  A run of mappings succeeds when the pool
  has frames, and afterwards each page of the list is translated as asked.
\<close>

unbundle bit_operations_syntax

section \<open>Tables inside and outside the pool\<close>

definition held :: "frames \<Rightarrow> u64 \<Rightarrow> bool" where
  "held s q \<longleftrightarrow> page_aligned q \<and> (q \<in> live s \<or> \<not> in_pool s q)"

lemma store_held_inv:
  assumes inv: "frames_inv s" and q: "held s q" "in_page q a"
  shows "frames_inv (s\<lparr>mem := (mem s)(a := v)\<rparr>)"
proof (cases "q \<in> live s")
  case True
  then show ?thesis by (rule store_keeps_inv [OF inv _ q(2)])
next
  case False
  then have out: "\<not> in_pool s q" "page_aligned q" using q(1) by (simp_all add: held_def)
  obtain fs where ok: "pool_ok s" and path: "free_path (mem s) (free_frame_head s) fs"
    and dist: "distinct fs" and fs: "set fs = {f. carved s f \<and> f \<notin> live s}"
    using inv by (rule frames_invE)
  have "free_path ((mem s)(a := v)) (free_frame_head s) fs"
  proof (rule free_path_cong [OF path])
    fix g assume "g \<in> set fs"
    then have "in_pool s g" "page_aligned g" using fs carved_in_pool [OF ok] by (auto simp: carved_def)
    then have "a \<noteq> g" using q(2) in_page_self_iff [OF out(2), of g] out(1) by auto
    then show "((mem s)(a := v)) g = mem s g" by simp
  qed
  with ok dist fs show ?thesis by (auto simp: frames_inv_def)
qed

lemma held_entry:
  assumes "held s q" "held s g" "i < 512" "j < 512"
  shows "entry_address q i = entry_address g j \<longleftrightarrow> q = g \<and> i = j"
  using assms by (intro entry_address_inject) (simp_all add: held_def)

lemma allocate_kept:
  assumes inv: "frames_inv s" and alloc: "quanta_frame_allocate s = Some (f, s')" and g: "held s g" "j < 512"
  shows "mem s' (entry_address g j) = mem s (entry_address g j)"
proof -
  note a = allocate_refines [OF inv alloc]
  have "page_aligned f" using a by (simp add: in_pool_def)
  moreover have "g \<noteq> f" using a g(1) by (auto simp: held_def)
  ultimately have "\<not> in_page f (entry_address g j)"
    using in_page_unique [of f g "entry_address g j"] in_page_entry_address [OF g(2), of g] g(1) by (auto simp: held_def)
  then show ?thesis using a by (simp add: clear_page_apply)
qed

lemma held_mono: "held s q \<Longrightarrow> live s \<subseteq> live s' \<Longrightarrow> pool_start s' = pool_start s \<Longrightarrow> pool_end s' = pool_end s \<Longrightarrow> held s' q"
  by (auto simp: held_def in_pool_def)

text \<open>What a step of the mapping leaves alone: the pool and what is allocated.\<close>

definition grows :: "frames \<Rightarrow> frames \<Rightarrow> bool" where
  "grows s s' \<longleftrightarrow> frames_inv s' \<and> live s \<subseteq> live s' \<and> pool_start s' = pool_start s \<and> pool_end s' = pool_end s"

lemma grows_held: "grows s s' \<Longrightarrow> held s q \<Longrightarrow> held s' q"
  by (auto simp: grows_def intro: held_mono)

lemma grows_trans: "grows s s' \<Longrightarrow> grows s' s'' \<Longrightarrow> grows s s''"
  by (auto simp: grows_def)

lemma grows_refl: "frames_inv s \<Longrightarrow> grows s s"
  by (simp add: grows_def)

text \<open>A table that is missing is a fresh frame of zeros, linked in the one entry.\<close>

lemma table_for_held:
  assumes inv: "frames_inv s" and q: "held s q" "i < 512"
    and absent: "mem s (entry_address q i) AND PAGE_PRESENT = 0" and step: "table_for (entry_address q i) s = Some (u, s')"
  shows "grows s s' \<and> u \<notin> live s \<and> u \<in> live s' \<and> in_pool s u \<and> mem s' (entry_address q i) AND PAGE_PRESENT \<noteq> 0 \<and>
    entry_base (mem s' (entry_address q i)) = u \<and> (\<forall>j<512. mem s' (entry_address u j) = 0) \<and>
    (\<forall>g j. held s g \<longrightarrow> j < 512 \<longrightarrow> \<not> (g = q \<and> j = i) \<longrightarrow> mem s' (entry_address g j) = mem s (entry_address g j))"
proof -
  obtain f s1 where alloc: "quanta_frame_allocate s = Some (f, s1)"
    and u: "u = entry_base (f OR PAGE_PRESENT OR PAGE_WRITABLE OR PAGE_USER)"
    and s': "s' = s1\<lparr>mem := (mem s1)(entry_address q i := f OR PAGE_PRESENT OR PAGE_WRITABLE OR PAGE_USER)\<rparr>"
    using step absent by (auto simp: table_for_def quanta_frame_allocate_or_panic_def Let_def split: option.splits)
  note a = allocate_refines [OF inv alloc]
  have f: "page_aligned f" using a by (simp add: in_pool_def)
  note e = new_entry [OF f]
  have uf: "u = f" using u e(1) by simp
  have held1: "held s1 g" if "held s g" for g using a that by (auto intro: held_mono)
  have inv': "frames_inv s'" unfolding s' using a held1 [OF q(1)] q(2) by (intro store_held_inv) (auto simp: in_page_entry_address)
  have "q \<noteq> f" using a q(1) by (auto simp: held_def)
  have zero: "mem s' (entry_address f j) = 0" if j: "j < 512" for j
  proof -
    have "entry_address f j \<noteq> entry_address q i"
      using entry_address_inject [OF f _ j q(2), of q] q(1) \<open>q \<noteq> f\<close> by (auto simp: held_def)
    moreover have "mem s1 (entry_address f j) = 0" using a in_page_entry_address [OF j, of f] by (simp add: clear_page_apply)
    ultimately show ?thesis by (simp add: s')
  qed
  have other: "mem s' (entry_address g j) = mem s (entry_address g j)" if "held s g" "j < 512" "\<not> (g = q \<and> j = i)" for g j
    using held_entry [OF q(1) that(1) q(2) that(2)] that allocate_kept [OF inv alloc that(1,2)] by (auto simp: s')
  show ?thesis
    using a inv' zero other e uf by (auto simp: grows_def s')
qed

section \<open>The tables of the windows\<close>

definition kernel_window :: "u64 \<Rightarrow> u64 \<Rightarrow> u64 option \<Rightarrow> (nat \<rightharpoonup> u64) \<Rightarrow> frames \<Rightarrow> bool" where
  "kernel_window root pdpt pd pt s \<longleftrightarrow> frames_inv s \<and>
     page_aligned root \<and> \<not> in_pool s root \<and> page_aligned pdpt \<and> \<not> in_pool s pdpt \<and> root \<noteq> pdpt \<and>
     mem s (entry_address root 511) AND PAGE_PRESENT \<noteq> 0 \<and> entry_base (mem s (entry_address root 511)) = pdpt \<and>
     (case pd of None \<Rightarrow> mem s (entry_address pdpt 511) AND PAGE_PRESENT = 0 \<and> pt = Map.empty
      | Some p \<Rightarrow> p \<in> live s \<and> mem s (entry_address pdpt 511) AND PAGE_PRESENT \<noteq> 0 \<and>
          entry_base (mem s (entry_address pdpt 511)) = p \<and>
          (\<forall>d<512. case pt d of None \<Rightarrow> mem s (entry_address p d) AND PAGE_PRESENT = 0
             | Some t \<Rightarrow> t \<in> live s \<and> t \<noteq> p \<and> mem s (entry_address p d) AND PAGE_PRESENT \<noteq> 0 \<and>
                 entry_base (mem s (entry_address p d)) = t) \<and>
          dom pt \<subseteq> {..<512} \<and> inj_on pt (dom pt))"

text \<open>The entry of a page, given by its place in the two lower levels.\<close>

definition slot_entry :: "(nat \<rightharpoonup> u64) \<Rightarrow> frames \<Rightarrow> nat \<times> nat \<Rightarrow> u64 option" where
  "slot_entry pt s x = (case pt (fst x) of None \<Rightarrow> None | Some t \<Rightarrow> Some (mem s (entry_address t (snd x))))"

definition slot :: "u64 \<Rightarrow> nat \<times> nat" where
  "slot va = (table_index va 21, table_index va 12)"

definition in_window :: "u64 \<Rightarrow> bool" where
  "in_window va \<longleftrightarrow> table_index va 39 = 511 \<and> table_index va 30 = 511"

lemma window_inv: "kernel_window root pdpt pd pt s \<Longrightarrow> frames_inv s"
  by (simp add: kernel_window_def)

lemma window_directory:
  assumes "kernel_window root pdpt (Some p) pt s"
  shows "p \<in> live s" "mem s (entry_address pdpt 511) AND PAGE_PRESENT \<noteq> 0" "entry_base (mem s (entry_address pdpt 511)) = p"
    "dom pt \<subseteq> {..<512}" "inj_on pt (dom pt)"
    "d < 512 \<Longrightarrow> pt d = None \<Longrightarrow> mem s (entry_address p d) AND PAGE_PRESENT = 0"
    "pt d = Some t \<Longrightarrow> d < 512 \<and> t \<in> live s \<and> t \<noteq> p \<and> mem s (entry_address p d) AND PAGE_PRESENT \<noteq> 0 \<and> entry_base (mem s (entry_address p d)) = t"
proof -
  show "p \<in> live s" "mem s (entry_address pdpt 511) AND PAGE_PRESENT \<noteq> 0" "entry_base (mem s (entry_address pdpt 511)) = p"
    "dom pt \<subseteq> {..<512}" "inj_on pt (dom pt)"
    using assms by (simp_all add: kernel_window_def)
  have all: "\<forall>d<512. case pt d of None \<Rightarrow> mem s (entry_address p d) AND PAGE_PRESENT = 0
       | Some t \<Rightarrow> t \<in> live s \<and> t \<noteq> p \<and> mem s (entry_address p d) AND PAGE_PRESENT \<noteq> 0 \<and> entry_base (mem s (entry_address p d)) = t"
    using assms unfolding kernel_window_def option.case by blast
  show "d < 512 \<Longrightarrow> pt d = None \<Longrightarrow> mem s (entry_address p d) AND PAGE_PRESENT = 0" using all by (auto dest: spec [of _ d])
  assume d: "pt d = Some t"
  then have "d < 512" using \<open>dom pt \<subseteq> {..<512}\<close> by auto
  then show "d < 512 \<and> t \<in> live s \<and> t \<noteq> p \<and> mem s (entry_address p d) AND PAGE_PRESENT \<noteq> 0 \<and> entry_base (mem s (entry_address p d)) = t"
    using all [rule_format, of d] d by simp
qed

lemma window_pt: "kernel_window root pdpt pd pt s \<Longrightarrow> pt d = Some t \<Longrightarrow> \<exists>p. pd = Some p"
  by (cases pd) (auto simp: kernel_window_def)

lemma window_held:
  assumes "kernel_window root pdpt pd pt s"
  shows "held s root" "held s pdpt" "pd = Some p \<Longrightarrow> held s p" "pt d = Some t \<Longrightarrow> held s t"
proof -
  show "held s root" "held s pdpt" using assms by (simp_all add: kernel_window_def held_def)
  show "pd = Some p \<Longrightarrow> held s p" using window_directory(1) [of root pdpt p pt s] assms by (auto simp: held_def dest: live_aligned)
  assume t: "pt d = Some t"
  from window_pt [OF assms t] obtain p where "kernel_window root pdpt (Some p) pt s" using assms by auto
  from window_directory(7) [OF this t] show "held s t" by (auto simp: held_def dest: live_aligned)
qed

text \<open>A table of the windows is none of the others.\<close>

lemma window_apart:
  assumes "kernel_window root pdpt (Some p) pt s"
  shows "root \<noteq> pdpt" "p \<noteq> root" "p \<noteq> pdpt" "pt d = Some t \<Longrightarrow> t \<noteq> root \<and> t \<noteq> pdpt \<and> t \<noteq> p"
proof -
  have inv: "frames_inv s" and out: "\<not> in_pool s root" "\<not> in_pool s pdpt" "root \<noteq> pdpt" using assms by (simp_all add: kernel_window_def)
  note live = window_directory(1,7) [OF assms]
  show "root \<noteq> pdpt" by (rule out)
  show "p \<noteq> root" "p \<noteq> pdpt" using live_in_pool [OF inv live(1)] out by auto
  show "pt d = Some t \<Longrightarrow> t \<noteq> root \<and> t \<noteq> pdpt \<and> t \<noteq> p" using live(2) live_in_pool [OF inv] out by blast
qed

section \<open>Steps of a mapping\<close>

lemma window_cong:
  assumes w: "kernel_window root pdpt pd pt s" and g: "grows s s'"
    and same: "\<And>q j. held s q \<Longrightarrow> j < 512 \<Longrightarrow> (\<forall>d. pt d \<noteq> Some q) \<Longrightarrow> mem s' (entry_address q j) = mem s (entry_address q j)"
  shows "kernel_window root pdpt pd pt s'"
proof (cases pd)
  case None
  then have "\<forall>d. pt d = None" using w by (simp add: kernel_window_def)
  then have "mem s' (entry_address q j) = mem s (entry_address q j)" if "q \<in> {root, pdpt}" "j < 512" for q j
    using that same window_held(1,2) [OF w] by auto
  then show ?thesis using w g None by (simp add: kernel_window_def grows_def in_pool_def)
next
  case (Some p)
  note w' = w [unfolded Some]
  have e: "mem s' (entry_address q j) = mem s (entry_address q j)" if "q \<in> {root, pdpt, p}" "j < 512" for q j
    using that same window_held(1-3) [OF w] window_apart [OF w'] Some by (metis insertE singletonD)
  have "case pt d of None \<Rightarrow> mem s' (entry_address p d) AND PAGE_PRESENT = 0
     | Some t \<Rightarrow> t \<in> live s' \<and> t \<noteq> p \<and> mem s' (entry_address p d) AND PAGE_PRESENT \<noteq> 0 \<and> entry_base (mem s' (entry_address p d)) = t"
    if "d < 512" for d
    using e [of p d] that g window_directory(6,7) [OF w', of d] by (auto simp: grows_def split: option.split)
  then show ?thesis
    using w' g e window_directory(1-5) [OF w'] by (auto simp: Some kernel_window_def grows_def in_pool_def)
qed


definition keeps_slots :: "(nat \<times> nat) set \<Rightarrow> (nat \<rightharpoonup> u64) \<Rightarrow> frames \<Rightarrow> (nat \<rightharpoonup> u64) \<Rightarrow> frames \<Rightarrow> bool" where
  "keeps_slots X pt s pt' s' \<longleftrightarrow>
     (\<forall>x e. snd x < 512 \<longrightarrow> x \<notin> X \<longrightarrow> slot_entry pt s x = Some e \<longrightarrow> slot_entry pt' s' x = Some e)"

lemma keeps_slots_refl: "keeps_slots X pt s pt s"
  by (simp add: keeps_slots_def)

lemma keeps_slots_trans: "keeps_slots X pt s pt' s' \<Longrightarrow> keeps_slots Y pt' s' pt'' s'' \<Longrightarrow> keeps_slots (X \<union> Y) pt s pt'' s''"
  by (auto simp: keeps_slots_def)

lemma keeps_slotsI:
  assumes "pt \<subseteq>\<^sub>m pt'" "\<And>d t j. pt d = Some t \<Longrightarrow> j < 512 \<Longrightarrow> (d, j) \<notin> X \<Longrightarrow> mem s' (entry_address t j) = mem s (entry_address t j)"
  shows "keeps_slots X pt s pt' s'"
proof -
  have "slot_entry pt' s' (d, j) = Some e" if "j < 512" "(d, j) \<notin> X" "slot_entry pt s (d, j) = Some e" for d j e
  proof -
    note at = that
    obtain t where t: "pt d = Some t" "e = mem s (entry_address t j)" using at(3) by (auto simp: slot_entry_def split: option.splits)
    then have "pt' d = Some t" using assms(1) by (auto simp: map_le_def dom_def)
    then show ?thesis using assms(2) [OF t(1) at(1,2)] t(2) by (simp add: slot_entry_def)
  qed
  then show ?thesis by (auto simp: keeps_slots_def)
qed

lemma step_root:
  assumes "kernel_window root pdpt pd pt s"
  shows "table_for (entry_address root 511) s = Some (pdpt, s)"
  using assms by (simp add: table_for_def kernel_window_def)

lemma step_directory:
  assumes w: "kernel_window root pdpt pd pt s" and step: "table_for (entry_address pdpt 511) s = Some (p, s')"
  shows "kernel_window root pdpt (Some p) pt s' \<and> grows s s' \<and> keeps_slots {} pt s pt s'"
proof (cases pd)
  case (Some p0)
  note w' = w [unfolded Some]
  have "p = p0" "s' = s" using step window_directory(2,3) [OF w'] by (auto simp: table_for_def)
  then show ?thesis using w' keeps_slots_refl grows_refl by (simp add: kernel_window_def)
next
  case None
  then have absent: "mem s (entry_address pdpt 511) AND PAGE_PRESENT = 0" and pt: "pt = Map.empty"
    and out: "\<not> in_pool s root" "\<not> in_pool s pdpt" "root \<noteq> pdpt" and inv: "frames_inv s"
    using w by (simp_all add: kernel_window_def)
  note held = window_held(1,2) [OF w]
  note new = table_for_held [OF inv held(2) _ absent step]
  have "mem s' (entry_address root 511) = mem s (entry_address root 511)" using new held(1) out(3) by simp
  then show ?thesis
    using w new pt out by (auto simp: None kernel_window_def grows_def in_pool_def keeps_slots_def slot_entry_def)
qed

lemma step_table:
  assumes w: "kernel_window root pdpt (Some p) pt s" and d: "d < 512" and step: "table_for (entry_address p d) s = Some (t, s')"
  shows "\<exists>pt'. kernel_window root pdpt (Some p) pt' s' \<and> grows s s' \<and> pt' d = Some t \<and> keeps_slots {} pt s pt' s'"
proof (cases "pt d")
  case (Some t0)
  have "t = t0" "s' = s" using step window_directory(7) [OF w Some] by (auto simp: table_for_def)
  then show ?thesis using w Some keeps_slots_refl grows_refl by (auto simp: kernel_window_def)
next
  case None
  have inv: "frames_inv s" using w by (simp add: kernel_window_def)
  note held = window_held [OF w]
  note new = table_for_held [OF inv held(3) [OF refl] d window_directory(6) [OF w d None] step]
  have same: "mem s' (entry_address q j) = mem s (entry_address q j)" if "held s q" "j < 512" "\<not> (q = p \<and> j = d)" for q j
    using new that by blast
  note apart = window_apart [OF w]
  have old: "pt e = Some u \<Longrightarrow> u \<in> live s \<and> u \<noteq> t" for e u using window_directory(7) [OF w, of e u] new by blast
  have tables: "case (pt(d \<mapsto> t)) e of None \<Rightarrow> mem s' (entry_address p e) AND PAGE_PRESENT = 0
     | Some u \<Rightarrow> u \<in> live s' \<and> u \<noteq> p \<and> mem s' (entry_address p e) AND PAGE_PRESENT \<noteq> 0 \<and> entry_base (mem s' (entry_address p e)) = u"
    if e: "e < 512" for e
  proof (cases "e = d")
    case True
    moreover have "t \<noteq> p" using new window_directory(1) [OF w] by blast
    ultimately show ?thesis using new by simp
  next
    case False
    then show ?thesis
      using window_directory(6) [OF w e] window_directory(7) [OF w, of e] same [OF held(3) [OF refl] e] new
      by (auto simp: grows_def split: option.split)
  qed
  have "mem s' (entry_address root 511) = mem s (entry_address root 511)" "mem s' (entry_address pdpt 511) = mem s (entry_address pdpt 511)"
    using same held(1,2) apart by auto
  moreover have "inj_on (pt(d \<mapsto> t)) (dom (pt(d \<mapsto> t)))"
    using window_directory(5) [OF w] by (auto simp: inj_on_def dom_def dest: old)
  ultimately have "kernel_window root pdpt (Some p) (pt(d \<mapsto> t)) s'"
    using w new tables window_directory(1-4) [OF w] d by (auto simp: kernel_window_def grows_def in_pool_def)
  moreover have "keeps_slots {} pt s (pt(d \<mapsto> t)) s'"
  proof (rule keeps_slotsI)
    show "pt \<subseteq>\<^sub>m pt(d \<mapsto> t)" using None by (auto simp: map_le_def dom_def)
    fix e u j assume "pt e = Some u" "j < (512 :: nat)"
    then show "mem s' (entry_address u j) = mem s (entry_address u j)" using same held(4) apart(4) by blast
  qed
  ultimately show ?thesis using new by auto
qed

lemma step_leaf:
  assumes w: "kernel_window root pdpt (Some p) pt s" and t: "pt d = Some t" and j: "j < 512"
    and s': "s' = s\<lparr>mem := (mem s)(entry_address t j := v)\<rparr>"
  shows "kernel_window root pdpt (Some p) pt s' \<and> grows s s' \<and> slot_entry pt s' (d, j) = Some v \<and> keeps_slots {(d, j)} pt s pt s'"
proof -
  have inv: "frames_inv s" using w by (simp add: kernel_window_def)
  note held = window_held [OF w]
  have "frames_inv s'" unfolding s' by (rule store_held_inv [OF inv held(4) [OF t] in_page_entry_address [OF j]])
  then have g: "grows s s'" by (simp add: grows_def s')
  have same: "mem s' (entry_address q i) = mem s (entry_address q i)" if "held s q" "i < 512" "\<not> (q = t \<and> i = j)" for q i
    using held_entry [OF held(4) [OF t] that(1) j that(2)] that(3) by (auto simp: s')
  have "kernel_window root pdpt (Some p) pt s'"
    by (rule window_cong [OF w g]) (use same t in blast)
  moreover have "keeps_slots {(d, j)} pt s pt s'"
  proof (rule keeps_slotsI)
    fix e u i assume u: "pt e = Some u" "i < (512 :: nat)" "(e, i) \<notin> {(d, j)}"
    then have "\<not> (u = t \<and> i = j)" using window_directory(5) [OF w] t by (auto simp: inj_on_def dom_def)
    then show "mem s' (entry_address u i) = mem s (entry_address u i)" using same held(4) [OF u(1)] u(2) by blast
  qed (simp add: map_le_def)
  ultimately show ?thesis using g t by (simp add: slot_entry_def s')
qed

section \<open>A mapping\<close>

lemma window_map:
  assumes w: "kernel_window root pdpt pd pt s" and va: "in_window va" and run: "quanta_map_page root va pa flags s = Some s'"
  shows "\<exists>p pt'. kernel_window root pdpt (Some p) pt' s' \<and> grows s s' \<and>
    slot_entry pt' s' (slot va) = Some ((pa AND NOT 0xfff) OR flags) \<and> keeps_slots {slot va} pt s pt' s'"
proof -
  let ?d = "table_index va 21" and ?j = "table_index va 12"
  obtain p s2 t s3 where s2: "table_for (entry_address pdpt 511) s = Some (p, s2)" and s3: "table_for (entry_address p ?d) s2 = Some (t, s3)"
    and s': "s' = s3\<lparr>mem := (mem s3)(entry_address t ?j := (pa AND NOT 0xfff) OR flags)\<rparr>"
    using run va step_root [OF w] by (auto simp: quanta_map_page_def in_window_def split: option.splits)
  note d = step_directory [OF w s2]
  obtain pt' where t: "kernel_window root pdpt (Some p) pt' s3" "grows s2 s3" "pt' ?d = Some t" "keeps_slots {} pt s2 pt' s3"
    using step_table [OF _ table_index_less s3] d by blast
  note l = step_leaf [OF t(1,3) table_index_less s']
  have "keeps_slots ({} \<union> ({} \<union> {(?d, ?j)})) pt s pt' s'" using d t(4) l keeps_slots_trans by blast
  then show ?thesis using l grows_trans [OF _ grows_trans [OF t(2)]] d by (auto simp: slot_def)
qed

lemma window_map_succeeds:
  assumes w: "kernel_window root pdpt pd pt s" and va: "in_window va" and room: "n + 2 \<le> card (free_frames s)"
  shows "\<exists>s'. quanta_map_page root va pa flags s = Some s' \<and> n \<le> card (free_frames s')"
proof -
  have inv: "frames_inv s" using w by (simp add: kernel_window_def)
  obtain p s2 where s2: "table_for (entry_address pdpt 511) s = Some (p, s2)" "n + 1 \<le> card (free_frames s2)"
    using table_for_succeeds [OF inv, of "n + 1"] room by auto blast
  have "frames_inv s2" using step_directory [OF w s2(1)] by (simp add: kernel_window_def)
  from table_for_succeeds [OF this, of n] s2(2)
  obtain t s3 where "table_for (entry_address p (table_index va 21)) s2 = Some (t, s3)" "n \<le> card (free_frames s3)" by auto blast
  then show ?thesis using s2(1) va step_root [OF w]
    by (auto simp: quanta_map_page_def in_window_def free_frames_def in_pool_def)
qed

text \<open>The processor's walk finds what is in the slot.\<close>

lemma window_walk:
  assumes w: "kernel_window root pdpt pd pt s" and va: "in_window va" and e: "slot_entry pt s (slot va) = Some e" "e AND PAGE_PRESENT \<noteq> 0"
  shows "walk (mem s) root va = Some e"
proof -
  obtain t where t: "pt (table_index va 21) = Some t" "e = mem s (entry_address t (table_index va 12))"
    using e(1) by (auto simp: slot_entry_def slot_def split: option.splits)
  from window_pt [OF w t(1)] obtain p where p: "kernel_window root pdpt (Some p) pt s" using w by auto
  have "mem s (entry_address root 511) AND PAGE_PRESENT \<noteq> 0" "entry_base (mem s (entry_address root 511)) = pdpt"
    using w by (simp_all add: kernel_window_def)
  then show ?thesis
    using window_directory(2,3) [OF p] window_directory(7) [OF p t(1)] va t(2) e(2)
    by (simp add: walk_def table_path_def in_window_def Let_def)
qed


section \<open>The pages of the windows\<close>

lemma div_digit: "r < (a :: nat) \<Longrightarrow> (a * q + r) div a = q"
  by simp

lemma div_part: "0 < (a :: nat) \<Longrightarrow> (a * q + r) div a = q + r div a"
  by simp

lemma mod_digit: "((a :: nat) * q + r) mod a = r mod a"
  by simp

lemma window_place:
  assumes "i < 0x40000"
  shows "in_window (FRAMEBUFFER_VIRTUAL + of_nat i * 0x1000)" "slot (FRAMEBUFFER_VIRTUAL + of_nat i * 0x1000) = (i div 512, i mod 512)"
proof -
  have "(of_nat i * 0x1000 :: u64) = of_nat (i * 4096)" by simp
  moreover have "unat (of_nat (i * 4096) :: u64) = i * 4096" using assms by (simp only: unat_of_nat) simp
  ultimately have v: "unat (FRAMEBUFFER_VIRTUAL + of_nat i * 0x1000) = 0xffffffffc0000000 + i * 4096"
    using assms by (simp add: FRAMEBUFFER_VIRTUAL_def unat_word_ariths)
  define n where "n = 0xffffffffc0000 + i"
  have n: "0xffffffffc0000000 + i * 4096 = n * 4096" by (simp add: n_def)
  have d: "(n * 4096) div 2 ^ 12 = n" "(n * 4096) div 2 ^ 21 = n div 512" "(n * 4096) div 2 ^ 30 = n div 0x40000"
    "(n * 4096) div 2 ^ 39 = n div 0x8000000"
    by simp_all
  have "n div 0x8000000 mod 512 = 511" "n div 0x40000 mod 512 = 511" "n div 512 mod 512 = i div 512" "n mod 512 = i mod 512"
    using div_digit [of "0x7fc0000 + i" "0x8000000" "0x1ffffff"] div_digit [of i "0x40000" "0x3ffffffff"]
      mod_digit [of 512 "0x3ffffffff" "i div 512"] div_part [of 512 "0x7fffffffe00" i] mod_digit [of 512 "0x7fffffffe00" i]
      assms less_mult_imp_div_less [of i 512 512]
    by (simp_all add: n_def)
  then show "in_window (FRAMEBUFFER_VIRTUAL + of_nat i * 0x1000)" "slot (FRAMEBUFFER_VIRTUAL + of_nat i * 0x1000) = (i div 512, i mod 512)"
    by (simp_all only: in_window_def slot_def table_index_unat v n d)
qed


definition place :: "nat \<Rightarrow> nat \<times> nat" where
  "place i = (i div 512, i mod 512)"

lemma place_inject [simp]: "place i = place j \<longleftrightarrow> i = j"
  unfolding place_def by (metis div_mult_mod_eq old.prod.inject)

lemma place_less [simp]: "snd (place i) < 512"
  by (simp add: place_def)

lemma keeps_slots_place:
  "keeps_slots X pt s pt' s' \<Longrightarrow> slot_entry pt s (place i) = Some e \<Longrightarrow> place i \<notin> X \<Longrightarrow> slot_entry pt' s' (place i) = Some e"
  unfolding keeps_slots_def using place_less by blast

lemmas window_page = window_place [folded place_def]

lemma backbuffer_page: "FRAMEBUFFER_BACKBUFFER_VIRTUAL + of_nat i * 0x1000 = FRAMEBUFFER_VIRTUAL + of_nat (4096 + i) * 0x1000"
  by (simp add: FRAMEBUFFER_BACKBUFFER_VIRTUAL_def FRAMEBUFFER_VIRTUAL_def algebra_simps)

lemma flags_present: "(e OR display_flags) AND PAGE_PRESENT \<noteq> 0"
proof -
  have "bit (e OR display_flags) 0" by (simp add: display_flags_def PAGE_PRESENT_def bit_or_iff)
  then show ?thesis by (simp only: present_iff)
qed

lemma pages_mapped:
  assumes "kernel_window root pdpt pd pt s"
    "map_pages root (map (\<lambda>i. (FRAMEBUFFER_VIRTUAL + of_nat i * 0x1000, physical i)) ns) s = Some s'"
    "distinct ns" "\<forall>i\<in>set ns. i < 0x40000"
  shows "\<exists>pd' pt'. kernel_window root pdpt pd' pt' s' \<and> grows s s' \<and> keeps_slots (place ` set ns) pt s pt' s' \<and>
    (\<forall>i\<in>set ns. slot_entry pt' s' (place i) = Some ((physical i AND NOT 0xfff) OR display_flags))"
  using assms
proof (induction ns arbitrary: pd pt s)
  case Nil
  then show ?case using grows_refl [OF window_inv [OF Nil.prems(1)]] keeps_slots_refl by (auto intro!: exI [of _ pd] exI [of _ pt])
next
  case (Cons n ns)
  obtain s1 where s1: "quanta_map_page root (FRAMEBUFFER_VIRTUAL + of_nat n * 0x1000) (physical n) display_flags s = Some s1"
    and run: "map_pages root (map (\<lambda>i. (FRAMEBUFFER_VIRTUAL + of_nat i * 0x1000, physical i)) ns) s1 = Some s'"
    using Cons.prems(2) by (auto split: option.splits)
  have n: "n < 0x40000" using Cons.prems(4) by simp
  obtain p pt1 where 1: "kernel_window root pdpt (Some p) pt1 s1" "grows s s1"
    "slot_entry pt1 s1 (place n) = Some ((physical n AND NOT 0xfff) OR display_flags)" "keeps_slots {place n} pt s pt1 s1"
    using window_map [OF Cons.prems(1) window_page(1) [OF n] s1] unfolding window_page(2) [OF n] by blast
  obtain pd' pt' where 2: "kernel_window root pdpt pd' pt' s'" "grows s1 s'" "keeps_slots (place ` set ns) pt1 s1 pt' s'"
    "\<forall>i\<in>set ns. slot_entry pt' s' (place i) = Some ((physical i AND NOT 0xfff) OR display_flags)"
    using Cons.IH [OF 1(1) run] Cons.prems(3,4) by auto
  have "slot_entry pt' s' (place n) = Some ((physical n AND NOT 0xfff) OR display_flags)"
    by (rule keeps_slots_place [OF 2(3) 1(3)]) (use Cons.prems(3) in auto)
  moreover have "keeps_slots (place ` set (n # ns)) pt s pt' s'" using keeps_slots_trans [OF 1(4) 2(3)] by simp
  ultimately show ?case using 2 grows_trans [OF 1(2) 2(2)] by auto
qed

lemma pages_succeed:
  assumes "kernel_window root pdpt pd pt s" "\<forall>i\<in>set ns. i < 0x40000" "m + 2 * length ns \<le> card (free_frames s)"
  shows "\<exists>s'. map_pages root (map (\<lambda>i. (FRAMEBUFFER_VIRTUAL + of_nat i * 0x1000, physical i)) ns) s = Some s' \<and> m \<le> card (free_frames s')"
  using assms
proof (induction ns arbitrary: pd pt s)
  case (Cons n ns)
  have n: "n < 0x40000" using Cons.prems(2) by simp
  obtain s1 where s1: "quanta_map_page root (FRAMEBUFFER_VIRTUAL + of_nat n * 0x1000) (physical n) display_flags s = Some s1"
    "m + 2 * length ns \<le> card (free_frames s1)"
    using window_map_succeeds [OF Cons.prems(1) window_page(1) [OF n], of "m + 2 * length ns"] Cons.prems(3) by auto
  obtain p pt1 where "kernel_window root pdpt (Some p) pt1 s1"
    using window_map [OF Cons.prems(1) window_page(1) [OF n] s1(1)] by blast
  from Cons.IH [OF this _ s1(2)] Cons.prems(2) show ?case using s1(1) by auto
qed simp

section \<open>The pages of the back buffer\<close>

lemma allocate_window:
  assumes w: "kernel_window root pdpt pd pt s" and alloc: "quanta_frame_allocate s = Some (f, s1)"
  shows "kernel_window root pdpt pd pt s1 \<and> grows s s1 \<and> keeps_slots {} pt s pt s1 \<and> f \<notin> live s \<and> f \<in> live s1 \<and> page_aligned f"
proof -
  have inv: "frames_inv s" using w by (simp add: kernel_window_def)
  note a = allocate_refines [OF inv alloc]
  then have g: "grows s s1" by (auto simp: grows_def)
  have "kernel_window root pdpt pd pt s1" by (rule window_cong [OF w g]) (rule allocate_kept [OF inv alloc])
  moreover have "keeps_slots {} pt s pt s1"
    by (rule keeps_slotsI) (use allocate_kept [OF inv alloc] window_held(4) [OF w] in auto)
  ultimately show ?thesis using a g by (simp add: in_pool_def)
qed

lemma aligned_base:
  assumes "page_aligned f"
  shows "f AND NOT 0xfff = f"
proof -
  have "f AND (PAGE_SIZE - 1) = 0" using assms by (simp add: page_mask_eq_0)
  then have low: "f AND mask 12 = 0" by (simp add: PAGE_SIZE_def mask_eq_exp_minus_1)
  have bits: "\<not> bit f n" if "n < 12" for n
    using arg_cong [OF low, of "\<lambda>w. bit w n"] that by (simp add: bit_and_iff bit_mask_iff)
  have fff: "(0xfff :: u64) = mask 12" by (simp add: mask_eq_exp_minus_1)
  show ?thesis unfolding fff by (rule bit_word_eqI) (use bits in \<open>auto simp: bit_simps not_le\<close>)
qed

lemma backbuffer_mapped:
  assumes "kernel_window root pdpt pd pt s" "map_backbuffer root ns s = Some (True, s')" "distinct ns" "\<forall>i\<in>set ns. i < 0x2000"
  shows "\<exists>pd' pt' F. kernel_window root pdpt pd' pt' s' \<and> grows s s' \<and> keeps_slots ((\<lambda>i. place (4096 + i)) ` set ns) pt s pt' s' \<and>
    inj_on F (set ns) \<and> (\<forall>i\<in>set ns. F i \<in> live s' \<and> F i \<notin> live s \<and> slot_entry pt' s' (place (4096 + i)) = Some (F i OR display_flags))"
  using assms
proof (induction ns arbitrary: pd pt s)
  case Nil
  then show ?case using grows_refl [OF window_inv [OF Nil.prems(1)]] keeps_slots_refl by (auto intro!: exI [of _ pd] exI [of _ pt])
next
  case (Cons n ns)
  obtain f s1 s2 where alloc: "quanta_frame_allocate s = Some (f, s1)"
    and map: "quanta_map_page root (FRAMEBUFFER_VIRTUAL + of_nat (4096 + n) * 0x1000) f display_flags s1 = Some s2"
    and run: "map_backbuffer root ns s2 = Some (True, s')"
    using Cons.prems(2) by (auto simp only: map_backbuffer.simps backbuffer_page split: option.splits prod.splits)
  have n: "4096 + n < 0x40000" using Cons.prems(4) by auto
  note a = allocate_window [OF Cons.prems(1) alloc]
  then have w1: "kernel_window root pdpt pd pt s1" by simp
  obtain p pt2 where 2: "kernel_window root pdpt (Some p) pt2 s2" "grows s1 s2"
    "slot_entry pt2 s2 (place (4096 + n)) = Some ((f AND NOT 0xfff) OR display_flags)" "keeps_slots {place (4096 + n)} pt s1 pt2 s2"
    using window_map [OF w1 window_page(1) [OF n] map] unfolding window_page(2) [OF n] by blast
  obtain pd' pt' F where 3: "kernel_window root pdpt pd' pt' s'" "grows s2 s'" "keeps_slots ((\<lambda>i. place (4096 + i)) ` set ns) pt2 s2 pt' s'"
    "inj_on F (set ns)" "\<forall>i\<in>set ns. F i \<in> live s' \<and> F i \<notin> live s2 \<and> slot_entry pt' s' (place (4096 + i)) = Some (F i OR display_flags)"
    using Cons.IH [OF 2(1) run] Cons.prems(3,4) by auto
  have f: "f \<in> live s1" "f \<notin> live s" "f AND NOT 0xfff = f" using a aligned_base by auto
  have sub: "live s \<subseteq> live s1" "live s1 \<subseteq> live s2" "live s2 \<subseteq> live s'" using a 2(2) 3(2) by (auto simp: grows_def)
  let ?F = "F(n := f)"
  have n': "n \<notin> set ns" using Cons.prems(3) by simp
  have "inj_on ?F (set (n # ns))" using 3(4,5) n' f(1) sub by (auto simp: inj_on_def)
  moreover have "slot_entry pt' s' (place (4096 + n)) = Some (f OR display_flags)"
    by (rule keeps_slots_place [OF 3(3) 2(3) [unfolded f(3)]]) (use n' in auto)
  then have "\<forall>i\<in>set (n # ns). ?F i \<in> live s' \<and> ?F i \<notin> live s \<and> slot_entry pt' s' (place (4096 + i)) = Some (?F i OR display_flags)"
    using 3(5) n' f sub by auto
  moreover have "keeps_slots ((\<lambda>i. place (4096 + i)) ` set (n # ns)) pt s pt' s'"
    using keeps_slots_trans [OF _ keeps_slots_trans [OF 2(4) 3(3)], of "{}" pt s] a by simp
  moreover have "grows s s'" using a grows_trans 2(2) 3(2) by blast
  ultimately show ?case using 3(1) by blast
qed

lemma backbuffer_succeeds:
  assumes "kernel_window root pdpt pd pt s" "\<forall>i\<in>set ns. i < 0x2000" "3 * length ns \<le> card (free_frames s)"
  shows "\<exists>s'. map_backbuffer root ns s = Some (True, s')"
  using assms
proof (induction ns arbitrary: pd pt s)
  case (Cons n ns)
  have inv: "frames_inv s" using Cons.prems(1) by (simp add: kernel_window_def)
  have "quanta_frame_allocate s \<noteq> None"
  proof
    assume "quanta_frame_allocate s = None"
    then have "free_frames s = {}" using allocate_None_full [OF inv] by (auto simp: free_frames_def)
    then show False using Cons.prems(3) by simp
  qed
  then obtain f s1 where alloc: "quanta_frame_allocate s = Some (f, s1)" by auto
  note a = allocate_window [OF Cons.prems(1) alloc]
  from allocate_refines [OF inv alloc] have "free_frames s1 = free_frames s - {f}" by (auto simp: free_frames_def in_pool_def)
  then have room: "3 * length ns + 2 \<le> card (free_frames s1)"
    using Cons.prems(3) by (cases "f \<in> free_frames s") (simp_all add: card_Diff_singleton_if)
  have n: "4096 + n < 0x40000" using Cons.prems(2) by auto
  obtain s2 where s2: "quanta_map_page root (FRAMEBUFFER_VIRTUAL + of_nat (4096 + n) * 0x1000) f display_flags s1 = Some s2"
    "3 * length ns \<le> card (free_frames s2)"
    using window_map_succeeds [OF _ window_page(1) [OF n] room] a by blast
  obtain p pt2 where "kernel_window root pdpt (Some p) pt2 s2"
    using window_map [OF _ window_page(1) [OF n] s2(1)] a by blast
  from Cons.IH [OF this _ s2(2)] Cons.prems(2) alloc s2(1) show ?case by (auto simp only: map_backbuffer.simps backbuffer_page option.case prod.case list.set insert_iff)
qed simp


section \<open>The windows as a whole\<close>

lemma page_number:
  fixes w :: u64
  assumes "unat w + 4095 < 2 ^ 64"
  shows "unat (((w + 0xfff) AND NOT 0xfff) div 0x1000) = (unat w + 4095) div 4096"
proof -
  have m: "(0xfff :: u64) = PAGE_SIZE - 1" by (simp add: PAGE_SIZE_def)
  have "unat (w + 0xfff) = unat w + 4095" using assms by (simp add: unat_word_ariths)
  then have "unat ((w + 0xfff) AND NOT 0xfff) = (unat w + 4095) div 4096 * 4096" unfolding m by (simp only: and_not_mask_nat)
  then show ?thesis by (simp add: unat_div)
qed

lemma page_step: "page_aligned a \<Longrightarrow> (a + of_nat i * 0x1000) AND NOT 0xfff = a + of_nat i * 0x1000"
proof (rule aligned_base)
  assume a: "page_aligned a"
  have "a + of_nat i * 0x1000 = a + of_nat (i * 4096)" by simp
  then have "unat (a + of_nat i * 0x1000) = (unat a + i * 4096) mod 2 ^ 64" by (simp only: unat_word_ariths unat_of_nat mod_simps) simp
  moreover have "4096 dvd unat a + i * 4096" using a by (simp add: page_aligned_def)
  then have "4096 dvd (unat a + i * 4096) mod 2 ^ 64" by (rule dvd_mod) simp
  ultimately show "page_aligned (a + of_nat i * 0x1000)" by (simp only: page_aligned_def)
qed

text \<open>The number of pages the video memory takes, and the back buffer.\<close>

definition scanout_pages :: "boot_info \<Rightarrow> display \<Rightarrow> nat" where
  "scanout_pages b d = (unat (bi_framebuffer_physical b AND 0xfff) + unat (framebuffer_bytes d) * (if bga_page_flip d then 2 else 1) + 4095) div 4096"

definition backbuffer_pages :: "display \<Rightarrow> nat" where
  "backbuffer_pages d = (unat (framebuffer_bytes d) + 4095) div 4096"

lemma windows_run:
  assumes run: "display_windows hw font cr3 b pitch bytes scanout d s = Some s'" and off: "\<not> framebuffer_mapped d"
    and live: "framebuffer_mapped (screen_of (ds_console s'))"
  shows "\<exists>f1. map_pages (cr3 AND NOT 0xfff) (map (\<lambda>i. (FRAMEBUFFER_VIRTUAL + of_nat i * 0x1000,
        (bi_framebuffer_physical b AND NOT 0xfff) + of_nat i * 0x1000))
      [0..<unat ((((bi_framebuffer_physical b AND 0xfff) + scanout + 0xfff) AND NOT 0xfff) div 0x1000)]) (ds_frames s) = Some f1 \<and>
    map_backbuffer (cr3 AND NOT 0xfff) [0..<unat ((bytes + 0xfff) div 0x1000)] f1 = Some (True, ds_frames s') \<and>
    unat ((((bi_framebuffer_physical b AND 0xfff) + scanout + 0xfff) AND NOT 0xfff) div 0x1000) < 0x40000"
proof -
  let ?m = "((bi_framebuffer_physical b AND 0xfff) + scanout + 0xfff) AND NOT 0xfff"
  have kept: "ds_frames (display_first_picture hw e t) = ds_frames t" for e t
    by (simp add: display_first_picture_def Let_def set_screen_def)
  have small: "\<not> ?m \<ge> 0x40000000" using run off live by (auto simp: display_windows_def Let_def set_screen_def split: if_splits)
  then have "unat ?m < 0x40000000" by (simp add: word_le_nat_alt not_le)
  then have "unat (?m div 0x1000) < 0x40000" by (simp add: unat_div)
  then show ?thesis
    using run off live small by (auto simp: display_windows_def Let_def set_screen_def kept split: if_splits option.splits bool.splits)
qed

lemma boot_windows:
  assumes run: "quanta_arch_display_initialize hw font cr3 (Some b) s = Some s'" and off: "display_off s"
    and live: "framebuffer_mapped (screen_of (ds_console s'))"
    and tables: "kernel_window (cr3 AND NOT 0xfff) pdpt None Map.empty (ds_frames s)"
  shows "\<exists>pd pt F. kernel_window (cr3 AND NOT 0xfff) pdpt pd pt (ds_frames s') \<and> grows (ds_frames s) (ds_frames s') \<and>
    (\<forall>i < scanout_pages b (screen_of (ds_console s')). i < 0x40000 \<and>
       (\<not> (4096 \<le> i \<and> i < 4096 + backbuffer_pages (screen_of (ds_console s'))) \<longrightarrow> slot_entry pt (ds_frames s') (place i) =
          Some (((bi_framebuffer_physical b AND NOT 0xfff) + of_nat i * 0x1000) OR display_flags))) \<and>
    inj_on F {..<backbuffer_pages (screen_of (ds_console s'))} \<and>
    (\<forall>i<backbuffer_pages (screen_of (ds_console s')). i < 0x2000 \<and> F i \<in> live (ds_frames s') \<and> F i \<notin> live (ds_frames s) \<and>
       slot_entry pt (ds_frames s') (place (4096 + i)) = Some (F i OR display_flags))"
proof -
  let ?root = "cr3 AND NOT 0xfff" and ?d = "screen_of (ds_console s')"
  let ?pp = "bi_framebuffer_physical b AND NOT 0xfff"
  from display_run [OF run off live] obtain pitch bytes scanout d where
    windows: "display_windows hw font cr3 b pitch bytes scanout d s = Some s'"
    and d: "framebuffer_bytes_per_pixel d = 3 \<or> framebuffer_bytes_per_pixel d = 4"
      "640 \<le> unat (bi_framebuffer_width b)" "unat (bi_framebuffer_width b) \<le> 4096"
      "480 \<le> unat (bi_framebuffer_height b)" "unat (bi_framebuffer_height b) \<le> 2160"
      "unat (bi_framebuffer_width b) * unat (framebuffer_bytes_per_pixel d) \<le> unat pitch"
      "unat pitch * unat (bi_framebuffer_height b) \<le> unat bytes" "unat bytes \<le> 0x1000000"
      "\<not> framebuffer_mapped d" "\<not> framebuffer_dirty d" "bga_front_y d = 0"
    and scanout: "scanout = (if bga_page_flip d then bytes * 2 else bytes)"
    by auto
  have "vga_x (ds_console s) = 0" "vga_y (ds_console s) = 0" using off by (simp_all add: display_off_def)
  from windows_outcome [OF windows d this] have fields: "framebuffer_bytes ?d = bytes" "bga_page_flip ?d = bga_page_flip d"
    using live by simp_all
  have "unat scanout = unat bytes * (if bga_page_flip d then 2 else 1)" using d(8) by (simp add: scanout unat_word_ariths)
  moreover have offset: "unat (bi_framebuffer_physical b AND 0xfff) \<le> 0xfff"
    using word_and_le1 [of "bi_framebuffer_physical b" "0xfff"] by (simp add: word_le_nat_alt)
  ultimately have sum: "unat ((bi_framebuffer_physical b AND 0xfff) + scanout) =
      unat (bi_framebuffer_physical b AND 0xfff) + unat bytes * (if bga_page_flip d then 2 else 1)"
    using d(8) by (simp add: unat_word_ariths)
  have n: "unat ((((bi_framebuffer_physical b AND 0xfff) + scanout + 0xfff) AND NOT 0xfff) div 0x1000) = scanout_pages b ?d"
    using offset d(8) by (subst page_number) (simp_all add: sum scanout_pages_def fields)
  have m: "unat ((bytes + 0xfff) div 0x1000) = backbuffer_pages ?d" "backbuffer_pages ?d < 0x2000"
    using d(8) by (simp_all add: backbuffer_pages_def fields unat_div unat_word_ariths)
  obtain f1 where f1: "map_pages ?root (map (\<lambda>i. (FRAMEBUFFER_VIRTUAL + of_nat i * 0x1000, ?pp + of_nat i * 0x1000))
      [0..<scanout_pages b ?d]) (ds_frames s) = Some f1"
    and f2: "map_backbuffer ?root [0..<backbuffer_pages ?d] f1 = Some (True, ds_frames s')" and few: "scanout_pages b ?d < 0x40000"
    using windows_run [OF windows d(9) live] unfolding n m by blast
  obtain pd1 pt1 where 1: "kernel_window ?root pdpt pd1 pt1 f1" "grows (ds_frames s) f1"
    "\<forall>i\<in>set [0..<scanout_pages b ?d]. slot_entry pt1 f1 (place i) = Some (((?pp + of_nat i * 0x1000) AND NOT 0xfff) OR display_flags)"
    using pages_mapped [OF tables f1] few by auto
  obtain pd pt F where 2: "kernel_window ?root pdpt pd pt (ds_frames s')" "grows f1 (ds_frames s')"
    "keeps_slots ((\<lambda>i. place (4096 + i)) ` set [0..<backbuffer_pages ?d]) pt1 f1 pt (ds_frames s')"
    "inj_on F (set [0..<backbuffer_pages ?d])"
    "\<forall>i\<in>set [0..<backbuffer_pages ?d]. F i \<in> live (ds_frames s') \<and> F i \<notin> live f1 \<and>
       slot_entry pt (ds_frames s') (place (4096 + i)) = Some (F i OR display_flags)"
    using backbuffer_mapped [OF 1(1) f2] m(2) by auto
  have "slot_entry pt (ds_frames s') (place i) = Some ((?pp + of_nat i * 0x1000) OR display_flags)"
    if i: "i < scanout_pages b ?d" "\<not> (4096 \<le> i \<and> i < 4096 + backbuffer_pages ?d)" for i
  proof (rule keeps_slots_place [OF 2(3)])
    have "page_aligned ?pp" using page_aligned_and [of "bi_framebuffer_physical b"] by (simp add: PAGE_SIZE_def)
    from page_step [OF this, of i] show "slot_entry pt1 f1 (place i) = Some ((?pp + of_nat i * 0x1000) OR display_flags)"
      using 1(3) i(1) by (simp only: set_upt atLeastLessThan_iff) simp
    show "place i \<notin> (\<lambda>i. place (4096 + i)) ` set [0..<backbuffer_pages ?d]" using i(2) by auto
  qed
  moreover have "live (ds_frames s) \<subseteq> live f1" using 1(2) by (simp add: grows_def)
  then have "\<forall>i<backbuffer_pages ?d. F i \<in> live (ds_frames s') \<and> F i \<notin> live (ds_frames s) \<and>
       slot_entry pt (ds_frames s') (place (4096 + i)) = Some (F i OR display_flags)"
    using 2(5) by auto
  moreover have "inj_on F {..<backbuffer_pages ?d}" using 2(4) by (simp add: lessThan_atLeast0)
  ultimately show ?thesis using 2(1) grows_trans [OF 1(2) 2(2)] few m(2)
    by (intro exI [of _ pd] exI [of _ pt] exI [of _ F]) auto
qed


section \<open>Enough frames\<close>

text \<open>Where the adapter has no second page, five frames for each page of the picture are enough.\<close>

lemma five_frames: "a \<le> q + 1 \<Longrightarrow> b \<le> q + 2 \<Longrightarrow> 5 * (q + 2) \<le> c \<Longrightarrow> 3 * a + 2 * b \<le> (c :: nat)"
  by simp

lemma display_succeeds:
  assumes b: "display_supported b" "\<not> display_mismatch b (bi_framebuffer_bpp b div 8)"
      "unat (bi_framebuffer_pitch b) * unat (bi_framebuffer_height b) \<le> 0x1000000"
      "unat (bi_framebuffer_physical b) < 2 ^ 63" "length font = 4096"
    and plain: "bga_registers (screen_of (ds_console s)) 0 < 0xb0c4" and off: "display_off s"
    and tables: "kernel_window (cr3 AND NOT 0xfff) pdpt None Map.empty (ds_frames s)"
    and room: "5 * (unat (bi_framebuffer_pitch b) * unat (bi_framebuffer_height b) div 4096 + 2) \<le> card (free_frames (ds_frames s))"
  shows "\<exists>s'. quanta_arch_display_initialize hw font cr3 (Some b) s = Some s' \<and> framebuffer_mapped (screen_of (ds_console s')) \<and>
    \<not> bga_page_flip (screen_of (ds_console s')) \<and>
    unat (framebuffer_bytes (screen_of (ds_console s'))) = unat (bi_framebuffer_pitch b) * unat (bi_framebuffer_height b)"
proof -
  note range = supported_range [OF b(1)] and row = row_fits [OF b(1,2)]
  define bytes where "bytes = (ucast (bi_framebuffer_pitch b) * ucast (bi_framebuffer_height b) :: u64)"
  have bytes: "unat bytes = unat (bi_framebuffer_pitch b) * unat (bi_framebuffer_height b)" by (simp add: bytes_def product_bytes)
  define d where "d = (screen_of (ds_console s))\<lparr>framebuffer_bytes_per_pixel := bi_framebuffer_bpp b div 8,
    framebuffer_format := bi_framebuffer_format b, bga_page_flip := False\<rparr>"
  let ?f = "bi_framebuffer_physical b" and ?root = "cr3 AND NOT 0xfff"
  let ?m = "(((?f AND 0xfff) + bytes + 0xfff) AND NOT 0xfff)"
  have pitch: "0 < unat (bi_framebuffer_pitch b)" using row range(1,5) by (auto intro: gr0I)
  have nz: "bytes \<noteq> 0"
  proof
    assume "bytes = 0"
    then have "unat (bi_framebuffer_pitch b) * unat (bi_framebuffer_height b) = 0" using bytes by simp
    then show False using pitch range(3) by simp
  qed
  have small: "\<not> bytes > FRAMEBUFFER_MAX_BYTES" "\<not> bytes > FRAMEBUFFER_MAX_BYTES * 2"
    using bytes b(3) by (simp_all add: FRAMEBUFFER_MAX_BYTES_def word_less_nat_alt)
  have "unat (- 1 - bytes) = 2 ^ 64 - 1 - unat bytes" by (simp add: unat_sub unsigned_minus_1_eq_mask mask_eq_exp_minus_1)
  then have fits: "\<not> ?f > - 1 - bytes" using bytes b(3,4) by (simp add: word_less_nat_alt)
  have "bga_initialize hw (bi_framebuffer_width b) (bi_framebuffer_height b) ((screen_of (ds_console s))\<lparr>framebuffer_bytes_per_pixel := bi_framebuffer_bpp b div 8,
      framebuffer_format := bi_framebuffer_format b\<rparr>) = (False, (screen_of (ds_console s))\<lparr>framebuffer_bytes_per_pixel := bi_framebuffer_bpp b div 8,
      framebuffer_format := bi_framebuffer_format b\<rparr>)"
    using plain by (simp add: bga_initialize_def bga_read_def)
  then have init: "quanta_arch_display_initialize hw font cr3 (Some b) s = display_windows hw font cr3 b (bi_framebuffer_pitch b) bytes bytes d s"
    using b(1,2) nz small fits by (simp add: quanta_arch_display_initialize_def Let_def bytes_def [symmetric] d_def)
  have offset: "unat (?f AND 0xfff) \<le> 0xfff" using word_and_le1 [of ?f "0xfff"] by (simp add: word_le_nat_alt)
  then have sum: "unat ((?f AND 0xfff) + bytes) = unat (?f AND 0xfff) + unat bytes" using bytes b(3) by (simp add: unat_word_ariths)
  have n: "unat (?m div 0x1000) = (unat (?f AND 0xfff) + unat bytes + 4095) div 4096"
    using offset bytes b(3) by (subst page_number) (simp_all add: sum)
  have m: "unat ((bytes + 0xfff) div 0x1000) = (unat bytes + 4095) div 4096"
    using bytes b(3) by (simp add: unat_div unat_word_ariths)
  have "unat ?m div 4096 \<le> (0xfff + 0x1000000 + 4095) div 4096"
    using n offset bytes b(3) by (simp add: unat_div)
  then have low: "\<not> ?m \<ge> 0x40000000" by (simp add: word_le_nat_alt)
  have counts: "unat (?m div 0x1000) < 0x40000" "unat ((bytes + 0xfff) div 0x1000) < 0x2000"
    "3 * unat ((bytes + 0xfff) div 0x1000) + 2 * unat (?m div 0x1000) \<le> card (free_frames (ds_frames s))"
  proof -
    have "(unat bytes + 4095) div 4096 \<le> (unat bytes + 4096) div 4096" by (intro div_le_mono) simp
    then have one: "(unat bytes + 4095) div 4096 \<le> unat bytes div 4096 + 1" by simp
    have "(unat (?f AND 0xfff) + unat bytes + 4095) div 4096 \<le> (unat bytes + 8192) div 4096"
      using offset by (intro div_le_mono) simp
    then have two: "(unat (?f AND 0xfff) + unat bytes + 4095) div 4096 \<le> unat bytes div 4096 + 2" by simp
    show "3 * unat ((bytes + 0xfff) div 0x1000) + 2 * unat (?m div 0x1000) \<le> card (free_frames (ds_frames s))"
      unfolding n m by (rule five_frames [OF one two room [folded bytes]])
    show "unat (?m div 0x1000) < 0x40000" "unat ((bytes + 0xfff) div 0x1000) < 0x2000"
      unfolding n m using offset bytes b(3) by simp_all
  qed
  obtain f1 where f1: "map_pages ?root (map (\<lambda>i. (FRAMEBUFFER_VIRTUAL + of_nat i * 0x1000, (?f AND NOT 0xfff) + of_nat i * 0x1000))
      [0..<unat (?m div 0x1000)]) (ds_frames s) = Some f1" "3 * unat ((bytes + 0xfff) div 0x1000) \<le> card (free_frames f1)"
    using pages_succeed [OF tables, of "[0..<unat (?m div 0x1000)]" "3 * unat ((bytes + 0xfff) div 0x1000)"
      "\<lambda>i. (?f AND NOT 0xfff) + of_nat i * 0x1000"] counts by auto
  obtain pd pt where "kernel_window ?root pdpt pd pt f1" using pages_mapped [OF tables f1(1)] counts(1) by auto
  from backbuffer_succeeds [OF this, of "[0..<unat ((bytes + 0xfff) div 0x1000)]"] f1(2) counts(2)
  obtain f2 where f2: "map_backbuffer ?root [0..<unat ((bytes + 0xfff) div 0x1000)] f1 = Some (True, f2)" by auto
  define e where "e = d\<lparr>framebuffer_font := font, scanout_mapped := True, framebuffer_width := bi_framebuffer_width b,
    framebuffer_height := bi_framebuffer_height b, framebuffer_pitch := bi_framebuffer_pitch b, framebuffer_bytes := bytes\<rparr>"
  have "display_windows hw font cr3 b (bi_framebuffer_pitch b) bytes bytes d s = Some (display_first_picture hw e (s\<lparr>ds_frames := f2\<rparr>))"
    using f1(1) f2 low b(5) by (simp add: display_windows_def Let_def e_def)
  moreover have "display_on (display_first_picture hw e (s\<lparr>ds_frames := f2\<rparr>)) \<and>
      framebuffer_bytes (screen_of (ds_console (display_first_picture hw e (s\<lparr>ds_frames := f2\<rparr>)))) = framebuffer_bytes e \<and>
      bga_page_flip (screen_of (ds_console (display_first_picture hw e (s\<lparr>ds_frames := f2\<rparr>)))) = bga_page_flip e"
    by (rule first_picture_on) (use range row bytes b(3) off in \<open>simp_all add: e_def d_def display_off_def\<close>)
  ultimately show ?thesis using init bytes by (simp add: display_on_def Let_def e_def d_def)
qed

section \<open>The display afterwards\<close>

text \<open>When the kernel takes a display over, every drawing routine finds what it relies on.  Whatever the loader reported and
  however the adapter answers, \<open>quanta_arch_display_initialize\<close> either leaves the display off, or leaves a picture that fits the
  back buffer with room for every pixel, whose dirty rectangle and pages are in step, and with the pointer on it.\<close>

lemma display_comes_on:
  assumes "quanta_arch_display_initialize hw font cr3 boot s = Some s'" "display_off s"
    "framebuffer_mapped (screen_of (ds_console s'))"
  shows "display_on s'"
proof -
  from display_run [OF assms] obtain b pitch bytes scanout d where
    run: "display_windows hw font cr3 b pitch bytes scanout d s = Some s'"
    and d: "framebuffer_bytes_per_pixel d = 3 \<or> framebuffer_bytes_per_pixel d = 4"
      "640 \<le> unat (bi_framebuffer_width b)" "unat (bi_framebuffer_width b) \<le> 4096"
      "480 \<le> unat (bi_framebuffer_height b)" "unat (bi_framebuffer_height b) \<le> 2160"
      "unat (bi_framebuffer_width b) * unat (framebuffer_bytes_per_pixel d) \<le> unat pitch"
      "unat pitch * unat (bi_framebuffer_height b) \<le> unat bytes" "unat bytes \<le> 0x1000000"
      "\<not> framebuffer_mapped d" "\<not> framebuffer_dirty d" "bga_front_y d = 0"
    by auto
  have "vga_x (ds_console s) = 0" "vga_y (ds_console s) = 0" using assms(2) by (simp_all add: display_off_def)
  from windows_outcome [OF run d this] show ?thesis using assms(3) by simp
qed

text \<open>The kernel reads and writes the display where it is.  When \<open>quanta_arch_display_initialize\<close> has turned the display on,
  from the page tables a loader left, the processor translates every page of the video window to the page of the video memory,
  and every page of the back buffer to a frame of its own that was free before; the back buffer comes last, so a video window of
  more than 16 MiB is covered by it there.\<close>

lemma windows_translated:
  assumes "quanta_arch_display_initialize hw font cr3 (Some b) s = Some s'" "display_off s"
    "framebuffer_mapped (screen_of (ds_console s'))" "kernel_window root pdpt None Map.empty (ds_frames s)" "root = cr3 AND NOT 0xfff"
    "m = mem (ds_frames s')" "d = screen_of (ds_console s')"
  shows "(\<forall>i < scanout_pages b d. \<not> (4096 \<le> i \<and> i < 4096 + backbuffer_pages d) \<longrightarrow>
      walk m root (FRAMEBUFFER_VIRTUAL + of_nat i * 0x1000) =
        Some (((bi_framebuffer_physical b AND NOT 0xfff) + of_nat i * 0x1000) OR display_flags)) \<and>
    (\<exists>F. inj_on F {..<backbuffer_pages d} \<and> (\<forall>i<backbuffer_pages d. F i \<in> live (ds_frames s') - live (ds_frames s) \<and>
      walk m root (FRAMEBUFFER_BACKBUFFER_VIRTUAL + of_nat i * 0x1000) = Some (F i OR display_flags)))"
proof -
  from boot_windows [OF assms(1-3) assms(4) [unfolded assms(5)]] obtain pd pt F where
    w: "kernel_window root pdpt pd pt (ds_frames s')"
    and scan: "\<And>i. i < scanout_pages b d \<Longrightarrow> i < 0x40000 \<and> (\<not> (4096 \<le> i \<and> i < 4096 + backbuffer_pages d) \<longrightarrow>
      slot_entry pt (ds_frames s') (place i) = Some (((bi_framebuffer_physical b AND NOT 0xfff) + of_nat i * 0x1000) OR display_flags))"
    and inj: "inj_on F {..<backbuffer_pages d}"
    and buffer: "\<And>i. i < backbuffer_pages d \<Longrightarrow> i < 0x2000 \<and> F i \<in> live (ds_frames s') \<and> F i \<notin> live (ds_frames s) \<and>
       slot_entry pt (ds_frames s') (place (4096 + i)) = Some (F i OR display_flags)"
    unfolding assms(5,7) by blast
  have walks: "walk m root (FRAMEBUFFER_VIRTUAL + of_nat i * 0x1000) = Some (e OR display_flags)"
    if "i < 0x40000" "slot_entry pt (ds_frames s') (place i) = Some (e OR display_flags)" for i e
    unfolding assms(6) using that window_page [OF that(1)] flags_present by (intro window_walk [OF w]) auto
  have "walk m root (FRAMEBUFFER_BACKBUFFER_VIRTUAL + of_nat i * 0x1000) = Some (F i OR display_flags)" if "i < backbuffer_pages d" for i
    unfolding backbuffer_page by (rule walks) (use buffer [OF that] in auto)
  then show ?thesis using walks scan inj buffer by blast
qed

end
