(* ===== verification/Kernel_Start.thy ===== *)
theory Kernel_Start
  imports Display_Windows Uefi_Properties Ports Devices Task
begin

text \<open>
  The entry of the kernel: \<^verbatim>\<open>kernel/core/kernel_main.c\<close>, with the set-up steps of
  \<^verbatim>\<open>kernel/arch/x86_64/tables.c\<close> it calls, from the memory a loader left to the first user task.  The handlers and
  the places of the task segment and of the kernel stack are symbols of the assembly and of the linker; the font and the three user images
  are files the build generates.  A line of text reaches the console model; the markers of the task model are kept by
  that model.
\<close>

unbundle bit_operations_syntax

section \<open>Set-up\<close>

record symbols =
  int80_stub :: u64
  timer_stub :: u64
  exception_stubs :: "nat \<Rightarrow> u64"
  tss_place :: u64
  kernel_stack_end :: u64

text \<open>What the processor runs on: the task segment, the two tables and the control register, whose bit 9 allows SSE.\<close>

record processor =
  tss_rsp0 :: u64
  tss_io_map_base :: u16
  gdt :: "u64 list"
  interrupts :: idt
  cr4 :: u64

definition quanta_arch_initialize :: "symbols \<Rightarrow> 'w bus \<Rightarrow> u64 \<Rightarrow> processor \<Rightarrow> 'w \<Rightarrow> processor \<times> 'w" where
  "quanta_arch_initialize sy bus kernel_stack_top p w =
     (p\<lparr>tss_rsp0 := kernel_stack_top, tss_io_map_base := ucast SIZEOF_TSS, gdt := gdt_entries (tss_place sy),
        cr4 := cr4 p OR push_bit 9 1, interrupts := idt_entries (int80_stub sy) (timer_stub sy) (exception_stubs sy)\<rparr>,
      fold (\<lambda>(port, v). outb bus port v) pic_pit_writes w)"

text \<open>The live disk is a view of memory; a drive exists as far as it was found.\<close>

definition memory_sector :: "bytes_at \<Rightarrow> u64 \<Rightarrow> u32 \<Rightarrow> byte list" where
  "memory_sector m base lba = map (\<lambda>i. m (base + ucast lba * 512 + of_nat i)) [0..<512]"

definition found_drives :: "ata_device_info list \<Rightarrow> (nat \<Rightarrow> drive) \<Rightarrow> nat \<Rightarrow> drive" where
  "found_drives devices ds i = (ds i)\<lparr>present := i < length devices \<and> ata_present (devices ! i),
     sectors := (if i < length devices then ata_sectors (devices ! i) else 0)\<rparr>"

definition quanta_arch_storage_initialize :: "'w bus \<Rightarrow> bytes_at \<Rightarrow> boot_info option \<Rightarrow> machine \<Rightarrow> 'w \<Rightarrow> machine \<times> 'w" where
  "quanta_arch_storage_initialize bus m boot_info s w =
     (let s1 = (case boot_info of None \<Rightarrow> s
            | Some b \<Rightarrow>
                if bi_storage_physical b \<noteq> 0 \<and> bi_storage_sectors b \<noteq> 0
                then s\<lparr>live_base := bi_storage_physical b, live_sectors := bi_storage_sectors b,
                       live_image := memory_sector m (bi_storage_physical b)\<rparr>
                else s)
      in case probe_ata_devices bus w of (devices, w1) \<Rightarrow> (s1\<lparr>drives := found_drives devices (drives s1)\<rparr>, w1))"

text \<open>The console, the marker, the mouse; the first result says whether the mouse is ready.\<close>

definition quanta_arch_console_initialize :: "'w bus \<Rightarrow> console \<Rightarrow> 'w \<Rightarrow> bool \<times> console \<times> 'w" where
  "quanta_arch_console_initialize bus c w =
     (let c1 = quanta_arch_write_marker (str ''QUANTA_VGA_READY'' @ [10] @ str ''QUANTA_PS2_READY'' @ [10]) (quanta_arch_console_clear c)
      in case ps2_mouse_initialize bus w of (ready, w1) \<Rightarrow> (ready, c1, w1))"

section \<open>The entry\<close>

record started =
  st_processor :: processor
  st_display :: display_start
  st_mouse :: bool
  st_outcome :: outcome
  st_kernel :: kernel

record user_images =
  client_image :: "byte list"
  server_image :: "byte list"
  fault_image :: "byte list"

text \<open>\<open>None\<close> is a panic before the first task.\<close>

definition quanta_kernel_main :: "symbols \<Rightarrow> user_images \<Rightarrow> 'w bus \<Rightarrow> adapter \<Rightarrow> byte list \<Rightarrow> u64 \<Rightarrow> bytes_at \<Rightarrow> u64 \<Rightarrow>
    processor \<Rightarrow> kernel \<Rightarrow> console \<Rightarrow> 'w \<Rightarrow> (started \<times> 'w) option" where
  "quanta_kernel_main sy im bus hw font cr3 m info p k c w =
     (let b = boot_info_at m info; boot_info = (if info = 0 then None else Some b) in
      case quanta_arch_initialize sy bus (kernel_stack_end sy) p w of (cpu, w1) \<Rightarrow>
      case quanta_arch_storage_initialize bus m boot_info (mach k) w1 of (storage, w2) \<Rightarrow>
      case quanta_memory_initialize (regions_at m (bi_memory_map b) (unat (bi_memory_map_entries b))) (load64 m) of
        None \<Rightarrow> None
      | Some f \<Rightarrow>
      case quanta_arch_display_initialize hw font cr3 boot_info \<lparr>ds_console = c, ds_frames = f, ds_pointer = (0, 0)\<rparr> of
        None \<Rightarrow> None
      | Some d \<Rightarrow>
      case quanta_arch_console_initialize bus (quanta_arch_write_marker (str ''QUANTA_KERNEL_READY'' @ [10]) (ds_console d)) w2 of
        (mouse, c1, w3) \<Rightarrow>
          let c2 = c1\<lparr>screen_of := quanta_arch_boot_splash hw 5 (screen_of c1)\<rparr>;
              c3 = quanta_arch_write_marker (str ''QUANTA_BOOT_SPLASH_READY'' @ [10]) c2
          in case quanta_task_bootstrap (client_image im) (server_image im) (fault_image im)
                    (k\<lparr>mach := storage, phys := ds_frames d\<rparr>) of
               (r, k1) \<Rightarrow> Some (\<lparr>st_processor = cpu, st_display = d\<lparr>ds_console := c3\<rparr>, st_mouse = mouse, st_outcome = r,
                 st_kernel = k1\<rparr>, w3))"

section \<open>The loader's tables are the display's\<close>

lemma loader_window:
  assumes frames: "quanta_memory_initialize regions (load64 (build_tables PML4_PHYSICAL ka m)) = Some f"
  shows "kernel_window PML4_PHYSICAL (PML4_PHYSICAL + 0x1000) None Map.empty f"
proof -
  have word: "mem f (PML4_PHYSICAL + 8 * of_nat k) = table_word PML4_PHYSICAL ka k" if "k < 3072" for k
    using build_tables_word [OF that, of PML4_PHYSICAL ka m] initialize_pool(4) [OF frames] by simp
  obtain r where "pool_within r (pool_start f, pool_end f)" using initialize_pool(1) [OF frames] by blast
  then have low: "0x400000 \<le> unat (pool_start f)" by (simp add: pool_within_def word_le_nat_alt)
  have out: "\<not> in_pool f a" if "unat a < 0x400000" for a
    using low that by (auto simp: in_pool_def word_le_nat_alt)
  have last: "entry_address (PML4_PHYSICAL + 0x1000) 511 = PML4_PHYSICAL + 8 * of_nat 1023"
    by (simp add: entry_address_def)
  have "table_word PML4_PHYSICAL ka 511 = 0x101003" "table_word PML4_PHYSICAL ka 1023 = 0"
    by (simp_all add: table_word_def PML4_PHYSICAL_def)
  then have "mem f (entry_address PML4_PHYSICAL 511) = 0x101003" "mem f (entry_address (PML4_PHYSICAL + 0x1000) 511) = 0"
    using word [of 511] word [of 1023] unfolding table_places(2) last by (simp_all add: add.commute)
  then show ?thesis
    using initialize_inv(1) [OF frames] out [of PML4_PHYSICAL] out [of "PML4_PHYSICAL + 0x1000"]
    by (simp add: kernel_window_def PML4_PHYSICAL_def page_aligned_def entry_base_def PAGE_PRESENT_def)
qed

section \<open>The display from the first picture to the first task\<close>

definition screen_sound :: "display \<Rightarrow> bool" where
  "screen_sound d \<longleftrightarrow> display_ok d \<and> in_sync d \<and> framebuffer_mapped d \<and> scanout_mapped d"

lemma screen_sound_drawn: "screen_sound d \<Longrightarrow> drawn d e \<Longrightarrow> screen_sound e"
  using drawn_in_sync [of d e] by (auto simp: screen_sound_def drawn_def geometry_of_def)

lemma plain_lines:
  "plain_line (str ''QUANTA_KERNEL_READY'')" "plain_line (str ''QUANTA_VGA_READY'')" "plain_line (str ''QUANTA_PS2_READY'')"
  "plain_line (str ''QUANTA_BOOT_SPLASH_READY'')"
  by (simp_all add: plain_line_def str_def)

lemma console_started:
  assumes "quanta_arch_console_initialize bus c w = (ready, c', w')"
  shows "drawn (screen_of c) (screen_of c') \<and> vga_x c' = 0 \<and> unat (vga_y c') = 2"
proof -
  let ?a = "str ''QUANTA_VGA_READY''" and ?b = "str ''QUANTA_PS2_READY''" and ?c = "quanta_arch_console_clear c"
  have "quanta_arch_write_marker (?a @ [10] @ ?b @ [10]) ?c = typed (?b @ [10]) (typed (?a @ [10]) ?c)"
    using cstr_line [OF plain_lines(2), of "?b @ [10]"] cstr_line [OF plain_lines(3), of "[]"]
    by (simp add: quanta_arch_write_marker_def typed_def cstr_def)
  then have c': "c' = typed (?b @ [10]) (typed (?a @ [10]) ?c)"
    using assms by (simp add: quanta_arch_console_initialize_def Let_def split: prod.splits)
  have at: "vga_x ?c = 0" "vga_y ?c = 0" by (simp_all add: quanta_arch_console_clear_def Let_def)
  note first = line_typed [OF plain_lines(2) at(1), unfolded at(2)]
  have "drawn (screen_of ?c) (screen_of (typed (?a @ [10]) ?c))" "vga_x (typed (?a @ [10]) ?c) = 0"
    "unat (vga_y (typed (?a @ [10]) ?c)) = 1"
    using first by simp_all
  then show ?thesis
    unfolding c' using line_typed [OF plain_lines(3), of "typed (?a @ [10]) ?c"]
    by (auto intro: drawn_trans [OF console_clear_drawn drawn_trans])
qed

section \<open>The splash\<close>

definition same_picture :: "display \<Rightarrow> display \<Rightarrow> bool" where
  "same_picture d d' \<longleftrightarrow> framebuffer_width d' = framebuffer_width d \<and> framebuffer_height d' = framebuffer_height d \<and>
     framebuffer_bytes d' = framebuffer_bytes d \<and> bga_page_flip d' = bga_page_flip d"

lemma same_picture_drawn: "display_ok d \<Longrightarrow> drawn d e \<Longrightarrow> same_picture d e"
  by (simp add: same_picture_def drawn_def geometry_of_def)

lemma same_picture_trans: "same_picture d e \<Longrightarrow> same_picture e f \<Longrightarrow> same_picture d f"
  by (simp add: same_picture_def)

text \<open>A present that fails leaves the pages in step as well.\<close>

lemma present_sound:
  assumes sound: "screen_sound d" and p: "quanta_arch_desktop_present hw d = (r, d')"
  shows "screen_sound d' \<and> same_picture d d'"
proof -
  have ok: "display_ok d" and sync: "in_sync d" and live: "framebuffer_mapped d" "scanout_mapped d"
    using sound by (simp_all add: screen_sound_def)
  have kept: "framebuffer_mapped d' = framebuffer_mapped d \<and> scanout_mapped d' = scanout_mapped d \<and>
      same_picture d d'"
    using p by (auto simp: quanta_arch_desktop_present_def Let_def bga_write_def presented_def serial_write_marker_def same_picture_def split: if_splits)
  show ?thesis
  proof (cases r)
    case True
    then show ?thesis using present_sync [OF ok sync live] p kept live by (simp add: screen_sound_def)
  next
    case failed: False
    show ?thesis
    proof (cases "d' = d")
      case False
      define back_y where "back_y = (if bga_front_y d = 0 then framebuffer_height d else 0)"
      have flip: "bga_page_flip d" "framebuffer_dirty d" and
        same: "framebuffer_bytes_per_pixel d' = framebuffer_bytes_per_pixel d" "framebuffer_pitch d' = framebuffer_pitch d"
          "framebuffer_bytes d' = framebuffer_bytes d" "framebuffer_dirty d' = framebuffer_dirty d" "dirty_left d' = dirty_left d"
          "dirty_top d' = dirty_top d" "dirty_right d' = dirty_right d" "dirty_bottom d' = dirty_bottom d"
          "bga_front_y d' = bga_front_y d" "bga_page_flip d' = bga_page_flip d" "framebuffer d' = framebuffer d"
          "framebuffer_scanout d' = framebuffer_copy_dirty d back_y"
        using p False failed by (auto simp: quanta_arch_desktop_present_def Let_def bga_write_def serial_write_marker_def back_y_def split: if_splits)
      have "area d' = area d" using same by (intro area_cong) simp_all
      then have shape: "screen d' = screen d" "dirty_area d' = dirty_area d" "pages d' = pages d" "page_offset d' = page_offset d"
        using kept same by (simp_all add: same_picture_def screen_def dirty_area_def pages_def page_offset_def fun_eq_iff)
      have "back_y \<in> pages d" using flip(1) by (simp add: back_y_def pages_def)
      from copy_page [OF ok flip(2) this] have "in_sync d'"
        using sync by (auto simp: in_sync_def shows_page_def shape same)
      moreover have "display_ok d'" using ok kept same by (simp add: display_ok_def same_picture_def)
      ultimately show ?thesis using kept live by (simp add: screen_sound_def)
    qed (simp add: sound same_picture_def)
  qed
qed

lemma ring_drawn [drawing]: "drawn d (splash_ring logo_x logo_y scale d radius)"
  unfolding splash_ring_def by (intro fill_rect_after drawn_refl)

lemma text_place:
  fixes a b :: u32
  shows "b \<le> a \<Longrightarrow> unat a \<le> n \<Longrightarrow> unat (a - b) \<le> n"
  by (simp add: unat_sub word_le_nat_alt)

lemma splash_lengths: "i < 6 \<Longrightarrow> length (splash_status ! i) \<le> 0x10000"
proof -
  have "\<forall>t\<in>set splash_status. length t \<le> 0x10000" by (simp add: splash_status_def length_str)
  moreover have "length splash_status = 6" by (simp add: splash_status_def)
  ultimately show "i < 6 \<Longrightarrow> length (splash_status ! i) \<le> 0x10000" by simp
qed

lemma splash_drawn:
  assumes ok: "display_ok d" and scale: "scale = (if framebuffer_width d \<ge> 1280 then 2 else 1)" and stage: "stage < 6"
  shows "drawn d (splash_at scale (framebuffer_width d div 5) (framebuffer_height d div 12) stage d)"
proof -
  let ?w = "framebuffer_width d" and ?h = "framebuffer_height d"
  have range: "640 \<le> unat ?w" "unat ?w \<le> 4096" "480 \<le> unat ?h" "unat ?h \<le> 2160" using ok by (simp_all add: display_ok_def)
  have small: "scale \<le> 2" "unat scale \<le> 2" by (simp_all add: scale word_le_nat_alt)
  have wide: "scale = 2 \<Longrightarrow> 1280 \<le> unat ?w" by (auto simp: scale word_le_nat_alt split: if_splits)
  have middle: "256 * scale \<le> ?w div 2" "120 * scale \<le> ?w div 2" "170 * scale \<le> ?w" "44 * scale \<le> ?h"
    using range wide scale by (auto simp: word_le_nat_alt unat_div split: if_splits)
  have left: "unat (?w div 2 - 256 * scale) \<le> 0x10000" "unat (?w div 2 - 120 * scale) \<le> 0x10000" "unat (?w - 170 * scale) \<le> 0x10000"
    "unat (?h - 44 * scale) \<le> 0x10000" "unat (?w div 5) \<le> 0x10000"
    using range by (auto intro!: text_place middle simp: unat_div)
  have below: "unat (?h div 12 + n * scale) \<le> 0x10000" if "unat n \<le> 1000" for n
  proof -
    have "unat (?h div 12) \<le> 2160" using range by (simp add: unat_div)
    moreover have "unat (n * scale) \<le> 2000" using that small(2) by (intro unat_mult_upper [of _ 1000 _ 2, THEN le_trans]) simp_all
    ultimately show ?thesis by (intro unat_add_upper [of _ 2160 _ 2000, THEN le_trans]) simp_all
  qed
  have status: "unat (?h div 12 + 210 * scale + of_nat i * 22 * scale) \<le> 0x10000" if "i < 6" for i
  proof -
    have "unat (of_nat i :: u32) \<le> 6" using that by (intro unat_of_nat_upper) simp
    then have "unat (210 + of_nat i * 22 :: u32) \<le> 1000"
      by (intro unat_add_upper [of _ 210 _ 132, THEN le_trans] unat_mult_upper [of _ 6 _ 22, THEN le_trans]) simp_all
    from below [OF this] show ?thesis by (simp add: algebra_simps)
  qed
  show ?thesis
    unfolding splash_at_def Let_def
    by (intro fill_rect_after text_after foldl_after drawn_foldl ring_drawn draw_text_drawn drawn_refl)
      (use left below [of 130] below [of 166] below [of 382] status splash_lengths stage in \<open>auto simp: length_str mult.commute\<close>)
qed

lemma splash_sound:
  assumes "screen_sound d"
  shows "screen_sound (quanta_arch_boot_splash hw 5 d) \<and> same_picture d (quanta_arch_boot_splash hw 5 d)"
proof -
  let ?s = "splash_at (if framebuffer_width d \<ge> 1280 then 2 else 1) (framebuffer_width d div 5) (framebuffer_height d div 12) 5 d"
  let ?e = "?s\<lparr>framebuffer_workspace_visible := True\<rparr>"
  have ok: "display_ok d" using assms by (simp add: screen_sound_def)
  then have big: "framebuffer_mapped d" "\<not> framebuffer_width d < 640" "\<not> framebuffer_height d < 480"
    using assms by (auto simp: screen_sound_def display_ok_def word_less_nat_alt)
  have drawn: "drawn d ?e"
    by (rule drawn_trans [OF splash_drawn [where stage = 5, OF ok refl]]) (simp, rule drawn_fields(3))
  have off: "(\<not> framebuffer_mapped d \<or> framebuffer_width d < 640 \<or> framebuffer_height d < 480) = False" using big by blast
  have stage: "(if (6 :: u32) \<le> 5 then 5 else 5) = (5 :: u32)" "unat (5 :: u32) = 5" by simp_all
  have splash: "quanta_arch_boot_splash hw 5 d = snd (quanta_arch_desktop_present hw ?e)"
    unfolding quanta_arch_boot_splash_def Let_def off if_False stage ..
  obtain e where e: "e = ?e" by blast
  have same: "same_picture d e" by (rule same_picture_drawn [OF ok drawn [folded e]])
  show ?thesis
    unfolding splash e [symmetric]
    using present_sound [OF screen_sound_drawn [OF assms drawn [folded e]] prod.collapse [symmetric], of hw] same same_picture_trans by metis
qed

section \<open>A display that is off stays off\<close>

lemma set_cell_off [simp]: "framebuffer_mapped (screen_of (set_cell i ch c)) = framebuffer_mapped (screen_of c)"
  by (simp add: set_cell_def)

lemma set_cells_off:
  "(\<And>c x. \<exists>i ch. f c x = set_cell i ch c) \<Longrightarrow> framebuffer_mapped (screen_of (foldl f c xs)) = framebuffer_mapped (screen_of c)"
  by (rule foldl_const) (metis set_cell_off)

lemma scroll_off: "\<not> framebuffer_mapped (screen_of c) \<Longrightarrow> \<not> framebuffer_mapped (screen_of (vga_scroll c))"
proof -
  assume off: "\<not> framebuffer_mapped (screen_of c)"
  let ?c1 = "foldl (\<lambda>c i. set_cell i (terminal_cells (screen_of c) ! (i + 80)) c) c [0..<24 * 80]"
  let ?c2 = "foldl (\<lambda>c column. set_cell (24 * 80 + column) 32 c) ?c1 [0..<80]"
  have "framebuffer_mapped (screen_of ?c2) = framebuffer_mapped (screen_of ?c1)" by (rule set_cells_off) blast
  also have "\<dots> = framebuffer_mapped (screen_of c)" by (rule set_cells_off) blast
  finally show ?thesis using off by (simp add: vga_scroll_def Let_def on_terminal_def)
qed

lemma put_off: "\<not> framebuffer_mapped (screen_of c) \<Longrightarrow> \<not> framebuffer_mapped (screen_of (vga_put ch c))"
  using scroll_off by (auto simp: vga_put_def put_cell_def on_terminal_def Let_def)

lemma marker_off: "\<not> framebuffer_mapped (screen_of c) \<Longrightarrow> \<not> framebuffer_mapped (screen_of (quanta_arch_write_marker cs c))"
proof -
  have "\<not> framebuffer_mapped (screen_of c) \<Longrightarrow>
      \<not> framebuffer_mapped (screen_of (foldl (\<lambda>c ch. vga_put ch (serial_write_char ch c)) c xs))" for xs
    by (induction xs arbitrary: c) (simp_all add: put_off serial_write_char_def)
  then show "\<not> framebuffer_mapped (screen_of c) \<Longrightarrow> ?thesis" by (simp add: quanta_arch_write_marker_def)
qed

lemma clear_off: "\<not> framebuffer_mapped (screen_of c) \<Longrightarrow> \<not> framebuffer_mapped (screen_of (quanta_arch_console_clear c))"
proof -
  have "framebuffer_mapped (screen_of (foldl (\<lambda>c i. set_cell i 32 c) c [0..<80 * 25])) = framebuffer_mapped (screen_of c)"
    by (rule set_cells_off) blast
  then show "\<not> framebuffer_mapped (screen_of c) \<Longrightarrow> ?thesis" by (simp add: quanta_arch_console_clear_def Let_def)
qed

section \<open>A run of the entry\<close>

lemma kernel_main_run:
  assumes "quanta_kernel_main sy im bus hw font cr3 m info p k c w = Some (st, w')"
  shows "\<exists>f d w1 storage w2 mouse c1 w3.
    quanta_memory_initialize (regions_at m (bi_memory_map (boot_info_at m info)) (unat (bi_memory_map_entries (boot_info_at m info))))
      (load64 m) = Some f \<and>
    quanta_arch_storage_initialize bus m (if info = 0 then None else Some (boot_info_at m info)) (mach k) w1 = (storage, w2) \<and>
    quanta_arch_display_initialize hw font cr3 (if info = 0 then None else Some (boot_info_at m info))
      \<lparr>ds_console = c, ds_frames = f, ds_pointer = (0, 0)\<rparr> = Some d \<and>
    quanta_arch_console_initialize bus (quanta_arch_write_marker (str ''QUANTA_KERNEL_READY'' @ [10]) (ds_console d)) w2 = (mouse, c1, w3) \<and>
    st_display st = d\<lparr>ds_console := quanta_arch_write_marker (str ''QUANTA_BOOT_SPLASH_READY'' @ [10])
      (c1\<lparr>screen_of := quanta_arch_boot_splash hw 5 (screen_of c1)\<rparr>)\<rparr> \<and>
    quanta_task_bootstrap (client_image im) (server_image im) (fault_image im) (k\<lparr>mach := storage, phys := ds_frames d\<rparr>) =
      (st_outcome st, st_kernel st)"
proof -
  let ?b = "boot_info_at m info"
  let ?i = "if info = 0 then None else Some ?b"
  obtain cpu w1 where a: "quanta_arch_initialize sy bus (kernel_stack_end sy) p w = (cpu, w1)" by fastforce
  obtain storage w2 where s: "quanta_arch_storage_initialize bus m ?i (mach k) w1 = (storage, w2)" by fastforce
  note run = assms [unfolded quanta_kernel_main_def Let_def a s prod.case]
  obtain f where f: "quanta_memory_initialize (regions_at m (bi_memory_map ?b) (unat (bi_memory_map_entries ?b))) (load64 m) = Some f"
    using run by (auto split: option.splits)
  note run = run [unfolded f option.case]
  obtain d where d: "quanta_arch_display_initialize hw font cr3 ?i \<lparr>ds_console = c, ds_frames = f, ds_pointer = (0, 0)\<rparr> = Some d"
    using run by (auto split: option.splits)
  obtain mouse c1 w3 where
    e: "quanta_arch_console_initialize bus (quanta_arch_write_marker (str ''QUANTA_KERNEL_READY'' @ [10]) (ds_console d)) w2 = (mouse, c1, w3)"
    by (metis prod.collapse)
  obtain r k1 where
    b: "quanta_task_bootstrap (client_image im) (server_image im) (fault_image im) (k\<lparr>mach := storage, phys := ds_frames d\<rparr>) = (r, k1)"
    by fastforce
  note run = run [unfolded d option.case e prod.case b]
  show ?thesis
    by (intro exI [of _ f] exI [of _ d] exI [of _ w1] exI [of _ storage] exI [of _ w2] exI [of _ mouse] exI [of _ c1] exI [of _ w3])
      (use f s d e b run in auto)
qed

text \<open>The static variables are zero.\<close>

definition console_off :: "console \<Rightarrow> bool" where
  "console_off c \<longleftrightarrow> \<not> framebuffer_mapped (screen_of c) \<and> \<not> framebuffer_dirty (screen_of c) \<and>
     bga_front_y (screen_of c) = 0 \<and> vga_x c = 0 \<and> vga_y c = 0"

text \<open>The picture at the first task.\<close>

lemma started_picture:
  assumes run: "quanta_kernel_main sy im bus hw font cr3 m info p k c w = Some (st, w')" and off: "console_off c"
  shows "\<exists>f d. quanta_memory_initialize (regions_at m (bi_memory_map (boot_info_at m info)) (unat (bi_memory_map_entries (boot_info_at m info))))
      (load64 m) = Some f \<and>
    quanta_arch_display_initialize hw font cr3 (if info = 0 then None else Some (boot_info_at m info))
      \<lparr>ds_console = c, ds_frames = f, ds_pointer = (0, 0)\<rparr> = Some d \<and> ds_frames (st_display st) = ds_frames d \<and>
    framebuffer_mapped (screen_of (ds_console (st_display st))) = framebuffer_mapped (screen_of (ds_console d)) \<and>
    (framebuffer_mapped (screen_of (ds_console d)) \<longrightarrow>
      same_picture (screen_of (ds_console d)) (screen_of (ds_console (st_display st))) \<and> screen_sound (screen_of (ds_console (st_display st))) \<and>
      fst (ds_pointer (st_display st)) < framebuffer_width (screen_of (ds_console (st_display st))) \<and>
      snd (ds_pointer (st_display st)) < framebuffer_height (screen_of (ds_console (st_display st))))"
proof -
  obtain f d w2 mouse c1 w3 where
    frames: "quanta_memory_initialize (regions_at m (bi_memory_map (boot_info_at m info)) (unat (bi_memory_map_entries (boot_info_at m info))))
      (load64 m) = Some f"
    and display: "quanta_arch_display_initialize hw font cr3 (if info = 0 then None else Some (boot_info_at m info))
      \<lparr>ds_console = c, ds_frames = f, ds_pointer = (0, 0)\<rparr> = Some d"
    and console: "quanta_arch_console_initialize bus (quanta_arch_write_marker (str ''QUANTA_KERNEL_READY'' @ [10]) (ds_console d)) w2 = (mouse, c1, w3)"
    and st: "st_display st = d\<lparr>ds_console := quanta_arch_write_marker (str ''QUANTA_BOOT_SPLASH_READY'' @ [10])
      (c1\<lparr>screen_of := quanta_arch_boot_splash hw 5 (screen_of c1)\<rparr>)\<rparr>"
    using kernel_main_run [OF run] by blast
  let ?c0 = "quanta_arch_write_marker (str ''QUANTA_KERNEL_READY'' @ [10]) (ds_console d)"
  let ?e = "screen_of (ds_console (st_display st))"
  show ?thesis
  proof (cases "framebuffer_mapped (screen_of (ds_console d))")
    case False
    moreover have c1: "c1 = quanta_arch_write_marker (str ''QUANTA_VGA_READY'' @ [10] @ str ''QUANTA_PS2_READY'' @ [10]) (quanta_arch_console_clear ?c0)"
      using console by (simp add: quanta_arch_console_initialize_def Let_def split: prod.splits)
    ultimately have "\<not> framebuffer_mapped (screen_of c1)" unfolding c1 by (intro marker_off clear_off)
    then have "\<not> framebuffer_mapped ?e" using marker_off [of "c1\<lparr>screen_of := screen_of c1\<rparr>"] by (simp add: st quanta_arch_boot_splash_def)
    then show ?thesis using frames display False by (intro exI [of _ f] exI [of _ d]) (simp add: st)
  next
    case up: True
    have "display_off \<lparr>ds_console = c, ds_frames = f, ds_pointer = (0, 0)\<rparr>" using off by (simp add: display_off_def console_off_def)
    from display_comes_on [OF display this up] have on: "display_on d" .
    then have sound: "screen_sound (screen_of (ds_console d))" and pos: "vga_x (ds_console d) = 0" "unat (vga_y (ds_console d)) = 1"
      and pointer: "fst (ds_pointer d) < framebuffer_width (screen_of (ds_console d))"
        "snd (ds_pointer d) < framebuffer_height (screen_of (ds_console d))"
      by (simp_all add: display_on_def screen_sound_def Let_def)
    have "drawn (screen_of (ds_console d)) (screen_of ?c0)" using marker_typed [OF plain_lines(1) pos(1)] pos(2) by simp
    moreover have second: "drawn (screen_of ?c0) (screen_of c1)" "vga_x c1 = 0" "unat (vga_y c1) = 2" using console_started [OF console] by simp_all
    ultimately have d1: "drawn (screen_of (ds_console d)) (screen_of c1)" by (blast intro: drawn_trans)
    let ?s = "quanta_arch_boot_splash hw 5 (screen_of c1)"
    note splash = splash_sound [OF screen_sound_drawn [OF sound d1], of hw]
    have d3: "drawn ?s ?e"
      using marker_typed [OF plain_lines(4), of "c1\<lparr>screen_of := ?s\<rparr>"] second by (simp add: st)
    have same: "same_picture (screen_of (ds_console d)) ?e"
      using same_picture_drawn d1 d3 splash sound same_picture_trans by (metis screen_sound_def)
    then have "framebuffer_width ?e = framebuffer_width (screen_of (ds_console d))"
      "framebuffer_height ?e = framebuffer_height (screen_of (ds_console d))"
      by (simp_all add: same_picture_def)
    then show ?thesis
      using screen_sound_drawn [OF conjunct1 [OF splash] d3] pointer frames display up same
      by (intro exI [of _ f] exI [of _ d]) (simp add: st screen_sound_def)
  qed
qed

section \<open>The live disk\<close>

text \<open>Creating the tasks leaves the storage as it is.\<close>

definition same_storage :: "machine \<Rightarrow> machine \<Rightarrow> bool" where
  "same_storage s s' \<longleftrightarrow> live_base s' = live_base s \<and> live_sectors s' = live_sectors s \<and> live_image s' = live_image s \<and> drives s' = drives s"

lemma log_storage: "same_storage s (mach k) \<Longrightarrow> same_storage s (mach (log_marker t k))"
  by (simp add: same_storage_def log_marker_def write_marker_def)

lemma create_storage: "create n bytes cap k = Some k' \<Longrightarrow> same_storage (mach k) (mach k')"
  by (auto simp: create_def Let_def set_task_def log_marker_def write_marker_def same_storage_def split: option.splits prod.splits if_splits)

lemma bootstrap_storage:
  assumes "quanta_task_bootstrap a b e k = (r, k')"
  shows "same_storage (mach k) (mach k')"
proof (cases "Option.bind (create 0 a 1 k) (\<lambda>k1. Option.bind (create 1 b 2 k1) (create 2 e 0))")
  case None
  then show ?thesis using assms by (simp add: quanta_task_bootstrap_def same_storage_def)
next
  case (Some k3)
  then obtain k1 k2 where "create 0 a 1 k = Some k1" "create 1 b 2 k1 = Some k2" "create 2 e 0 k2 = Some k3"
    by (auto simp: Option.bind_eq_Some_conv)
  from this [THEN create_storage] have "same_storage (mach k) (mach k3)" by (simp add: same_storage_def)
  then show ?thesis using assms Some by (auto simp: quanta_task_bootstrap_def run_def intro!: log_storage)
qed

lemma started_storage:
  assumes run: "quanta_kernel_main sy im bus hw font cr3 m info p k c w = Some (st, w')" and info: "info \<noteq> 0"
    and there: "bi_storage_physical (boot_info_at m info) \<noteq> 0" "bi_storage_sectors (boot_info_at m info) \<noteq> 0"
  shows "live_base (mach (st_kernel st)) = bi_storage_physical (boot_info_at m info) \<and>
    live_sectors (mach (st_kernel st)) = bi_storage_sectors (boot_info_at m info) \<and>
    live_image (mach (st_kernel st)) = memory_sector m (bi_storage_physical (boot_info_at m info))"
proof -
  obtain d :: display_start and w1 storage w2 where
    s: "quanta_arch_storage_initialize bus m (if info = 0 then None else Some (boot_info_at m info)) (mach k) w1 = (storage, w2)"
    and b: "quanta_task_bootstrap (client_image im) (server_image im) (fault_image im) (k\<lparr>mach := storage, phys := ds_frames d\<rparr>) =
      (st_outcome st, st_kernel st)"
    using kernel_main_run [OF run] by blast
  show ?thesis
    using bootstrap_storage [OF b] s info there
    by (auto simp: quanta_arch_storage_initialize_def same_storage_def Let_def split: prod.splits)
qed

lemma sector_bytes:
  assumes disk: "\<forall>j<length bs. m (base + of_nat j) = bs ! j" and i: "512 * i < length bs" "i < 2 ^ 32"
  shows "take (length bs - 512 * i) (memory_sector m base (of_nat i)) = take 512 (drop (512 * i) bs)"
proof (rule nth_equalityI)
  have u: "ucast (of_nat i :: u32) = (of_nat i :: u64)" using i(2) by (simp add: unsigned_of_nat take_bit_nat_eq_self)
  fix j assume "j < length (take (length bs - 512 * i) (memory_sector m base (of_nat i)))"
  then have j: "j < 512" "512 * i + j < length bs" by (auto simp: memory_sector_def)
  have "base + of_nat i * 512 + of_nat j = base + of_nat (512 * i + j)" by simp
  then have "m (base + of_nat i * 512 + of_nat j) = bs ! (512 * i + j)" using disk j(2) by metis
  then show "take (length bs - 512 * i) (memory_sector m base (of_nat i)) ! j = take 512 (drop (512 * i) bs) ! j"
    using j by (simp add: memory_sector_def u)
qed (auto simp: memory_sector_def)

section \<open>A kernel to start\<close>

definition idle_bus :: "unit bus" where
  "idle_bus = \<lparr>read8 = (\<lambda>_ w. (0, w)), write8 = (\<lambda>_ _ w. w), read16 = (\<lambda>_ w. (0, w)), write16 = (\<lambda>_ _ w. w)\<rparr>"

definition idle_symbols :: symbols where
  "idle_symbols = \<lparr>int80_stub = KERNEL_VMA, timer_stub = KERNEL_VMA, exception_stubs = (\<lambda>_. KERNEL_VMA), tss_place = KERNEL_VMA,
     kernel_stack_end = KERNEL_VMA\<rparr>"

definition idle_images :: user_images where
  "idle_images = \<lparr>client_image = [0xf4], server_image = [0xf4], fault_image = [0xf4]\<rparr>"

definition cold_console :: console where
  "cold_console = \<lparr>screen_of = demo_display\<lparr>framebuffer_mapped := False, scanout_mapped := False\<rparr>, vga = replicate 2000 0,
     vga_x = 0, vga_y = 0\<rparr>"

definition cold_machine :: machine where
  "cold_machine = \<lparr>drives = (\<lambda>_. \<lparr>present = False, sectors = 0, platter = (\<lambda>_. []), read_fault = (\<lambda>_. False), write_fault = (\<lambda>_. None)\<rparr>),
     live_base = 0, live_sectors = 0, live_image = (\<lambda>_. []), disk_count = (\<lambda>_. 0), live_count = 0, markers = []\<rparr>"

definition cold_kernel :: kernel where
  "cold_kernel = \<lparr>mach = cold_machine, boot_mount = initial_mount,
     phys = \<lparr>mem = (\<lambda>_. 0), pool_start = 0, pool_end = 0, next_frame = 0, free_frame_head = 0, allocated_frames = (\<lambda>_. 0)\<rparr>,
     tasks = (\<lambda>_. \<lparr>root = 0, code_pages = [], stack = 0, ip = 0, sp = 0, return_ip = 0, return_flags = 0, code_page_count = 0,
       state = TASK_NEW, endpoint = 0, authenticated = False, capabilities = [], files = []\<rparr>),
     current = 0, user_memory = (\<lambda>_ _. 0), ipc_request = [], ipc_reply = [], ipc_request_payload = [], ipc_reply_payload = [],
     ipc_request_length = 0, ipc_reply_length = 0, ipc_request_pending = False, ipc_request_received = False, events = []\<rparr>"

definition cold_processor :: processor where
  "cold_processor = \<lparr>tss_rsp0 = 0, tss_io_map_base = 0, gdt = [], interrupts = initial_idt, cr4 = 0\<rparr>"

definition cold_start :: "(started \<times> unit) option" where
  "cold_start = quanta_kernel_main idle_symbols idle_images idle_bus demo_adapter (replicate 4096 0) PML4_PHYSICAL (lo_mem demo_boot)
     INFO_ADDRESS cold_processor cold_kernel cold_console ()"

lemma cold_console_off: "console_off cold_console"
  by (simp add: console_off_def cold_console_def demo_display_def)

lemma demo_info:
  "\<exists>n m. boot_info_at (lo_mem demo_boot) INFO_ADDRESS = boot_record demo_mode FORMAT_BGRX8888 0xa00000 3 n \<and>
     lo_mem demo_boot = build_tables PML4_PHYSICAL 0x800000 m"
proof -
  obtain g format m n where run:
    "lo_mem demo_boot = build_tables PML4_PHYSICAL (kernel_area demo_efi (disk_pages [1, 2, 3])) m"
    "reply_graphics (demo_efi [Locate_Graphics]) = Some g" "boot_format g = Some format"
    "boot_info_at (lo_mem demo_boot) INFO_ADDRESS = boot_record g format (disk_area demo_efi (disk_pages [1, 2, 3])) (of_nat (length [1, 2, 3 :: byte])) n"
  proof -
    have "lo_calls demo_loader = []" "length [1, 2, 3 :: byte] < 2 ^ 63" "length demo_image < 2 ^ 64" "firmware_sound demo_efi (lo_calls demo_boot)"
      by (simp_all add: demo_loader_def demo_image_lengths demo_boot_run(2) demo_firmware_sound)
    then show thesis by (rule loader_run [OF demo_boot_run(1)]) (rule that; assumption)
  qed
  have "g = demo_mode" "kernel_area demo_efi (disk_pages [1, 2, 3]) = 0x800000" "disk_area demo_efi (disk_pages [1, 2, 3]) = 0xa00000"
    using run(2) by (simp_all add: demo_efi_def area_defs demo_pages EFI_ALLOCATE_ADDRESS_def EFI_ALLOCATE_ANY_def)
  moreover have "format = FORMAT_BGRX8888"
    using run(3) calculation(1) by (simp add: boot_format_def demo_mode_def FORMAT_BGRX8888_def)
  ultimately show ?thesis using run(1,4) by auto
qed

lemma pool_free:
  assumes "pool_start f = 0x1000000" "pool_end f = 0x2000000" "live f = {}"
  shows "3850 \<le> card (free_frames f)"
proof -
  let ?g = "\<lambda>i. 0x1000000 + of_nat i * 0x1000 :: u64"
  have at: "unat (?g i) = 0x1000000 + i * 0x1000" if "i < 4096" for i
  proof -
    have "?g i = of_nat (0x1000000 + i * 0x1000)" by simp
    then show ?thesis using that by (simp only: unat_of_nat) simp
  qed
  have "inj_on ?g {..<3850}"
  proof (rule inj_onI)
    fix i j :: nat assume "i \<in> {..<3850}" "j \<in> {..<3850}" "?g i = ?g j"
    moreover from this have "0x1000000 + i * 0x1000 = 0x1000000 + j * 0x1000" using at [of i] at [of j] by (simp only: lessThan_iff)
    ultimately show "i = j" by (simp only: add_left_cancel mult_cancel2) simp
  qed
  moreover have "?g ` {..<3850} \<subseteq> free_frames f"
  proof
    fix x assume "x \<in> ?g ` {..<3850}"
    then obtain i where i: "i < 3850" "x = ?g i" by blast
    then have x: "unat x = 0x1000000 + i * 0x1000" using at [of i] by (simp only: less_trans [OF i(1)])
    have "in_pool f x"
      unfolding in_pool_def page_aligned_def word_le_nat_alt word_less_nat_alt x assms using i(1) by simp
    then show "x \<in> free_frames f" by (simp add: free_frames_def assms(3))
  qed
  ultimately show ?thesis using card_inj_on_le [of ?g "{..<3850}" "free_frames f"] by simp
qed

lemma cold_display:
  "\<exists>f d. quanta_memory_initialize (regions_at (lo_mem demo_boot) (bi_memory_map (boot_info_at (lo_mem demo_boot) INFO_ADDRESS))
      (unat (bi_memory_map_entries (boot_info_at (lo_mem demo_boot) INFO_ADDRESS)))) (load64 (lo_mem demo_boot)) = Some f \<and>
    quanta_arch_display_initialize demo_adapter (replicate 4096 0) PML4_PHYSICAL (Some (boot_info_at (lo_mem demo_boot) INFO_ADDRESS))
      \<lparr>ds_console = cold_console, ds_frames = f, ds_pointer = (0, 0)\<rparr> = Some d \<and>
    framebuffer_mapped (screen_of (ds_console d)) \<and> unat (framebuffer_bytes (screen_of (ds_console d))) = 0x300000 \<and>
    \<not> bga_page_flip (screen_of (ds_console d))"
proof -
  obtain n m where b: "boot_info_at (lo_mem demo_boot) INFO_ADDRESS = boot_record demo_mode FORMAT_BGRX8888 0xa00000 3 n"
    and tables: "lo_mem demo_boot = build_tables PML4_PHYSICAL 0x800000 m"
    using demo_info by blast
  note fields = b boot_record_def demo_mode_def
  define f where "f = \<lparr>mem = load64 (lo_mem demo_boot), pool_start = 0x1000000, pool_end = 0x2000000, next_frame = 0x1000000,
    free_frame_head = 0, allocated_frames = (\<lambda>_. 0)\<rparr>"
  note frames = demo_pool [of "load64 (lo_mem demo_boot)", folded f_def]
  have room: "3850 \<le> card (free_frames f)"
    by (rule pool_free) (simp_all add: f_def initialize_inv(2) [OF frames, unfolded f_def])
  have root: "PML4_PHYSICAL AND NOT 0xfff = PML4_PHYSICAL" by (simp add: PML4_PHYSICAL_def)
  have window: "kernel_window (PML4_PHYSICAL AND NOT 0xfff) (PML4_PHYSICAL + 0x1000) None Map.empty f"
    unfolding root by (rule loader_window [OF frames [unfolded tables]])
  have "\<exists>d. quanta_arch_display_initialize demo_adapter (replicate 4096 0) PML4_PHYSICAL (Some (boot_info_at (lo_mem demo_boot) INFO_ADDRESS))
      \<lparr>ds_console = cold_console, ds_frames = f, ds_pointer = (0, 0)\<rparr> = Some d \<and> framebuffer_mapped (screen_of (ds_console d)) \<and>
    \<not> bga_page_flip (screen_of (ds_console d)) \<and>
    unat (framebuffer_bytes (screen_of (ds_console d))) = unat (bi_framebuffer_pitch (boot_info_at (lo_mem demo_boot) INFO_ADDRESS)) *
      unat (bi_framebuffer_height (boot_info_at (lo_mem demo_boot) INFO_ADDRESS))"
    by (rule display_succeeds [where pdpt = "PML4_PHYSICAL + 0x1000"])
      (use window room cold_console_off in \<open>simp_all add: fields display_supported_def display_mismatch_def FORMAT_BGRX8888_def
         FORMAT_BGR888_def FORMAT_RGBX8888_def display_off_def console_off_def cold_console_def demo_display_def\<close>)
  then show ?thesis using frames by (auto simp: fields)
qed

lemma cold_run:
  "\<exists>st w. cold_start = Some (st, w) \<and> framebuffer_mapped (screen_of (ds_console (st_display st))) \<and>
    unat (framebuffer_bytes (screen_of (ds_console (st_display st)))) = 0x300000 \<and> \<not> bga_page_flip (screen_of (ds_console (st_display st)))"
proof -
  let ?m = "lo_mem demo_boot"
  have info: "INFO_ADDRESS \<noteq> 0" by (simp add: INFO_ADDRESS_def)
  obtain f d where run:
    "quanta_memory_initialize (regions_at ?m (bi_memory_map (boot_info_at ?m INFO_ADDRESS))
      (unat (bi_memory_map_entries (boot_info_at ?m INFO_ADDRESS)))) (load64 ?m) = Some f"
    "quanta_arch_display_initialize demo_adapter (replicate 4096 0) PML4_PHYSICAL (Some (boot_info_at ?m INFO_ADDRESS))
      \<lparr>ds_console = cold_console, ds_frames = f, ds_pointer = (0, 0)\<rparr> = Some d"
    and live: "framebuffer_mapped (screen_of (ds_console d))" "unat (framebuffer_bytes (screen_of (ds_console d))) = 0x300000"
      "\<not> bga_page_flip (screen_of (ds_console d))"
    using cold_display by blast
  have "cold_start \<noteq> None" using run info by (simp add: cold_start_def quanta_kernel_main_def Let_def prod.case_eq_if)
  then obtain st w where st: "cold_start = Some (st, w)" by auto
  have "framebuffer_mapped (screen_of (ds_console (st_display st))) \<and>
      same_picture (screen_of (ds_console d)) (screen_of (ds_console (st_display st)))"
    using started_picture [OF st [unfolded cold_start_def] cold_console_off] run info live(1) by (auto simp: screen_sound_def)
  then show ?thesis using st live by (auto simp: same_picture_def)
qed

section \<open>Properties\<close>







end
