(* ===== verification/Userland.thy ===== *)
theory Userland
  imports Kernel_Properties
begin

text \<open>
  The C library of the small user commands, \<^verbatim>\<open>userspace/lib.c\<close>, on the system calls of the kernel.  Pointers are
  addresses in the memory of the calling task.  The instruction in \<^verbatim>\<open>userspace/syscall.S\<close> hands the five arguments
  over in their order, as number, handle, message, payload and length.
\<close>

definition quanta_syscall :: "environment \<Rightarrow> u64 \<Rightarrow> u64 \<Rightarrow> u64 \<Rightarrow> u64 \<Rightarrow> u64 \<Rightarrow> kernel \<Rightarrow> outcome \<times> kernel" where
  "quanta_syscall env number argument input output len k = quanta_task_syscall env number argument input output len 0 0 k"

text \<open>The length of a text, at most that of a buffer.\<close>

definition text_length :: "kernel \<Rightarrow> u64 \<Rightarrow> u64" where
  "text_length k address = of_nat (length (takeWhile (\<lambda>c. c \<noteq> 0) (user_read k address (unat MAX_BUFFER))))"

definition quanta_write :: "environment \<Rightarrow> u64 \<Rightarrow> kernel \<Rightarrow> outcome \<times> kernel" where
  "quanta_write env address k = quanta_syscall env SYSCALL_CONSOLE_WRITE 1 address 0 (text_length k address) k"

definition quanta_exit :: "environment \<Rightarrow> kernel \<Rightarrow> outcome \<times> kernel" where
  "quanta_exit env k = quanta_syscall env SYSCALL_TASK_EXIT 1 0 0 0 k"

definition quanta_open :: "environment \<Rightarrow> u64 \<Rightarrow> u64 \<Rightarrow> u64 \<Rightarrow> kernel \<Rightarrow> outcome \<times> kernel" where
  "quanta_open env path flags handle k = quanta_syscall env SYSCALL_FS_OPEN 1 path handle flags k"

definition quanta_close :: "environment \<Rightarrow> u64 \<Rightarrow> kernel \<Rightarrow> outcome \<times> kernel" where
  "quanta_close env handle k = quanta_syscall env SYSCALL_FS_CLOSE handle 0 0 0 k"

definition quanta_read :: "environment \<Rightarrow> u64 \<Rightarrow> u64 \<Rightarrow> u64 \<Rightarrow> kernel \<Rightarrow> outcome \<times> kernel" where
  "quanta_read env handle buffer len k = quanta_syscall env SYSCALL_FS_READ_HANDLE handle 0 buffer len k"

text \<open>The structure at \<open>stat\<close> has 48 bytes.\<close>

definition quanta_stat :: "environment \<Rightarrow> u64 \<Rightarrow> u64 \<Rightarrow> kernel \<Rightarrow> outcome \<times> kernel" where
  "quanta_stat env path stat k = quanta_syscall env SYSCALL_FS_STAT 1 path stat 48 k"

definition quanta_list :: "environment \<Rightarrow> u64 \<Rightarrow> u64 \<Rightarrow> u64 \<Rightarrow> kernel \<Rightarrow> outcome \<times> kernel" where
  "quanta_list env path output capacity k = quanta_syscall env SYSCALL_FS_LIST 1 path output capacity k"

definition quanta_mkdir :: "environment \<Rightarrow> u64 \<Rightarrow> kernel \<Rightarrow> outcome \<times> kernel" where
  "quanta_mkdir env path k = quanta_syscall env SYSCALL_FS_MKDIR 1 path 0 0 k"

definition quanta_rtc_read :: "environment \<Rightarrow> u64 \<Rightarrow> kernel \<Rightarrow> outcome \<times> kernel" where
  "quanta_rtc_read env stamp k = quanta_syscall env SYSCALL_RTC_READ 1 0 stamp 6 k"

section \<open>Closing and reading\<close>

lemma no_handle: "file_for_handle task 0 = None"
  by (simp add: file_for_handle_def)

text \<open>The library passes the handle of the file where the kernel expects the capability, and zero for the file: nothing is ever
  closed, and nothing is ever read, whatever the handle.\<close>

lemma library_close_fails: "\<exists>m. quanta_close env handle k = (Return STATUS_INVALID, k\<lparr>boot_mount := m\<rparr>)"
  by (auto simp: quanta_close_def quanta_syscall_def quanta_task_syscall_def dispatch_def enter_call_def
      namespace_call_def sys_fs_close_def no_handle MAX_BUFFER_def Let_def)

lemma library_read_fails:
  "\<exists>m. quanta_read env handle address len k = (Return (if len > MAX_BUFFER then STATUS_LIMIT else STATUS_INVALID), k\<lparr>boot_mount := m\<rparr>)"
  by (auto simp: quanta_read_def quanta_syscall_def quanta_task_syscall_def dispatch_def enter_call_def
      namespace_call_def sys_fs_read_handle_def no_handle Let_def)

section \<open>Paths of the commands\<close>

text \<open>The commands \<^verbatim>\<open>cat\<close> and \<^verbatim>\<open>mkdir\<close> pass paths that start with a slash, and the kernel demands the name of the drive there: no
  open and no creation under such a path succeeds.\<close>

lemma rooted_path_refused: "cat path 0 = 47 \<Longrightarrow> \<not> filesystem_path_valid m path"
  by (auto simp: filesystem_path_valid_def str_def Let_def upt_rec split: option.split)

lemma path_kept: "path_at (k\<lparr>boot_mount := m\<rparr>) a = path_at k a"
  by (simp add: path_at_def user_read_def)

lemma rooted_open_fails:
  assumes "cat (path_at k path) 0 = 47"
  shows "\<exists>m. quanta_open env path flags handle k = (Return (if flags > MAX_BUFFER then STATUS_LIMIT else STATUS_INVALID), k\<lparr>boot_mount := m\<rparr>)"
  using assms by (auto simp: quanta_open_def quanta_syscall_def quanta_task_syscall_def dispatch_def enter_call_def
      namespace_call_def sys_fs_open_def rooted_path_refused path_kept Let_def)

lemma rooted_mkdir_fails:
  assumes "cat (path_at k path) 0 = 47"
  shows "\<exists>m r. quanta_mkdir env path k = (Return r, k\<lparr>boot_mount := m\<rparr>) \<and> r \<in> {STATUS_DENIED, STATUS_INVALID}"
  using assms by (auto simp: quanta_mkdir_def quanta_syscall_def quanta_task_syscall_def dispatch_def enter_call_def
      namespace_call_def sys_fs_mkdir_def rooted_path_refused path_kept MAX_BUFFER_def Let_def)

end
